(* ===== verification/Prelude.thy ===== *)
theory Prelude
  imports Main "HOL-Library.Char_ord" "HOL-Library.List_Lexorder" "HOL-Library.AList"
    "HOL-Library.Code_Target_Nat"
begin

text \<open>
  Shared vocabulary of the development.

  \<^item> Go values: a Go \<^verbatim>\<open>string\<close> or \<^verbatim>\<open>[]byte\<close> is a \<open>string\<close>
    (a list of \<open>char\<close>, one per byte); \<^verbatim>\<open>int\<close> and \<^verbatim>\<open>int64\<close> values
    are \<open>int\<close>, with the 64-bit bounds \<open>max_int64\<close> and \<open>min_int64\<close> and the wrap-around
    \<open>wrap64\<close> written out where the code depends on them; a Go \<^verbatim>\<open>map\<close> is an
    association list with distinct keys (\<open>gmap\<close>).
  \<^item> Fallible code returns \<open>'e + 'a\<close> (\<open>Inl\<close> is the error); \<open>rbind\<close> is the
    \<^verbatim>\<open>if err != nil { return err }\<close> of the source.
  \<^item> The parts of the Go standard library the sources call on bytes: UTF-8 decoding, encoding
    and validity (\<^verbatim>\<open>unicode/utf8\<close>), control characters (\<^verbatim>\<open>unicode.IsControl\<close>),
    big-endian 64-bit integers (\<^verbatim>\<open>encoding/binary\<close>).
\<close>

named_theorems result_simps \<open>inversion of error-propagating code\<close>
named_theorems go_map_simps \<open>lookup and update of Go maps\<close>

section \<open>Results and error propagation\<close>

definition rbind :: "'e + 'a \<Rightarrow> ('a \<Rightarrow> 'e + 'b) \<Rightarrow> 'e + 'b" where
  "rbind r f = (case r of Inl e \<Rightarrow> Inl e | Inr x \<Rightarrow> f x)"

lemma rbind_Inl [simp]: "rbind (Inl e) f = Inl e"
  by (simp add: rbind_def)

lemma rbind_Inr [simp]: "rbind (Inr x) f = f x"
  by (simp add: rbind_def)

lemma rbind_eq_Inr_iff [result_simps]: "rbind r f = Inr y \<longleftrightarrow> (\<exists>x. r = Inr x \<and> f x = Inr y)"
  by (cases r) auto

lemma rbind_eq_Inl_iff [result_simps]:
  "rbind r f = Inl e \<longleftrightarrow> r = Inl e \<or> (\<exists>x. r = Inr x \<and> f x = Inl e)"
  by (cases r) auto

lemma case_sum_eq_Inr_iff [result_simps]:
  "(case r of Inl e \<Rightarrow> Inl (f e) | Inr x \<Rightarrow> g x) = Inr y \<longleftrightarrow> (\<exists>x. r = Inr x \<and> g x = Inr y)"
  by (cases r) auto

lemma rbind_cong [fundef_cong]:
  "r = r' \<Longrightarrow> (\<And>x. r' = Inr x \<Longrightarrow> f x = g x) \<Longrightarrow> rbind r f = rbind r' g"
  by (cases r') auto

text \<open>Two computations of which the second accepts whatever the first accepts.\<close>

lemma rbind_mono:
  "rbind r f = Inr y \<Longrightarrow> (\<And>x. r = Inr x \<Longrightarrow> r' = Inr x) \<Longrightarrow> (\<And>x. f x = Inr y \<Longrightarrow> g x = Inr y)
    \<Longrightarrow> rbind r' g = Inr y"
  by (auto simp: rbind_eq_Inr_iff)

lemma if_mono:
  "(if b then x else y) = Inr v \<Longrightarrow> (x = Inr v \<Longrightarrow> x' = Inr v) \<Longrightarrow> (y = Inr v \<Longrightarrow> y' = Inr v)
    \<Longrightarrow> (if b then x' else y') = Inr v"
  by (simp split: if_splits)

text \<open>A check that returns an error or goes on.\<close>

definition guard :: "bool \<Rightarrow> 'e \<Rightarrow> 'e + unit" where
  "guard b e = (if b then Inr () else Inl e)"

lemma guard_True [simp]: "guard True e = Inr ()" and guard_False [simp]: "guard False e = Inl e"
  by (simp_all add: guard_def)

lemma guard_eq_Inr_iff [simp]: "guard b e = Inr u \<longleftrightarrow> b"
  by (simp add: guard_def)

lemma guard_eq_Inl_iff [simp]: "guard b e = Inl e' \<longleftrightarrow> \<not> b \<and> e' = e"
  by (auto simp: guard_def)

text \<open>A loop over a list whose body may fail: the first error stops it.\<close>

fun rfold :: "('s \<Rightarrow> 'a \<Rightarrow> 'e + 's) \<Rightarrow> 's \<Rightarrow> 'a list \<Rightarrow> 'e + 's" where
  "rfold f s [] = Inr s"
| "rfold f s (x # xs) = rbind (f s x) (\<lambda>s'. rfold f s' xs)"

lemma rfold_cong [fundef_cong]:
  "xs = ys \<Longrightarrow> s = t \<Longrightarrow> (\<And>s x. x \<in> set ys \<Longrightarrow> f s x = g s x) \<Longrightarrow> rfold f s xs = rfold g t ys"
proof (induction xs arbitrary: s t ys)
  case (Cons x xs)
  then show ?case by (auto intro!: rbind_cong)
qed auto

lemma rfold_append: "rfold f s (xs @ ys) = rbind (rfold f s xs) (\<lambda>s'. rfold f s' ys)"
  by (induction xs arbitrary: s) (auto simp: rbind_def split: sum.splits)

lemma rfold_invariant:
  assumes "I s" and "rfold f s xs = Inr s'"
    and step: "\<And>s x s'. I s \<Longrightarrow> x \<in> set xs \<Longrightarrow> f s x = Inr s' \<Longrightarrow> I s'"
  shows "I s'"
proof -
  have "set ys \<subseteq> set xs \<Longrightarrow> I t \<Longrightarrow> rfold f t ys = Inr s' \<Longrightarrow> I s'" for t ys
    by (induction ys arbitrary: t) (auto simp: rbind_eq_Inr_iff intro: step)
  with assms(1,2) show ?thesis by blast
qed

text \<open>A loop that maps a fallible function over a list.\<close>

fun rmap :: "('a \<Rightarrow> 'e + 'b) \<Rightarrow> 'a list \<Rightarrow> 'e + 'b list" where
  "rmap f [] = Inr []"
| "rmap f (x # xs) = rbind (f x) (\<lambda>y. rbind (rmap f xs) (\<lambda>ys. Inr (y # ys)))"

lemma rmap_cong [fundef_cong]:
  "xs = ys \<Longrightarrow> (\<And>x. x \<in> set ys \<Longrightarrow> f x = g x) \<Longrightarrow> rmap f xs = rmap g ys"
  by (induction xs arbitrary: ys) auto

lemma rmap_eq_Inr_iff: "rmap f xs = Inr ys \<longleftrightarrow> list_all2 (\<lambda>x y. f x = Inr y) xs ys"
  by (induction xs arbitrary: ys) (auto simp: result_simps list_all2_Cons1)

section \<open>64-bit integers\<close>

definition max_int64 :: int where "max_int64 = 2 ^ 63 - 1"
definition min_int64 :: int where "min_int64 = - (2 ^ 63)"
definition max_uint64 :: nat where "max_uint64 = 2 ^ 64 - 1"

lemma max_int64_code [code]: "max_int64 = 9223372036854775807"
  by (simp add: max_int64_def)

definition in_int64 :: "int \<Rightarrow> bool" where
  "in_int64 x \<longleftrightarrow> min_int64 \<le> x \<and> x \<le> max_int64"

text \<open>Two's complement wrap-around of a 64-bit signed result.\<close>

definition wrap64 :: "int \<Rightarrow> int" where
  "wrap64 x = (x + 2 ^ 63) mod 2 ^ 64 - 2 ^ 63"

lemma wrap64_id: "in_int64 x \<Longrightarrow> wrap64 x = x"
  by (simp add: wrap64_def in_int64_def min_int64_def max_int64_def)

text \<open>Go's integer division truncates towards zero.\<close>

definition go_div :: "int \<Rightarrow> int \<Rightarrow> int" where
  "go_div a b = sgn a * sgn b * (\<bar>a\<bar> div \<bar>b\<bar>)"

lemma go_div_nonneg: "0 \<le> a \<Longrightarrow> 0 \<le> b \<Longrightarrow> go_div a b = a div b"
  by (cases "a = 0"; cases "b = 0") (auto simp: go_div_def)

lemma int_le_div_iff: "0 < b \<Longrightarrow> a \<le> m div b \<longleftrightarrow> a * b \<le> (m::int)"
proof
  assume b: "0 < b" and "a \<le> m div b"
  then have "a * b \<le> m div b * b" by simp
  also have "\<dots> \<le> m" using b div_mult_mod_eq [of m b] pos_mod_sign [of b m] by linarith
  finally show "a * b \<le> m" .
next
  assume "0 < b" and "a * b \<le> m"
  then show "a \<le> m div b" using zdiv_mono1 [of "a * b" m b] by simp
qed

section \<open>Go maps\<close>

type_synonym ('k, 'v) gmap = "('k \<times> 'v) list"

definition wf_gmap :: "('k, 'v) gmap \<Rightarrow> bool" where
  "wf_gmap m \<longleftrightarrow> distinct (map fst m)"

definition gput :: "'k \<Rightarrow> 'v \<Rightarrow> ('k, 'v) gmap \<Rightarrow> ('k, 'v) gmap" where
  "gput k v m = AList.update k v m"

definition gdel :: "'k \<Rightarrow> ('k, 'v) gmap \<Rightarrow> ('k, 'v) gmap" where
  "gdel k m = AList.delete k m"

lemma map_of_gput [go_map_simps, simp]: "map_of (gput k v m) = (map_of m)(k \<mapsto> v)"
  by (simp add: gput_def update_conv')

lemma map_of_gdel [go_map_simps, simp]: "map_of (gdel k m) = (map_of m)(k := None)"
  by (simp add: gdel_def delete_conv')

lemma wf_gmap_Nil [simp]: "wf_gmap []"
  by (simp add: wf_gmap_def)

lemma wf_gmap_gput [go_map_simps, simp]: "wf_gmap m \<Longrightarrow> wf_gmap (gput k v m)"
  by (simp add: wf_gmap_def gput_def distinct_update)

lemma wf_gmap_gdel [go_map_simps, simp]: "wf_gmap m \<Longrightarrow> wf_gmap (gdel k m)"
  by (simp add: wf_gmap_def gdel_def distinct_delete)

lemma keys_gput [go_map_simps]: "fst ` set (gput k v m) = insert k (fst ` set m)"
  by (auto simp: gput_def dom_update)

lemma length_gput_new: "map_of m k = None \<Longrightarrow> length (gput k v m) = Suc (length m)"
  by (induction m) (auto simp: gput_def split: if_splits)

lemma length_gput_old: "map_of m k = Some w \<Longrightarrow> length (gput k v m) = length m"
  by (induction m) (auto simp: gput_def split: if_splits)

lemma wf_gmap_map_of: "wf_gmap m \<Longrightarrow> (k, v) \<in> set m \<longleftrightarrow> map_of m k = Some v"
  by (simp add: wf_gmap_def)

end
