(* ===== verification/Utf8.thy ===== *)
theory Utf8
  imports Prelude
begin

text \<open>
  The functions of Go's \<^verbatim>\<open>unicode/utf8\<close>, \<^verbatim>\<open>unicode\<close> and
  \<^verbatim>\<open>unicode/utf16\<close> packages that the sources call, on byte strings:
  \<^verbatim>\<open>DecodeRune\<close>, \<^verbatim>\<open>EncodeRune\<close>, \<^verbatim>\<open>ValidString\<close>,
  \<^verbatim>\<open>RuneCountInString\<close>, \<^verbatim>\<open>IsControl\<close>, \<^verbatim>\<open>utf16.DecodeRune\<close>. A rune
  is a \<open>nat\<close>. The lemmas say that decoding depends only on the bytes it consumes, that an encoded
  scalar decodes to itself, and how validity distributes over concatenation.
\<close>

abbreviation byte :: "char \<Rightarrow> nat" where "byte c \<equiv> of_char c"

definition RuneError :: nat where "RuneError = 0xFFFD"

definition in_range :: "nat \<Rightarrow> nat \<Rightarrow> char \<Rightarrow> bool" where
  "in_range lo hi c \<longleftrightarrow> lo \<le> byte c \<and> byte c \<le> hi"

abbreviation cont :: "char \<Rightarrow> bool" where "cont \<equiv> in_range 0x80 0xBF"

text \<open>The tables of the decoder: the length a lead byte announces (0 for none), the range of the
  second byte, and the payload bits of the lead byte.\<close>

definition seq_len :: "nat \<Rightarrow> nat" where
  "seq_len x = (if 0xC2 \<le> x \<and> x \<le> 0xDF then 2 else if 0xE0 \<le> x \<and> x \<le> 0xEF then 3
     else if 0xF0 \<le> x \<and> x \<le> 0xF4 then 4 else 0)"

definition second_lo :: "nat \<Rightarrow> nat" where
  "second_lo x = (if x = 0xE0 then 0xA0 else if x = 0xF0 then 0x90 else 0x80)"

definition second_hi :: "nat \<Rightarrow> nat" where
  "second_hi x = (if x = 0xED then 0x9F else if x = 0xF4 then 0x8F else 0xBF)"

definition lead_bits :: "nat \<Rightarrow> nat" where
  "lead_bits x = (if x < 0xE0 then x - 0xC0 else if x < 0xF0 then x - 0xE0 else x - 0xF0)"

definition tail_ok :: "nat \<Rightarrow> string \<Rightarrow> bool" where
  "tail_ok x cs \<longleftrightarrow> cs \<noteq> [] \<and> Suc (length cs) = seq_len x
     \<and> in_range (second_lo x) (second_hi x) (hd cs) \<and> list_all cont (tl cs)"

definition tail_value :: "nat \<Rightarrow> string \<Rightarrow> nat" where
  "tail_value v cs = foldl (\<lambda>v c. v * 64 + (byte c - 0x80)) v cs"

text \<open>\<^verbatim>\<open>utf8.DecodeRune\<close>: the first rune and its width; \<open>(RuneError, 1)\<close> on an invalid
  sequence and \<open>(RuneError, 0)\<close> on the empty string.\<close>

fun decode_rune :: "string \<Rightarrow> nat \<times> nat" where
  "decode_rune [] = (RuneError, 0)"
| "decode_rune (a # s) = (let x = byte a; cs = take (seq_len x - 1) s in
     if x < 0x80 then (x, 1)
     else if tail_ok x cs then (tail_value (lead_bits x) cs, seq_len x)
     else (RuneError, 1))"

lemma seq_len_cases: "seq_len x \<in> {0, 2, 3, 4}"
  by (simp add: seq_len_def)

lemma tail_ok_len: "tail_ok x cs \<Longrightarrow> 2 \<le> seq_len x"
  by (cases cs) (auto simp: tail_ok_def)

lemma tail_ok_cont: "tail_ok x cs \<Longrightarrow> c \<in> set cs \<Longrightarrow> cont c"
  by (cases cs)
    (auto simp: tail_ok_def in_range_def second_lo_def second_hi_def list_all_iff split: if_splits)

lemma decode_rune_width_pos: "s \<noteq> [] \<Longrightarrow> 0 < snd (decode_rune s)"
  by (cases s) (auto simp: Let_def dest: tail_ok_len)

lemma decode_rune_width_le: "snd (decode_rune s) \<le> length s"
  by (cases s) (auto simp: Let_def tail_ok_def)

definition rune_ok :: "string \<Rightarrow> bool" where
  "rune_ok s \<longleftrightarrow> decode_rune s \<noteq> (RuneError, 1)"

text \<open>\<^verbatim>\<open>utf8.ValidString\<close> and \<^verbatim>\<open>utf8.RuneCountInString\<close>.\<close>

function utf8_valid :: "string \<Rightarrow> bool" where
  "utf8_valid s = (if s = [] then True
     else rune_ok s \<and> utf8_valid (drop (snd (decode_rune s)) s))"
  by pat_completeness auto
termination
  by (relation "measure length") (auto simp: decode_rune_width_pos)

function runes :: "string \<Rightarrow> nat list" where
  "runes s = (if s = [] then [] else fst (decode_rune s) # runes (drop (snd (decode_rune s)) s))"
  by pat_completeness auto
termination
  by (relation "measure length") (auto simp: decode_rune_width_pos)

declare utf8_valid.simps [simp del] runes.simps [simp del]

definition rune_count :: "string \<Rightarrow> int" where
  "rune_count s = int (length (runes s))"

text \<open>\<^verbatim>\<open>unicode.IsControl\<close> (category Cc), and the loop of the sources over the runes of
  a string.\<close>

definition is_control :: "nat \<Rightarrow> bool" where
  "is_control r \<longleftrightarrow> r < 0x20 \<or> (0x7F \<le> r \<and> r < 0xA0)"

definition has_control :: "string \<Rightarrow> bool" where
  "has_control s \<longleftrightarrow> list_ex is_control (runes s)"

text \<open>\<^verbatim>\<open>utf8.EncodeRune\<close>; a surrogate or a value above the maximum encodes as
  \<open>RuneError\<close>.\<close>

definition scalar :: "nat \<Rightarrow> bool" where
  "scalar r \<longleftrightarrow> r \<le> 0x10FFFF \<and> \<not> (0xD800 \<le> r \<and> r \<le> 0xDFFF)"

definition encode_scalar :: "nat \<Rightarrow> string" where
  "encode_scalar r =
     (if r < 0x80 then [char_of r]
      else if r < 0x800 then [char_of (0xC0 + r div 64), char_of (0x80 + r mod 64)]
      else if r < 0x10000 then
        [char_of (0xE0 + r div 4096), char_of (0x80 + r div 64 mod 64), char_of (0x80 + r mod 64)]
      else
        [char_of (0xF0 + r div 262144), char_of (0x80 + r div 4096 mod 64),
         char_of (0x80 + r div 64 mod 64), char_of (0x80 + r mod 64)])"

definition encode_rune :: "nat \<Rightarrow> string" where
  "encode_rune r = encode_scalar (if scalar r then r else RuneError)"

text \<open>\<^verbatim>\<open>utf16.DecodeRune\<close>.\<close>

definition utf16_decode :: "nat \<Rightarrow> nat \<Rightarrow> nat" where
  "utf16_decode r1 r2 =
     (if 0xD800 \<le> r1 \<and> r1 < 0xDC00 \<and> 0xDC00 \<le> r2 \<and> r2 < 0xE000
      then (r1 - 0xD800) * 1024 + (r2 - 0xDC00) + 0x10000 else RuneError)"

section \<open>Decoding depends on the bytes it consumes\<close>

lemma rune_ok_Cons:
  "rune_ok (a # s) \<longleftrightarrow> byte a < 0x80 \<or> tail_ok (byte a) (take (seq_len (byte a) - 1) s)"
  by (auto simp: rune_ok_def RuneError_def Let_def dest: tail_ok_len)

lemma tail_ok_take: "tail_ok x (take (seq_len x - 1) s) \<Longrightarrow> seq_len x - 1 \<le> length s"
  by (auto simp: tail_ok_def)

lemma decode_rune_extend:
  assumes "rune_ok s" "s \<noteq> []"
  shows "decode_rune (s @ t) = decode_rune s"
proof -
  from assms(2) obtain a r where s: "s = a # r" by (cases s) auto
  show ?thesis
  proof (cases "byte a < 0x80")
    case False
    with assms(1) s have "tail_ok (byte a) (take (seq_len (byte a) - 1) r)"
      by (simp add: rune_ok_Cons)
    then have "seq_len (byte a) - 1 \<le> length r" by (rule tail_ok_take)
    then show ?thesis by (simp add: s)
  qed (simp add: s)
qed

lemma decode_rune_take:
  assumes "rune_ok s" "s \<noteq> []"
  shows "decode_rune (take (snd (decode_rune s)) s) = decode_rune s"
proof -
  from assms(2) obtain a r where s: "s = a # r" by (cases s) auto
  show ?thesis
  proof (cases "byte a < 0x80")
    case False
    with assms(1) s have t: "tail_ok (byte a) (take (seq_len (byte a) - 1) r)"
      by (simp add: rune_ok_Cons)
    then have "2 \<le> seq_len (byte a)" by (rule tail_ok_len)
    then have "take (seq_len (byte a)) (a # r) = a # take (seq_len (byte a) - 1) r"
      by (cases "seq_len (byte a)") auto
    with t False show ?thesis by (simp add: s Let_def)
  qed (simp add: s)
qed

lemma rune_bytes_high:
  assumes "rune_ok s" "s \<noteq> []" "0x80 \<le> byte (hd s)" "c \<in> set (take (snd (decode_rune s)) s)"
  shows "0x80 \<le> byte c"
proof -
  from assms(2) obtain a r where s: "s = a # r" by (cases s) auto
  with assms(1,3) have t: "tail_ok (byte a) (take (seq_len (byte a) - 1) r)"
    by (simp add: rune_ok_Cons)
  then have "2 \<le> seq_len (byte a)" by (rule tail_ok_len)
  then have "take (seq_len (byte a)) (a # r) = a # take (seq_len (byte a) - 1) r"
    by (cases "seq_len (byte a)") auto
  with assms(3,4) s t have "c = a \<or> c \<in> set (take (seq_len (byte a) - 1) r)"
    by (simp add: Let_def)
  then show ?thesis using tail_ok_cont [OF t] assms(3) s by (auto simp: in_range_def)
qed

lemma utf8_valid_Nil [simp]: "utf8_valid []"
  by (simp add: utf8_valid.simps)

lemma utf8_valid_step:
  "s \<noteq> [] \<Longrightarrow> utf8_valid s \<longleftrightarrow> rune_ok s \<and> utf8_valid (drop (snd (decode_rune s)) s)"
  by (subst utf8_valid.simps) simp

lemma utf8_valid_prefix:
  "rune_ok s \<Longrightarrow> s \<noteq> [] \<Longrightarrow> utf8_valid (take (snd (decode_rune s)) s @ t) = utf8_valid t"
proof -
  assume ok: "rune_ok s" and ne: "s \<noteq> []"
  let ?n = "snd (decode_rune s)" and ?p = "take (snd (decode_rune s)) s"
  have pos: "0 < ?n" using ne by (rule decode_rune_width_pos)
  have le: "?n \<le> length s" by (rule decode_rune_width_le)
  have p: "?p \<noteq> []" using pos ne by simp
  have dp: "decode_rune ?p = decode_rune s" using ok ne by (rule decode_rune_take)
  have okp: "rune_ok ?p" using ok dp by (simp add: rune_ok_def)
  have d: "decode_rune (?p @ t) = decode_rune s"
    using decode_rune_extend [OF okp p, of t] dp by simp
  have "rune_ok (?p @ t)" using ok d by (simp add: rune_ok_def)
  then show "utf8_valid (?p @ t) = utf8_valid t"
    using p le by (simp add: utf8_valid_step d)
qed

lemma utf8_valid_append: "utf8_valid s \<Longrightarrow> utf8_valid (s @ t) = utf8_valid t"
proof (induction s rule: utf8_valid.induct)
  case (1 s)
  show ?case
  proof (cases "s = []")
    case False
    let ?n = "snd (decode_rune s)"
    from False 1(2) have ok: "rune_ok s" and v: "utf8_valid (drop ?n s)"
      by (simp_all add: utf8_valid_step)
    have "utf8_valid (s @ t) = utf8_valid (take ?n s @ (drop ?n s @ t))"
      by (simp add: append_assoc [symmetric] del: append_assoc)
    also have "\<dots> = utf8_valid (drop ?n s @ t)" using ok False by (rule utf8_valid_prefix)
    also have "\<dots> = utf8_valid t" using 1(1) [OF False v] .
    finally show ?thesis .
  qed simp
qed

lemma utf8_valid_ascii [simp]: "byte c < 0x80 \<Longrightarrow> utf8_valid (c # s) = utf8_valid s"
  by (simp add: utf8_valid_step rune_ok_def RuneError_def)

lemma utf8_valid_code [code]:
  "utf8_valid [] = True"
  "utf8_valid (c # s) = (if byte c < 0x80 then utf8_valid s
     else if rune_ok (c # s) then utf8_valid (drop (snd (decode_rune (c # s))) (c # s)) else False)"
  by (simp, cases "byte c < 0x80") (auto simp: utf8_valid_step [of "c # s"] simp del: decode_rune.simps)

section \<open>Encoding\<close>

lemma byte_char_of [simp]: "n < 256 \<Longrightarrow> byte (char_of n) = n"
  by simp

lemma digits64_3: "r div 4096 * 4096 + r div 64 mod 64 * 64 + r mod 64 = (r::nat)"
proof -
  have "r div 4096 = r div 64 div 64" by (simp add: div_mult2_eq [symmetric])
  then have "r div 4096 * 4096 + r div 64 mod 64 * 64 = r div 64 * 64"
    using div_mult_mod_eq [of "r div 64" 64] by linarith
  then show ?thesis by simp
qed

lemma digits64_4:
  "r div 262144 * 262144 + r div 4096 mod 64 * 4096 + r div 64 mod 64 * 64 + r mod 64 = (r::nat)"
proof -
  have "r div 262144 = r div 4096 div 64" by (simp add: div_mult2_eq [symmetric])
  then have "r div 262144 * 262144 + r div 4096 mod 64 * 4096 = r div 4096 * 4096"
    using div_mult_mod_eq [of "r div 4096" 64] by linarith
  then show ?thesis using digits64_3 [of r] by linarith
qed

text \<open>A lead byte with its payload and \<open>n\<close> continuation bytes decodes to the number they spell.\<close>

lemma decode_lead:
  assumes "byte a = x" "0x80 \<le> x" "tail_ok x cs" "tail_value (lead_bits x) cs = r"
  shows "decode_rune (a # cs @ t) = (r, Suc (length cs))"
proof -
  have "seq_len x - 1 = length cs" "seq_len x = Suc (length cs)" using assms(3) by (auto simp: tail_ok_def)
  with assms show ?thesis by (simp add: Let_def)
qed

lemma decode_encode_2:
  assumes "0x80 \<le> r" "r < 0x800"
  shows "decode_rune (encode_scalar r @ t) = (r, length (encode_scalar r))"
proof -
  have q: "2 \<le> r div 64" "r div 64 < 32" using assms by auto
  have m: "r mod 64 < 64" by simp
  have "decode_rune (char_of (0xC0 + r div 64) # [char_of (0x80 + r mod 64)] @ t)
      = (r, Suc (length [char_of (0x80 + r mod 64) :: char]))"
    using q m by (intro decode_lead [where x = "0xC0 + r div 64"])
      (auto simp: tail_ok_def seq_len_def second_lo_def second_hi_def in_range_def lead_bits_def
        tail_value_def)
  with assms show ?thesis by (simp add: encode_scalar_def)
qed

lemma decode_encode_3:
  assumes "0x800 \<le> r" "r < 0x10000" "\<not> (0xD800 \<le> r \<and> r \<le> 0xDFFF)"
  shows "decode_rune (encode_scalar r @ t) = (r, length (encode_scalar r))"
proof -
  let ?x = "0xE0 + r div 4096" and ?m = "r div 64 mod 64" and ?l = "r mod 64"
  let ?cs = "[char_of (0x80 + ?m), char_of (0x80 + ?l)] :: string"
  have hi: "r div 4096 < 16" using assms(2) by auto
  have q: "r div 64 = r div 4096 * 64 + ?m"
    using div_mult_mod_eq [of "r div 64" 64] by (simp add: div_mult2_eq [symmetric])
  have m: "?m < 64" "?l < 64" by simp_all
  have lo: "r div 4096 = 0 \<Longrightarrow> 0x20 \<le> ?m" using assms(1) q by linarith
  have sur: "r div 4096 = 13 \<Longrightarrow> ?m < 0x20" using assms(3) q by linarith
  have t: "tail_ok ?x ?cs"
    using hi lo sur m
    by (auto simp: tail_ok_def seq_len_def second_lo_def second_hi_def in_range_def)
  have v: "tail_value (lead_bits ?x) ?cs = r"
    using digits64_3 [of r] m hi by (simp add: tail_value_def lead_bits_def algebra_simps)
  have "decode_rune (char_of ?x # ?cs @ t) = (r, Suc (length ?cs))"
    using hi t v by (intro decode_lead [where x = ?x]) auto
  with assms(1,2) show ?thesis by (simp add: encode_scalar_def)
qed

lemma decode_encode_4:
  assumes "0x10000 \<le> r" "r \<le> 0x10FFFF"
  shows "decode_rune (encode_scalar r @ t) = (r, length (encode_scalar r))"
proof -
  let ?x = "0xF0 + r div 262144" and ?k = "r div 4096 mod 64" and ?m = "r div 64 mod 64"
    and ?l = "r mod 64"
  let ?cs = "[char_of (0x80 + ?k), char_of (0x80 + ?m), char_of (0x80 + ?l)] :: string"
  have hi: "r div 262144 < 5" using assms(2) by auto
  have q: "r div 4096 = r div 262144 * 64 + ?k"
    using div_mult_mod_eq [of "r div 4096" 64] by (simp add: div_mult2_eq [symmetric])
  have m: "?k < 64" "?m < 64" "?l < 64" by simp_all
  have lo: "r div 262144 = 0 \<Longrightarrow> 0x10 \<le> ?k" using assms(1) q by linarith
  have top: "r div 262144 = 4 \<Longrightarrow> ?k < 0x10" using assms(2) q by linarith
  have t: "tail_ok ?x ?cs"
    using hi lo top m
    by (auto simp: tail_ok_def seq_len_def second_lo_def second_hi_def in_range_def)
  have v: "tail_value (lead_bits ?x) ?cs = r"
    using digits64_4 [of r] m hi by (simp add: tail_value_def lead_bits_def algebra_simps)
  have "decode_rune (char_of ?x # ?cs @ t) = (r, Suc (length ?cs))"
    using hi t v by (intro decode_lead [where x = ?x]) auto
  with assms show ?thesis by (simp add: encode_scalar_def)
qed

lemma decode_encode_scalar:
  assumes "scalar r"
  shows "decode_rune (encode_scalar r @ t) = (r, length (encode_scalar r))"
proof -
  consider "r < 0x80" | "0x80 \<le> r \<and> r < 0x800" | "0x800 \<le> r \<and> r < 0x10000"
    | "0x10000 \<le> r \<and> r \<le> 0x10FFFF"
    using assms unfolding scalar_def by linarith
  then show ?thesis
  proof cases
    case 1 then show ?thesis by (simp add: encode_scalar_def)
  next
    case 2 then show ?thesis by (simp add: decode_encode_2)
  next
    case 3 then show ?thesis using assms by (intro decode_encode_3) (auto simp: scalar_def)
  next
    case 4 then show ?thesis by (simp add: decode_encode_4)
  qed
qed

lemma utf8_valid_encode: "utf8_valid (encode_rune r)"
proof -
  let ?q = "if scalar r then r else RuneError"
  have "scalar ?q" by (simp add: scalar_def RuneError_def)
  then have d: "decode_rune (encode_scalar ?q) = (?q, length (encode_scalar ?q))"
    using decode_encode_scalar [of ?q "[]"] by simp
  have "encode_scalar ?q \<noteq> []" by (simp add: encode_scalar_def)
  moreover have "?q = RuneError \<Longrightarrow> length (encode_scalar ?q) \<noteq> 1"
    by (simp add: encode_scalar_def RuneError_def)
  ultimately show ?thesis
    using d by (auto simp: encode_rune_def utf8_valid_step rune_ok_def)
qed

end
