(* ===== verification/Json_Value.thy ===== *)
theory Json_Value
  imports Utf8
begin

text \<open>
  The strict JSON parser and the canonical printer of \<^verbatim>\<open>src/internal/jsonvalue\<close>
  (\<^verbatim>\<open>parse.go\<close>, \<^verbatim>\<open>canon.go\<close>, \<^verbatim>\<open>jsonvalue.go\<close>, \<^verbatim>\<open>as.go\<close>).

  The Go parser keeps the source and a cursor \<^verbatim>\<open>p.i\<close>; \<open>p_rest\<close> is the unread suffix
  \<^verbatim>\<open>p.src[p.i:]\<close>, so advancing the cursor is dropping bytes. The recursion of
  \<^verbatim>\<open>parseValue\<close> takes fuel; \<^verbatim>\<open>Parse\<close> starts it with \<open>2 * length raw + 1\<close> and
  \<open>parse_never_out_of_fuel\<close> shows that this always suffices (every round reads a byte).

  A Go \<^verbatim>\<open>Value\<close> is a tagged struct; it is the datatype \<open>value\<close>, whose constructor
  \<open>VInvalid\<close> stands for a \<^verbatim>\<open>Kind\<close> outside the six declared ones (such as the zero
  \<^verbatim>\<open>Value{}\<close>).
\<close>

section \<open>Data\<close>

record limits =
  MaxDepth :: int
  MaxNodes :: int
  MaxNumberBytes :: int
  MaxExponent :: int
  MaxScale :: int

datatype "value" =
    VNull
  | VBool bool
  | VNumber string
  | VString string
  | VArray "value list"
  | VObject "(string \<times> value) list"
  | VInvalid

datatype json_error =
    EmptyValue | TrailingValue | ObjectRequired | UnexpectedEnd | InvalidValue
  | NodeBudget | DepthBudget | InvalidLiteral | UnterminatedArray | InvalidArray
  | KeyNotString | DuplicateKey | ExpectedColon | UnterminatedObject | InvalidObject
  | ExpectedString | UnterminatedEscape | ControlInString | InvalidUtf8 | UnterminatedString
  | InvalidEscape | UnpairedSurrogate | InvalidHex | InvalidNumber | ExponentBudget
  | LexemeBudget | ScaleBudget | EmptyNumber | UnknownKind | OutOfFuel

record parser =
  p_rest :: string
  p_depth :: int
  p_nodes :: int

definition ObjectLimits :: limits where
  "ObjectLimits = \<lparr>MaxDepth = 128, MaxNodes = 262144, MaxNumberBytes = 128, MaxExponent = 1000,
     MaxScale = 1024\<rparr>"

definition canonicalLimits :: limits where
  "canonicalLimits = \<lparr>MaxDepth = 128, MaxNodes = 1048576, MaxNumberBytes = 128, MaxExponent = 1000,
     MaxScale = 1024\<rparr>"

definition normalizeParseLimits :: "limits \<Rightarrow> limits" where
  "normalizeParseLimits L =
     \<lparr>MaxDepth = (if MaxDepth L \<le> 0 then 128 else MaxDepth L),
      MaxNodes = (if MaxNodes L \<le> 0 then 262144 else MaxNodes L),
      MaxNumberBytes = (if MaxNumberBytes L \<le> 0 then 128 else MaxNumberBytes L),
      MaxExponent = (if MaxExponent L \<le> 0 then 1000 else MaxExponent L),
      MaxScale = (if MaxScale L \<le> 0 then 1024 else MaxScale L)\<rparr>"

section \<open>Scanner\<close>

abbreviation quote :: char where "quote \<equiv> CHR 0x22"
abbreviation bslash :: char where "bslash \<equiv> CHR 0x5C"

definition isDigit :: "char \<Rightarrow> bool" where
  "isDigit c \<longleftrightarrow> 0x30 \<le> byte c \<and> byte c \<le> 0x39"

definition isSpace :: "char \<Rightarrow> bool" where
  "isSpace c \<longleftrightarrow> c = CHR '' '' \<or> c = CHR 0x09 \<or> c = CHR 0x0D \<or> c = CHR 0x0A"

definition skipSpace :: "parser \<Rightarrow> parser" where
  "skipSpace p = p\<lparr>p_rest := dropWhile isSpace (p_rest p)\<rparr>"

definition advance :: "parser \<Rightarrow> parser" where
  "advance p = p\<lparr>p_rest := tl (p_rest p)\<rparr>"

definition addNode :: "limits \<Rightarrow> parser \<Rightarrow> json_error + parser" where
  "addNode L p = (if p_nodes p \<ge> MaxNodes L then Inl NodeBudget else Inr (p\<lparr>p_nodes := p_nodes p + 1\<rparr>))"

definition enter :: "limits \<Rightarrow> parser \<Rightarrow> json_error + parser" where
  "enter L p = (if p_depth p \<ge> MaxDepth L then Inl DepthBudget else Inr (p\<lparr>p_depth := p_depth p + 1\<rparr>))"

definition leave :: "parser \<Rightarrow> parser" where
  "leave p = p\<lparr>p_depth := p_depth p - 1\<rparr>"

definition parseLiteral :: "string \<Rightarrow> value \<Rightarrow> parser \<Rightarrow> json_error + value \<times> parser" where
  "parseLiteral lit v p =
     (if take (length lit) (p_rest p) \<noteq> lit then Inl InvalidLiteral
      else Inr (v, p\<lparr>p_rest := drop (length lit) (p_rest p)\<rparr>))"

subsection \<open>Strings\<close>

definition hex_digit :: "char \<Rightarrow> nat option" where
  "hex_digit c =
     (if 0x30 \<le> byte c \<and> byte c \<le> 0x39 then Some (byte c - 0x30)
      else if 0x61 \<le> byte c \<and> byte c \<le> 0x66 then Some (byte c - 0x61 + 10)
      else if 0x41 \<le> byte c \<and> byte c \<le> 0x46 then Some (byte c - 0x41 + 10)
      else None)"

fun hex_value :: "nat \<Rightarrow> string \<Rightarrow> json_error + nat" where
  "hex_value r [] = Inr r"
| "hex_value r (c # s) =
     (case hex_digit c of None \<Rightarrow> Inl InvalidHex | Some d \<Rightarrow> hex_value (r * 16 + d) s)"

definition parseHex4 :: "string \<Rightarrow> json_error + nat" where
  "parseHex4 s = (if length s < 4 then Inl InvalidHex else hex_value 0 (take 4 s))"

definition decodeUnicode :: "string \<Rightarrow> json_error + nat \<times> nat" where
  "decodeUnicode s = rbind (parseHex4 (drop 1 s)) (\<lambda>r.
     if 0xDC00 \<le> r \<and> r \<le> 0xDFFF then Inl UnpairedSurrogate
     else if 0xD800 \<le> r \<and> r \<le> 0xDBFF then
       (if length s < 11 \<or> s ! 5 \<noteq> bslash \<or> s ! 6 \<noteq> CHR ''u'' then Inl UnpairedSurrogate
        else rbind (parseHex4 (drop 7 s)) (\<lambda>low.
          let pair = utf16_decode r low in
          if pair = RuneError then Inl UnpairedSurrogate else Inr (pair, 11)))
     else Inr (r, 5))"

definition decodeEscape :: "string \<Rightarrow> json_error + string \<times> nat" where
  "decodeEscape s = (case s of [] \<Rightarrow> Inl InvalidEscape | c # _ \<Rightarrow>
     if c = quote \<or> c = bslash \<or> c = CHR ''/'' then Inr ([c], 1)
     else if c = CHR ''b'' then Inr ([CHR 0x08], 1)
     else if c = CHR ''f'' then Inr ([CHR 0x0C], 1)
     else if c = CHR ''n'' then Inr ([CHR 0x0A], 1)
     else if c = CHR ''r'' then Inr ([CHR 0x0D], 1)
     else if c = CHR ''t'' then Inr ([CHR 0x09], 1)
     else if c = CHR ''u'' then rbind (decodeUnicode s) (\<lambda>(r, n). Inr (encode_rune r, n))
     else Inl InvalidEscape)"

text \<open>The loop of \<^verbatim>\<open>parseString\<close> after the opening quote: the decoded bytes and the
  input after the closing quote.\<close>

function parseStringBody :: "string \<Rightarrow> json_error + string \<times> string" where
  "parseStringBody s = (case s of [] \<Rightarrow> Inl UnterminatedString | c # r \<Rightarrow>
     if c = quote then Inr ([], r)
     else if c = bslash then
       (if r = [] then Inl UnterminatedEscape
        else rbind (decodeEscape r) (\<lambda>(esc, n).
          rbind (parseStringBody (drop n r)) (\<lambda>(t, r'). Inr (esc @ t, r'))))
     else if byte c < 0x20 then Inl ControlInString
     else if byte c < 0x80 then rbind (parseStringBody r) (\<lambda>(t, r'). Inr (c # t, r'))
     else if \<not> rune_ok s then Inl InvalidUtf8
     else rbind (parseStringBody (drop (snd (decode_rune s)) s)) (\<lambda>(t, r').
       Inr (take (snd (decode_rune s)) s @ t, r')))"
  by pat_completeness auto
termination
proof (relation "measure length", goal_cases)
  case (4 s c r)
  then show ?case using decode_rune_width_pos [of s] by simp
qed (auto simp: less_Suc_eq_le)

declare parseStringBody.simps [simp del]

definition parseString :: "string \<Rightarrow> json_error + string \<times> string" where
  "parseString s = (case s of [] \<Rightarrow> Inl ExpectedString
     | c # r \<Rightarrow> if c \<noteq> quote then Inl ExpectedString else parseStringBody r)"

subsection \<open>Numbers\<close>

text \<open>\<^verbatim>\<open>parseNumber\<close> scans an optional minus sign, the integer part, the fraction and
  the exponent, then checks the budgets. Each scanner returns the bytes it read and the rest.\<close>

definition scan_sign :: "string \<Rightarrow> string \<times> string" where
  "scan_sign s = (case s of c # r \<Rightarrow> if c = CHR ''-'' then ([c], r) else ([], s) | [] \<Rightarrow> ([], []))"

definition scan_int :: "string \<Rightarrow> json_error + string \<times> string" where
  "scan_int s = (case s of [] \<Rightarrow> Inl InvalidNumber | c # r \<Rightarrow>
     if \<not> isDigit c then Inl InvalidNumber
     else if c = CHR ''0'' then
       (if r \<noteq> [] \<and> isDigit (hd r) then Inl InvalidNumber else Inr ([c], r))
     else Inr (takeWhile isDigit s, dropWhile isDigit s))"

definition scan_frac :: "string \<Rightarrow> json_error + string \<times> string" where
  "scan_frac s = (case s of c # r \<Rightarrow>
       if c = CHR ''.'' then
         (if r = [] \<or> \<not> isDigit (hd r) then Inl InvalidNumber
          else Inr (c # takeWhile isDigit r, dropWhile isDigit r))
       else Inr ([], s)
     | [] \<Rightarrow> Inr ([], []))"

fun exp_digits :: "int \<Rightarrow> string \<Rightarrow> json_error + int" where
  "exp_digits v [] = Inr v"
| "exp_digits v (c # s) =
     (if v > (2 ^ 30) div 10 then Inl ExponentBudget
      else exp_digits (v * 10 + (int (byte c) - 0x30)) s)"

definition scan_exp_sign :: "string \<Rightarrow> string \<times> string" where
  "scan_exp_sign s = (case s of
       c # r \<Rightarrow> if c = CHR ''+'' \<or> c = CHR ''-'' then ([c], r) else ([], s) | [] \<Rightarrow> ([], []))"

text \<open>The exponent: the bytes read, its value if there is one, and the rest.\<close>

definition scan_exp :: "string \<Rightarrow> json_error + string \<times> int option \<times> string" where
  "scan_exp s = (case s of c # r \<Rightarrow>
       if c = CHR ''e'' \<or> c = CHR ''E'' then
         (case scan_exp_sign r of (sg, r') \<Rightarrow>
           if r' = [] \<or> \<not> isDigit (hd r') then Inl InvalidNumber
           else rbind (exp_digits 0 (takeWhile isDigit r')) (\<lambda>v.
             Inr (c # sg @ takeWhile isDigit r', Some (if sg = ''-'' then - v else v),
                  dropWhile isDigit r')))
       else Inr ([], None, s)
     | [] \<Rightarrow> Inr ([], None, []))"

definition parseNumber :: "limits \<Rightarrow> string \<Rightarrow> json_error + string \<times> string" where
  "parseNumber L s = (case scan_sign s of (sg, s1) \<Rightarrow>
     rbind (scan_int s1) (\<lambda>(ip, s2).
     rbind (scan_frac s2) (\<lambda>(fr, s3).
     rbind (scan_exp s3) (\<lambda>(ex, e, s4).
       let lexeme = sg @ ip @ fr @ ex;
           scale = (case e of None \<Rightarrow> 0 | Some v \<Rightarrow> v) - int (length fr - 1) in
       if int (length lexeme) > MaxNumberBytes L then Inl LexemeBudget
       else if (case e of None \<Rightarrow> False | Some v \<Rightarrow> \<bar>v\<bar> > MaxExponent L) then Inl ExponentBudget
       else if scale > MaxScale L \<or> scale < - MaxScale L then Inl ScaleBudget
       else Inr (lexeme, s4)))))"

subsection \<open>Values\<close>

text \<open>\<^verbatim>\<open>parseArray\<close> and \<^verbatim>\<open>parseObject\<close>, with their loops as arguments, and the
  switch of \<^verbatim>\<open>parseValue\<close>, with the two as arguments; the recursion is tied below.\<close>

definition parseArray ::
  "(parser \<Rightarrow> json_error + value list \<times> parser) \<Rightarrow> limits \<Rightarrow> parser \<Rightarrow> json_error + value \<times> parser" where
  "parseArray elems L p = rbind (enter L p) (\<lambda>p1.
     let p2 = skipSpace (advance p1) in
     if p_rest p2 \<noteq> [] \<and> hd (p_rest p2) = CHR '']'' then Inr (VArray [], leave (advance p2))
     else rbind (elems p2) (\<lambda>(vs, p3). Inr (VArray vs, leave p3)))"

definition parseObject ::
  "(parser \<Rightarrow> json_error + (string \<times> value) list \<times> parser) \<Rightarrow> limits \<Rightarrow> parser \<Rightarrow>
     json_error + value \<times> parser" where
  "parseObject members L p = rbind (enter L p) (\<lambda>p1.
     let p2 = skipSpace (advance p1) in
     if p_rest p2 \<noteq> [] \<and> hd (p_rest p2) = CHR ''}'' then Inr (VObject [], leave (advance p2))
     else rbind (members p2) (\<lambda>(ms, p3). Inr (VObject ms, leave p3)))"

definition parseSwitch ::
  "(parser \<Rightarrow> json_error + value \<times> parser) \<Rightarrow> (parser \<Rightarrow> json_error + value \<times> parser) \<Rightarrow> limits \<Rightarrow>
     parser \<Rightarrow> json_error + value \<times> parser" where
  "parseSwitch array object L p = (case p_rest p of [] \<Rightarrow> Inl UnexpectedEnd | c # _ \<Rightarrow>
     if c = CHR ''n'' then parseLiteral ''null'' VNull p
     else if c = CHR ''t'' then parseLiteral ''true'' (VBool True) p
     else if c = CHR ''f'' then parseLiteral ''false'' (VBool False) p
     else if c = quote then
       rbind (parseString (p_rest p)) (\<lambda>(s, r). Inr (VString s, p\<lparr>p_rest := r\<rparr>))
     else if c = CHR ''-'' \<or> isDigit c then
       rbind (parseNumber L (p_rest p)) (\<lambda>(n, r). Inr (VNumber n, p\<lparr>p_rest := r\<rparr>))
     else if c = CHR ''['' then array p
     else if c = CHR ''{'' then object p
     else Inl InvalidValue)"

text \<open>The part of the member loop before the value: the key and the input after the colon.\<close>

definition parseKey :: "limits \<Rightarrow> string list \<Rightarrow> parser \<Rightarrow> json_error + string \<times> parser" where
  "parseKey L seen p =
     (let p1 = skipSpace p in
      if p_rest p1 = [] \<or> hd (p_rest p1) \<noteq> quote then Inl KeyNotString
      else rbind (addNode L p1) (\<lambda>p2.
        rbind (parseString (p_rest p2)) (\<lambda>(key, r).
          if key \<in> set seen then Inl DuplicateKey
          else let p3 = skipSpace (p2\<lparr>p_rest := r\<rparr>) in
            if p_rest p3 = [] \<or> hd (p_rest p3) \<noteq> CHR '':'' then Inl ExpectedColon
            else Inr (key, skipSpace (advance p3)))))"

text \<open>The separator after an array element or an object member: whether another one follows.\<close>

definition separator :: "char \<Rightarrow> json_error \<Rightarrow> json_error \<Rightarrow> parser \<Rightarrow> json_error + bool \<times> parser" where
  "separator close unterminated invalid p =
     (let p2 = skipSpace p in
      case p_rest p2 of [] \<Rightarrow> Inl unterminated | c # _ \<Rightarrow>
        if c = CHR '','' then Inr (True, advance p2)
        else if c = close then Inr (False, advance p2)
        else Inl invalid)"

fun parseValue :: "nat \<Rightarrow> limits \<Rightarrow> parser \<Rightarrow> json_error + value \<times> parser"
and parseElems :: "nat \<Rightarrow> limits \<Rightarrow> parser \<Rightarrow> json_error + value list \<times> parser"
and parseMembers ::
  "nat \<Rightarrow> limits \<Rightarrow> string list \<Rightarrow> parser \<Rightarrow> json_error + (string \<times> value) list \<times> parser" where
  "parseValue 0 L p = Inl OutOfFuel"
| "parseValue (Suc f) L p = rbind (addNode L p) (\<lambda>p1.
     parseSwitch (parseArray (parseElems f L) L) (parseObject (parseMembers f L []) L) L p1)"
| "parseElems 0 L p = Inl OutOfFuel"
| "parseElems (Suc f) L p = rbind (parseValue f L (skipSpace p)) (\<lambda>(v, p1).
     rbind (separator (CHR '']'') UnterminatedArray InvalidArray p1) (\<lambda>(again, p2).
       if again then rbind (parseElems f L p2) (\<lambda>(vs, p3). Inr (v # vs, p3)) else Inr ([v], p2)))"
| "parseMembers 0 L seen p = Inl OutOfFuel"
| "parseMembers (Suc f) L seen p = rbind (parseKey L seen p) (\<lambda>(key, p1).
     rbind (parseValue f L p1) (\<lambda>(v, p2).
     rbind (separator (CHR ''}'') UnterminatedObject InvalidObject p2) (\<lambda>(again, p3).
       if again then rbind (parseMembers f L (key # seen) p3) (\<lambda>(ms, p4). Inr ((key, v) # ms, p4))
       else Inr ([(key, v)], p3))))"

definition Parse :: "string \<Rightarrow> limits \<Rightarrow> json_error + value" where
  "Parse raw L0 =
     (let L = normalizeParseLimits L0;
          p = skipSpace \<lparr>p_rest = raw, p_depth = 0, p_nodes = 0\<rparr> in
      if p_rest p = [] then Inl EmptyValue
      else rbind (parseValue (2 * length raw + 1) L p) (\<lambda>(v, p1).
        if p_rest (skipSpace p1) \<noteq> [] then Inl TrailingValue else Inr v))"

definition ParseObject :: "string \<Rightarrow> limits \<Rightarrow> json_error + value" where
  "ParseObject raw L = rbind (Parse raw L) (\<lambda>v.
     case v of VObject _ \<Rightarrow> Inr v | _ \<Rightarrow> Inl ObjectRequired)"

definition IsObject :: "string \<Rightarrow> bool" where
  "IsObject raw = (case ParseObject raw ObjectLimits of Inl _ \<Rightarrow> False | Inr _ \<Rightarrow> True)"

fun Lookup :: "value \<Rightarrow> string \<Rightarrow> value option" where
  "Lookup (VObject ms) key = map_of ms key"
| "Lookup _ key = None"

definition Has :: "value \<Rightarrow> string \<Rightarrow> bool" where
  "Has v key = (Lookup v key \<noteq> None)"

section \<open>Typed access\<close>

datatype as_error = ExpectedStringValue | ExpectedBool | ExpectedInteger

fun AsString :: "value \<Rightarrow> as_error + string" where
  "AsString (VString s) = Inr s"
| "AsString _ = Inl ExpectedStringValue"

fun AsBool :: "value \<Rightarrow> as_error + bool" where
  "AsBool (VBool b) = Inr b"
| "AsBool _ = Inl ExpectedBool"

text \<open>\<^verbatim>\<open>strconv.ParseInt(s, 10, 64)\<close>: an optional sign and at least one digit, with the value
  in the 64-bit range.\<close>

fun digits_value :: "int \<Rightarrow> string \<Rightarrow> int" where
  "digits_value v [] = v"
| "digits_value v (c # s) = digits_value (v * 10 + (int (byte c) - 0x30)) s"

definition ParseInt :: "string \<Rightarrow> int option" where
  "ParseInt s =
     (let neg = (s \<noteq> [] \<and> hd s = CHR ''-'');
          ds = (if s \<noteq> [] \<and> (hd s = CHR ''-'' \<or> hd s = CHR ''+'') then tl s else s);
          v = (if neg then - digits_value 0 ds else digits_value 0 ds) in
      if ds = [] \<or> \<not> list_all isDigit ds \<or> \<not> in_int64 v then None else Some v)"

fun parseInt64Lexeme :: "value \<Rightarrow> as_error + int" where
  "parseInt64Lexeme (VNumber n) =
     (if n = [] then Inl ExpectedInteger
      else case ParseInt n of None \<Rightarrow> Inl ExpectedInteger | Some v \<Rightarrow> Inr v)"
| "parseInt64Lexeme _ = Inl ExpectedInteger"

text \<open>\<^verbatim>\<open>LookupAs\<close>, for one of the three conversions: the value, whether the key is present,
  and the conversion's error.\<close>

definition LookupAs :: "(value \<Rightarrow> as_error + 'a) \<Rightarrow> value \<Rightarrow> string \<Rightarrow> (as_error + 'a) option" where
  "LookupAs as v key = (case Lookup v key of None \<Rightarrow> None | Some field \<Rightarrow> Some (as field))"

section \<open>Canonical printing\<close>

definition hex_char :: "nat \<Rightarrow> char" where
  "hex_char d = (if d < 10 then char_of (0x30 + d) else char_of (0x61 + (d - 10)))"

definition escape_byte :: "char \<Rightarrow> string" where
  "escape_byte c =
     (if c = quote \<or> c = bslash then [bslash, c]
      else if c = CHR 0x08 then [bslash, CHR ''b'']
      else if c = CHR 0x0C then [bslash, CHR ''f'']
      else if c = CHR 0x0A then [bslash, CHR ''n'']
      else if c = CHR 0x0D then [bslash, CHR ''r'']
      else if c = CHR 0x09 then [bslash, CHR ''t'']
      else if byte c < 0x20 then
        [bslash, CHR ''u'', CHR ''0'', CHR ''0'', hex_char (byte c div 16), hex_char (byte c mod 16)]
      else [c])"

definition writeJSONString :: "string \<Rightarrow> string" where
  "writeJSONString s = quote # concat (map escape_byte s) @ [quote]"

text \<open>The pieces of an array or object, separated by commas.\<close>

fun commas :: "string list \<Rightarrow> string" where
  "commas [] = []"
| "commas [x] = x"
| "commas (x # xs) = x @ CHR '','' # commas xs"

text \<open>\<^verbatim>\<open>writeCanonical\<close>: object members are written in the order of their keys.\<close>

fun writeCanonical :: "value \<Rightarrow> json_error + string" where
  "writeCanonical VNull = Inr ''null''"
| "writeCanonical (VBool b) = Inr (if b then ''true'' else ''false'')"
| "writeCanonical (VNumber n) = (if n = [] then Inl EmptyNumber else Inr n)"
| "writeCanonical (VString s) = Inr (writeJSONString s)"
| "writeCanonical (VArray vs) = rbind (rmap writeCanonical vs) (\<lambda>ss.
     Inr (CHR ''['' # commas ss @ '']''))"
| "writeCanonical (VObject ms) = rbind (rmap (\<lambda>(k, v).
     rbind (writeCanonical v) (\<lambda>s. Inr (writeJSONString k @ CHR '':'' # s))) (sort_key fst ms)) (\<lambda>ss.
     Inr (CHR ''{'' # commas ss @ ''}''))"
| "writeCanonical VInvalid = Inl UnknownKind"

definition CanonicalValue :: "value \<Rightarrow> json_error + string" where
  "CanonicalValue v = writeCanonical v"

definition Canonical :: "string \<Rightarrow> json_error + string" where
  "Canonical raw = rbind (Parse raw canonicalLimits) CanonicalValue"

definition CanonicalObject :: "string \<Rightarrow> json_error + string" where
  "CanonicalObject raw = rbind (ParseObject raw ObjectLimits) CanonicalValue"

definition Equal :: "string \<Rightarrow> string \<Rightarrow> bool" where
  "Equal left right = (left = right \<or>
     (case (Canonical left, Canonical right) of (Inr l, Inr r) \<Rightarrow> l = r | _ \<Rightarrow> False))"

end
