(* ===== verification/Json_Lex.thy ===== *)
theory Json_Lex
  imports Json_Value
begin

text \<open>
  Lexical facts about the JSON scanner of \<open>Json_Value\<close>: the relation \<open>scans\<close> its string loop
  computes, that every decoded string is valid UTF-8, that a printed string scans back to itself, and
  that a number lexeme is scanned the same way whatever follows it.
\<close>


section \<open>Strings: the relation the scanner computes\<close>

inductive scans :: "string \<Rightarrow> string \<Rightarrow> string \<Rightarrow> bool" where
  scan_close: "scans (quote # r) [] r"
| scan_escape: "r \<noteq> [] \<Longrightarrow> decodeEscape r = Inr (esc, n) \<Longrightarrow> scans (drop n r) t r' \<Longrightarrow>
    scans (bslash # r) (esc @ t) r'"
| scan_ascii: "c \<noteq> quote \<Longrightarrow> c \<noteq> bslash \<Longrightarrow> 0x20 \<le> byte c \<Longrightarrow> byte c < 0x80 \<Longrightarrow> scans r t r' \<Longrightarrow>
    scans (c # r) (c # t) r'"
| scan_rune: "s \<noteq> [] \<Longrightarrow> 0x80 \<le> byte (hd s) \<Longrightarrow> rune_ok s \<Longrightarrow> scans (drop (snd (decode_rune s)) s) t r' \<Longrightarrow>
    scans s (take (snd (decode_rune s)) s @ t) r'"

lemma parseStringBody_scans: "parseStringBody s = Inr (t, r) \<Longrightarrow> scans s t r"
proof (induction s arbitrary: t r rule: parseStringBody.induct)
  case (1 s)
  show ?case
  proof (cases s)
    case Nil
    with "1.prems" show ?thesis by (simp add: parseStringBody.simps)
  next
    case (Cons c q)
    note eq = "1.prems" [unfolded parseStringBody.simps [of s], unfolded Cons list.case]
    consider "c = quote" | "c = bslash" | "c \<noteq> quote" "c \<noteq> bslash" "byte c < 0x80"
      | "c \<noteq> quote" "c \<noteq> bslash" "0x80 \<le> byte c"
      by linarith
    then show ?thesis
    proof cases
      case 1
      with eq Cons show ?thesis by (auto intro: scan_close)
    next
      case 2
      with eq obtain esc n t' where e: "q \<noteq> []" "decodeEscape q = Inr (esc, n)"
        "parseStringBody (drop n q) = Inr (t', r)" "t = esc @ t'"
        by (auto simp: result_simps split: if_splits)
      from "1.IH"(1) [OF Cons] 2 e have "scans (drop n q) t' r" by simp
      with e 2 Cons show ?thesis by (auto intro: scan_escape)
    next
      case 3
      with eq obtain t' where e: "0x20 \<le> byte c" "parseStringBody q = Inr (t', r)" "t = c # t'"
        by (auto simp: result_simps split: if_splits)
      from "1.IH"(2) [OF Cons] 3 e have "scans q t' r" by simp
      with e 3 Cons show ?thesis by (auto intro: scan_ascii)
    next
      case 4
      with eq obtain t' where e: "rune_ok s" "parseStringBody (drop (snd (decode_rune s)) s) = Inr (t', r)"
        "t = take (snd (decode_rune s)) s @ t'"
        using Cons by (auto simp: result_simps simp del: decode_rune.simps split: if_splits)
      from "1.IH"(3) [OF Cons] 4 e have "scans (drop (snd (decode_rune s)) s) t' r" by simp
      then have "scans s (take (snd (decode_rune s)) s @ t') r"
        using e(1) 4(3) Cons by (intro scan_rune) auto
      then show ?thesis by (simp add: e(3))
    qed
  qed
qed

lemma scans_shrinks: "scans s t r \<Longrightarrow> length r < length s"
proof (induction rule: scans.induct)
  case (scan_rune s t r')
  then show ?case using decode_rune_width_pos [of s] by simp
qed auto

lemma utf8_valid_decodeEscape: "decodeEscape r = Inr (esc, n) \<Longrightarrow> utf8_valid esc"
  by (auto simp: decodeEscape_def result_simps utf8_valid_encode split: list.splits if_splits)

lemma scans_valid: "scans s t r \<Longrightarrow> utf8_valid t"
proof (induction rule: scans.induct)
  case (scan_escape r esc n t r')
  then show ?case by (simp add: utf8_valid_append utf8_valid_decodeEscape)
next
  case (scan_rune s t r')
  then show ?case by (simp add: utf8_valid_prefix)
qed auto

section \<open>Printed strings scan back\<close>

lemma hex_char_digit: "d < 16 \<Longrightarrow> hex_digit (hex_char d) = Some d"
  by (auto simp: hex_digit_def hex_char_def)

lemma scan_u_escape:
  assumes "byte c < 0x20"
  shows "decodeEscape (CHR ''u'' # CHR ''0'' # CHR ''0'' # hex_char (byte c div 16) # hex_char (byte c mod 16) # s)
    = Inr ([c], 5)"
proof -
  have h: "hex_digit (hex_char (byte c div 16)) = Some (byte c div 16)"
    "hex_digit (hex_char (byte c mod 16)) = Some (byte c mod 16)"
    using assms by (auto intro!: hex_char_digit)
  have z: "hex_digit (CHR ''0'') = Some 0" by (simp add: hex_digit_def)
  have v: "byte c div 16 * 16 + byte c mod 16 = byte c" by simp
  have sc: "scalar (byte c)" using assms by (simp add: scalar_def)
  have e: "encode_rune (byte c) = [c]" using assms sc by (simp add: encode_rune_def encode_scalar_def)
  show ?thesis
    using assms by (simp add: decodeEscape_def decodeUnicode_def parseHex4_def h z e v del: div_mult_mod_eq)
qed

lemma parse_escaped_byte:
  assumes "byte c < 0x80"
  shows "parseStringBody (escape_byte c @ s) = rbind (parseStringBody s) (\<lambda>(t, r). Inr (c # t, r))"
proof -
  consider "c \<in> {quote, bslash, CHR 0x08, CHR 0x0C, CHR 0x0A, CHR 0x0D, CHR 0x09}"
    | "c \<notin> {quote, bslash, CHR 0x08, CHR 0x0C, CHR 0x0A, CHR 0x0D, CHR 0x09}" "byte c < 0x20"
    | "c \<notin> {quote, bslash, CHR 0x08, CHR 0x0C, CHR 0x0A, CHR 0x0D, CHR 0x09}" "0x20 \<le> byte c"
    by linarith
  then show ?thesis
  proof cases
    case 1
    then show ?thesis
      by (auto simp: escape_byte_def parseStringBody.simps [of "bslash # x # s" for x] decodeEscape_def)
  next
    case 2
    then have "escape_byte c @ s = bslash # CHR ''u'' # CHR ''0'' # CHR ''0'' # hex_char (byte c div 16)
        # hex_char (byte c mod 16) # s"
      by (simp add: escape_byte_def)
    then show ?thesis
      using 2 by (simp add: parseStringBody.simps [of "bslash # CHR ''u'' # x" for x] scan_u_escape)
  next
    case 3
    then show ?thesis
      using assms by (simp add: escape_byte_def parseStringBody.simps [of "c # s"])
  qed
qed

lemma escape_high: "(\<And>c. c \<in> set s \<Longrightarrow> 0x80 \<le> byte c) \<Longrightarrow> concat (map escape_byte s) = s"
proof (induction s)
  case (Cons c s)
  then have hi: "0x80 \<le> byte c" by simp
  have n: "c \<noteq> k" if "byte k < 0x80" for k using hi that by auto
  have "escape_byte c = [c]" using hi by (simp add: escape_byte_def n)
  with Cons show ?case by simp
qed simp

lemma parseStringBody_rune:
  assumes "w = c # q" "0x80 \<le> byte c" "rune_ok w"
  shows "parseStringBody w = rbind (parseStringBody (drop (snd (decode_rune w)) w))
    (\<lambda>(t, r). Inr (take (snd (decode_rune w)) w @ t, r))"
proof -
  have n: "c \<noteq> k" if "byte k < 0x80" for k using assms(2) that by auto
  show ?thesis
    unfolding parseStringBody.simps [of w] using assms n by (simp del: decode_rune.simps)
qed

lemma parseStringBody_print:
  "utf8_valid s \<Longrightarrow> parseStringBody (concat (map escape_byte s) @ quote # r) = Inr (s, r)"
proof (induction s rule: utf8_valid.induct)
  case (1 s)
  show ?case
  proof (cases s)
    case Nil
    then show ?thesis by (simp add: parseStringBody.simps)
  next
    case (Cons c q)
    let ?n = "snd (decode_rune s)"
    have ne: "s \<noteq> []" using Cons by simp
    with "1.prems" have ok: "rune_ok s" and v: "utf8_valid (drop ?n s)" by (simp_all add: utf8_valid_step)
    from "1.IH" [OF ne v] have IH: "parseStringBody (concat (map escape_byte (drop ?n s)) @ quote # r) = Inr (drop ?n s, r)" .
    show ?thesis
    proof (cases "byte c < 0x80")
      case True
      then have "?n = 1" using Cons by simp
      with IH True Cons show ?thesis by (simp add: parse_escaped_byte)
    next
      case False
      let ?p = "take ?n s" and ?u = "concat (map escape_byte (drop ?n s)) @ quote # r"
      have hi: "\<And>x. x \<in> set ?p \<Longrightarrow> 0x80 \<le> byte x"
        using rune_bytes_high [OF ok ne] False Cons by (simp del: decode_rune.simps)
      have pe: "concat (map escape_byte s) @ quote # r = ?p @ ?u"
      proof -
        have "concat (map escape_byte s) = concat (map escape_byte (?p @ drop ?n s))" by simp
        also have "\<dots> = ?p @ concat (map escape_byte (drop ?n s))" using escape_high [OF hi] by (simp only: map_append concat_append)
        finally show ?thesis by simp
      qed
      have pn: "?p \<noteq> []" using decode_rune_width_pos [OF ne] ne by simp
      have dp: "decode_rune ?p = decode_rune s" using ok ne by (rule decode_rune_take)
      have okp: "rune_ok ?p" using ok dp by (simp add: rune_ok_def)
      have du: "decode_rune (?p @ ?u) = decode_rune s" using decode_rune_extend [OF okp pn] dp by simp
      have oku: "rune_ok (?p @ ?u)" using ok du by (simp add: rune_ok_def)
      have lp: "length ?p = ?n" using decode_rune_width_le [of s] by simp
      obtain q' where q': "?p @ ?u = c # q'" using pn Cons by (cases ?p) (auto simp: take_Cons split: nat.splits)
      have "parseStringBody (?p @ ?u) = rbind (parseStringBody (drop ?n (?p @ ?u)))
          (\<lambda>(t, r'). Inr (take ?n (?p @ ?u) @ t, r'))"
        using parseStringBody_rune [OF q' _ oku] False du by simp
      also have "\<dots> = rbind (parseStringBody ?u) (\<lambda>(t, r'). Inr (?p @ t, r'))"
        using lp by (simp del: decode_rune.simps)
      finally have "parseStringBody (?p @ ?u) = rbind (parseStringBody ?u) (\<lambda>(t, r'). Inr (?p @ t, r'))" .
      with IH pe show ?thesis by simp
    qed
  qed
qed

lemma parseString_print: "utf8_valid s \<Longrightarrow> parseString (writeJSONString s @ r) = Inr (s, r)"
  by (simp add: parseString_def writeJSONString_def parseStringBody_print)

section \<open>Number lexemes\<close>

text \<open>What may follow a number without extending it.\<close>

definition stops :: "(char \<Rightarrow> bool) \<Rightarrow> string \<Rightarrow> bool" where
  "stops P s \<longleftrightarrow> s = [] \<or> \<not> P (hd s)"

definition number_char :: "char \<Rightarrow> bool" where
  "number_char c \<longleftrightarrow> isDigit c \<or> c = CHR ''.'' \<or> c = CHR ''e'' \<or> c = CHR ''E''"

lemma stops_Nil [simp]: "stops P []" and stops_Cons [simp]: "stops P (c # s) \<longleftrightarrow> \<not> P c"
  by (simp_all add: stops_def)

lemma digits_split:
  "d \<noteq> [] \<Longrightarrow> list_all isDigit d \<Longrightarrow> stops isDigit x \<Longrightarrow>
     takeWhile isDigit (d @ x) = d \<and> dropWhile isDigit (d @ x) = x"
  by (cases x) (auto simp: list_all_iff takeWhile_append dropWhile_append)

lemma takeWhile_digits: "list_all isDigit (takeWhile isDigit s)"
  by (auto simp: list_all_iff dest: set_takeWhileD)

lemma stops_dropWhile [simp]: "stops P (dropWhile P s)"
  unfolding stops_def using hd_dropWhile by blast

lemma not_digit [simp]: "\<not> isDigit (CHR ''.'')" "\<not> isDigit (CHR ''e'')" "\<not> isDigit (CHR ''E'')"
    "\<not> isDigit (CHR ''-'')" "\<not> isDigit (CHR ''+'')" "isDigit (CHR ''0'')"
  by (simp_all add: isDigit_def)

lemma scan_sign_split:
  "scan_sign s = (sg, s1) \<Longrightarrow> s = sg @ s1"
  "scan_sign s = (sg, s1) \<Longrightarrow> x \<noteq> [] \<Longrightarrow> isDigit (hd x) \<Longrightarrow> scan_sign (sg @ x) = (sg, x)"
  by (cases x; auto simp: scan_sign_def split: list.splits if_splits)+

lemma scan_int_split:
  assumes "scan_int s = Inr (ip, r)"
  shows "s = ip @ r" "ip \<noteq> []" "isDigit (hd ip)" "stops isDigit x \<Longrightarrow> scan_int (ip @ x) = Inr (ip, x)"
proof -
  from assms obtain c q where s: "s = c # q" "isDigit c" by (auto simp: scan_int_def split: list.splits if_splits)
  have "s = ip @ r \<and> ip \<noteq> [] \<and> isDigit (hd ip) \<and> (stops isDigit x \<longrightarrow> scan_int (ip @ x) = Inr (ip, x))"
  proof (cases "c = CHR ''0''")
    case True
    with assms s show ?thesis by (auto simp: scan_int_def stops_def split: if_splits)
  next
    case False
    with assms s have ip: "ip = takeWhile isDigit s" "r = dropWhile isDigit s" by (auto simp: scan_int_def)
    then have ne: "ip \<noteq> []" and h: "hd ip = c" using s by auto
    have all: "list_all isDigit ip" using ip(1) takeWhile_digits by simp
    have "scan_int (ip @ x) = Inr (ip, x)" if "stops isDigit x"
      using digits_split [OF ne all that] ne h s(2) False by (cases ip) (auto simp: scan_int_def)
    with ip ne h s(2) show ?thesis by simp
  qed
  then show "s = ip @ r" "ip \<noteq> []" "isDigit (hd ip)" "stops isDigit x \<Longrightarrow> scan_int (ip @ x) = Inr (ip, x)"
    by auto
qed

lemma scan_frac_split:
  assumes "scan_frac s = Inr (fr, r)"
  shows "s = fr @ r" "fr = [] \<or> hd fr = CHR ''.''"
    "stops isDigit x \<Longrightarrow> fr = [] \<longrightarrow> stops (\<lambda>c. c = CHR ''.'') x \<Longrightarrow> scan_frac (fr @ x) = Inr (fr, x)"
proof -
  have "s = fr @ r \<and> (fr = [] \<or> hd fr = CHR ''.'') \<and> (stops isDigit x \<longrightarrow> (fr = [] \<longrightarrow> stops (\<lambda>c. c = CHR ''.'') x)
      \<longrightarrow> scan_frac (fr @ x) = Inr (fr, x))"
  proof (cases "fr = []")
    case True
    with assms show ?thesis by (cases x) (auto simp: scan_frac_def split: list.splits if_splits)
  next
    case False
    with assms obtain q where q: "s = CHR ''.'' # q" "q \<noteq> []" "isDigit (hd q)"
      "fr = CHR ''.'' # takeWhile isDigit q" "r = dropWhile isDigit q"
      by (auto simp: scan_frac_def split: list.splits if_splits)
    let ?d = "takeWhile isDigit q"
    have ne: "?d \<noteq> []" and hd: "hd ?d = hd q" using q(2,3) by (cases q; simp)+
    have "scan_frac (fr @ x) = Inr (fr, x)" if "stops isDigit x"
      using digits_split [OF ne takeWhile_digits that] ne hd q(3,4) by (simp add: scan_frac_def)
    with q show ?thesis by simp
  qed
  then show "s = fr @ r" "fr = [] \<or> hd fr = CHR ''.''"
    "stops isDigit x \<Longrightarrow> fr = [] \<longrightarrow> stops (\<lambda>c. c = CHR ''.'') x \<Longrightarrow> scan_frac (fr @ x) = Inr (fr, x)"
    by auto
qed

lemma scan_exp_sign_split:
  "scan_exp_sign s = (sg, s1) \<Longrightarrow> s = sg @ s1"
  "scan_exp_sign s = (sg, s1) \<Longrightarrow> x \<noteq> [] \<Longrightarrow> isDigit (hd x) \<Longrightarrow> scan_exp_sign (sg @ x) = (sg, x)"
  by (cases x; auto simp: scan_exp_sign_def split: list.splits if_splits)+

lemma scan_exp_split:
  assumes "scan_exp s = Inr (ex, e, r)"
  shows "s = ex @ r" "ex = [] \<or> hd ex = CHR ''e'' \<or> hd ex = CHR ''E''"
    "stops number_char x \<Longrightarrow> scan_exp (ex @ x) = Inr (ex, e, x)"
proof -
  have "s = ex @ r \<and> (ex = [] \<or> hd ex = CHR ''e'' \<or> hd ex = CHR ''E'') \<and>
      (stops number_char x \<longrightarrow> scan_exp (ex @ x) = Inr (ex, e, x))"
  proof (cases "ex = []")
    case True
    with assms show ?thesis
      by (cases x) (auto simp: scan_exp_def number_char_def result_simps split: list.splits if_splits prod.splits)
  next
    case False
    with assms obtain c q sg q' v where q: "s = c # q" "c = CHR ''e'' \<or> c = CHR ''E''" "scan_exp_sign q = (sg, q')"
      "q' \<noteq> []" "isDigit (hd q')" "exp_digits 0 (takeWhile isDigit q') = Inr v"
      "ex = c # sg @ takeWhile isDigit q'" "e = Some (if sg = ''-'' then - v else v)" "r = dropWhile isDigit q'"
      by (auto simp: scan_exp_def result_simps split: list.splits if_splits prod.splits)
    let ?d = "takeWhile isDigit q'"
    have ne: "?d \<noteq> []" and hd: "hd ?d = hd q'" using q(4,5) by (cases q'; simp)+
    have "scan_exp (ex @ x) = Inr (ex, e, x)" if st: "stops number_char x"
    proof -
      have sd: "stops isDigit x" using st by (auto simp: stops_def number_char_def)
      have "scan_exp_sign (sg @ ?d @ x) = (sg, ?d @ x)"
        using scan_exp_sign_split(2) [OF q(3), of "?d @ x"] ne hd q(5) by simp
      then show ?thesis
        using digits_split [OF ne takeWhile_digits sd] q(2,5,6) ne hd unfolding q(7,8) by (auto simp: scan_exp_def)
    qed
    with q scan_exp_sign_split(1) [OF q(3)] show ?thesis by auto
  qed
  then show "s = ex @ r" "ex = [] \<or> hd ex = CHR ''e'' \<or> hd ex = CHR ''E''"
    "stops number_char x \<Longrightarrow> scan_exp (ex @ x) = Inr (ex, e, x)"
    by auto
qed

lemma parseNumber_split:
  assumes "parseNumber L s = Inr (lx, r)"
  shows "s = lx @ r" "lx \<noteq> []" "isDigit (hd lx) \<or> hd lx = CHR ''-''"
    "stops number_char t \<Longrightarrow> parseNumber L (lx @ t) = Inr (lx, t)"
proof -
  obtain sg s1 where sg: "scan_sign s = (sg, s1)" by (cases "scan_sign s") auto
  from assms sg obtain ip s2 fr s3 ex e where p: "scan_int s1 = Inr (ip, s2)" "scan_frac s2 = Inr (fr, s3)"
    "scan_exp s3 = Inr (ex, e, r)" and lx: "lx = sg @ ip @ fr @ ex"
    by (auto simp: parseNumber_def result_simps Let_def split: if_splits)
  show "s = lx @ r"
    using scan_sign_split(1) [OF sg] scan_int_split(1) [OF p(1)] scan_frac_split(1) [OF p(2)]
      scan_exp_split(1) [OF p(3)] lx by simp
  show "lx \<noteq> []" using scan_int_split(2) [OF p(1)] lx by simp
  show "isDigit (hd lx) \<or> hd lx = CHR ''-''"
    using sg scan_int_split(2,3) [OF p(1)] lx
    by (cases "sg = []") (auto simp: scan_sign_def split: list.splits if_splits)
  assume st: "stops number_char t"
  have e: "scan_exp (ex @ t) = Inr (ex, e, t)" using scan_exp_split(3) [OF p(3) st] .
  have xd: "stops isDigit (ex @ t)" "stops (\<lambda>c. c = CHR ''.'') (ex @ t)"
    using scan_exp_split(2) [OF p(3)] st by (cases ex; auto simp: stops_def number_char_def)+
  have f: "scan_frac (fr @ ex @ t) = Inr (fr, ex @ t)" using scan_frac_split(3) [OF p(2) xd(1)] xd(2) by simp
  have fd: "stops isDigit (fr @ ex @ t)"
    using scan_frac_split(2) [OF p(2)] xd(1) by (cases fr) (auto simp: stops_def)
  have i: "scan_int (ip @ fr @ ex @ t) = Inr (ip, fr @ ex @ t)" using scan_int_split(4) [OF p(1) fd] .
  have g: "scan_sign (sg @ ip @ fr @ ex @ t) = (sg, ip @ fr @ ex @ t)"
    using scan_sign_split(2) [OF sg, of "ip @ fr @ ex @ t"] scan_int_split(2,3) [OF p(1)] by simp
  show "parseNumber L (lx @ t) = Inr (lx, t)"
    using assms sg p g i f e lx by (auto simp: parseNumber_def Let_def split: if_splits)
qed

end
