(* ===== verification/Json_Props.thy ===== *)
theory Json_Props
  imports Json_Lex
begin

text \<open>
  Correctness of the JSON component: every parsed value is well formed and within the limits
  (\<open>parse_within_limits\<close>), the parser never runs out of fuel (\<open>parse_total\<close>), the canonical printer
  is inverted by the parser up to the order of object members (\<open>canonical_value_parses\<close>), canonical
  text is a fixed point (\<open>canonical_idempotent\<close>), and \<^verbatim>\<open>Equal\<close> decides equality of values up
  to member order (\<open>equal_iff_canon\<close>, \<open>equal_equivalence\<close>).
\<close>

section \<open>Size, depth and well-formedness of values\<close>

fun vnodes :: "value \<Rightarrow> int" where
  "vnodes (VArray vs) = 1 + sum_list (map vnodes vs)"
| "vnodes (VObject ms) = 1 + sum_list (map (\<lambda>(k, v). 1 + vnodes v) ms)"
| "vnodes _ = 1"

fun vdepth :: "value \<Rightarrow> int" where
  "vdepth (VArray vs) = 1 + foldr max (map vdepth vs) 0"
| "vdepth (VObject ms) = 1 + foldr max (map (\<lambda>(k, v). vdepth v) ms) 0"
| "vdepth _ = 0"

fun wf_value :: "limits \<Rightarrow> value \<Rightarrow> bool" where
  "wf_value L (VNumber n) = (parseNumber L n = Inr (n, []))"
| "wf_value L (VString s) = utf8_valid s"
| "wf_value L (VArray vs) = list_all (wf_value L) vs"
| "wf_value L (VObject ms) = (distinct (map fst ms) \<and> list_all (\<lambda>(k, v). utf8_valid k \<and> wf_value L v) ms)"
| "wf_value L VInvalid = False"
| "wf_value L _ = True"

lemma foldr_max_le: "foldr max xs (0::int) \<le> k \<longleftrightarrow> 0 \<le> k \<and> (\<forall>x\<in>set xs. x \<le> k)"
  by (induction xs) auto

definition fits :: "limits \<Rightarrow> int \<Rightarrow> value \<Rightarrow> bool" where
  "fits L d v \<longleftrightarrow> vdepth v = 0 \<or> d + vdepth v \<le> MaxDepth L"

lemma vdepth_nonneg: "0 \<le> vdepth v"
proof (cases v)
  case (VArray vs)
  have "0 \<le> foldr max (map vdepth vs) 0" by (induction vs) auto
  then show ?thesis by (simp add: VArray)
next
  case (VObject ms)
  have "0 \<le> foldr max (map (\<lambda>(k, v). vdepth v) ms) 0" by (induction ms) auto
  then show ?thesis by (simp add: VObject)
qed auto

lemma fits_VArray: "fits L d (VArray vs) \<longleftrightarrow> d < MaxDepth L \<and> (\<forall>v\<in>set vs. fits L (d + 1) v)"
proof -
  have "fits L d (VArray vs) \<longleftrightarrow> 0 \<le> MaxDepth L - d - 1 \<and> (\<forall>v\<in>set vs. vdepth v \<le> MaxDepth L - d - 1)"
    using vdepth_nonneg [of "VArray vs"] foldr_max_le [of "map vdepth vs" "MaxDepth L - d - 1"]
      foldr_max_le [of "map vdepth vs" "-1"]
    by (auto simp: fits_def)
  then show ?thesis using vdepth_nonneg by (force simp: fits_def)
qed

lemma fits_VObject: "fits L d (VObject ms) \<longleftrightarrow> d < MaxDepth L \<and> (\<forall>(k, v)\<in>set ms. fits L (d + 1) v)"
proof -
  have "fits L d (VObject ms) \<longleftrightarrow> 0 \<le> MaxDepth L - d - 1 \<and> (\<forall>(k, v)\<in>set ms. vdepth v \<le> MaxDepth L - d - 1)"
    using foldr_max_le [of "map (\<lambda>(k, v). vdepth v) ms" "MaxDepth L - d - 1"]
      foldr_max_le [of "map (\<lambda>(k, v). vdepth v) ms" "-1"]
    by (auto simp: fits_def)
  then show ?thesis using vdepth_nonneg by (force simp: fits_def)
qed

definition parsed :: "limits \<Rightarrow> parser \<Rightarrow> value \<Rightarrow> parser \<Rightarrow> bool" where
  "parsed L p v p' \<longleftrightarrow> wf_value L v \<and> fits L (p_depth p) v
     \<and> p_nodes p' = p_nodes p + vnodes v \<and> p_nodes p' \<le> MaxNodes L
     \<and> p_depth p' = p_depth p \<and> length (p_rest p') < length (p_rest p)"

definition parsed_elems :: "limits \<Rightarrow> parser \<Rightarrow> value list \<Rightarrow> parser \<Rightarrow> bool" where
  "parsed_elems L p vs p' \<longleftrightarrow> (\<forall>v\<in>set vs. wf_value L v \<and> fits L (p_depth p) v)
     \<and> p_nodes p' = p_nodes p + sum_list (map vnodes vs) \<and> p_nodes p' \<le> MaxNodes L
     \<and> p_depth p' = p_depth p \<and> length (p_rest p') < length (p_rest p)"

definition parsed_members ::
  "limits \<Rightarrow> string list \<Rightarrow> parser \<Rightarrow> (string \<times> value) list \<Rightarrow> parser \<Rightarrow> bool" where
  "parsed_members L seen p ms p' \<longleftrightarrow> distinct (map fst ms) \<and> set (map fst ms) \<inter> set seen = {}
     \<and> (\<forall>(k, v)\<in>set ms. utf8_valid k \<and> wf_value L v \<and> fits L (p_depth p) v)
     \<and> p_nodes p' = p_nodes p + sum_list (map (\<lambda>(k, v). 1 + vnodes v) ms) \<and> p_nodes p' \<le> MaxNodes L
     \<and> p_depth p' = p_depth p \<and> length (p_rest p') < length (p_rest p)"

lemma skipSpace_simps [simp]:
  "p_depth (skipSpace p) = p_depth p" "p_nodes (skipSpace p) = p_nodes p"
  by (simp_all add: skipSpace_def)

lemma skipSpace_len: "length (p_rest (skipSpace p)) \<le> length (p_rest p)"
  by (simp add: skipSpace_def length_dropWhile_le)

lemma advance_simps [simp]:
  "p_depth (advance p) = p_depth p" "p_nodes (advance p) = p_nodes p"
  "p_rest (advance p) = tl (p_rest p)"
  by (simp_all add: advance_def)

lemma parseLiteral_Inr:
  "parseLiteral l w p = Inr (v, p') \<Longrightarrow> l \<noteq> [] \<Longrightarrow>
     v = w \<and> p_depth p' = p_depth p \<and> p_nodes p' = p_nodes p \<and> length (p_rest p') < length (p_rest p)"
  by (cases "p_rest p") (auto simp: parseLiteral_def split: if_splits)

lemma parseString_Inr: "parseString s = Inr (t, r) \<Longrightarrow> utf8_valid t \<and> length r < length s"
  by (auto simp: parseString_def less_SucI split: list.splits if_splits
      dest!: parseStringBody_scans dest: scans_valid scans_shrinks)

lemma parseNumber_Inr: "parseNumber L s = Inr (n, r) \<Longrightarrow> parseNumber L n = Inr (n, []) \<and> length r < length s"
  using parseNumber_split(1,2) parseNumber_split(4) [where t = "[]"] by fastforce

lemma separator_Inr:
  "separator c e1 e2 p = Inr (again, p') \<Longrightarrow>
     p_depth p' = p_depth p \<and> p_nodes p' = p_nodes p \<and> length (p_rest p') < length (p_rest p)"
  using skipSpace_len [of p]
  by (auto simp: separator_def Let_def split: list.splits if_splits)

lemma parseKey_Inr:
  assumes "parseKey L seen p = Inr (k, p')"
  shows "k \<notin> set seen \<and> utf8_valid k \<and> p_depth p' = p_depth p \<and> p_nodes p' = p_nodes p + 1
    \<and> p_nodes p' \<le> MaxNodes L \<and> length (p_rest p') < length (p_rest p)"
proof -
  let ?p1 = "skipSpace p"
  from assms obtain p2 r where p2: "addNode L ?p1 = Inr p2" and s: "parseString (p_rest p2) = Inr (k, r)"
    and k: "k \<notin> set seen" and p': "p' = skipSpace (advance (skipSpace (p2\<lparr>p_rest := r\<rparr>)))"
    by (auto simp: parseKey_def Let_def result_simps split: if_splits)
  from p2 have n: "p_nodes p2 = p_nodes p + 1" "p_nodes p2 \<le> MaxNodes L" "p_depth p2 = p_depth p" "p_rest p2 = p_rest ?p1"
    by (auto simp: addNode_def split: if_splits)
  have "length r < length (p_rest p2)" "utf8_valid k" using parseString_Inr [OF s] by auto
  moreover have "length (p_rest p') \<le> length r"
    using skipSpace_len [of "advance (skipSpace (p2\<lparr>p_rest := r\<rparr>))"] skipSpace_len [of "p2\<lparr>p_rest := r\<rparr>"]
    by (simp add: p')
  moreover have "length (p_rest p2) \<le> length (p_rest p)" using n(4) skipSpace_len [of p] by simp
  ultimately show ?thesis using n k p' by simp
qed

lemma parseArray_Inr:
  assumes "parseArray els L p = Inr (v, p')" "p_rest p \<noteq> []"
    and els: "\<And>q vs q'. els q = Inr (vs, q') \<Longrightarrow> parsed_elems L q vs q'"
    and "p_nodes p \<le> MaxNodes L"
  shows "wf_value L v \<and> fits L (p_depth p) v \<and> p_nodes p' = p_nodes p + vnodes v - 1 \<and> p_nodes p' \<le> MaxNodes L
     \<and> p_depth p' = p_depth p \<and> length (p_rest p') < length (p_rest p)"
proof -
  from assms(1) have d: "p_depth p < MaxDepth L" by (auto simp: parseArray_def enter_def split: if_splits)
  let ?p1 = "p\<lparr>p_depth := p_depth p + 1\<rparr>"
  let ?p2 = "skipSpace (advance ?p1)"
  have l: "length (p_rest ?p2) < length (p_rest p)"
    using skipSpace_len [of "advance ?p1"] assms(2) by (cases "p_rest p") auto
  from assms(1) d consider (none) "v = VArray []" "p' = leave (advance ?p2)"
    | (some) vs p3 where "els ?p2 = Inr (vs, p3)" "v = VArray vs" "p' = leave p3"
    by (auto simp: parseArray_def enter_def Let_def result_simps split: if_splits)
  then show ?thesis
  proof cases
    case none
    then show ?thesis using d l assms(4) by (auto simp: fits_VArray leave_def)
  next
    case some
    from els [OF some(1)] show ?thesis
      using some(2,3) d l by (auto simp: parsed_elems_def fits_VArray leave_def list_all_iff)
  qed
qed

lemma parseObject_Inr:
  assumes "parseObject mem L p = Inr (v, p')" "p_rest p \<noteq> []"
    and mem: "\<And>q ms q'. mem q = Inr (ms, q') \<Longrightarrow> parsed_members L [] q ms q'"
    and "p_nodes p \<le> MaxNodes L"
  shows "wf_value L v \<and> fits L (p_depth p) v \<and> p_nodes p' = p_nodes p + vnodes v - 1 \<and> p_nodes p' \<le> MaxNodes L
     \<and> p_depth p' = p_depth p \<and> length (p_rest p') < length (p_rest p)"
proof -
  from assms(1) have d: "p_depth p < MaxDepth L" by (auto simp: parseObject_def enter_def split: if_splits)
  let ?p1 = "p\<lparr>p_depth := p_depth p + 1\<rparr>"
  let ?p2 = "skipSpace (advance ?p1)"
  have l: "length (p_rest ?p2) < length (p_rest p)"
    using skipSpace_len [of "advance ?p1"] assms(2) by (cases "p_rest p") auto
  from assms(1) d consider (none) "v = VObject []" "p' = leave (advance ?p2)"
    | (some) ms p3 where "mem ?p2 = Inr (ms, p3)" "v = VObject ms" "p' = leave p3"
    by (auto simp: parseObject_def enter_def Let_def result_simps split: if_splits)
  then show ?thesis
  proof cases
    case none
    then show ?thesis using d l assms(4) by (auto simp: fits_VObject leave_def)
  next
    case some
    from mem [OF some(1)] show ?thesis
      using some(2,3) d l by (auto simp: parsed_members_def fits_VObject leave_def list_all_iff)
  qed
qed

lemma parseSwitch_cases:
  assumes "parseSwitch arr obj L p = Inr (v, p')"
  obtains (literal) l where "l \<noteq> []" "parseLiteral l v p = Inr (v, p')" "v \<in> {VNull, VBool True, VBool False}"
    | (str) s r where "parseString (p_rest p) = Inr (s, r)" "v = VString s" "p' = p\<lparr>p_rest := r\<rparr>"
    | (num) n r where "parseNumber L (p_rest p) = Inr (n, r)" "v = VNumber n" "p' = p\<lparr>p_rest := r\<rparr>"
    | (array) "p_rest p \<noteq> []" "arr p = Inr (v, p')"
    | (object) "p_rest p \<noteq> []" "obj p = Inr (v, p')"
proof -
  from assms obtain c q where c: "p_rest p = c # q" by (auto simp: parseSwitch_def split: list.splits)
  consider "c = CHR ''n''" | "c = CHR ''t''" | "c = CHR ''f''" | "c = quote"
    | "c = CHR ''-'' \<or> isDigit c" "c \<noteq> CHR ''n''" "c \<noteq> CHR ''t''" "c \<noteq> CHR ''f''" "c \<noteq> quote"
    | "\<not> (c = CHR ''-'' \<or> isDigit c)" "c \<noteq> CHR ''n''" "c \<noteq> CHR ''t''" "c \<noteq> CHR ''f''" "c \<noteq> quote"
    by blast
  then show thesis
  proof cases
    case 1
    with assms c have "parseLiteral ''null'' VNull p = Inr (v, p')" by (simp add: parseSwitch_def)
    then show thesis by (intro literal [of "''null''"]) (auto simp: parseLiteral_def split: if_splits)
  next
    case 2
    with assms c have "parseLiteral ''true'' (VBool True) p = Inr (v, p')" by (simp add: parseSwitch_def)
    then show thesis by (intro literal [of "''true''"]) (auto simp: parseLiteral_def split: if_splits)
  next
    case 3
    with assms c have "parseLiteral ''false'' (VBool False) p = Inr (v, p')" by (simp add: parseSwitch_def)
    then show thesis by (intro literal [of "''false''"]) (auto simp: parseLiteral_def split: if_splits)
  next
    case 4
    with assms c str show thesis by (auto simp: parseSwitch_def result_simps)
  next
    case 5
    with assms c num show thesis by (auto simp: parseSwitch_def result_simps)
  next
    case 6
    with assms c array object show thesis by (auto simp: parseSwitch_def split: if_splits)
  qed
qed

lemma parse_sound:
  "parseValue f L p = Inr (v, p') \<Longrightarrow> parsed L p v p'"
  "parseElems f L p = Inr (vs, p') \<Longrightarrow> parsed_elems L p vs p'"
  "parseMembers f L seen p = Inr (ms, p') \<Longrightarrow> parsed_members L seen p ms p'"
proof (induction f L p and f L p and f L seen p arbitrary: v p' and vs p' and ms p'
    rule: parseValue_parseElems_parseMembers.induct)
  case (2 f L p)
  from "2.prems" obtain p1 where a: "addNode L p = Inr p1"
    and s: "parseSwitch (parseArray (parseElems f L) L) (parseObject (parseMembers f L []) L) L p1 = Inr (v, p')"
    by (auto simp: result_simps)
  from a have p1: "p_nodes p1 = p_nodes p + 1" "p_nodes p1 \<le> MaxNodes L" "p_depth p1 = p_depth p" "p_rest p1 = p_rest p"
    by (auto simp: addNode_def split: if_splits)
  from s show ?case
  proof (cases rule: parseSwitch_cases)
    case literal
    then show ?thesis using parseLiteral_Inr [OF literal(2,1)] p1 by (auto simp: parsed_def fits_def)
  next
    case str
    then show ?thesis using parseString_Inr [OF str(1)] p1 by (auto simp: parsed_def fits_def)
  next
    case num
    then show ?thesis using parseNumber_Inr [OF num(1)] p1 by (auto simp: parsed_def fits_def)
  next
    case array
    from parseArray_Inr [OF array(2,1) _ p1(2)] "2.IH"(1) [OF a] p1 show ?thesis by (simp add: parsed_def)
  next
    case object
    from parseObject_Inr [OF object(2,1) _ p1(2)] "2.IH"(2) [OF a] p1 show ?thesis by (simp add: parsed_def)
  qed
next
  case (4 f L p)
  from "4.prems" obtain v p1 again p2 where v: "parseValue f L (skipSpace p) = Inr (v, p1)"
    and sep: "separator (CHR '']'') UnterminatedArray InvalidArray p1 = Inr (again, p2)"
    and rest: "(if again then rbind (parseElems f L p2) (\<lambda>(vs, p3). Inr (v # vs, p3)) else Inr ([v], p2)) = Inr (vs, p')"
    by (auto simp: result_simps)
  note pv = "4.IH"(1) [OF v, unfolded parsed_def] and ps = separator_Inr [OF sep] and sk = skipSpace_len [of p]
  show ?case
  proof (cases again)
    case True
    with rest obtain ws where ws: "parseElems f L p2 = Inr (ws, p')" "vs = v # ws" by (auto simp: result_simps)
    from "4.IH"(2) [OF v refl sep refl True ws(1)] pv ps sk show ?thesis
      by (auto simp: parsed_elems_def ws(2))
  next
    case False
    with rest pv ps sk show ?thesis by (auto simp: parsed_elems_def)
  qed
next
  case (6 f L seen p)
  from "6.prems" obtain k p1 v p2 again p3 where k: "parseKey L seen p = Inr (k, p1)"
    and v: "parseValue f L p1 = Inr (v, p2)"
    and sep: "separator (CHR ''}'') UnterminatedObject InvalidObject p2 = Inr (again, p3)"
    and rest: "(if again then rbind (parseMembers f L (k # seen) p3) (\<lambda>(ms, p4). Inr ((k, v) # ms, p4))
       else Inr ([(k, v)], p3)) = Inr (ms, p')"
    by (auto simp: result_simps)
  note pk = parseKey_Inr [OF k] and pv = "6.IH"(1) [OF k refl v, unfolded parsed_def] and ps = separator_Inr [OF sep]
  show ?case
  proof (cases again)
    case True
    with rest obtain ns where ns: "parseMembers f L (k # seen) p3 = Inr (ns, p')" "ms = (k, v) # ns" by (auto simp: result_simps)
    from "6.IH"(2) [OF k refl v refl sep refl True ns(1)] pk pv ps show ?thesis
      by (auto simp: parsed_members_def ns(2))
  next
    case False
    with rest pk pv ps show ?thesis by (auto simp: parsed_members_def)
  qed
qed simp_all

section \<open>The fuel suffices\<close>

lemma string_errors: "parseString s \<noteq> Inl OutOfFuel"
proof -
  have h: "hex_value r u \<noteq> Inl OutOfFuel" for r u
    by (induction r u rule: hex_value.induct) (auto split: option.splits)
  have e: "decodeEscape u \<noteq> Inl OutOfFuel" for u
    using h by (auto simp: decodeEscape_def decodeUnicode_def parseHex4_def result_simps Let_def split: list.splits if_splits)
  have "parseStringBody u \<noteq> Inl OutOfFuel" for u
  proof (induction u rule: parseStringBody.induct)
    case (1 s)
    then show ?case
      using e by (subst parseStringBody.simps)
        (auto simp: rbind_eq_Inl_iff simp del: decode_rune.simps split: list.split prod.splits)
  qed
  then show ?thesis by (auto simp: parseString_def split: list.splits if_splits)
qed

lemma number_errors: "parseNumber L s \<noteq> Inl OutOfFuel"
proof -
  have x: "exp_digits v u \<noteq> Inl OutOfFuel" for v u by (induction v u rule: exp_digits.induct) auto
  have "scan_int u \<noteq> Inl OutOfFuel" "scan_frac u \<noteq> Inl OutOfFuel" "scan_exp u \<noteq> Inl OutOfFuel" for u
    using x by (auto simp: scan_int_def scan_frac_def scan_exp_def rbind_eq_Inl_iff split: list.splits if_splits prod.splits)
  then show ?thesis
    by (auto simp: parseNumber_def rbind_eq_Inl_iff Let_def split: prod.splits if_splits)
qed

lemma separator_errors: "e1 \<noteq> OutOfFuel \<Longrightarrow> e2 \<noteq> OutOfFuel \<Longrightarrow> separator c e1 e2 p \<noteq> Inl OutOfFuel"
  by (auto simp: separator_def Let_def split: list.splits if_splits)

lemma parseKey_errors: "parseKey L seen p \<noteq> Inl OutOfFuel"
  using string_errors by (auto simp: parseKey_def Let_def rbind_eq_Inl_iff addNode_def split: if_splits)

lemma parseSwitch_errors:
  assumes "p_rest p \<noteq> [] \<Longrightarrow> arr p \<noteq> Inl OutOfFuel" "p_rest p \<noteq> [] \<Longrightarrow> obj p \<noteq> Inl OutOfFuel"
  shows "parseSwitch arr obj L p \<noteq> Inl OutOfFuel"
  using assms string_errors number_errors
  by (auto simp: parseSwitch_def parseLiteral_def rbind_eq_Inl_iff split: list.splits if_splits)

lemma after_bracket: "p_rest p \<noteq> [] \<Longrightarrow> length (p_rest (skipSpace (advance p))) < length (p_rest p)"
  using skipSpace_len [of "advance p"] by (cases "p_rest p") auto

lemma parseArray_errors:
  assumes "p_rest p \<noteq> []" "\<And>q. length (p_rest q) < length (p_rest p) \<Longrightarrow> els q \<noteq> Inl OutOfFuel"
  shows "parseArray els L p \<noteq> Inl OutOfFuel"
  using assms after_bracket [of "p\<lparr>p_depth := p_depth p + 1\<rparr>"]
  by (auto simp: parseArray_def enter_def rbind_eq_Inl_iff Let_def split: if_splits)

lemma parseObject_errors:
  assumes "p_rest p \<noteq> []" "\<And>q. length (p_rest q) < length (p_rest p) \<Longrightarrow> mem q \<noteq> Inl OutOfFuel"
  shows "parseObject mem L p \<noteq> Inl OutOfFuel"
  using assms after_bracket [of "p\<lparr>p_depth := p_depth p + 1\<rparr>"]
  by (auto simp: parseObject_def enter_def rbind_eq_Inl_iff Let_def split: if_splits)

lemma enough_fuel:
  "2 * length (p_rest p) + 1 \<le> f \<Longrightarrow> parseValue f L p \<noteq> Inl OutOfFuel"
  "2 * length (p_rest p) + 2 \<le> f \<Longrightarrow> parseElems f L p \<noteq> Inl OutOfFuel"
  "2 * length (p_rest p) + 2 \<le> f \<Longrightarrow> parseMembers f L seen p \<noteq> Inl OutOfFuel"
proof (induction f L p and f L p and f L seen p rule: parseValue_parseElems_parseMembers.induct)
  case (2 f L p)
  have a: "addNode L p \<noteq> Inl OutOfFuel" by (simp add: addNode_def)
  have "parseSwitch (parseArray (parseElems f L) L) (parseObject (parseMembers f L []) L) L p1 \<noteq> Inl OutOfFuel"
    if p1: "addNode L p = Inr p1" for p1
  proof -
    from p1 have r: "p_rest p1 = p_rest p" by (auto simp: addNode_def split: if_splits)
    show ?thesis
      using "2.prems" r "2.IH" [OF p1]
      by (intro parseSwitch_errors parseArray_errors parseObject_errors) auto
  qed
  with a show ?case by (auto simp: rbind_eq_Inl_iff)
next
  case (4 f L p)
  have v: "parseValue f L (skipSpace p) \<noteq> Inl OutOfFuel" using "4.IH"(1) "4.prems" skipSpace_len [of p] by simp
  have "parseElems f L p2 \<noteq> Inl OutOfFuel"
    if *: "parseValue f L (skipSpace p) = Inr (v, p1)" "separator (CHR '']'') UnterminatedArray InvalidArray p1 = Inr (True, p2)" for v p1 p2
    using "4.IH"(2) [OF *(1) refl *(2) refl] "4.prems" parse_sound(1) [OF *(1)] separator_Inr [OF *(2)] skipSpace_len [of p]
    by (simp add: parsed_def)
  with v separator_errors [of UnterminatedArray InvalidArray] show ?case by (auto simp: rbind_eq_Inl_iff)
next
  case (6 f L seen p)
  have v: "parseValue f L p1 \<noteq> Inl OutOfFuel" if *: "parseKey L seen p = Inr (k, p1)" for k p1
    using "6.IH"(1) [OF *] "6.prems" parseKey_Inr [OF *] by simp
  have m: "parseMembers f L (k # seen) p3 \<noteq> Inl OutOfFuel"
    if *: "parseKey L seen p = Inr (k, p1)" "parseValue f L p1 = Inr (v, p2)"
      "separator (CHR ''}'') UnterminatedObject InvalidObject p2 = Inr (True, p3)" for k p1 v p2 p3
    using "6.IH"(2) [OF *(1) refl *(2) refl *(3) refl] "6.prems" parse_sound(1) [OF *(2)] separator_Inr [OF *(3)]
      parseKey_Inr [OF *(1)]
    by (simp add: parsed_def)
  show ?case
    using v m parseKey_errors separator_errors [of UnterminatedObject InvalidObject]
    by (auto simp: rbind_eq_Inl_iff)
qed simp_all

section \<open>Canonical form\<close>

text \<open>The value with every object's members sorted by key, and the printer that keeps the order.\<close>

fun canon :: "value \<Rightarrow> value" where
  "canon (VArray vs) = VArray (map canon vs)"
| "canon (VObject ms) = VObject (sort_key fst (map (\<lambda>(k, v). (k, canon v)) ms))"
| "canon v = v"

fun print :: "value \<Rightarrow> string" where
  "print VNull = ''null''"
| "print (VBool b) = (if b then ''true'' else ''false'')"
| "print (VNumber n) = n"
| "print (VString s) = writeJSONString s"
| "print (VArray vs) = CHR ''['' # commas (map print vs) @ '']''"
| "print (VObject ms) = CHR ''{'' # commas (map (\<lambda>(k, v). writeJSONString k @ CHR '':'' # print v) ms) @ ''}''"
| "print VInvalid = []"

lemma insort_map_snd: "insort_key fst (k, g v) (map (\<lambda>(k, v). (k, g v)) ms) = map (\<lambda>(k, v). (k, g v)) (insort_key fst (k, v) ms)"
  by (induction ms) auto

lemma sort_key_map_snd: "sort_key fst (map (\<lambda>(k, v). (k, g v)) ms) = map (\<lambda>(k, v). (k, g v)) (sort_key fst ms)"
  by (induction ms) (auto simp: insort_map_snd)

lemmas sort_key_map_snd' = sort_key_map_snd [unfolded case_prod_unfold]

lemma sum_list_insort: "sum_list (map g (insort_key h x xs)) = g x + sum_list (map g xs)" for g :: "_ \<Rightarrow> int"
  by (induction xs) auto

lemma sum_list_sort: "sum_list (map g (sort_key h xs)) = sum_list (map g xs)" for g :: "_ \<Rightarrow> int"
  by (induction xs) (auto simp: sum_list_insort)

lemma rmap_all: "(\<And>x. x \<in> set xs \<Longrightarrow> f x = Inr (g x)) \<Longrightarrow> rmap f xs = Inr (map g xs)"
  by (induction xs) auto

lemma writeCanonical_print: "wf_value L v \<Longrightarrow> writeCanonical v = Inr (print (canon v))"
proof (induction v)
  case (VNumber n)
  then show ?case using parseNumber_split(2) [of L n n "[]"] by simp
next
  case (VArray vs)
  then have "rmap writeCanonical vs = Inr (map (print \<circ> canon) vs)" by (intro rmap_all) (auto simp: list_all_iff)
  then show ?case by simp
next
  case (VObject ms)
  have "rmap (\<lambda>(k, v). rbind (writeCanonical v) (\<lambda>s. Inr (writeJSONString k @ CHR '':'' # s))) (sort_key fst ms)
      = Inr (map (\<lambda>(k, v). writeJSONString k @ CHR '':'' # print (canon v)) (sort_key fst ms))"
    using VObject by (intro rmap_all) (fastforce simp: list_all_iff)
  then show ?case by (simp add: sort_key_map_snd' comp_def case_prod_unfold)
qed auto

lemma fst_snd_map: "map fst (map (\<lambda>(k, v). (k, g v)) ms) = map fst ms"
  by (induction ms) auto

lemma distinct_sort_fst: "distinct (map fst ms) \<Longrightarrow> distinct (map fst (sort_key fst ms))"
proof (induction ms)
  case (Cons m ms)
  have "distinct (map fst (insort_key fst m xs))" if "distinct (map fst xs)" "fst m \<notin> fst ` set xs" for xs
    using that by (induction xs) (auto simp: set_insort_key)
  with Cons show ?case by simp
qed simp

lemma wf_canon: "wf_value L v \<Longrightarrow> wf_value L (canon v)"
proof (induction v)
  case (VObject ms)
  have "distinct (map fst (sort_key fst (map (\<lambda>(k, v). (k, canon v)) ms)))"
    using VObject.prems by (intro distinct_sort_fst) (simp add: fst_snd_map del: map_map)
  moreover have "list_all (\<lambda>(k, v). utf8_valid k \<and> wf_value L v) (sort_key fst (map (\<lambda>(k, v). (k, canon v)) ms))"
    using VObject by (fastforce simp: list_all_iff)
  ultimately show ?case by simp
qed (auto simp: list_all_iff)

lemma vnodes_canon: "vnodes (canon v) = vnodes v"
proof (induction v)
  case (VArray vs)
  then show ?case by (simp add: comp_def cong: map_cong)
next
  case (VObject ms)
  have "map (\<lambda>x. 1 + vnodes (canon (snd x))) ms = map (\<lambda>x. 1 + vnodes (snd x)) ms"
    using VObject by (auto intro!: snds.intros)
  then show ?case by (simp only: canon.simps vnodes.simps sum_list_sort map_map comp_def case_prod_unfold fst_conv snd_conv)
qed auto

lemma fits_canon: "fits L d v \<Longrightarrow> fits L d (canon v)"
proof (induction v arbitrary: d)
  case (VArray vs)
  then show ?case by (auto simp: fits_VArray)
next
  case (VObject ms)
  then show ?case by (fastforce simp: fits_VObject)
qed auto

section \<open>Printed values parse back\<close>

lemma skipSpace_id: "stops isSpace (p_rest p) \<Longrightarrow> skipSpace p = p"
  by (cases "p_rest p") (auto simp: skipSpace_def)

lemma digit_not: "isDigit c \<Longrightarrow> \<not> isSpace c \<and> c \<noteq> CHR ''n'' \<and> c \<noteq> CHR ''t'' \<and> c \<noteq> CHR ''f'' \<and> c \<noteq> quote
    \<and> c \<noteq> CHR '']'' \<and> c \<noteq> CHR ''}'' \<and> c \<noteq> CHR ''-''"
  by (auto simp: isDigit_def isSpace_def)

lemma print_head:
  assumes "wf_value L v"
  obtains c s where "print v = c # s" "\<not> isSpace c" "c \<noteq> CHR '']''" "c \<noteq> CHR ''}''"
proof -
  have "\<exists>c s. print v = c # s \<and> \<not> isSpace c \<and> c \<noteq> CHR '']'' \<and> c \<noteq> CHR ''}''"
  proof (cases v)
    case (VNumber n)
    with assms have n: "n \<noteq> []" "isDigit (hd n) \<or> hd n = CHR ''-''" using parseNumber_split(2,3) [of L n n "[]"] by auto
    have "\<not> isSpace (CHR ''-'')" by (simp add: isSpace_def)
    with n(2) digit_not [of "hd n"] have "\<not> isSpace (hd n)" "hd n \<noteq> CHR '']''" "hd n \<noteq> CHR ''}''" by auto
    moreover have "print v = hd n # tl n" using VNumber n(1) by simp
    ultimately show ?thesis by blast
  qed (use assms in \<open>auto simp: isSpace_def writeJSONString_def\<close>)
  with that show thesis by blast
qed

lemma separator_again:
  "p_rest p = CHR '','' # t \<Longrightarrow> separator c e1 e2 p = Inr (True, p\<lparr>p_rest := t\<rparr>)"
  by (simp add: separator_def skipSpace_id isSpace_def advance_def)

lemma separator_close:
  "p_rest p = c # t \<Longrightarrow> c = CHR '']'' \<or> c = CHR ''}'' \<Longrightarrow> separator c e1 e2 p = Inr (False, p\<lparr>p_rest := t\<rparr>)"
  by (auto simp: separator_def skipSpace_id isSpace_def advance_def)

definition reparses :: "limits \<Rightarrow> value \<Rightarrow> bool" where
  "reparses L v \<longleftrightarrow> (\<forall>f p t. fits L (p_depth p) v \<longrightarrow> p_nodes p + vnodes v \<le> MaxNodes L \<longrightarrow>
     p_rest p = print v @ t \<longrightarrow> stops number_char t \<longrightarrow> 2 * length (p_rest p) + 1 \<le> f \<longrightarrow>
     parseValue f L p = Inr (v, p\<lparr>p_rest := t, p_nodes := p_nodes p + vnodes v\<rparr>))"

lemma reparsesD:
  "reparses L v \<Longrightarrow> fits L (p_depth p) v \<Longrightarrow> p_nodes p + vnodes v \<le> MaxNodes L \<Longrightarrow>
     p_rest p = print v @ t \<Longrightarrow> stops number_char t \<Longrightarrow> 2 * length (p_rest p) + 1 \<le> f \<Longrightarrow>
     parseValue f L p = Inr (v, p\<lparr>p_rest := t, p_nodes := p_nodes p + vnodes v\<rparr>)"
  unfolding reparses_def by blast

lemma vnodes_pos: "0 < vnodes v"
proof (induction v)
  case (VArray vs)
  have "0 \<le> sum_list (map vnodes vs)" using VArray by (intro sum_list_nonneg) force
  then show ?case by simp
next
  case (VObject ms)
  have "0 \<le> sum_list (map (\<lambda>(k, v). 1 + vnodes v) ms)" using VObject by (intro sum_list_nonneg) (force intro: snds.intros)
  then show ?case by simp
qed auto

lemma sum_nodes_nonneg: "0 \<le> sum_list (map vnodes vs)" "0 \<le> sum_list (map (\<lambda>(k, v). 1 + vnodes v) ms)"
  by (rule sum_list_nonneg; use vnodes_pos in \<open>force simp: less_imp_le\<close>)+

lemma number_stop: "stops number_char (CHR '','' # t)" "stops number_char (CHR '']'' # t)" "stops number_char (CHR ''}'' # t)"
  by (simp_all add: number_char_def isDigit_def)

lemma parseElems_print:
  assumes "vs \<noteq> []" "\<And>v. v \<in> set vs \<Longrightarrow> reparses L v \<and> wf_value L v \<and> fits L (p_depth p) v"
    "p_nodes p + sum_list (map vnodes vs) \<le> MaxNodes L" "p_rest p = commas (map print vs) @ CHR '']'' # t"
    "2 * length (p_rest p) + 2 \<le> f"
  shows "parseElems f L p = Inr (vs, p\<lparr>p_rest := t, p_nodes := p_nodes p + sum_list (map vnodes vs)\<rparr>)"
  using assms
proof (induction vs arbitrary: p f)
  case (Cons v vs)
  obtain g where f: "f = Suc g" using Cons.prems(5) by (cases f) auto
  obtain c s where h: "print v = c # s" "\<not> isSpace c"
    using print_head [of L v] Cons.prems(2) [of v] by (metis list.set_intros(1))
  let ?u = "if vs = [] then CHR '']'' # t else CHR '','' # commas (map print vs) @ CHR '']'' # t"
  have r: "p_rest p = print v @ ?u" using Cons.prems(4) by (cases vs) auto
  have sk: "skipSpace p = p" using r h by (intro skipSpace_id) auto
  have nn: "p_nodes p + vnodes v \<le> MaxNodes L" using Cons.prems(3) sum_nodes_nonneg(1) [of vs] by simp
  let ?p1 = "p\<lparr>p_rest := ?u, p_nodes := p_nodes p + vnodes v\<rparr>"
  have v: "parseValue g L p = Inr (v, ?p1)"
    using Cons.prems(2,5) nn r f number_stop by (intro reparsesD) auto
  show ?case
  proof (cases "vs = []")
    case True
    have "separator (CHR '']'') UnterminatedArray InvalidArray ?p1 = Inr (False, ?p1\<lparr>p_rest := t\<rparr>)"
      using True by (intro separator_close) auto
    then show ?thesis using v sk f True by simp
  next
    case False
    let ?p2 = "?p1\<lparr>p_rest := commas (map print vs) @ CHR '']'' # t\<rparr>"
    have s: "separator (CHR '']'') UnterminatedArray InvalidArray ?p1 = Inr (True, ?p2)"
      using False by (intro separator_again) auto
    have "parseElems g L ?p2 = Inr (vs, ?p2\<lparr>p_rest := t, p_nodes := p_nodes ?p2 + sum_list (map vnodes vs)\<rparr>)"
      using Cons.prems False f r h by (intro Cons.IH) auto
    then show ?thesis using v s sk f by (simp add: algebra_simps)
  qed
qed simp

abbreviation member_text :: "string \<times> value \<Rightarrow> string" where
  "member_text m \<equiv> (case m of (k, v) \<Rightarrow> writeJSONString k @ CHR '':'' # print v)"

lemma parseKey_print:
  assumes "utf8_valid k" "k \<notin> set seen" "p_nodes p < MaxNodes L" "p_rest p = writeJSONString k @ CHR '':'' # t"
    "stops isSpace t"
  shows "parseKey L seen p = Inr (k, p\<lparr>p_rest := t, p_nodes := p_nodes p + 1\<rparr>)"
proof -
  have h: "p_rest p = quote # tl (p_rest p)" using assms(4) by (simp add: writeJSONString_def)
  have s1: "skipSpace p = p" by (rule skipSpace_id, subst h) (simp add: isSpace_def)
  have ps: "parseString (p_rest p) = Inr (k, CHR '':'' # t)" using assms(1,4) by (simp add: parseString_print)
  let ?p2 = "p\<lparr>p_nodes := p_nodes p + 1\<rparr>"
  have s2: "skipSpace (?p2\<lparr>p_rest := CHR '':'' # t\<rparr>) = ?p2\<lparr>p_rest := CHR '':'' # t\<rparr>"
    by (rule skipSpace_id) (simp add: isSpace_def)
  have s3: "skipSpace (?p2\<lparr>p_rest := t\<rparr>) = ?p2\<lparr>p_rest := t\<rparr>" using assms(5) by (intro skipSpace_id) simp
  have hd: "p_rest p \<noteq> []" "hd (p_rest p) = quote" by (subst h, simp)+
  show ?thesis
    using assms(2,3) ps s2 s3 hd by (simp add: parseKey_def s1 addNode_def advance_def)
qed

lemma parseMembers_print:
  assumes "ms \<noteq> []" "\<And>k v. (k, v) \<in> set ms \<Longrightarrow> utf8_valid k \<and> reparses L v \<and> wf_value L v \<and> fits L (p_depth p) v"
    "distinct (map fst ms)" "fst ` set ms \<inter> set seen = {}"
    "p_nodes p + sum_list (map (\<lambda>(k, v). 1 + vnodes v) ms) \<le> MaxNodes L"
    "p_rest p = commas (map member_text ms) @ CHR ''}'' # t" "2 * length (p_rest p) + 2 \<le> f"
  shows "parseMembers f L seen p
    = Inr (ms, p\<lparr>p_rest := t, p_nodes := p_nodes p + sum_list (map (\<lambda>(k, v). 1 + vnodes v) ms)\<rparr>)"
  using assms
proof (induction ms arbitrary: p f seen)
  case (Cons m ms)
  obtain k v where m: "m = (k, v)" by (cases m)
  obtain g where f: "f = Suc g" using Cons.prems(7) by (cases f) auto
  have wf: "utf8_valid k" "reparses L v" "wf_value L v" "fits L (p_depth p) v" using Cons.prems(2) m by auto
  obtain c s where h: "print v = c # s" "\<not> isSpace c" using print_head [OF wf(3)] by metis
  let ?u = "if ms = [] then CHR ''}'' # t else CHR '','' # commas (map member_text ms) @ CHR ''}'' # t"
  have r: "p_rest p = writeJSONString k @ CHR '':'' # print v @ ?u" using Cons.prems(6) m by (cases ms) auto
  have nn: "p_nodes p + 1 + vnodes v \<le> MaxNodes L" using Cons.prems(5) sum_nodes_nonneg(2) [of ms] m by simp
  let ?p1 = "p\<lparr>p_rest := print v @ ?u, p_nodes := p_nodes p + 1\<rparr>"
  have k: "parseKey L seen p = Inr (k, ?p1)"
    using wf(1) Cons.prems(4) m nn vnodes_pos [of v] r h by (intro parseKey_print) auto
  let ?p2 = "?p1\<lparr>p_rest := ?u, p_nodes := p_nodes ?p1 + vnodes v\<rparr>"
  have v: "parseValue g L ?p1 = Inr (v, ?p2)"
    using wf nn r f Cons.prems(7) number_stop by (intro reparsesD) auto
  show ?case
  proof (cases "ms = []")
    case True
    have "separator (CHR ''}'') UnterminatedObject InvalidObject ?p2 = Inr (False, ?p2\<lparr>p_rest := t\<rparr>)"
      using True by (intro separator_close) auto
    then show ?thesis using k v f m True by (simp add: algebra_simps)
  next
    case False
    let ?p3 = "?p2\<lparr>p_rest := commas (map member_text ms) @ CHR ''}'' # t\<rparr>"
    have s: "separator (CHR ''}'') UnterminatedObject InvalidObject ?p2 = Inr (True, ?p3)"
      using False by (intro separator_again) auto
    have "parseMembers g L (k # seen) ?p3
        = Inr (ms, ?p3\<lparr>p_rest := t, p_nodes := p_nodes ?p3 + sum_list (map (\<lambda>(k, v). 1 + vnodes v) ms)\<rparr>)"
      using Cons.prems False f r h m by (intro Cons.IH) auto
    then show ?thesis using k v s f m by (simp add: algebra_simps)
  qed
qed simp

lemma elems_head:
  assumes "vs \<noteq> []" "list_all (wf_value L) vs"
  shows "stops isSpace (commas (map print vs) @ t)" "hd (commas (map print vs) @ t) \<noteq> CHR '']''"
    "commas (map print vs) \<noteq> []"
proof -
  obtain v ws where vs: "vs = v # ws" using assms(1) by (cases vs) auto
  then obtain c s where h: "print v = c # s" "\<not> isSpace c" "c \<noteq> CHR '']''" using print_head [of L v] assms(2) by (metis list.pred_inject(2))
  then have "\<exists>s'. commas (map print vs) = c # s'" using vs by (cases ws) auto
  with h show "stops isSpace (commas (map print vs) @ t)" "hd (commas (map print vs) @ t) \<noteq> CHR '']''"
    "commas (map print vs) \<noteq> []" by auto
qed

lemma members_head:
  assumes "ms \<noteq> []"
  obtains s where "commas (map member_text ms) = quote # s"
  using assms that by (cases ms rule: remdups_adj.cases) (auto simp: writeJSONString_def)

lemma reparses_VArray:
  assumes "wf_value L (VArray vs)" "\<And>v. v \<in> set vs \<Longrightarrow> reparses L v"
  shows "reparses L (VArray vs)"
proof -
  show ?thesis
    unfolding reparses_def
  proof (intro allI impI)
    fix f and p :: parser and t
    assume a: "fits L (p_depth p) (VArray vs)" "p_nodes p + vnodes (VArray vs) \<le> MaxNodes L"
      "p_rest p = print (VArray vs) @ t" "stops number_char t" "2 * length (p_rest p) + 1 \<le> f"
    obtain g where f: "f = Suc g" using a(5) by (cases f) auto
    let ?s = "sum_list (map vnodes vs)" and ?b = "commas (map print vs) @ CHR '']'' # t"
    let ?p1 = "p\<lparr>p_nodes := p_nodes p + 1\<rparr>"
    let ?p2 = "?p1\<lparr>p_depth := p_depth p + 1, p_rest := ?b\<rparr>"
    have d: "p_depth p < MaxDepth L" using a(1) by (simp add: fits_VArray)
    have r: "p_rest p = CHR ''['' # ?b" using a(3) by simp
    have n: "addNode L p = Inr ?p1" using a(2) sum_nodes_nonneg(1) [of vs] by (simp add: addNode_def)
    have sw: "parseSwitch arr obj L ?p1 = arr ?p1" for arr obj using r by (simp add: parseSwitch_def isDigit_def)
    have en: "enter L ?p1 = Inr (?p1\<lparr>p_depth := p_depth p + 1\<rparr>)" using d by (simp add: enter_def)
    have ad: "skipSpace (advance (?p1\<lparr>p_depth := p_depth p + 1\<rparr>)) = ?p2"
    proof (cases "vs = []")
      case True
      then show ?thesis using r by (simp add: advance_def skipSpace_def isSpace_def)
    next
      case False
      then show ?thesis
        using r elems_head(1) [OF False, of L "CHR '']'' # t"] assms
        by (subst skipSpace_id) (auto simp: advance_def)
    qed
    show "parseValue f L p = Inr (VArray vs, p\<lparr>p_rest := t, p_nodes := p_nodes p + vnodes (VArray vs)\<rparr>)"
    proof (cases "vs = []")
      case True
      then show ?thesis using f n sw ad en by (simp add: parseArray_def Let_def advance_def leave_def)
    next
      case False
      have "parseElems g L ?p2 = Inr (vs, ?p2\<lparr>p_rest := t, p_nodes := p_nodes ?p2 + ?s\<rparr>)"
        using assms a f r d False by (intro parseElems_print) (auto simp: fits_VArray list_all_iff)
      then show ?thesis
        using f n sw ad en elems_head(2) [OF False, of L "CHR '']'' # t"] assms
        by (simp add: parseArray_def Let_def leave_def algebra_simps)
    qed
  qed
qed

lemma reparses_VObject:
  assumes "wf_value L (VObject ms)" "\<And>k v. (k, v) \<in> set ms \<Longrightarrow> reparses L v"
  shows "reparses L (VObject ms)"
proof -
  show ?thesis
    unfolding reparses_def
  proof (intro allI impI)
    fix f and p :: parser and t
    assume a: "fits L (p_depth p) (VObject ms)" "p_nodes p + vnodes (VObject ms) \<le> MaxNodes L"
      "p_rest p = print (VObject ms) @ t" "stops number_char t" "2 * length (p_rest p) + 1 \<le> f"
    obtain g where f: "f = Suc g" using a(5) by (cases f) auto
    let ?s = "sum_list (map (\<lambda>(k, v). 1 + vnodes v) ms)" and ?b = "commas (map member_text ms) @ CHR ''}'' # t"
    let ?p1 = "p\<lparr>p_nodes := p_nodes p + 1\<rparr>"
    let ?p2 = "?p1\<lparr>p_depth := p_depth p + 1, p_rest := ?b\<rparr>"
    have d: "p_depth p < MaxDepth L" using a(1) by (simp add: fits_VObject)
    have r: "p_rest p = CHR ''{'' # ?b" using a(3) by simp
    have n: "addNode L p = Inr ?p1" using a(2) sum_nodes_nonneg(2) [of ms] by (simp add: addNode_def)
    have sw: "parseSwitch arr obj L ?p1 = obj ?p1" for arr obj using r by (simp add: parseSwitch_def isDigit_def)
    have en: "enter L ?p1 = Inr (?p1\<lparr>p_depth := p_depth p + 1\<rparr>)" using d by (simp add: enter_def)
    have ad: "skipSpace (advance (?p1\<lparr>p_depth := p_depth p + 1\<rparr>)) = ?p2"
    proof (cases "ms = []")
      case True
      then show ?thesis using r by (simp add: advance_def skipSpace_def isSpace_def)
    next
      case False
      then obtain s where "commas (map member_text ms) = quote # s" by (rule members_head)
      then show ?thesis using r by (subst skipSpace_id) (auto simp: advance_def isSpace_def)
    qed
    show "parseValue f L p = Inr (VObject ms, p\<lparr>p_rest := t, p_nodes := p_nodes p + vnodes (VObject ms)\<rparr>)"
    proof (cases "ms = []")
      case True
      then show ?thesis using f n sw ad en by (simp add: parseObject_def Let_def advance_def leave_def)
    next
      case False
      then obtain s where hd: "commas (map member_text ms) = quote # s" by (rule members_head)
      have re: "utf8_valid k \<and> reparses L v \<and> wf_value L v \<and> fits L (p_depth ?p2) v" if kv: "(k, v) \<in> set ms" for k v
        using assms a(1) kv by (auto simp: fits_VObject list_all_iff)
      have "parseMembers g L [] ?p2 = Inr (ms, ?p2\<lparr>p_rest := t, p_nodes := p_nodes ?p2 + ?s\<rparr>)"
        using assms a f r d False re by (intro parseMembers_print) auto
      then show ?thesis
        using f n sw ad en hd by (simp add: parseObject_def Let_def leave_def algebra_simps)
    qed
  qed
qed

lemma parseSwitch_quote:
  "p_rest p = quote # q \<Longrightarrow> parseSwitch arr obj L p
     = rbind (parseString (p_rest p)) (\<lambda>(s, r). Inr (VString s, p\<lparr>p_rest := r\<rparr>))"
  by (simp add: parseSwitch_def)

lemma reparses_scalar:
  assumes "wf_value L v" "v \<in> {VNull, VBool b, VNumber n, VString s}"
  shows "reparses L v"
  unfolding reparses_def
proof (intro allI impI)
  fix f and p :: parser and t
  assume a: "p_nodes p + vnodes v \<le> MaxNodes L" "p_rest p = print v @ t" "stops number_char t"
    "2 * length (p_rest p) + 1 \<le> f"
  obtain g where f: "f = Suc g" using a(4) by (cases f) auto
  let ?p1 = "p\<lparr>p_nodes := p_nodes p + 1\<rparr>"
  have n: "addNode L p = Inr ?p1" using a(1) assms(2) by (auto simp: addNode_def)
  have "parseSwitch arr obj L ?p1 = Inr (v, ?p1\<lparr>p_rest := t\<rparr>)" for arr obj
  proof (cases v)
    case (VNumber m)
    have m: "parseNumber L m = Inr (m, [])" using assms(1) VNumber by simp
    obtain c q where c: "m = c # q" "isDigit c \<or> c = CHR ''-''" using parseNumber_split(2,3) [OF m] by (cases m) auto
    have "c \<noteq> CHR ''n'' \<and> c \<noteq> CHR ''t'' \<and> c \<noteq> CHR ''f'' \<and> c \<noteq> quote" using c(2) digit_not [of c] by auto
    then show ?thesis using parseNumber_split(4) [OF m a(3)] a(2) c VNumber by (auto simp: parseSwitch_def)
  next
    case (VString u)
    have r: "p_rest p = writeJSONString u @ t" using a(2) VString by simp
    then obtain q where q: "p_rest ?p1 = quote # q" by (simp add: writeJSONString_def)
    have "parseString (p_rest ?p1) = Inr (u, t)" using parseString_print [of u t] assms(1) VString r by simp
    then show ?thesis unfolding parseSwitch_quote [OF q] using VString by simp
  qed (use assms a(2) in \<open>auto simp: parseSwitch_def parseLiteral_def\<close>)
  then show "parseValue f L p = Inr (v, p\<lparr>p_rest := t, p_nodes := p_nodes p + vnodes v\<rparr>)"
    using f n assms(2) by auto
qed

lemma wf_reparses: "wf_value L v \<Longrightarrow> reparses L v"
proof (induction v)
  case (VArray vs)
  then show ?case by (intro reparses_VArray) (auto simp: list_all_iff)
next
  case (VObject ms)
  then show ?case by (intro reparses_VObject) (fastforce simp: list_all_iff)+
qed (auto intro: reparses_scalar)

text \<open>The public entry point, on a value the given limits admit.\<close>

definition admitted :: "limits \<Rightarrow> value \<Rightarrow> bool" where
  "admitted L v \<longleftrightarrow> wf_value L v \<and> vdepth v \<le> MaxDepth L \<and> vnodes v \<le> MaxNodes L"

definition positive_limits :: "limits \<Rightarrow> bool" where
  "positive_limits L \<longleftrightarrow> 0 < MaxDepth L \<and> 0 < MaxNodes L \<and> 0 < MaxNumberBytes L \<and> 0 < MaxExponent L
     \<and> 0 < MaxScale L"

lemma normalize_positive: "positive_limits L \<Longrightarrow> normalizeParseLimits L = L"
  by (cases L) (auto simp: positive_limits_def normalizeParseLimits_def)

lemma positive_normalize: "positive_limits (normalizeParseLimits L)"
  by (auto simp: positive_limits_def normalizeParseLimits_def)

lemma Parse_admitted:
  assumes "Parse raw L = Inr v"
  shows "admitted (normalizeParseLimits L) v"
proof -
  let ?L = "normalizeParseLimits L" and ?p = "skipSpace \<lparr>p_rest = raw, p_depth = 0, p_nodes = 0\<rparr>"
  from assms obtain p1 where "parseValue (2 * length raw + 1) ?L ?p = Inr (v, p1)"
    by (auto simp: Parse_def Let_def result_simps simp del: parseValue.simps split: if_splits)
  from parse_sound(1) [OF this] show ?thesis
    using positive_normalize [of L] by (auto simp: admitted_def parsed_def fits_def positive_limits_def)
qed

lemma print_nonempty: "wf_value L v \<Longrightarrow> print v \<noteq> []"
  by (erule print_head) simp

lemma Parse_print:
  assumes "positive_limits L" "admitted L v"
  shows "Parse (print v) L = Inr v"
proof -
  let ?p = "\<lparr>p_rest = print v, p_depth = 0, p_nodes = 0\<rparr>"
  have wf: "wf_value L v" using assms(2) by (simp add: admitted_def)
  obtain c s where h: "print v = c # s" "\<not> isSpace c" using print_head [OF wf] by metis
  have sk: "skipSpace ?p = ?p" using h by (intro skipSpace_id) simp
  have "parseValue (2 * length (print v) + 1) L ?p = Inr (v, ?p\<lparr>p_rest := [], p_nodes := p_nodes ?p + vnodes v\<rparr>)"
    using wf_reparses [OF wf] assms(2) by (intro reparsesD) (auto simp: admitted_def fits_def)
  then show ?thesis
    using sk h assms(1) by (simp add: Parse_def normalize_positive Let_def skipSpace_def)
qed

section \<open>Properties\<close>

lemma canon_canon: "canon (canon v) = canon v"
proof (induction v)
  case (VObject ms)
  have "map (\<lambda>(k, v). (k, canon v)) (sort_key fst (map (\<lambda>(k, v). (k, canon v)) ms))
      = sort_key fst (map (\<lambda>(k, v). (k, canon v)) ms)"
    using VObject by (intro map_idI) (force simp: snds.simps)
  then show ?case by (simp add: sort_key_id_if_sorted del: sort_key_map_snd)
qed auto

lemma positive_canonical: "positive_limits canonicalLimits"
  by (simp add: positive_limits_def canonicalLimits_def)

lemmas normalize_canonical = normalize_positive [OF positive_canonical]

lemma canonical_admitted:
  assumes "positive_limits L" "admitted L v"
  shows "CanonicalValue v = Inr (print (canon v)) \<and> Parse (print (canon v)) L = Inr (canon v)"
proof -
  have wf: "wf_value L v" using assms(2) by (simp add: admitted_def)
  have "fits L 0 (canon v)" using assms(2) by (intro fits_canon) (simp add: admitted_def fits_def)
  then have "admitted L (canon v)"
    using assms wf_canon [OF wf] vnodes_canon [of v] by (auto simp: admitted_def fits_def positive_limits_def)
  then show ?thesis
    using writeCanonical_print [OF wf] Parse_print [OF assms(1)] by (simp add: CanonicalValue_def)
qed

lemma parsed_admitted: "Parse raw canonicalLimits = Inr v \<Longrightarrow> admitted canonicalLimits v"
  using Parse_admitted [of raw canonicalLimits v] by (simp add: normalize_canonical)

lemma parsed_wf: "Parse raw canonicalLimits = Inr v \<Longrightarrow> wf_value canonicalLimits v"
  by (drule parsed_admitted) (simp add: admitted_def)

lemma parsed_canonical:
  "Parse raw canonicalLimits = Inr v \<Longrightarrow>
     \<exists>c. CanonicalValue v = Inr c \<and> Parse c canonicalLimits = Inr (canon v)"
  using canonical_admitted [OF positive_canonical parsed_admitted] by blast

text \<open>C8 (roundtrip). The canonical encoding of any value within the limits parses, under the same
  limits, to that value with its object members sorted by key: the canonical printer loses nothing but
  member order.\<close>

theorem canonical_value_parses:
  assumes "positive_limits L" and "admitted L v"
  shows "\<exists>c. CanonicalValue v = Inr c \<and> Parse c L = Inr (canon v)"
  using canonical_admitted [OF assms] by blast

theorem canonical_value_parses_witness:
  "\<exists>c. CanonicalValue (VObject [(''b'', VArray [VNumber ''1.5e3'']), (''a'', VNull)]) = Inr c
     \<and> Parse c ObjectLimits = Inr (canon (VObject [(''b'', VArray [VNumber ''1.5e3'']), (''a'', VNull)]))"
  by (rule canonical_value_parses) code_simp+

text \<open>Canonical text is a fixed point: re-canonicalising a canonical encoding gives
  the same bytes.\<close>

theorem canonical_idempotent:
  assumes "Canonical raw = Inr c"
  shows "Canonical c = Inr c"
proof -
  obtain v where v: "Parse raw canonicalLimits = Inr v" "CanonicalValue v = Inr c"
    using assms by (auto simp: Canonical_def result_simps)
  have wf: "wf_value canonicalLimits v" using v(1) by (rule parsed_wf)
  have p: "Parse c canonicalLimits = Inr (canon v)" using parsed_canonical [OF v(1)] v(2) by simp
  have "CanonicalValue (canon v) = Inr (print (canon v))"
    using writeCanonical_print [OF wf_canon [OF wf]] by (simp add: CanonicalValue_def canon_canon)
  also have "\<dots> = Inr c" using writeCanonical_print [OF wf] v(2) by (simp add: CanonicalValue_def)
  finally show ?thesis using p by (simp add: Canonical_def)
qed

theorem canonical_idempotent_witness:
  "Canonical ''{\"a\":[1],\"b\":true}'' = Inr ''{\"a\":[1],\"b\":true}''"
proof -
  have "Canonical ''{ \"b\" : true, \"a\" : [1] }'' = Inr ''{\"a\":[1],\"b\":true}''" by code_simp
  then show ?thesis by (rule canonical_idempotent)
qed

text \<open>C25 (equivalence). On two texts that parse, \<^verbatim>\<open>Equal\<close> holds exactly when the parsed values
  agree up to the order of object members.\<close>

theorem equal_iff_canon:
  assumes "Parse l canonicalLimits = Inr v" and "Parse r canonicalLimits = Inr w"
  shows "Equal l r \<longleftrightarrow> canon v = canon w"
proof -
  obtain cv cw where c: "CanonicalValue v = Inr cv" "CanonicalValue w = Inr cw"
    "Parse cv canonicalLimits = Inr (canon v)" "Parse cw canonicalLimits = Inr (canon w)"
    using parsed_canonical assms by metis
  have "cv = cw \<longleftrightarrow> canon v = canon w"
  proof
    assume "canon v = canon w"
    then show "cv = cw"
      using c(1,2) writeCanonical_print [OF parsed_wf [OF assms(1)]] writeCanonical_print [OF parsed_wf [OF assms(2)]]
      by (simp add: CanonicalValue_def)
  qed (use c(3,4) in auto)
  then show ?thesis using assms c(1,2) by (auto simp: Equal_def Canonical_def)
qed

theorem equal_iff_canon_witness:
  "Equal ''{\"a\":1,\"b\":null}'' ''{ \"b\":null, \"a\":1 }'' \<longleftrightarrow>
     canon (VObject [(''a'', VNumber ''1''), (''b'', VNull)]) = canon (VObject [(''b'', VNull), (''a'', VNumber ''1'')])"
  by (rule equal_iff_canon) code_simp+

lemma Equal_refl [simp]: "Equal a a"
  by (simp add: Equal_def)

lemma Equal_sym: "Equal a b \<Longrightarrow> Equal b a"
  by (auto simp: Equal_def split: sum.splits)

lemma Equal_trans: "Equal a b \<Longrightarrow> Equal b c \<Longrightarrow> Equal a c"
  by (auto simp: Equal_def split: sum.splits)

text \<open>\<^verbatim>\<open>Equal\<close> is an equivalence relation on byte strings.\<close>

theorem equal_equivalence: "equivp Equal"
  by (intro equivpI reflpI sympI transpI) (auto intro: Equal_sym Equal_trans)

text \<open>C26 (bounds). Whatever \<^verbatim>\<open>Parse\<close> accepts is within the effective limits: nesting depth and
  node count are bounded, object keys are pairwise distinct, strings and keys are valid UTF-8, and every
  number is a lexeme the scanner accepts on its own.\<close>

theorem parse_within_limits:
  assumes "Parse raw L = Inr v"
  shows "wf_value (normalizeParseLimits L) v \<and> vdepth v \<le> MaxDepth (normalizeParseLimits L)
    \<and> vnodes v \<le> MaxNodes (normalizeParseLimits L)"
  using Parse_admitted [OF assms] by (simp add: admitted_def)

theorem parse_within_limits_witness:
  "wf_value (normalizeParseLimits ObjectLimits) (VArray [VNumber ''-0.5'', VString ''x''])
    \<and> vdepth (VArray [VNumber ''-0.5'', VString ''x'']) \<le> MaxDepth (normalizeParseLimits ObjectLimits)
    \<and> vnodes (VArray [VNumber ''-0.5'', VString ''x'']) \<le> MaxNodes (normalizeParseLimits ObjectLimits)"
  by (rule parse_within_limits [of "''[-0.5, \"x\"]''"]) code_simp

text \<open>The parser answers on every input: the fuel \<open>2 * length raw + 1\<close> the model
  gives the recursion of \<^verbatim>\<open>parseValue\<close> never runs out.\<close>

theorem parse_total: "Parse raw L \<noteq> Inl OutOfFuel"
proof -
  have "length (p_rest (skipSpace \<lparr>p_rest = raw, p_depth = 0, p_nodes = 0\<rparr>)) \<le> length raw"
    using skipSpace_len [of "\<lparr>p_rest = raw, p_depth = 0, p_nodes = 0\<rparr>"] by simp
  then show ?thesis
    using enough_fuel(1) by (auto simp: Parse_def Let_def rbind_eq_Inl_iff simp del: parseValue.simps split: if_splits)
qed

end
