(* ===== verification/Base64.thy ===== *)
theory Base64
  imports Prelude
begin

text \<open>
  \<^verbatim>\<open>base64.StdEncoding\<close> of Go's standard library, as \<^verbatim>\<open>content_codec.go\<close> uses it:
  padded encoding, and decoding that skips line breaks and wants full quanta with correct padding.
\<close>

definition b64_char :: "nat \<Rightarrow> char" where
  "b64_char n = (if n < 26 then char_of (65 + n) else if n < 52 then char_of (71 + n)
     else if n < 62 then char_of (n - 4) else if n = 62 then CHR ''+'' else CHR ''/'')"

definition b64_val :: "char \<Rightarrow> nat option" where
  "b64_val c = (let x = of_char c :: nat in
     if 65 \<le> x \<and> x \<le> 90 then Some (x - 65)
     else if 97 \<le> x \<and> x \<le> 122 then Some (x - 71)
     else if 48 \<le> x \<and> x \<le> 57 then Some (x + 4)
     else if x = 43 then Some 62 else if x = 47 then Some 63 else None)"

fun b64_encode :: "string \<Rightarrow> string" where
  "b64_encode [] = []"
| "b64_encode [a] = (let x = of_char a :: nat in
     [b64_char (x div 4), b64_char (x mod 4 * 16), CHR ''='', CHR ''=''])"
| "b64_encode [a, b] = (let x = of_char a :: nat; y = of_char b :: nat in
     [b64_char (x div 4), b64_char (x mod 4 * 16 + y div 16), b64_char (y mod 16 * 4), CHR ''=''])"
| "b64_encode (a # b # c # r) = (let x = of_char a :: nat; y = of_char b :: nat; z = of_char c :: nat in
     b64_char (x div 4) # b64_char (x mod 4 * 16 + y div 16) # b64_char (y mod 16 * 4 + z div 64)
       # b64_char (z mod 64) # b64_encode r)"

text \<open>Decoding of the input without line breaks.\<close>

fun b64_quanta :: "string \<Rightarrow> string option" where
  "b64_quanta [] = Some []"
| "b64_quanta (a # b # c # d # r) =
     (case (b64_val a, b64_val b) of
        (Some p, Some q) \<Rightarrow>
          (case (b64_val c, b64_val d) of
             (Some s, Some t) \<Rightarrow>
               map_option (\<lambda>u. char_of (p * 4 + q div 16) # char_of (q mod 16 * 16 + s div 4)
                 # char_of (s mod 4 * 64 + t) # u) (b64_quanta r)
           | (Some s, None) \<Rightarrow> if d = CHR ''='' \<and> r = []
               then Some [char_of (p * 4 + q div 16), char_of (q mod 16 * 16 + s div 4)] else None
           | (None, _) \<Rightarrow> if c = CHR ''='' \<and> d = CHR ''='' \<and> r = []
               then Some [char_of (p * 4 + q div 16)] else None)
      | _ \<Rightarrow> None)"
| "b64_quanta _ = None"

definition b64_decode :: "string \<Rightarrow> string option" where
  "b64_decode s = b64_quanta (filter (\<lambda>c. c \<noteq> CHR 0x0A \<and> c \<noteq> CHR 0x0D) s)"

lemma b64_val_char: "n < 64 \<Longrightarrow> b64_val (b64_char n) = Some n"
  by (auto simp: b64_val_def b64_char_def Let_def)

lemma b64_val_pad: "b64_val (CHR ''='') = None"
  by (simp add: b64_val_def)

lemma b64_char_not_break: "n < 64 \<Longrightarrow> b64_char n \<noteq> CHR 0x0A \<and> b64_char n \<noteq> CHR 0x0D"
  using b64_val_char [of n] by (auto simp: b64_val_def)

lemma of_char_lt [simp]: "(of_char c :: nat) < 256"
  by (metis of_char_mod_256 mod_less_divisor zero_less_numeral)

lemma byte_div4 [simp]: "(of_char c :: nat) div 4 < 64" and byte_div16 [simp]: "(of_char c :: nat) div 16 < 16"
  and byte_div64 [simp]: "(of_char c :: nat) div 64 < 4"
  by (simp_all add: div_less_iff_less_mult)

lemma join_4_16: "x mod 4 < 4 \<Longrightarrow> (y::nat) < 16 \<Longrightarrow> (x mod 4 * 16 + y) < 64" for x :: nat
  by linarith

lemma join_16_4: "(y::nat) < 4 \<Longrightarrow> (x mod 16 * 4 + y) < 64" for x :: nat
proof -
  assume "y < 4"
  moreover have "x mod 16 < 16" by simp
  ultimately show ?thesis by linarith
qed

lemma join_4_16': "(y::nat) < 16 \<Longrightarrow> (x mod 4 * 16 + y) < 64" for x :: nat
  by (rule join_4_16) simp_all

lemmas sextets = join_16_4 join_4_16' join_16_4 [of 0, simplified] join_4_16' [of 0, simplified]

lemma b64_encode_no_break: "filter (\<lambda>c. c \<noteq> CHR 0x0A \<and> c \<noteq> CHR 0x0D) (b64_encode s) = b64_encode s"
  by (induction s rule: b64_encode.induct) (auto simp: Let_def sextets b64_char_not_break)

lemma b64_quanta_encode: "b64_quanta (b64_encode s) = Some s"
proof (induction s rule: b64_encode.induct)
  case (2 a)
  let ?x = "of_char a :: nat"
  have "?x div 4 * 4 + ?x mod 4 * 16 div 16 = ?x" by simp
  then show ?case by (simp add: Let_def b64_val_char b64_val_pad sextets)
next
  case (3 a b)
  let ?x = "of_char a :: nat" and ?y = "of_char b :: nat"
  have "?x div 4 * 4 + (?x mod 4 * 16 + ?y div 16) div 16 = ?x" by simp
  moreover have "(?x mod 4 * 16 + ?y div 16) mod 16 * 16 + ?y mod 16 * 4 div 4 = ?y" by simp
  ultimately show ?case by (simp add: Let_def b64_val_char b64_val_pad sextets)
next
  case (4 a b c r)
  let ?x = "of_char a :: nat" and ?y = "of_char b :: nat" and ?z = "of_char c :: nat"
  have "?x div 4 * 4 + (?x mod 4 * 16 + ?y div 16) div 16 = ?x" by simp
  moreover have "(?x mod 4 * 16 + ?y div 16) mod 16 * 16 + (?y mod 16 * 4 + ?z div 64) div 4 = ?y" by simp
  moreover have "(?y mod 16 * 4 + ?z div 64) mod 4 * 64 + ?z mod 64 = ?z" by simp
  ultimately show ?case using 4 by (simp add: Let_def b64_val_char sextets)
qed simp

lemma b64_roundtrip: "b64_decode (b64_encode s) = Some s"
  by (simp add: b64_decode_def b64_encode_no_break b64_quanta_encode)

lemma b64_encode_Nil_iff [simp]: "b64_encode s = [] \<longleftrightarrow> s = []"
  by (cases s rule: b64_encode.cases) (auto simp: Let_def)

end
