(* ===== verification/Content.thy ===== *)
theory Content
  imports Json_Props Base64
begin

text \<open>
  Content blocks: \<^verbatim>\<open>src/core/models/content.go\<close> and \<^verbatim>\<open>content_codec.go\<close>.

  The Go \<^verbatim>\<open>Content\<close> is a struct with a kind tag and one pointer per variant; it is the
  datatype \<open>content\<close> with an option per pointer, so that ill-tagged values exist and validation
  has something to reject. The variants \<^verbatim>\<open>TextContent\<close>, \<^verbatim>\<open>ReasoningSummaryContent\<close> and
  \<^verbatim>\<open>RefusalContent\<close> hold one string each and are that string. \<^verbatim>\<open>ImageContent.Data\<close>
  is an option, because \<^verbatim>\<open>validateImage\<close> tells a nil slice from an empty one; no code here
  tells them apart for \<^verbatim>\<open>Arguments\<close> and child lists.

  \<open>go_std\<close> collects what the sources take from \<^verbatim>\<open>net/url\<close> and
  \<^verbatim>\<open>encoding/json\<close>: the scheme of a parsed URL (\<open>None\<close> for a parse error) and
  \<^verbatim>\<open>json.Valid\<close>. Every theorem holds for all of its values.
\<close>

record go_std =
  url_scheme :: "string \<Rightarrow> string option"
  json_valid :: "string \<Rightarrow> bool"

section \<open>Data\<close>

abbreviation "ContentText \<equiv> ''text''"
abbreviation "ContentImage \<equiv> ''image''"
abbreviation "ContentToolCall \<equiv> ''tool_call''"
abbreviation "ContentToolResult \<equiv> ''tool_result''"
abbreviation "ContentReasoningSummary \<equiv> ''reasoning_summary''"
abbreviation "ContentRefusal \<equiv> ''refusal''"

abbreviation "ImageDetailAuto \<equiv> ''auto''"
abbreviation "ImageDetailLow \<equiv> ''low''"
abbreviation "ImageDetailHigh \<equiv> ''high''"

record image_content =
  img_URI :: string
  img_MIMEType :: string
  img_Data :: "string option"
  img_Detail :: string

record tool_call =
  tc_ID :: string
  tc_Name :: string
  tc_Arguments :: string

datatype content = Content
    (c_Kind: string) (c_Text: "string option") (c_Image: "image_content option")
    (c_ToolCall: "tool_call option") (c_ToolResult: "tool_result option")
    (c_ReasoningSummary: "string option") (c_Refusal: "string option")
and tool_result = ToolResult
    (tr_CallID: string) (tr_Name: string) (tr_Content: "content list") (tr_IsError: bool)

datatype content_error =
    VariantCount | KindMismatch string | UnknownContentKind string
  | ImageExactlyOne | ImageNotAbsolute | ImageInline | ImageDetail string
  | CallNameRequired | CallArguments | CallCanonical json_error
  | ResultCallID | ResultName | ResultContent | ChildKind nat | ChildError nat content_error
  | CanonicalUnknown string | RecordImage | RecordData | RecordType string

definition Text :: "string \<Rightarrow> content" where
  "Text s = Content ContentText (Some s) None None None None None"

definition ImageURI :: "string \<Rightarrow> content" where
  "ImageURI uri = Content ContentImage None
     (Some \<lparr>img_URI = uri, img_MIMEType = [], img_Data = None, img_Detail = []\<rparr>) None None None None"

text \<open>\<^verbatim>\<open>append([]byte(nil), data...)\<close>: an empty slice becomes nil.\<close>

definition copy_bytes :: "string \<Rightarrow> string option" where
  "copy_bytes s = (if s = [] then None else Some s)"

definition bytes_of :: "string option \<Rightarrow> string" where
  "bytes_of d = (case d of None \<Rightarrow> [] | Some s \<Rightarrow> s)"

definition ImageBytes :: "string \<Rightarrow> string \<Rightarrow> content" where
  "ImageBytes mime d = Content ContentImage None
     (Some \<lparr>img_URI = [], img_MIMEType = mime, img_Data = copy_bytes d, img_Detail = []\<rparr>)
     None None None None"

definition ToolCallContent :: "string \<Rightarrow> string \<Rightarrow> string \<Rightarrow> content" where
  "ToolCallContent i n args = Content ContentToolCall None None
     (Some \<lparr>tc_ID = i, tc_Name = n, tc_Arguments = args\<rparr>) None None None"

definition ReasoningSummary :: "string \<Rightarrow> content" where
  "ReasoningSummary s = Content ContentReasoningSummary None None None None (Some s) None"

definition Refusal :: "string \<Rightarrow> content" where
  "Refusal s = Content ContentRefusal None None None None None (Some s)"

section \<open>Cloning\<close>

definition clone_image :: "image_content \<Rightarrow> image_content" where
  "clone_image i = i\<lparr>img_Data := copy_bytes (bytes_of (img_Data i))\<rparr>"

fun Content_Clone :: "content \<Rightarrow> content" where
  "Content_Clone (Content k t im tc tr rs rf) =
     Content k t (map_option clone_image im) tc
       (case tr of None \<Rightarrow> None
        | Some (ToolResult cid n cs e) \<Rightarrow> Some (ToolResult cid n (map Content_Clone cs) e)) rs rf"

definition cloneContents :: "content list \<Rightarrow> content list" where
  "cloneContents cs = map Content_Clone cs"

definition ToolResultContent :: "string \<Rightarrow> string \<Rightarrow> bool \<Rightarrow> content list \<Rightarrow> content" where
  "ToolResultContent cid n e cs = Content ContentToolResult None None None
     (Some (ToolResult cid n (cloneContents cs) e)) None None"

section \<open>Validation\<close>

definition unionCount :: "content \<Rightarrow> nat" where
  "unionCount c = length (filter id [c_Text c \<noteq> None, c_Image c \<noteq> None, c_ToolCall c \<noteq> None,
     c_ToolResult c \<noteq> None, c_ReasoningSummary c \<noteq> None, c_Refusal c \<noteq> None])"

definition validateImage :: "go_std \<Rightarrow> image_content \<Rightarrow> content_error + unit" where
  "validateImage G i =
     (let inline = (img_MIMEType i \<noteq> [] \<or> img_Data i \<noteq> None) in
      if (img_URI i = []) = (\<not> inline) then Inl ImageExactlyOne
      else if img_URI i \<noteq> [] \<and> (url_scheme G (img_URI i) = None \<or> url_scheme G (img_URI i) = Some [])
        then Inl ImageNotAbsolute
      else if inline \<and> (img_MIMEType i = [] \<or> bytes_of (img_Data i) = []) then Inl ImageInline
      else if img_Detail i \<noteq> [] \<and> img_Detail i \<noteq> ImageDetailAuto \<and> img_Detail i \<noteq> ImageDetailLow
        \<and> img_Detail i \<noteq> ImageDetailHigh then Inl (ImageDetail (img_Detail i))
      else Inr ())"

definition validateToolCall :: "tool_call \<Rightarrow> content_error + unit" where
  "validateToolCall call =
     (if tc_Name call = [] then Inl CallNameRequired
      else guard (IsObject (tc_Arguments call)) CallArguments)"

fun Content_Validate :: "go_std \<Rightarrow> content \<Rightarrow> content_error + unit"
and validateChildren :: "go_std \<Rightarrow> nat \<Rightarrow> content list \<Rightarrow> content_error + unit" where
  "Content_Validate G (Content k t im tc tr rs rf) =
     (if unionCount (Content k t im tc tr rs rf) \<noteq> 1 then Inl VariantCount
      else if k = ContentText then guard (t \<noteq> None) (KindMismatch k)
      else if k = ContentImage then
        (case im of None \<Rightarrow> Inl (KindMismatch k) | Some i \<Rightarrow> validateImage G i)
      else if k = ContentToolCall then
        (case tc of None \<Rightarrow> Inl (KindMismatch k) | Some call \<Rightarrow> validateToolCall call)
      else if k = ContentToolResult then
        (case tr of None \<Rightarrow> Inl (KindMismatch k)
         | Some (ToolResult cid n cs e) \<Rightarrow>
             if cid = [] then Inl ResultCallID
             else if n = [] then Inl ResultName
             else if cs = [] then Inl ResultContent
             else validateChildren G 0 cs)
      else if k = ContentReasoningSummary then guard (rs \<noteq> None) (KindMismatch k)
      else if k = ContentRefusal then guard (rf \<noteq> None) (KindMismatch k)
      else Inl (UnknownContentKind k))"
| "validateChildren G i [] = Inr ()"
| "validateChildren G i (c # cs) =
     (if c_Kind c \<noteq> ContentText \<and> c_Kind c \<noteq> ContentImage then Inl (ChildKind i)
      else case Content_Validate G c of
        Inl e \<Rightarrow> Inl (ChildError i e)
      | Inr _ \<Rightarrow> validateChildren G (i + 1) cs)"

section \<open>Canonical bytes and equality\<close>

text \<open>The encoder's buffer is the string written so far; each writer is the bytes it appends.
  \<open>be64\<close> is \<^verbatim>\<open>binary.BigEndian.PutUint64\<close>: it keeps the value modulo \<open>2 ^ 64\<close>.\<close>

definition be64 :: "nat \<Rightarrow> string" where
  "be64 n = map (\<lambda>i. char_of (n div 256 ^ i)) [7, 6, 5, 4, 3, 2, 1, 0]"

definition writeBytes :: "string \<Rightarrow> string" where
  "writeBytes s = be64 (length s) @ s"

definition writeBool :: "bool \<Rightarrow> string" where
  "writeBool b = be64 (if b then 1 else 0)"

fun CanonicalBytes :: "go_std \<Rightarrow> content \<Rightarrow> content_error + string"
and canonicalChildren :: "go_std \<Rightarrow> nat \<Rightarrow> content list \<Rightarrow> content_error + string" where
  "CanonicalBytes G (Content k t im tc tr rs rf) =
     rbind (Content_Validate G (Content k t im tc tr rs rf)) (\<lambda>_.
       rbind
        (if k = ContentText then Inr (writeBytes (the t))
         else if k = ContentImage then
           Inr (writeBytes (img_URI (the im)) @ writeBytes (img_MIMEType (the im))
             @ writeBytes (img_Detail (the im)) @ writeBytes (bytes_of (img_Data (the im))))
         else if k = ContentToolCall then
           (case CanonicalObject (tc_Arguments (the tc)) of
              Inl e \<Rightarrow> Inl (CallCanonical e)
            | Inr args \<Rightarrow> Inr (writeBytes (tc_ID (the tc)) @ writeBytes (tc_Name (the tc))
                @ writeBytes args))
         else if k = ContentToolResult then
           (case tr of None \<Rightarrow> Inl (KindMismatch k)
            | Some (ToolResult cid n cs e) \<Rightarrow>
                rbind (canonicalChildren G 0 cs) (\<lambda>body.
                  Inr (writeBytes cid @ writeBytes n @ writeBool e @ be64 (length cs) @ body)))
         else if k = ContentReasoningSummary then Inr (writeBytes (the rs))
         else if k = ContentRefusal then Inr (writeBytes (the rf))
         else Inl (CanonicalUnknown k))
        (\<lambda>body. Inr (writeBytes k @ body)))"
| "canonicalChildren G i [] = Inr []"
| "canonicalChildren G i (c # cs) =
     (case CanonicalBytes G c of
        Inl e \<Rightarrow> Inl (ChildError i e)
      | Inr b \<Rightarrow> rbind (canonicalChildren G (i + 1) cs) (\<lambda>rest. Inr (writeBytes b @ rest)))"

text \<open>A comparison of two pointers that holds only when both are set.\<close>

definition both :: "('a \<Rightarrow> 'a \<Rightarrow> bool) \<Rightarrow> 'a option \<Rightarrow> 'a option \<Rightarrow> bool" where
  "both p x y = (case (x, y) of (Some a, Some b) \<Rightarrow> p a b | _ \<Rightarrow> False)"

definition equal_image :: "image_content \<Rightarrow> image_content \<Rightarrow> bool" where
  "equal_image a b \<longleftrightarrow> img_URI a = img_URI b \<and> img_MIMEType a = img_MIMEType b
     \<and> img_Detail a = img_Detail b \<and> bytes_of (img_Data a) = bytes_of (img_Data b)"

definition equal_call :: "tool_call \<Rightarrow> tool_call \<Rightarrow> bool" where
  "equal_call a b \<longleftrightarrow> tc_ID a = tc_ID b \<and> tc_Name a = tc_Name b
     \<and> Equal (tc_Arguments a) (tc_Arguments b)"

fun Content_Equal :: "content \<Rightarrow> content \<Rightarrow> bool"
and equalContents :: "content list \<Rightarrow> content list \<Rightarrow> bool" where
  "Content_Equal (Content k t im tc tr rs rf) d =
     (if k \<noteq> c_Kind d then False
      else if k = ContentText then both (=) t (c_Text d)
      else if k = ContentImage then both equal_image im (c_Image d)
      else if k = ContentToolCall then both equal_call tc (c_ToolCall d)
      else if k = ContentToolResult then
        (case (tr, c_ToolResult d) of
           (Some (ToolResult cid n cs e), Some other) \<Rightarrow>
             cid = tr_CallID other \<and> n = tr_Name other \<and> e = tr_IsError other
               \<and> equalContents cs (tr_Content other)
         | _ \<Rightarrow> False)
      else if k = ContentReasoningSummary then both (=) rs (c_ReasoningSummary d)
      else if k = ContentRefusal then both (=) rf (c_Refusal d)
      else False)"
| "equalContents [] ds = (ds = [])"
| "equalContents (c # cs) ds =
     (case ds of [] \<Rightarrow> False | d # ds' \<Rightarrow> Content_Equal c d \<and> equalContents cs ds')"

section \<open>Records\<close>

datatype content_record = ContentRecord
  (rec_Type: string) (rec_Text: string) (rec_MIME: string) (rec_URI: string) (rec_Data: string)
  (rec_Detail: string) (rec_ID: string) (rec_Name: string) (rec_Arguments: string)
  (rec_CallID: string) (rec_IsError: bool) (rec_Content: "content_record list")

definition text_record :: "string \<Rightarrow> string \<Rightarrow> content_record" where
  "text_record k s = ContentRecord k s [] [] [] [] [] [] [] [] False []"

definition image_record :: "image_content \<Rightarrow> content_record" where
  "image_record i =
     (if img_URI i \<noteq> [] then
        ContentRecord ContentImage [] [] (img_URI i) [] (img_Detail i) [] [] [] [] False []
      else ContentRecord ContentImage [] (img_MIMEType i) [] (b64_encode (bytes_of (img_Data i)))
        (img_Detail i) [] [] [] [] False [])"

fun EncodeContent :: "go_std \<Rightarrow> content \<Rightarrow> content_error + content_record"
and encodeChildren :: "go_std \<Rightarrow> nat \<Rightarrow> content list \<Rightarrow> content_error + content_record list" where
  "EncodeContent G (Content k t im tc tr rs rf) =
     rbind (Content_Validate G (Content k t im tc tr rs rf)) (\<lambda>_.
       if k = ContentText then Inr (text_record k (the t))
       else if k = ContentReasoningSummary then Inr (text_record k (the rs))
       else if k = ContentRefusal then Inr (text_record k (the rf))
       else if k = ContentImage then Inr (image_record (the im))
       else if k = ContentToolCall then
         (if \<not> IsObject (tc_Arguments (the tc)) then Inl CallArguments
          else Inr (ContentRecord k [] [] [] [] [] (tc_ID (the tc)) (tc_Name (the tc))
            (tc_Arguments (the tc)) [] False []))
       else if k = ContentToolResult then
         (case tr of None \<Rightarrow> Inl (KindMismatch k)
          | Some (ToolResult cid n cs e) \<Rightarrow>
              rbind (encodeChildren G 0 cs) (\<lambda>children.
                Inr (ContentRecord k [] [] [] [] [] [] n [] cid e children)))
       else Inl (UnknownContentKind k))"
| "encodeChildren G i [] = Inr []"
| "encodeChildren G i (c # cs) =
     (case EncodeContent G c of
        Inl e \<Rightarrow> Inl (ChildError i e)
      | Inr r \<Rightarrow> rbind (encodeChildren G (i + 1) cs) (\<lambda>rs. Inr (r # rs)))"

definition decode_image :: "content_record \<Rightarrow> content_error + content" where
  "decode_image r =
     (let with_detail = (\<lambda>i. if rec_Detail r \<noteq> [] then i\<lparr>img_Detail := rec_Detail r\<rparr> else i);
          img = (\<lambda>c. Content (c_Kind c) None (map_option with_detail (c_Image c)) None None None None) in
      if rec_URI r \<noteq> [] then Inr (img (ImageURI (rec_URI r)))
      else if rec_MIME r = [] \<or> rec_Data r = [] then Inl RecordImage
      else case b64_decode (rec_Data r) of
          None \<Rightarrow> Inl RecordData
        | Some raw \<Rightarrow> Inr (img (ImageBytes (rec_MIME r) raw)))"

fun DecodeContent :: "go_std \<Rightarrow> content_record \<Rightarrow> content_error + content"
and decodeChildren :: "go_std \<Rightarrow> nat \<Rightarrow> content_record list \<Rightarrow> content_error + content list" where
  "DecodeContent G (ContentRecord ty s mime uri dat detail i n args cid e children) =
     rbind
      (if ty = ContentText then Inr (Text s)
       else if ty = ContentReasoningSummary then Inr (ReasoningSummary s)
       else if ty = ContentRefusal then Inr (Refusal s)
       else if ty = ContentImage then
         decode_image (ContentRecord ty s mime uri dat detail i n args cid e children)
       else if ty = ContentToolCall then
         (if \<not> IsObject args then Inl CallArguments else Inr (ToolCallContent i n args))
       else if ty = ContentToolResult then
         rbind (decodeChildren G 0 children) (\<lambda>cs. Inr (ToolResultContent cid n e cs))
       else Inl (RecordType ty))
      (\<lambda>c. rbind (Content_Validate G c) (\<lambda>_. Inr c))"
| "decodeChildren G i [] = Inr []"
| "decodeChildren G i (r # rs) =
     (case DecodeContent G r of
        Inl e \<Rightarrow> Inl (ChildError i e)
      | Inr c \<Rightarrow> rbind (decodeChildren G (i + 1) rs) (\<lambda>cs. Inr (c # cs)))"

definition PlainText :: "content \<Rightarrow> string" where
  "PlainText c = (if c_Kind c \<noteq> ContentText then [] else case c_Text c of None \<Rightarrow> [] | Some s \<Rightarrow> s)"

text \<open>The text of a text-like block, \<open>None\<close> for \<^verbatim>\<open>ok == false\<close>.\<close>

definition TextValue :: "content \<Rightarrow> string option" where
  "TextValue c =
     (if c_Kind c = ContentText then c_Text c
      else if c_Kind c = ContentReasoningSummary then c_ReasoningSummary c
      else if c_Kind c = ContentRefusal then c_Refusal c
      else None)"

end
