(* ===== verification/Json_Limits.thy ===== *)
theory Json_Limits
  imports Json_Props
begin

text \<open>
  Limits of the JSON parser are pure guards: a text accepted under some limits is accepted with the
  same value under wider ones. The model code relies on this when it validates an object with
  \<^verbatim>\<open>ObjectLimits\<close> and compares it with \<^verbatim>\<open>canonicalLimits\<close>.
\<close>

definition wider :: "limits \<Rightarrow> limits \<Rightarrow> bool" where
  "wider L M \<longleftrightarrow> MaxDepth L \<le> MaxDepth M \<and> MaxNodes L \<le> MaxNodes M
     \<and> MaxNumberBytes L \<le> MaxNumberBytes M \<and> MaxExponent L \<le> MaxExponent M \<and> MaxScale L \<le> MaxScale M"

lemma parseNumber_wider: "wider L M \<Longrightarrow> parseNumber L s = Inr x \<Longrightarrow> parseNumber M s = Inr x"
  by (auto simp: parseNumber_def wider_def rbind_def Let_def split: sum.splits prod.splits if_splits option.splits)

lemma addNode_wider: "wider L M \<Longrightarrow> addNode L p = Inr q \<Longrightarrow> addNode M p = Inr q"
  by (auto simp: addNode_def wider_def Let_def split: if_splits)

lemma enter_wider: "wider L M \<Longrightarrow> enter L p = Inr q \<Longrightarrow> enter M p = Inr q"
  by (auto simp: enter_def wider_def Let_def split: if_splits)

lemma parseArray_wider:
  "wider L M \<Longrightarrow> parseArray f L p = Inr x \<Longrightarrow> (\<And>p y. f p = Inr y \<Longrightarrow> g p = Inr y) \<Longrightarrow> parseArray g M p = Inr x"
  by (fastforce simp: parseArray_def result_simps Let_def dest: enter_wider split: if_splits)

lemma parseObject_wider:
  "wider L M \<Longrightarrow> parseObject f L p = Inr x \<Longrightarrow> (\<And>p y. f p = Inr y \<Longrightarrow> g p = Inr y) \<Longrightarrow> parseObject g M p = Inr x"
  by (fastforce simp: parseObject_def result_simps Let_def dest: enter_wider split: if_splits)

lemma parseKey_wider: "wider L M \<Longrightarrow> parseKey L seen p = Inr x \<Longrightarrow> parseKey M seen p = Inr x"
  by (fastforce simp: parseKey_def result_simps Let_def dest: addNode_wider split: if_splits)

lemma parseSwitch_wider:
  assumes "wider L M" "parseSwitch f g L p = Inr x"
    and "\<And>p y. f p = Inr y \<Longrightarrow> f' p = Inr y" "\<And>p y. g p = Inr y \<Longrightarrow> g' p = Inr y"
  shows "parseSwitch f' g' M p = Inr x"
proof (cases "p_rest p")
  case Nil
  then show ?thesis using assms(2) by (simp add: parseSwitch_def)
next
  case (Cons c r)
  show ?thesis using assms(2) unfolding parseSwitch_def Cons list.case
    by (elim if_mono) (auto elim!: rbind_mono intro: assms parseNumber_wider)
qed

lemma parse_wider:
  assumes "wider L M"
  shows "parseValue f L p = Inr x \<Longrightarrow> parseValue f M p = Inr x"
    and "parseElems f L p = Inr y \<Longrightarrow> parseElems f M p = Inr y"
    and "parseMembers f L seen p = Inr z \<Longrightarrow> parseMembers f M seen p = Inr z"
proof (induction f arbitrary: p x y z seen)
  case (Suc f)
  {
    case 1
    then obtain q where q: "addNode L p = Inr q"
      and s: "parseSwitch (parseArray (parseElems f L) L) (parseObject (parseMembers f L []) L) L q = Inr x"
      by (auto simp: result_simps)
    have "parseSwitch (parseArray (parseElems f M) M) (parseObject (parseMembers f M []) M) M q = Inr x"
      by (rule parseSwitch_wider [OF assms s]) (blast intro: parseArray_wider parseObject_wider assms Suc.IH)+
    then show ?case using addNode_wider [OF assms q] by simp
  next
    case 2
    then show ?case by (auto simp: result_simps split: if_splits dest!: Suc.IH) 
  next
    case 3
    then show ?case by (auto simp: result_simps split: if_splits dest!: Suc.IH parseKey_wider [OF assms])
  }
qed auto

lemma Parse_wider:
  "wider (normalizeParseLimits L) (normalizeParseLimits M) \<Longrightarrow> Parse raw L = Inr v \<Longrightarrow> Parse raw M = Inr v"
  by (auto simp: Parse_def Let_def split: if_splits elim!: rbind_mono dest: parse_wider simp del: parseValue.simps)

lemma object_parses_canonical: "Parse raw ObjectLimits = Inr v \<Longrightarrow> Parse raw canonicalLimits = Inr v"
  by (erule Parse_wider [rotated]) (simp add: wider_def normalizeParseLimits_def ObjectLimits_def canonicalLimits_def)

lemma ParseObject_iff: "ParseObject raw L = Inr v \<longleftrightarrow> Parse raw L = Inr v \<and> (\<exists>ms. v = VObject ms)"
proof (cases "Parse raw L")
  case (Inr w)
  then show ?thesis by (cases w) (auto simp: ParseObject_def)
qed (simp add: ParseObject_def)

text \<open>Parse limits are pure guards: what is accepted under some limits is accepted, with
  the same value, under limits that are at least as wide after defaults are filled in.\<close>

theorem parse_under_wider_limits:
  assumes "wider (normalizeParseLimits L) (normalizeParseLimits M)" and "Parse raw L = Inr v"
  shows "Parse raw M = Inr v"
  using assms by (rule Parse_wider)

theorem parse_under_wider_limits_witness:
  "Parse ''[1,2]'' canonicalLimits = Inr (VArray [VNumber ''1'', VNumber ''2''])"
  by (rule parse_under_wider_limits [where L = ObjectLimits])
    (simp add: wider_def normalizeParseLimits_def ObjectLimits_def canonicalLimits_def, code_simp)

end
