(* ===== verification/Content_Props.thy ===== *)
theory Content_Props
  imports Content Json_Limits
begin

text \<open>
  Facts about content blocks: the shapes of valid blocks, injectivity of the length-prefixed
  canonical encoding, agreement of \<^verbatim>\<open>CanonicalBytes\<close> with \<^verbatim>\<open>Equal\<close>, and the round
  trip through \<^verbatim>\<open>ContentRecord\<close>.
\<close>

section \<open>Length-prefixed frames\<close>

definition from_be :: "string \<Rightarrow> nat" where
  "from_be s = foldl (\<lambda>a c. a * 256 + of_char c) 0 s"

lemma foldl_be: "foldl (\<lambda>a c. a * 256 + of_char c) a (map (\<lambda>i. char_of (n div 256 ^ i)) (rev [0..<k]))
  = a * 256 ^ k + n mod 256 ^ k" for n :: nat
proof (induction k arbitrary: a)
  case (Suc k)
  have "n mod 256 ^ Suc k = 256 ^ k * (n div 256 ^ k mod 256) + n mod 256 ^ k"
    using mod_mult2_eq [of n "256 ^ k" 256] by (simp add: mult.commute)
  then show ?case using Suc by (simp add: algebra_simps)
qed simp

lemma be64_rev: "be64 n = map (\<lambda>i. char_of (n div 256 ^ i)) (rev [0..<8])"
  by (simp add: be64_def upt_rec)

lemma from_be_be64: "n < 2 ^ 64 \<Longrightarrow> from_be (be64 n) = n"
  by (simp add: from_be_def be64_rev foldl_be)

lemma be64_inj: "n < 2 ^ 64 \<Longrightarrow> m < 2 ^ 64 \<Longrightarrow> be64 n = be64 m \<longleftrightarrow> n = m"
  by (metis from_be_be64)

lemma length_be64 [simp]: "length (be64 n) = 8"
  by (simp add: be64_def)

lemma writeBool_append_inj: "writeBool a @ r = writeBool b @ s \<longleftrightarrow> a = b \<and> r = s"
  by (auto simp: writeBool_def be64_inj append_eq_append_conv)

lemma length_writeBytes [simp]: "length (writeBytes s) = length s + 8"
  by (simp add: writeBytes_def)

lemma be64_append_inj: "n < 2 ^ 64 \<Longrightarrow> m < 2 ^ 64 \<Longrightarrow> be64 n @ r = be64 m @ s \<longleftrightarrow> n = m \<and> r = s"
  by (auto simp: be64_inj append_eq_append_conv)

definition sized :: "string \<Rightarrow> bool" where "sized s \<longleftrightarrow> length s < 2 ^ 64"

lemma writeBytes_inj: "writeBytes x = writeBytes y \<longleftrightarrow> x = y"
  by (auto simp: writeBytes_def append_eq_append_conv)

lemma writeBytes_append_inj:
  "sized x \<Longrightarrow> sized y \<Longrightarrow> writeBytes x @ r = writeBytes y @ s \<longleftrightarrow> x = y \<and> r = s"
  by (auto simp: sized_def writeBytes_def be64_inj append_eq_append_conv)

lemma sized_append: "sized (x @ y) \<Longrightarrow> sized x \<and> sized y"
  by (simp add: sized_def)

lemma sized_writeBytes: "sized (writeBytes x) \<Longrightarrow> sized x"
  by (simp add: sized_def)

lemma concat_frames_inj:
  assumes "length xs = length ys" "\<forall>x\<in>set xs. sized x" "\<forall>y\<in>set ys. sized y"
  shows "concat (map writeBytes xs) = concat (map writeBytes ys) \<longleftrightarrow> xs = ys"
  using assms by (induction xs ys rule: list_induct2) (auto simp: writeBytes_append_inj)

lemma length_frames: "length (concat (map writeBytes xs)) = sum_list (map length xs) + 8 * length xs"
  by (induction xs) auto

lemma sized_frames: "sized (concat (map writeBytes xs)) \<Longrightarrow> x \<in> set xs \<Longrightarrow> sized x"
  by (induction xs) (auto dest!: sized_append sized_writeBytes)

section \<open>Valid blocks\<close>

lemma validateChildren_iff:
  "validateChildren G i cs = Inr u \<longleftrightarrow>
     (\<forall>c\<in>set cs. (c_Kind c = ContentText \<or> c_Kind c = ContentImage) \<and> Content_Validate G c = Inr ())"
  by (induction cs arbitrary: i) (auto split: sum.splits)

lemma Content_Validate_cases:
  assumes "Content_Validate G c = Inr u"
  obtains (plain) s where "c = Text s"
  | (image) i where "c = Content ContentImage None (Some i) None None None None" "validateImage G i = Inr ()"
  | (call) tc where "c = Content ContentToolCall None None (Some tc) None None None"
      "tc_Name tc \<noteq> []" "IsObject (tc_Arguments tc)"
  | (result) cid n cs e where "c = Content ContentToolResult None None None (Some (ToolResult cid n cs e)) None None"
      "cid \<noteq> []" "n \<noteq> []" "cs \<noteq> []" "validateChildren G 0 cs = Inr ()"
  | (summary) s where "c = ReasoningSummary s"
  | (refusal) s where "c = Refusal s"
proof -
  obtain k t im tc tr rs rf where c: "c = Content k t im tc tr rs rf" by (cases c)
  have one: "unionCount c = 1" using assms c by (auto split: if_splits)
  note shape = c unionCount_def Text_def ReasoningSummary_def Refusal_def validateToolCall_def
  from assms consider "k = ContentText" "t \<noteq> None" | i where "k = ContentImage" "im = Some i" "validateImage G i = Inr ()"
    | call where "k = ContentToolCall" "tc = Some call" "validateToolCall call = Inr ()"
    | cid n cs e where "k = ContentToolResult" "tr = Some (ToolResult cid n cs e)"
        "cid \<noteq> []" "n \<noteq> []" "cs \<noteq> []" "validateChildren G 0 cs = Inr ()"
    | "k = ContentReasoningSummary" "rs \<noteq> None" | "k = ContentRefusal" "rf \<noteq> None"
    by (auto simp: c split: if_splits option.splits tool_result.splits)
  then show thesis
  proof cases
    case 1 with one show thesis by (intro plain [of "the t"]) (auto simp: shape split: if_splits)
  next
    case (2 i) with one show thesis by (intro image [of i]) (auto simp: shape split: if_splits)
  next
    case (3 tc) with one show thesis by (intro call [of tc]) (auto simp: shape split: if_splits)
  next
    case (4 cid n cs e) with one show thesis by (intro result [of cid n cs e]) (auto simp: shape split: if_splits)
  next
    case 5 with one show thesis by (intro summary [of "the rs"]) (auto simp: shape split: if_splits)
  next
    case 6 with one show thesis by (intro refusal [of "the rf"]) (auto simp: shape split: if_splits)
  qed
qed

lemmas content_shapes = Text_def ReasoningSummary_def Refusal_def ToolResultContent_def ToolCallContent_def
  ImageURI_def ImageBytes_def

lemma bytes_of_copy [simp]: "bytes_of (copy_bytes s) = s"
  by (simp add: bytes_of_def copy_bytes_def)

lemma clone_valid_image: "validateImage G i = Inr u \<Longrightarrow> clone_image i = i"
  by (auto simp: validateImage_def clone_image_def Let_def bytes_of_def copy_bytes_def
      split: if_splits option.splits)

lemma clone_valid: "Content_Validate G c = Inr u \<Longrightarrow> Content_Clone c = c"
proof (induction c rule: Content_Clone.induct)
  case (1 k t im tc tr rs rf)
  from "1.prems" show ?case
  proof (cases rule: Content_Validate_cases)
    case (result cid n cs e)
    then have "\<forall>c\<in>set cs. Content_Clone c = c" using "1.IH" by (auto simp: validateChildren_iff)
    then show ?thesis using result by (simp add: map_idI)
  qed (auto simp: content_shapes dest: clone_valid_image)
qed

lemma clone_children: "\<forall>c\<in>set cs. Content_Validate G c = Inr () \<Longrightarrow> cloneContents cs = cs"
  by (auto simp: cloneContents_def intro!: map_idI dest: clone_valid)

section \<open>Records\<close>

lemma decodeChildren_Inr: "list_all2 (\<lambda>r c. DecodeContent G r = Inr c) rs cs \<Longrightarrow> decodeChildren G i rs = Inr cs"
  by (induction rs cs arbitrary: i rule: list_all2_induct) simp_all

lemma encodeChildren_Inr: "list_all2 (\<lambda>c r. EncodeContent G c = Inr r) cs rs \<Longrightarrow> encodeChildren G i cs = Inr rs"
  by (induction cs rs arbitrary: i rule: list_all2_induct) simp_all

lemma decode_image_record:
  assumes "validateImage G i = Inr u"
  shows "decode_image (image_record i) = Inr (Content ContentImage None (Some i) None None None None)"
  using assms
  by (cases i) (auto simp: validateImage_def decode_image_def image_record_def content_shapes Let_def
      b64_roundtrip bytes_of_def copy_bytes_def split: if_splits option.splits)

lemma record_roundtrip:
  "Content_Validate G c = Inr () \<Longrightarrow> \<exists>r. EncodeContent G c = Inr r \<and> DecodeContent G r = Inr c"
proof (induction c rule: Content_Clone.induct)
  case (1 k t im tc tr rs rf)
  have v: "Content_Validate G (Content k t im tc tr rs rf) = Inr ()" by fact
  from v show ?case
  proof (cases rule: Content_Validate_cases)
    case (result cid n cs e)
    then have ok: "\<forall>c\<in>set cs. Content_Validate G c = Inr ()" by (simp add: validateChildren_iff)
    have "\<forall>c\<in>set cs. \<exists>r. EncodeContent G c = Inr r \<and> DecodeContent G r = Inr c"
      using "1.IH" result ok by auto
    then obtain f where "\<And>c. c \<in> set cs \<Longrightarrow> EncodeContent G c = Inr (f c) \<and> DecodeContent G (f c) = Inr c"
      by metis
    then have "encodeChildren G 0 cs = Inr (map f cs)" "decodeChildren G 0 (map f cs) = Inr cs"
      by (auto intro!: encodeChildren_Inr decodeChildren_Inr simp: list.rel_map list.rel_refl_strong)
    then show ?thesis using result v clone_children [OF ok]
      by (simp add: ToolResultContent_def del: Content_Validate.simps)
  next
    case (image i)
    then show ?thesis using v decode_image_record [OF image(2)]
      by (cases "image_record i") (simp add: image_record_def split: if_splits)
  qed (use v in \<open>auto simp: content_shapes text_record_def unionCount_def validateToolCall_def\<close>)
qed

section \<open>Canonical bytes\<close>

lemma canonicalChildren_Inr:
  "canonicalChildren G i cs = Inr b \<longleftrightarrow>
     (\<exists>bs. list_all2 (\<lambda>c b. CanonicalBytes G c = Inr b) cs bs \<and> b = concat (map writeBytes bs))"
  by (induction cs arbitrary: i b)
    (fastforce simp: result_simps list_all2_Cons1 split: sum.splits)+

lemma equalContents_iff: "equalContents cs ds \<longleftrightarrow> list_all2 Content_Equal cs ds"
  by (induction cs arbitrary: ds) (auto split: list.splits simp: list_all2_Cons1)

lemma CanonicalBytes_valid: "CanonicalBytes G c = Inr x \<Longrightarrow> Content_Validate G c = Inr ()"
  by (cases c) (auto simp: result_simps simp del: Content_Validate.simps)

lemma CanonicalBytes_kind: "CanonicalBytes G c = Inr x \<Longrightarrow> \<exists>b. x = writeBytes (c_Kind c) @ b"
  by (cases c) (auto simp: result_simps simp del: Content_Validate.simps)

lemma CanonicalBytes_result:
  assumes "CanonicalBytes G (Content ContentToolResult None None None (Some (ToolResult cid n cs e)) None None) = Inr x"
  obtains bs where "list_all2 (\<lambda>c b. CanonicalBytes G c = Inr b) cs bs"
    "x = writeBytes ContentToolResult @ writeBytes cid @ writeBytes n @ writeBool e @ be64 (length cs)
       @ concat (map writeBytes bs)"
  using assms by (auto simp: result_simps canonicalChildren_Inr simp del: Content_Validate.simps)

lemma CanonicalObject_equal:
  assumes "CanonicalObject a = Inr x" "CanonicalObject b = Inr y"
  shows "Equal a b \<longleftrightarrow> x = y"
proof -
  have "Canonical r = Inr z" if r: "CanonicalObject r = Inr z" for r z
  proof -
    obtain v where "Parse r ObjectLimits = Inr v" "CanonicalValue v = Inr z"
      using r by (auto simp: CanonicalObject_def ParseObject_iff result_simps)
    then show ?thesis by (simp add: Canonical_def object_parses_canonical)
  qed
  with assms show ?thesis by (auto simp: Equal_def)
qed

lemma children_equal:
  assumes "list_all2 (\<lambda>c b. CanonicalBytes G c = Inr b) cs bs"
    and "list_all2 (\<lambda>c b. CanonicalBytes G c = Inr b) ds bs'"
    and "\<forall>b\<in>set bs. sized b" "\<forall>b\<in>set bs'. sized b"
    and "\<And>c d x y. c \<in> set cs \<Longrightarrow> CanonicalBytes G c = Inr x \<Longrightarrow> CanonicalBytes G d = Inr y
       \<Longrightarrow> sized x \<Longrightarrow> sized y \<Longrightarrow> x = y \<longleftrightarrow> Content_Equal c d"
  shows "bs = bs' \<longleftrightarrow> list_all2 Content_Equal cs ds"
  using assms
proof (induction arbitrary: ds bs' rule: list_all2_induct)
  case Nil
  then show ?case by (auto simp: list_all2_conv_all_nth)
next
  case (Cons c cs b bs)
  show ?case
  proof (cases ds)
    case Nil
    then show ?thesis using Cons.prems by auto
  next
    case d: (Cons d ds')
    then obtain b' bs'' where b': "bs' = b' # bs''" "CanonicalBytes G d = Inr b'"
      "list_all2 (\<lambda>c b. CanonicalBytes G c = Inr b) ds' bs''"
      using Cons.prems by (auto simp: list_all2_Cons1)
    have "b = b' \<longleftrightarrow> Content_Equal c d" using Cons b' by simp
    moreover have "bs = bs'' \<longleftrightarrow> list_all2 Content_Equal cs ds'"
      using Cons.prems b' by (intro Cons.IH) auto
    ultimately show ?thesis using d b' by simp
  qed
qed

lemma CanonicalBytes_shapes:
  "CanonicalBytes G (Text s) = Inr (writeBytes ContentText @ writeBytes s)"
  "CanonicalBytes G (ReasoningSummary s) = Inr (writeBytes ContentReasoningSummary @ writeBytes s)"
  "CanonicalBytes G (Refusal s) = Inr (writeBytes ContentRefusal @ writeBytes s)"
  "CanonicalBytes G (Content ContentImage None (Some i) None None None None) = Inr x \<Longrightarrow>
     x = writeBytes ContentImage @ writeBytes (img_URI i) @ writeBytes (img_MIMEType i)
       @ writeBytes (img_Detail i) @ writeBytes (bytes_of (img_Data i))"
  "CanonicalBytes G (Content ContentToolCall None None (Some tc) None None None) = Inr x \<Longrightarrow>
     \<exists>args. CanonicalObject (tc_Arguments tc) = Inr args \<and>
       x = writeBytes ContentToolCall @ writeBytes (tc_ID tc) @ writeBytes (tc_Name tc) @ writeBytes args"
  by (auto simp: content_shapes unionCount_def result_simps split: sum.splits)

lemma same_kind_result:
  assumes IH: "\<And>c d x y. c \<in> set cs \<Longrightarrow> CanonicalBytes G c = Inr x \<Longrightarrow> CanonicalBytes G d = Inr y
       \<Longrightarrow> sized x \<Longrightarrow> sized y \<Longrightarrow> x = y \<longleftrightarrow> Content_Equal c d"
    and x: "CanonicalBytes G (Content ContentToolResult None None None (Some (ToolResult cid n cs e)) None None) = Inr x"
    and y: "CanonicalBytes G (Content ContentToolResult None None None (Some (ToolResult cid' n' ds e')) None None) = Inr y"
    and len: "sized x" "sized y"
  shows "x = y \<longleftrightarrow> cid = cid' \<and> n = n' \<and> e = e' \<and> list_all2 Content_Equal cs ds"
proof -
  obtain bs where bs: "list_all2 (\<lambda>c b. CanonicalBytes G c = Inr b) cs bs"
    and x': "x = writeBytes ContentToolResult @ writeBytes cid @ writeBytes n @ writeBool e
       @ be64 (length cs) @ concat (map writeBytes bs)"
    using CanonicalBytes_result [OF x] .
  obtain bs' where bs': "list_all2 (\<lambda>c b. CanonicalBytes G c = Inr b) ds bs'"
    and y': "y = writeBytes ContentToolResult @ writeBytes cid' @ writeBytes n' @ writeBool e'
       @ be64 (length ds) @ concat (map writeBytes bs')"
    using CanonicalBytes_result [OF y] .
  have short: "\<forall>b\<in>set bs. sized b" "\<forall>b\<in>set bs'. sized b"
    using len x' y' by (auto dest!: sized_append intro: sized_frames)
  have n: "length bs = length cs" "length bs' = length ds"
    using bs bs' by (simp_all add: list_all2_lengthD)
  have cs: "length cs < 2 ^ 64" "length ds < 2 ^ 64"
    using len x' y' n length_frames [of bs] length_frames [of bs'] by (auto simp: sized_def)
  have strs: "sized cid" "sized n" "sized cid'" "sized n'"
    using len x' y' by (auto dest!: sized_append sized_writeBytes)
  have "x = y \<longleftrightarrow> cid = cid' \<and> n = n' \<and> e = e' \<and> length cs = length ds
      \<and> concat (map writeBytes bs) = concat (map writeBytes bs')"
    using cs strs by (simp only: x' y' same_append_eq writeBytes_append_inj writeBool_append_inj be64_append_inj)
  also have "\<dots> \<longleftrightarrow> cid = cid' \<and> n = n' \<and> e = e' \<and> bs = bs'"
    using concat_frames_inj [of bs bs'] n short by metis
  also have "bs = bs' \<longleftrightarrow> list_all2 Content_Equal cs ds"
    by (rule children_equal [OF bs bs' short]) (rule IH)
  finally show ?thesis .
qed

lemma canonical_equal:
  "CanonicalBytes G c = Inr x \<Longrightarrow> CanonicalBytes G d = Inr y \<Longrightarrow> sized x
    \<Longrightarrow> sized y \<Longrightarrow> x = y \<longleftrightarrow> Content_Equal c d"
proof (induction c arbitrary: d x y rule: Content_Clone.induct)
  case (1 k t im tc tr rs rf)
  let ?c = "Content k t im tc tr rs rf"
  note x = "1.prems"(1) and y = "1.prems"(2) and len = "1.prems"(3,4)
  obtain bx by' where kinds: "x = writeBytes k @ bx" "y = writeBytes (c_Kind d) @ by'"
    using CanonicalBytes_kind [OF x] CanonicalBytes_kind [OF y] by auto
  show ?case
  proof (cases "k = c_Kind d")
    case False
    moreover have "sized k" "sized (c_Kind d)" using kinds len by (auto dest!: sized_append sized_writeBytes)
    ultimately show ?thesis using kinds by (simp add: writeBytes_append_inj)
  next
    case kind: True
    note vd = CanonicalBytes_valid [OF y]
    from CanonicalBytes_valid [OF x] show ?thesis
    proof (cases rule: Content_Validate_cases)
      case (result cid n cs e)
      from vd show ?thesis
      proof (cases rule: Content_Validate_cases)
        case d: (result cid' n' ds e')
        have tr: "tr = Some (ToolResult cid n cs e)" using result by simp
        have "x = y \<longleftrightarrow> cid = cid' \<and> n = n' \<and> e = e' \<and> list_all2 Content_Equal cs ds"
          by (rule same_kind_result [OF _ x [unfolded result] y [unfolded d] len])
            (rule "1.IH" [OF tr refl])
        then show ?thesis using result d by (simp add: equalContents_iff)
      qed (use kind result in \<open>auto simp: content_shapes\<close>)
    next
      case (image i)
      from vd show ?thesis
      proof (cases rule: Content_Validate_cases)
        case d: (image j)
        then show ?thesis
          using CanonicalBytes_shapes(4) [OF x [unfolded image]] CanonicalBytes_shapes(4) [OF y [unfolded d]]
            image len
          by (auto simp: both_def equal_image_def writeBytes_append_inj writeBytes_inj dest!: sized_append sized_writeBytes)
      qed (use kind image in \<open>auto simp: content_shapes\<close>)
    next
      case (call a)
      from vd show ?thesis
      proof (cases rule: Content_Validate_cases)
        case d: (call b)
        then show ?thesis
          using CanonicalBytes_shapes(5) [OF x [unfolded call]] CanonicalBytes_shapes(5) [OF y [unfolded d]]
            call len
          by (auto simp: both_def equal_call_def writeBytes_append_inj writeBytes_inj CanonicalObject_equal
              dest!: sized_append sized_writeBytes)
      qed (use kind call in \<open>auto simp: content_shapes\<close>)
    qed (rule Content_Validate_cases [OF vd]; use x y kind in \<open>auto simp: content_shapes
        CanonicalBytes_shapes [unfolded content_shapes] both_def writeBytes_inj simp del: CanonicalBytes.simps\<close>)+
  qed
qed


lemma canonicalChildren_total:
  "\<forall>c\<in>set cs. \<exists>x. CanonicalBytes G c = Inr x \<Longrightarrow> \<exists>x. canonicalChildren G i cs = Inr x"
proof (induction cs arbitrary: i)
  case (Cons c cs)
  then obtain x where "CanonicalBytes G c = Inr x" by auto
  moreover obtain y where "canonicalChildren G (i + 1) cs = Inr y" using Cons.IH [of "i + 1"] Cons.prems by auto
  ultimately show ?case by simp
qed simp

lemma CanonicalObject_total: "IsObject raw \<Longrightarrow> \<exists>x. CanonicalObject raw = Inr x"
  by (auto simp: IsObject_def CanonicalObject_def CanonicalValue_def ParseObject_iff result_simps
      split: sum.splits dest!: object_parses_canonical [THEN parsed_wf, THEN writeCanonical_print])

lemma canonical_total: "Content_Validate G c = Inr () \<Longrightarrow> \<exists>x. CanonicalBytes G c = Inr x"
proof (induction c rule: Content_Clone.induct)
  case (1 k t im tc tr rs rf)
  have v: "Content_Validate G (Content k t im tc tr rs rf) = Inr ()" by fact
  from v show ?case
  proof (cases rule: Content_Validate_cases)
    case (result cid n cs e)
    then have "\<exists>x. canonicalChildren G 0 cs = Inr x"
      using "1.IH" by (intro canonicalChildren_total) (auto simp: validateChildren_iff)
    then show ?thesis using result v by (auto simp del: Content_Validate.simps)
  next
    case (call a)
    then show ?thesis using v CanonicalObject_total [OF call(3)] by (auto simp del: Content_Validate.simps)
  qed (use v in \<open>auto simp: content_shapes unionCount_def\<close>)
qed

section \<open>Properties\<close>

text \<open>C9 (equivalence). For two blocks that have canonical bytes (necessarily fewer than
  \<open>2 ^ 64\<close> of them), the bytes agree exactly when \<^verbatim>\<open>Content.Equal\<close> holds: the encoding
  is unambiguous, and it identifies just the blocks that \<^verbatim>\<open>Equal\<close> identifies, tool arguments
  compared as JSON values included.\<close>

theorem canonical_bytes_iff_equal:
  assumes "CanonicalBytes G c = Inr x" and "CanonicalBytes G d = Inr y"
    and "length x < 2 ^ 64" and "length y < 2 ^ 64"
  shows "x = y \<longleftrightarrow> Content_Equal c d"
  using canonical_equal assms by (simp add: sized_def)

theorem canonical_bytes_iff_equal_witness:
  "let G = \<lparr>url_scheme = \<lambda>_. None, json_valid = \<lambda>_. True\<rparr>;
       c = ToolCallContent ''1'' ''f'' ''{\"a\":1,\"b\":[2]}'';
       d = ToolCallContent ''1'' ''f'' ''{ \"b\":[ 2], \"a\":1}'' in
   CanonicalBytes G c = CanonicalBytes G d \<and> Content_Equal c d"
proof -
  let ?G = "\<lparr>url_scheme = \<lambda>_. None, json_valid = \<lambda>_. True\<rparr>"
  let ?c = "ToolCallContent ''1'' ''f'' ''{\"a\":1,\"b\":[2]}''"
  let ?d = "ToolCallContent ''1'' ''f'' ''{ \"b\":[ 2], \"a\":1}''"
  have c: "CanonicalBytes ?G ?c = Inr (projr (CanonicalBytes ?G ?c))"
    and d: "CanonicalBytes ?G ?d = Inr (projr (CanonicalBytes ?G ?c))"
    and len: "length (projr (CanonicalBytes ?G ?c)) < 2 ^ 64"
    by code_simp+
  show ?thesis using canonical_bytes_iff_equal [OF c d len len] c d by (simp add: Let_def)
qed

text \<open>C19 (roundtrip). A block is valid exactly when it can be encoded as a \<^verbatim>\<open>ContentRecord\<close>,
  and decoding that record gives the very same block back, with every variant, inline image bytes
  through base64 and the children of a tool result included.\<close>

theorem record_decodes_back:
  "Content_Validate G c = Inr () \<longleftrightarrow> (\<exists>r. EncodeContent G c = Inr r \<and> DecodeContent G r = Inr c)"
proof
  assume "\<exists>r. EncodeContent G c = Inr r \<and> DecodeContent G r = Inr c"
  then show "Content_Validate G c = Inr ()"
    by (cases c) (auto simp: result_simps simp del: Content_Validate.simps)
qed (rule record_roundtrip)

text \<open>Canonical bytes exist for exactly the valid blocks: the branch the source
  calls unreachable is never taken, and the JSON arguments of a valid call always have a canonical
  form.\<close>

theorem canonical_bytes_defined:
  "(\<exists>x. CanonicalBytes G c = Inr x) \<longleftrightarrow> Content_Validate G c = Inr ()"
  using canonical_total CanonicalBytes_valid by blast

end
