(* ===== verification/Request.thy ===== *)
theory Request
  imports Complex_Main Content_Props "HOL-Library.Word" "HOL-Library.Sublist"
begin

text \<open>
  Messages, tools and requests: \<^verbatim>\<open>src/core/models/message.go\<close>, \<^verbatim>\<open>tool.go\<close>,
  \<^verbatim>\<open>request.go\<close>, \<^verbatim>\<open>validate.go\<close> and \<^verbatim>\<open>capability.go\<close>.

  \<^verbatim>\<open>Optional[T]\<close> is \<open>'a option\<close> (set is \<open>Some\<close>); a \<^verbatim>\<open>float64\<close> is \<open>go_float\<close>;
  a capability and a capability set are 64-bit words, as in the source. Error messages are the
  constructors of \<open>invalid_reason\<close>.
\<close>

unbundle bit_operations_syntax

section \<open>Messages\<close>

abbreviation "RoleUser \<equiv> ''user''"
abbreviation "RoleAssistant \<equiv> ''assistant''"

record provider_state =
  ps_Provider :: string
  ps_Data :: string

record message =
  m_Role :: string
  m_Content :: "content list"
  m_ProviderState :: "provider_state option"

datatype message_error =
    StateProvider | StateData | MessageRole string | MessageEmpty
  | MessageContent nat content_error | StateOnUser

definition ProviderState_Validate :: "go_std \<Rightarrow> provider_state \<Rightarrow> message_error + unit" where
  "ProviderState_Validate G s =
     (if ps_Provider s = [] then Inl StateProvider
      else if ps_Data s = [] \<or> \<not> json_valid G (ps_Data s) then Inl StateData
      else Inr ())"

definition NewUserMessage :: "content list \<Rightarrow> message" where
  "NewUserMessage cs = \<lparr>m_Role = RoleUser, m_Content = cs, m_ProviderState = None\<rparr>"

definition NewAssistantMessage :: "content list \<Rightarrow> message" where
  "NewAssistantMessage cs = \<lparr>m_Role = RoleAssistant, m_Content = cs, m_ProviderState = None\<rparr>"

text \<open>A loop over indexed elements that stops at the first error.\<close>

fun check_each :: "('a \<Rightarrow> 'e + unit) \<Rightarrow> (nat \<Rightarrow> 'e \<Rightarrow> 'f) \<Rightarrow> nat \<Rightarrow> 'a list \<Rightarrow> 'f + unit" where
  "check_each f wrap i [] = Inr ()"
| "check_each f wrap i (x # xs) =
     (case f x of Inl e \<Rightarrow> Inl (wrap i e) | Inr _ \<Rightarrow> check_each f wrap (i + 1) xs)"

definition Message_Validate :: "go_std \<Rightarrow> message \<Rightarrow> message_error + unit" where
  "Message_Validate G m =
     (if m_Role m \<noteq> RoleUser \<and> m_Role m \<noteq> RoleAssistant then Inl (MessageRole (m_Role m))
      else if m_Content m = [] \<and> (m_Role m \<noteq> RoleAssistant \<or> m_ProviderState m = None)
        then Inl MessageEmpty
      else rbind (check_each (Content_Validate G) MessageContent 0 (m_Content m)) (\<lambda>_.
        case m_ProviderState m of
          None \<Rightarrow> Inr ()
        | Some s \<Rightarrow> if m_Role m \<noteq> RoleAssistant then Inl StateOnUser else ProviderState_Validate G s))"

definition Message_Clone :: "message \<Rightarrow> message" where
  "Message_Clone m = \<lparr>m_Role = m_Role m, m_Content = cloneContents (m_Content m),
     m_ProviderState = m_ProviderState m\<rparr>"

definition Message_Equal :: "message \<Rightarrow> message \<Rightarrow> bool" where
  "Message_Equal m other \<longleftrightarrow> m_Role m = m_Role other \<and> equalContents (m_Content m) (m_Content other)
     \<and> (case (m_ProviderState m, m_ProviderState other) of
          (None, None) \<Rightarrow> True
        | (Some a, Some b) \<Rightarrow> ps_Provider a = ps_Provider b \<and> Equal (ps_Data a) (ps_Data b)
        | _ \<Rightarrow> False)"

text \<open>\<^verbatim>\<open>models.ToolCalls\<close>: the tool calls of a message, in order.\<close>

definition ToolCalls :: "message \<Rightarrow> tool_call list" where
  "ToolCalls m = concat (map (\<lambda>c. if c_Kind c \<noteq> ContentToolCall then []
     else case c_ToolCall c of None \<Rightarrow> [] | Some call \<Rightarrow> [call]) (m_Content m))"

section \<open>Tools and formats\<close>

record tool =
  t_Name :: string
  t_Description :: string
  t_Parameters :: string
  t_Strict :: "bool option"

datatype tool_error = ToolName | ToolParameters string

definition NewTool :: "string \<Rightarrow> string \<Rightarrow> string \<Rightarrow> tool" where
  "NewTool n d p = \<lparr>t_Name = n, t_Description = d, t_Parameters = p, t_Strict = None\<rparr>"

definition Tool_Validate :: "tool \<Rightarrow> tool_error + unit" where
  "Tool_Validate t =
     (if t_Name t = [] then Inl ToolName
      else if \<not> IsObject (t_Parameters t) then Inl (ToolParameters (t_Name t))
      else Inr ())"

abbreviation "ToolChoiceAuto \<equiv> ''auto''"
abbreviation "ToolChoiceNone \<equiv> ''none''"
abbreviation "ToolChoiceRequired \<equiv> ''required''"
abbreviation "ToolChoiceFunction \<equiv> ''function''"

record tool_choice =
  tch_Kind :: string
  tch_Name :: string

definition SpecificTool :: "string \<Rightarrow> tool_choice" where
  "SpecificTool n = \<lparr>tch_Kind = ToolChoiceFunction, tch_Name = n\<rparr>"

abbreviation "ResponseFormatText \<equiv> ''text''"
abbreviation "ResponseFormatJSONObject \<equiv> ''json_object''"
abbreviation "ResponseFormatJSONSchema \<equiv> ''json_schema''"

record response_format =
  rf_Kind :: string
  rf_Name :: string
  rf_Description :: string
  rf_Schema :: string
  rf_Strict :: "bool option"

definition JSONSchemaFormat :: "string \<Rightarrow> string \<Rightarrow> string \<Rightarrow> response_format" where
  "JSONSchemaFormat n d s = \<lparr>rf_Kind = ResponseFormatJSONSchema, rf_Name = n, rf_Description = d,
     rf_Schema = s, rf_Strict = None\<rparr>"

section \<open>Requests\<close>

abbreviation "InstructionSystem \<equiv> ''system''"
abbreviation "InstructionDeveloper \<equiv> ''developer''"

record instruction =
  i_Role :: string
  i_Text :: string

datatype go_float = NaN | PosInf | NegInf | Finite rat

record generation_config =
  MaxOutputTokens :: "int option"
  Temperature :: "go_float option"
  TopP :: "go_float option"
  Stop :: "string list"
  Seed :: "int option"
  CandidateCount :: "int option"

record request =
  Instructions :: "instruction list"
  Messages :: "message list"
  Tools :: "tool list"
  ToolChoice :: tool_choice
  ResponseFormat :: response_format
  Generation :: generation_config
  RequestID :: string
  Metadata :: "(string, string) gmap"
  Extensions :: "(string, string) gmap"

definition NewTextRequest :: "string \<Rightarrow> request" where
  "NewTextRequest s =
     \<lparr>Instructions = [], Messages = [NewUserMessage [Text s]], Tools = [],
      ToolChoice = \<lparr>tch_Kind = [], tch_Name = []\<rparr>,
      ResponseFormat = \<lparr>rf_Kind = [], rf_Name = [], rf_Description = [], rf_Schema = [], rf_Strict = None\<rparr>,
      Generation = \<lparr>MaxOutputTokens = None, Temperature = None, TopP = None, Stop = [], Seed = None,
        CandidateCount = None\<rparr>,
      RequestID = [], Metadata = [], Extensions = []\<rparr>"

definition Request_Clone :: "request \<Rightarrow> request" where
  "Request_Clone r = r\<lparr>Messages := map Message_Clone (Messages r)\<rparr>"

abbreviation "ErrorInvalidRequest \<equiv> ''invalid_request''"
abbreviation "ErrorUnsupportedFeature \<equiv> ''unsupported_feature''"

datatype invalid_reason =
    NilRequest | NoMessages | InstructionRole nat string | MessageInvalid nat message_error
  | ToolInvalid nat tool_error | DuplicateTool string
  | ChoiceNameUnused | ChoiceNameMissing | ChoiceUndefined string | ChoiceUnknown string | ChoiceNoTools
  | FormatSchema | FormatUnknown string | MaxTokensPositive | CandidatesPositive
  | TemperatureRange | TopPRange | StopEmpty nat | ExtensionNamespace string | ExtensionJSON string
  | NotSupported string

record request_error =
  e_Kind :: string
  e_Provider :: string
  e_Operation :: string
  e_Message :: invalid_reason

definition invalid :: "invalid_reason \<Rightarrow> request_error" where
  "invalid why = \<lparr>e_Kind = ErrorInvalidRequest, e_Provider = [], e_Operation = ''validate'', e_Message = why\<rparr>"

text \<open>The tool loop: \<open>seen\<close> is \<^verbatim>\<open>seenTools\<close>; it returns the final set.\<close>

fun validate_tools :: "nat \<Rightarrow> string list \<Rightarrow> tool list \<Rightarrow> invalid_reason + string list" where
  "validate_tools i seen [] = Inr seen"
| "validate_tools i seen (t # ts) =
     (case Tool_Validate t of
        Inl e \<Rightarrow> Inl (ToolInvalid i e)
      | Inr _ \<Rightarrow>
          if t_Name t \<in> set seen then Inl (DuplicateTool (t_Name t))
          else validate_tools (i + 1) (t_Name t # seen) ts)"

definition validate_choice :: "string list \<Rightarrow> tool_choice \<Rightarrow> invalid_reason + unit" where
  "validate_choice seen c =
     (if tch_Kind c \<in> {[], ToolChoiceAuto, ToolChoiceNone, ToolChoiceRequired} then
        guard (tch_Name c = []) ChoiceNameUnused
      else if tch_Kind c = ToolChoiceFunction then
        (if tch_Name c = [] then Inl ChoiceNameMissing
         else guard (tch_Name c \<in> set seen) (ChoiceUndefined (tch_Name c)))
      else Inl (ChoiceUnknown (tch_Kind c)))"

definition ResponseFormat_validate :: "response_format \<Rightarrow> invalid_reason + unit" where
  "ResponseFormat_validate f =
     (if rf_Kind f \<in> {[], ResponseFormatText, ResponseFormatJSONObject} then Inr ()
      else if rf_Kind f = ResponseFormatJSONSchema then
        (if rf_Name f = [] \<or> \<not> IsObject (rf_Schema f) then Inl FormatSchema else Inr ())
      else Inl (FormatUnknown (rf_Kind f)))"

definition positive_if_set :: "int option \<Rightarrow> bool" where
  "positive_if_set x = (case x of None \<Rightarrow> True | Some v \<Rightarrow> \<not> v \<le> 0)"

fun bad_temperature :: "go_float \<Rightarrow> bool" where
  "bad_temperature (Finite x) = (x < 0)"
| "bad_temperature _ = True"

fun bad_top_p :: "go_float \<Rightarrow> bool" where
  "bad_top_p (Finite x) = (x < 0 \<or> x > 1)"
| "bad_top_p _ = True"

text \<open>\<^verbatim>\<open>strings.TrimSpace(s) != s\<close>: the string starts or ends with the encoding of a
  character that \<^verbatim>\<open>unicode.IsSpace\<close> accepts.\<close>

definition go_spaces :: "nat list" where
  "go_spaces = [9, 10, 11, 12, 13, 32, 0x85, 0xA0, 0x1680] @ [0x2000..<0x200B]
     @ [0x2028, 0x2029, 0x202F, 0x205F, 0x3000]"

definition trim_space_changes :: "string \<Rightarrow> bool" where
  "trim_space_changes s = list_ex (\<lambda>r. prefix (encode_rune r) s \<or> suffix (encode_rune r) s) go_spaces"

definition validate_extension :: "go_std \<Rightarrow> string \<times> string \<Rightarrow> invalid_reason + unit" where
  "validate_extension G e = (case e of (ns, raw) \<Rightarrow>
     if ns = [] \<or> trim_space_changes ns \<or> CHR ''.'' \<notin> set ns then Inl (ExtensionNamespace ns)
     else if raw = [] \<or> \<not> json_valid G raw then Inl (ExtensionJSON ns)
     else Inr ())"

definition validate_generation :: "generation_config \<Rightarrow> invalid_reason + unit" where
  "validate_generation g =
     (if \<not> positive_if_set (MaxOutputTokens g) then Inl MaxTokensPositive
      else if \<not> positive_if_set (CandidateCount g) then Inl CandidatesPositive
      else if (case Temperature g of None \<Rightarrow> False | Some t \<Rightarrow> bad_temperature t) then Inl TemperatureRange
      else if (case TopP g of None \<Rightarrow> False | Some t \<Rightarrow> bad_top_p t) then Inl TopPRange
      else check_each (\<lambda>s. guard (s \<noteq> []) ()) (\<lambda>i _. StopEmpty i) 0 (Stop g))"

definition validate_parts :: "go_std \<Rightarrow> request \<Rightarrow> invalid_reason + unit" where
  "validate_parts G req =
     (if Messages req = [] then Inl NoMessages
      else rbind (check_each (\<lambda>ins. guard (i_Role ins = InstructionSystem \<or> i_Role ins = InstructionDeveloper)
          (i_Role ins)) InstructionRole 0 (Instructions req)) (\<lambda>_.
        rbind (check_each (Message_Validate G) MessageInvalid 0 (Messages req)) (\<lambda>_.
        rbind (validate_tools 0 [] (Tools req)) (\<lambda>seen.
        rbind (validate_choice seen (ToolChoice req)) (\<lambda>_.
        if Tools req = [] \<and> tch_Kind (ToolChoice req) \<noteq> [] \<and> tch_Kind (ToolChoice req) \<noteq> ToolChoiceNone
          then Inl ChoiceNoTools
        else rbind (ResponseFormat_validate (ResponseFormat req)) (\<lambda>_.
          rbind (validate_generation (Generation req)) (\<lambda>_.
          check_each (validate_extension G) (\<lambda>_ e. e) 0 (Extensions req))))))))"

text \<open>\<^verbatim>\<open>ValidateRequest\<close>; the nil request is \<open>None\<close>.\<close>

definition ValidateRequest :: "go_std \<Rightarrow> request option \<Rightarrow> request_error + unit" where
  "ValidateRequest G r = (case r of
     None \<Rightarrow> Inl (invalid NilRequest)
   | Some req \<Rightarrow> (case validate_parts G req of Inl why \<Rightarrow> Inl (invalid why) | Inr _ \<Rightarrow> Inr ()))"

section \<open>Capabilities\<close>

type_synonym capability = "64 word"

definition CapabilityText :: capability where "CapabilityText = push_bit 0 1"
definition CapabilityImageInput :: capability where "CapabilityImageInput = push_bit 1 1"
definition CapabilityTools :: capability where "CapabilityTools = push_bit 2 1"
definition CapabilityParallelTools :: capability where "CapabilityParallelTools = push_bit 3 1"
definition CapabilityJSONOutput :: capability where "CapabilityJSONOutput = push_bit 4 1"
definition CapabilityJSONSchema :: capability where "CapabilityJSONSchema = push_bit 5 1"
definition CapabilityReasoningSummary :: capability where "CapabilityReasoningSummary = push_bit 6 1"
definition CapabilityProviderState :: capability where "CapabilityProviderState = push_bit 7 1"
definition CapabilityMultipleCandidates :: capability where "CapabilityMultipleCandidates = push_bit 8 1"
definition CapabilityToolResultImage :: capability where "CapabilityToolResultImage = push_bit 9 1"

lemmas capability_defs = CapabilityText_def CapabilityImageInput_def CapabilityTools_def
  CapabilityParallelTools_def CapabilityJSONOutput_def CapabilityJSONSchema_def
  CapabilityReasoningSummary_def CapabilityProviderState_def CapabilityMultipleCandidates_def
  CapabilityToolResultImage_def

definition Capabilities :: "capability list \<Rightarrow> 64 word" where
  "Capabilities cs = foldl (\<lambda>set c. set OR c) 0 cs"

definition Capability_Has :: "64 word \<Rightarrow> capability list \<Rightarrow> bool" where
  "Capability_Has s cs = list_all (\<lambda>c. s AND c \<noteq> 0) cs"

definition require :: "64 word \<Rightarrow> string \<Rightarrow> capability \<Rightarrow> string \<Rightarrow> request_error + unit" where
  "require s provider c feature =
     (if Capability_Has s [c] then Inr ()
      else Inl \<lparr>e_Kind = ErrorUnsupportedFeature, e_Provider = provider, e_Operation = ''validate'',
        e_Message = NotSupported feature\<rparr>)"

fun require_all :: "64 word \<Rightarrow> string \<Rightarrow> (capability \<times> string) list \<Rightarrow> request_error + unit" where
  "require_all s provider [] = Inr ()"
| "require_all s provider ((c, feature) # rest) =
     rbind (require s provider c feature) (\<lambda>_. require_all s provider rest)"

text \<open>The capabilities a block asks for, in the order of the checks.\<close>

definition content_needs :: "content \<Rightarrow> (capability \<times> string) list" where
  "content_needs c =
     (if c_Kind c = ContentImage then [(CapabilityImageInput, ''image input'')]
      else if c_Kind c = ContentToolCall then [(CapabilityTools, ''tools'')]
      else if c_Kind c = ContentToolResult then
        (CapabilityTools, ''tools'') #
        (case c_ToolResult c of None \<Rightarrow> [] | Some tr \<Rightarrow>
           map (\<lambda>_. (CapabilityToolResultImage, ''tool-result image''))
             (filter (\<lambda>child. c_Kind child = ContentImage) (tr_Content tr)))
      else if c_Kind c = ContentReasoningSummary then
        [(CapabilityReasoningSummary, ''reasoning summaries'')]
      else [])"

definition request_needs :: "request \<Rightarrow> (capability \<times> string) list" where
  "request_needs req =
     concat (map (\<lambda>m. concat (map content_needs (m_Content m))) (Messages req))
     @ (if Tools req \<noteq> [] then [(CapabilityTools, ''tools'')] else [])
     @ (if rf_Kind (ResponseFormat req) = ResponseFormatJSONObject
        then [(CapabilityJSONOutput, ''JSON object output'')] else [])
     @ (if rf_Kind (ResponseFormat req) = ResponseFormatJSONSchema
        then [(CapabilityJSONSchema, ''JSON Schema output'')] else [])
     @ (case CandidateCount (Generation req) of
          None \<Rightarrow> [] | Some n \<Rightarrow> if n > 1 then [(CapabilityMultipleCandidates, ''multiple candidates'')] else [])"

definition ValidateCapabilities :: "go_std \<Rightarrow> request option \<Rightarrow> 64 word \<Rightarrow> string \<Rightarrow> request_error + unit" where
  "ValidateCapabilities G r s provider =
     (case ValidateRequest G r of
        Inl e \<Rightarrow> Inl (if e_Provider e = [] then e\<lparr>e_Provider := provider\<rparr> else e)
      | Inr _ \<Rightarrow> require_all s provider (request_needs (the r)))"

end
