(* ===== verification/Request_Props.thy ===== *)
theory Request_Props
  imports Request
begin

text \<open>
  Facts about messages and requests: what \<^verbatim>\<open>ValidateRequest\<close> accepts, that message equality
  is an equivalence on valid messages, and that capability sets are sets of bits which
  \<^verbatim>\<open>ValidateCapabilities\<close> consults monotonically.
\<close>

section \<open>Loops\<close>

lemma check_each_iff: "check_each f wrap i xs = Inr u \<longleftrightarrow> (\<forall>x\<in>set xs. f x = Inr ())"
  by (induction xs arbitrary: i) (auto split: sum.splits)

lemma validate_tools_iff:
  "validate_tools i seen ts = Inr seen' \<longleftrightarrow>
     (\<forall>t\<in>set ts. Tool_Validate t = Inr ()) \<and> distinct (map t_Name ts)
     \<and> (\<forall>t\<in>set ts. t_Name t \<notin> set seen) \<and> seen' = rev (map t_Name ts) @ seen"
  by (induction ts arbitrary: i seen) (auto split: sum.splits, metis imageI)

section \<open>Equality\<close>

lemma both_sym: "symp p \<Longrightarrow> both p x y \<Longrightarrow> both p y x"
  by (auto simp: both_def symp_def split: option.splits)

lemma both_trans: "transp p \<Longrightarrow> both p x y \<Longrightarrow> both p y z \<Longrightarrow> both p x z"
  by (auto simp: both_def elim: transpE split: option.splits)

lemma equal_call_laws: "symp equal_call" "transp equal_call"
  unfolding symp_def transp_def equal_call_def by (metis Equal_sym, metis Equal_trans)

lemma equal_image_laws: "symp equal_image" "transp equal_image"
  by (auto simp: equal_image_def symp_def transp_def)

lemma Content_Equal_sym: "Content_Equal c d \<Longrightarrow> Content_Equal d c"
proof (induction c arbitrary: d rule: Content_Clone.induct)
  case (1 k t im tc tr rs rf)
  show ?case
  proof (cases "k = ContentToolResult")
    case True
    then obtain cid n cs e other where tr: "tr = Some (ToolResult cid n cs e)" "c_ToolResult d = Some other"
      "cid = tr_CallID other" "n = tr_Name other" "e = tr_IsError other"
      "list_all2 Content_Equal cs (tr_Content other)" "c_Kind d = k"
      using "1.prems" by (auto simp: equalContents_iff split: option.splits tool_result.splits if_splits)
    have "list_all2 Content_Equal (tr_Content other) cs"
      using tr(6) "1.IH" [OF tr(1) refl] by (auto simp: list_all2_conv_all_nth)
    with tr True show ?thesis
      by (cases d; cases other) (auto simp: equalContents_iff)
  next
    case False
    with "1.prems" show ?thesis
      by (cases d) (auto split: if_splits intro: both_sym equal_call_laws equal_image_laws)
  qed
qed


lemma Content_Equal_trans: "Content_Equal c d \<Longrightarrow> Content_Equal d f \<Longrightarrow> Content_Equal c f"
proof (induction c arbitrary: d f rule: Content_Clone.induct)
  case (1 k t im tc tr rs rf)
  show ?case
  proof (cases "k = ContentToolResult")
    case True
    then obtain cid n cs e o1 where tr: "tr = Some (ToolResult cid n cs e)" "c_ToolResult d = Some o1"
      "cid = tr_CallID o1" "n = tr_Name o1" "e = tr_IsError o1"
      "list_all2 Content_Equal cs (tr_Content o1)" "c_Kind d = k"
      using "1.prems"(1) by (auto simp: equalContents_iff split: option.splits tool_result.splits if_splits)
    then obtain o2 where f: "c_ToolResult f = Some o2" "tr_CallID o1 = tr_CallID o2" "tr_Name o1 = tr_Name o2"
      "tr_IsError o1 = tr_IsError o2" "list_all2 Content_Equal (tr_Content o1) (tr_Content o2)" "c_Kind f = k"
      using "1.prems"(2) True
      by (cases d; cases o1) (auto simp: equalContents_iff split: option.splits if_splits)
    have "list_all2 Content_Equal cs (tr_Content o2)"
      using tr(6) f(5) "1.IH" [OF tr(1) refl] by (auto simp: list_all2_conv_all_nth)
    with tr f True show ?thesis by (auto simp: equalContents_iff)
  next
    case False
    with "1.prems" show ?thesis
      by (cases d) (auto split: if_splits intro: both_trans equal_call_laws equal_image_laws)
  qed
qed

lemma Content_Equal_refl: "Content_Validate G c = Inr u \<Longrightarrow> Content_Equal c c"
proof (induction c rule: Content_Clone.induct)
  case (1 k t im tc tr rs rf)
  from "1.prems" show ?case
  proof (cases rule: Content_Validate_cases)
    case (result cid n cs e)
    then have "list_all2 Content_Equal cs cs"
      using "1.IH" by (auto simp: validateChildren_iff intro!: list.rel_refl_strong)
    then show ?thesis using result by (simp add: equalContents_iff)
  qed (auto simp: content_shapes both_def equal_image_def equal_call_def)
qed

lemma equalContents_sym: "equalContents cs ds \<Longrightarrow> equalContents ds cs"
  by (auto simp: equalContents_iff list_all2_conv_all_nth intro: Content_Equal_sym)

lemma equalContents_trans: "equalContents cs ds \<Longrightarrow> equalContents ds es \<Longrightarrow> equalContents cs es"
  unfolding equalContents_iff by (rule list_all2_trans [OF Content_Equal_trans])

lemma equalContents_refl: "\<forall>c\<in>set cs. Content_Validate G c = Inr () \<Longrightarrow> equalContents cs cs"
  by (auto simp: equalContents_iff intro!: list.rel_refl_strong Content_Equal_refl)

lemma Message_Equal_sym: "Message_Equal m n \<Longrightarrow> Message_Equal n m"
  by (auto simp: Message_Equal_def split: option.splits intro: equalContents_sym Equal_sym)

lemma Message_Equal_trans: "Message_Equal m n \<Longrightarrow> Message_Equal n p \<Longrightarrow> Message_Equal m p"
  by (auto simp: Message_Equal_def split: option.splits intro: equalContents_trans Equal_trans)

lemma Message_Validate_content:
  "Message_Validate G m = Inr u \<Longrightarrow> \<forall>c\<in>set (m_Content m). Content_Validate G c = Inr ()"
  by (auto simp: Message_Validate_def result_simps check_each_iff split: if_splits)

lemma Message_Equal_refl: "Message_Validate G m = Inr u \<Longrightarrow> Message_Equal m m"
  using Message_Validate_content [of G m u]
  by (auto simp: Message_Equal_def intro: equalContents_refl split: option.splits)

section \<open>Capabilities\<close>

definition declared :: "capability list" where
  "declared = map (\<lambda>i. push_bit i 1) [0..<10]"

lemma declared_capabilities:
  "declared = [CapabilityText, CapabilityImageInput, CapabilityTools, CapabilityParallelTools,
     CapabilityJSONOutput, CapabilityJSONSchema, CapabilityReasoningSummary, CapabilityProviderState,
     CapabilityMultipleCandidates, CapabilityToolResultImage]"
  by (simp add: declared_def capability_defs upt_rec)

lemma bit_Capabilities: "bit (Capabilities cs) n \<longleftrightarrow> (\<exists>c\<in>set cs. bit c n)"
proof -
  have "bit (foldl (\<lambda>s c. s OR c) a cs) n \<longleftrightarrow> bit a n \<or> (\<exists>c\<in>set cs. bit c n)" for a :: "64 word"
    by (induction cs arbitrary: a) (auto simp: bit_or_iff)
  then show ?thesis by (simp add: Capabilities_def)
qed

lemma and_power_iff: "s AND push_bit k 1 \<noteq> 0 \<longleftrightarrow> bit s k" for s :: "64 word"
  by (simp add: and_exp_eq_0_iff_not_bit push_bit_of_1)

lemma bit_declared:
  assumes "c \<in> set declared" "d \<in> set declared" "d = push_bit k 1" "k < 10"
  shows "bit c k \<longleftrightarrow> c = d"
  using assms by (auto simp: declared_def push_bit_of_1 bit_exp_iff)

lemma Capability_Has_declared:
  assumes "set cs \<subseteq> set declared" "set ds \<subseteq> set declared"
  shows "Capability_Has (Capabilities cs) ds \<longleftrightarrow> set ds \<subseteq> set cs"
proof -
  have "Capabilities cs AND d \<noteq> 0 \<longleftrightarrow> d \<in> set cs" if d: "d \<in> set declared" for d
  proof -
    obtain k where k: "d = push_bit k 1" "k < 10" using d by (auto simp: declared_def)
    then have "Capabilities cs AND d \<noteq> 0 \<longleftrightarrow> (\<exists>c\<in>set cs. bit c k)"
      by (simp only: and_power_iff bit_Capabilities)
    also have "\<dots> \<longleftrightarrow> d \<in> set cs" using bit_declared [OF _ d k] assms(1) by blast
    finally show ?thesis .
  qed
  with assms(2) show ?thesis by (auto simp: Capability_Has_def list_all_iff)
qed

lemma require_all_iff: "require_all s p ns = Inr u \<longleftrightarrow> (\<forall>(c, f)\<in>set ns. s AND c \<noteq> 0)"
  by (induction ns) (auto simp: result_simps require_def Capability_Has_def)

lemma Capability_monotone: "s AND t = s \<Longrightarrow> s AND c \<noteq> 0 \<Longrightarrow> t AND c \<noteq> 0" for s t c :: "64 word"
  by (metis (no_types) and.assoc and_zero_eq)

section \<open>Validation\<close>

lemma Tool_Validate_iff: "Tool_Validate t = Inr u \<longleftrightarrow> t_Name t \<noteq> [] \<and> IsObject (t_Parameters t)"
  by (simp add: Tool_Validate_def)

lemma validate_choice_iff:
  "validate_choice seen c = Inr u \<and> \<not> (ts = [] \<and> tch_Kind c \<noteq> [] \<and> tch_Kind c \<noteq> ToolChoiceNone) \<longleftrightarrow>
     (if tch_Kind c = ToolChoiceFunction then tch_Name c \<noteq> [] \<and> tch_Name c \<in> set seen \<and> ts \<noteq> []
      else tch_Kind c \<in> {[], ToolChoiceAuto, ToolChoiceNone, ToolChoiceRequired} \<and> tch_Name c = []
        \<and> (tch_Kind c \<in> {ToolChoiceAuto, ToolChoiceRequired} \<longrightarrow> ts \<noteq> []))"
  by (auto simp: validate_choice_def)

lemma ResponseFormat_validate_iff:
  "ResponseFormat_validate f = Inr u \<longleftrightarrow>
     rf_Kind f \<in> {[], ResponseFormatText, ResponseFormatJSONObject}
     \<or> rf_Kind f = ResponseFormatJSONSchema \<and> rf_Name f \<noteq> [] \<and> IsObject (rf_Schema f)"
  by (auto simp: ResponseFormat_validate_def)

lemma temperature_iff: "\<not> bad_temperature t \<longleftrightarrow> (\<exists>x\<ge>0. t = Finite x)"
  by (cases t) auto

lemma top_p_iff: "\<not> bad_top_p t \<longleftrightarrow> (\<exists>x\<ge>0. x \<le> 1 \<and> t = Finite x)"
  by (cases t) auto

lemma validate_generation_iff:
  "validate_generation g = Inr u \<longleftrightarrow>
     (\<forall>n. MaxOutputTokens g = Some n \<longrightarrow> 0 < n) \<and> (\<forall>n. CandidateCount g = Some n \<longrightarrow> 0 < n)
     \<and> (\<forall>t. Temperature g = Some t \<longrightarrow> \<not> bad_temperature t) \<and> (\<forall>t. TopP g = Some t \<longrightarrow> \<not> bad_top_p t)
     \<and> [] \<notin> set (Stop g)"
  by (auto simp: validate_generation_def positive_if_set_def check_each_iff split: option.splits)

lemma validate_extension_iff:
  "validate_extension G e = Inr u \<longleftrightarrow> (case e of (ns, raw) \<Rightarrow>
     ns \<noteq> [] \<and> \<not> trim_space_changes ns \<and> CHR ''.'' \<in> set ns \<and> raw \<noteq> [] \<and> json_valid G raw)"
  by (auto simp: validate_extension_def split: prod.splits)

lemma validate_parts_iff:
  "validate_parts G req = Inr u \<longleftrightarrow>
     Messages req \<noteq> []
     \<and> (\<forall>ins\<in>set (Instructions req). i_Role ins = InstructionSystem \<or> i_Role ins = InstructionDeveloper)
     \<and> (\<forall>m\<in>set (Messages req). Message_Validate G m = Inr ())
     \<and> (\<exists>seen. validate_tools 0 [] (Tools req) = Inr seen
        \<and> (validate_choice seen (ToolChoice req) = Inr () \<and> \<not> (Tools req = [] \<and> tch_Kind (ToolChoice req) \<noteq> []
          \<and> tch_Kind (ToolChoice req) \<noteq> ToolChoiceNone)))
     \<and> ResponseFormat_validate (ResponseFormat req) = Inr ()
     \<and> validate_generation (Generation req) = Inr ()
     \<and> (\<forall>e\<in>set (Extensions req). validate_extension G e = Inr ())"
  by (simp add: validate_parts_def result_simps check_each_iff) blast

lemma ValidateRequest_Inr: "ValidateRequest G (Some req) = Inr u \<longleftrightarrow> validate_parts G req = Inr ()"
  by (auto simp: ValidateRequest_def split: sum.splits)

lemma ValidateCapabilities_iff:
  "ValidateCapabilities G (Some req) s p = Inr u \<longleftrightarrow>
     ValidateRequest G (Some req) = Inr () \<and> (\<forall>(c, f)\<in>set (request_needs req). s AND c \<noteq> 0)"
  by (auto simp: ValidateCapabilities_def require_all_iff split: sum.splits)

lemma needs_declared: "(c, f) \<in> set (request_needs req) \<Longrightarrow> c \<in> set declared"
  by (auto simp: request_needs_def content_needs_def declared_capabilities split: if_splits option.splits)

section \<open>Properties\<close>

text \<open>C27 (functional). \<^verbatim>\<open>ValidateRequest\<close> accepts a request exactly when it has a message,
  every instruction, message, tool, stop sequence and extension is valid, tool names are pairwise
  distinct, the tool choice is consistent with the tools, the response format is known and complete,
  and the numeric controls are in range.\<close>

theorem validate_request_iff:
  "ValidateRequest G (Some req) = Inr () \<longleftrightarrow>
     Messages req \<noteq> []
     \<and> (\<forall>ins\<in>set (Instructions req). i_Role ins \<in> {InstructionSystem, InstructionDeveloper})
     \<and> (\<forall>m\<in>set (Messages req). Message_Validate G m = Inr ())
     \<and> (\<forall>t\<in>set (Tools req). t_Name t \<noteq> [] \<and> IsObject (t_Parameters t))
     \<and> distinct (map t_Name (Tools req))
     \<and> (if tch_Kind (ToolChoice req) = ToolChoiceFunction
        then tch_Name (ToolChoice req) \<in> set (map t_Name (Tools req))
        else tch_Kind (ToolChoice req) \<in> {[], ToolChoiceAuto, ToolChoiceNone, ToolChoiceRequired}
          \<and> tch_Name (ToolChoice req) = []
          \<and> (tch_Kind (ToolChoice req) \<in> {ToolChoiceAuto, ToolChoiceRequired} \<longrightarrow> Tools req \<noteq> []))
     \<and> (rf_Kind (ResponseFormat req) \<in> {[], ResponseFormatText, ResponseFormatJSONObject}
        \<or> rf_Kind (ResponseFormat req) = ResponseFormatJSONSchema
          \<and> rf_Name (ResponseFormat req) \<noteq> [] \<and> IsObject (rf_Schema (ResponseFormat req)))
     \<and> (\<forall>n. MaxOutputTokens (Generation req) = Some n \<longrightarrow> 0 < n)
     \<and> (\<forall>n. CandidateCount (Generation req) = Some n \<longrightarrow> 0 < n)
     \<and> (\<forall>t. Temperature (Generation req) = Some t \<longrightarrow> (\<exists>x\<ge>0. t = Finite x))
     \<and> (\<forall>t. TopP (Generation req) = Some t \<longrightarrow> (\<exists>x\<ge>0. x \<le> 1 \<and> t = Finite x))
     \<and> [] \<notin> set (Stop (Generation req))
     \<and> (\<forall>(ns, raw)\<in>set (Extensions req). ns \<noteq> [] \<and> \<not> trim_space_changes ns \<and> CHR ''.'' \<in> set ns
          \<and> raw \<noteq> [] \<and> json_valid G raw)"
  unfolding ValidateRequest_Inr validate_parts_iff validate_tools_iff validate_choice_iff
    ResponseFormat_validate_iff validate_generation_iff validate_extension_iff temperature_iff top_p_iff
    Tool_Validate_iff
  by auto

theorem validate_request_iff_witness:
  "ValidateRequest \<lparr>url_scheme = \<lambda>_. None, json_valid = \<lambda>_. True\<rparr> (Some (NewTextRequest ''hi'')) = Inr ()"
  by (subst validate_request_iff)
    (simp add: NewTextRequest_def NewUserMessage_def Message_Validate_def Text_def unionCount_def)

text \<open>On the declared capabilities, \<^verbatim>\<open>Capabilities\<close> builds a set and
  \<^verbatim>\<open>Has\<close> decides inclusion in it: no two capabilities share a bit and no bit is lost.\<close>

theorem capability_sets:
  assumes "set cs \<subseteq> set declared" and "set ds \<subseteq> set declared"
  shows "Capability_Has (Capabilities cs) ds \<longleftrightarrow> set ds \<subseteq> set cs"
  using assms by (rule Capability_Has_declared)

theorem capability_sets_witness:
  "\<not> Capability_Has (Capabilities [CapabilityTools, CapabilityText]) [CapabilityTools, CapabilityJSONSchema]"
  by (subst capability_sets) (simp_all add: declared_capabilities capability_defs)

text \<open>A request accepted under some capability set is accepted, whatever the provider
  name, under every larger one.\<close>

theorem capabilities_monotone:
  assumes "ValidateCapabilities G req s p = Inr ()" and "s AND t = s"
  shows "ValidateCapabilities G req t q = Inr ()"
proof (cases req)
  case None
  then show ?thesis using assms(1) by (simp add: ValidateCapabilities_def ValidateRequest_def)
next
  case (Some r)
  then show ?thesis using assms Capability_monotone [OF assms(2)]
    by (auto simp: ValidateCapabilities_iff)
qed

theorem capabilities_monotone_witness:
  "ValidateCapabilities \<lparr>url_scheme = \<lambda>_. None, json_valid = \<lambda>_. True\<rparr> (Some (NewTextRequest ''hi''))
     CapabilityTools ''openai'' = Inr ()"
  by (rule capabilities_monotone [where s = 0 and p = "''any''"])
    (simp_all add: ValidateCapabilities_def ValidateRequest_def validate_parts_def NewTextRequest_def
      NewUserMessage_def Message_Validate_def Text_def unionCount_def validate_choice_def
      ResponseFormat_validate_def validate_generation_def positive_if_set_def request_needs_def content_needs_def)

text \<open>An adapter that reports every declared capability accepts exactly the
  requests that \<^verbatim>\<open>ValidateRequest\<close> accepts: the capability check asks for nothing else.\<close>

theorem full_capabilities_suffice:
  "ValidateCapabilities G (Some req) (Capabilities declared) p = Inr () \<longleftrightarrow> ValidateRequest G (Some req) = Inr ()"
proof -
  have "Capabilities declared AND c \<noteq> 0" if "(c, f) \<in> set (request_needs req)" for c f
    using Capability_Has_declared [of declared "[c]"] needs_declared [OF that]
    by (simp add: Capability_Has_def)
  then show ?thesis by (auto simp: ValidateCapabilities_iff)
qed

text \<open>\<^verbatim>\<open>Message.Equal\<close> is symmetric and transitive on all messages and
  reflexive on valid ones.\<close>

theorem message_equal_equivalence:
  "symp Message_Equal \<and> transp Message_Equal \<and> (Message_Validate G m = Inr () \<longrightarrow> Message_Equal m m)"
  by (auto intro!: sympI transpI intro: Message_Equal_sym Message_Equal_trans Message_Equal_refl)

theorem message_equal_equivalence_witness:
  "Message_Equal (NewUserMessage [Text ''a'', ToolCallContent ''1'' ''f'' ''{}''])
     (NewUserMessage [Text ''a'', ToolCallContent ''1'' ''f'' ''{}''])"
proof -
  have "Message_Validate \<lparr>url_scheme = \<lambda>_. None, json_valid = \<lambda>_. True\<rparr>
      (NewUserMessage [Text ''a'', ToolCallContent ''1'' ''f'' ''{}'']) = Inr ()"
    by code_simp
  then show ?thesis using message_equal_equivalence by blast
qed

end
