(* ===== verification/Events.thy ===== *)
theory Events
  imports Request_Props
begin

text \<open>
  Responses and stream events: \<^verbatim>\<open>src/core/models/response.go\<close>, \<^verbatim>\<open>usage.go\<close>,
  \<^verbatim>\<open>event.go\<close> and \<^verbatim>\<open>event_shape.go\<close>.

  A \<^verbatim>\<open>time.Time\<close> is observed through \<^verbatim>\<open>IsZero\<close> and \<^verbatim>\<open>String\<close> only; it is the
  record \<open>go_time\<close> of the two. A nil map is told from an empty one in \<^verbatim>\<open>reducer.end\<close>, so
  response metadata is an option. Reading a variant through a nil pointer panics in Go: such reads
  return an option here.
\<close>

section \<open>Data\<close>

record go_time =
  t_IsZero :: bool
  t_String :: string

record usage =
  InputTokens :: "int option"
  OutputTokens :: "int option"
  CachedInputTokens :: "int option"
  ReasoningTokens :: "int option"
  ToolUseTokens :: "int option"
  TotalTokens :: "int option"
  u_Raw :: string

abbreviation "ResponseStatusCompleted \<equiv> ''completed''"
abbreviation "FinishUnknown \<equiv> ''unknown''"

record candidate =
  cand_Index :: int
  cand_Content :: "content list"
  cand_FinishReason :: string
  cand_RawFinishReason :: string
  cand_ProviderState :: "provider_state option"

record response =
  r_Provider :: string
  r_ID :: string
  r_Model :: string
  r_Status :: string
  r_Candidates :: "candidate list"
  r_Usage :: usage
  r_ProviderState :: "provider_state option"
  r_RequestID :: string
  r_CreatedAt :: go_time
  r_Metadata :: "(string, string) gmap option"

abbreviation "EventResponseStart \<equiv> ''response_start''"
abbreviation "EventPartStart \<equiv> ''part_start''"
abbreviation "EventPartDelta \<equiv> ''part_delta''"
abbreviation "EventPartEnd \<equiv> ''part_end''"
abbreviation "EventResponseEnd \<equiv> ''response_end''"

abbreviation "DeltaText \<equiv> ''text''"
abbreviation "DeltaToolArguments \<equiv> ''tool_arguments''"
abbreviation "DeltaReasoningSummary \<equiv> ''reasoning_summary''"
abbreviation "DeltaRefusal \<equiv> ''refusal''"
abbreviation "DeltaMediaBytes \<equiv> ''media_bytes''"

record delta =
  d_Kind :: string
  d_Text :: string
  d_Media :: string

record response_info =
  ri_Provider :: string
  ri_ID :: string
  ri_Model :: string
  ri_Status :: string
  ri_RequestID :: string
  ri_CreatedAt :: go_time
  ri_Metadata :: "(string, string) gmap option"
  ri_ProviderState :: "provider_state option"

record candidate_finish =
  f_CandidateIndex :: int
  f_Reason :: string
  f_RawReason :: string
  f_ProviderState :: "provider_state option"

record event =
  ev_Kind :: string
  ev_CandidateIndex :: int
  ev_PartIndex :: int
  ev_Part :: content
  ev_Delta :: delta
  ev_Response :: "response_info option"
  ev_Finishes :: "candidate_finish list"
  ev_Usage :: "usage option"
  ev_ProviderEventID :: string
  ev_ItemID :: string
  ev_CallID :: string

text \<open>The zero values of the structs.\<close>

definition no_content :: content where
  "no_content = Content [] None None None None None None"

definition no_delta :: delta where
  "no_delta = \<lparr>d_Kind = [], d_Text = [], d_Media = []\<rparr>"

definition no_usage :: usage where
  "no_usage = \<lparr>InputTokens = None, OutputTokens = None, CachedInputTokens = None, ReasoningTokens = None,
     ToolUseTokens = None, TotalTokens = None, u_Raw = []\<rparr>"

definition zero_event :: "string \<Rightarrow> event" where
  "zero_event k = \<lparr>ev_Kind = k, ev_CandidateIndex = 0, ev_PartIndex = 0, ev_Part = no_content,
     ev_Delta = no_delta, ev_Response = None, ev_Finishes = [], ev_Usage = None, ev_ProviderEventID = [],
     ev_ItemID = [], ev_CallID = []\<rparr>"

section \<open>Responses\<close>

fun find_candidate :: "int \<Rightarrow> candidate list \<Rightarrow> candidate option" where
  "find_candidate i [] = None"
| "find_candidate i (c # cs) = (if cand_Index c = i then Some c else find_candidate i cs)"

definition response_candidate :: "response \<Rightarrow> int \<Rightarrow> candidate option" where
  "response_candidate r i = find_candidate i (r_Candidates r)"

text \<open>The displayable text of blocks; \<open>None\<close> is the panic on a nil variant.\<close>

fun display_text :: "content list \<Rightarrow> string option" where
  "display_text [] = Some []"
| "display_text (c # cs) =
     (let here = (if c_Kind c = ContentText then c_Text c
                  else if c_Kind c = ContentReasoningSummary then c_ReasoningSummary c
                  else if c_Kind c = ContentRefusal then c_Refusal c
                  else Some []) in
      case (here, display_text cs) of (Some s, Some t) \<Rightarrow> Some (s @ t) | _ \<Rightarrow> None)"

definition Response_Text :: "response \<Rightarrow> string option" where
  "Response_Text r = (case response_candidate r 0 of None \<Rightarrow> Some [] | Some c \<Rightarrow> display_text (cand_Content c))"

fun collect_calls :: "content list \<Rightarrow> tool_call list option" where
  "collect_calls [] = Some []"
| "collect_calls (c # cs) =
     (if c_Kind c \<noteq> ContentToolCall then collect_calls cs
      else case (c_ToolCall c, collect_calls cs) of (Some call, Some rest) \<Rightarrow> Some (call # rest) | _ \<Rightarrow> None)"

definition Response_ToolCalls :: "response \<Rightarrow> tool_call list option" where
  "Response_ToolCalls r = (case response_candidate r 0 of None \<Rightarrow> Some [] | Some c \<Rightarrow> collect_calls (cand_Content c))"

definition AssistantMessage :: "response \<Rightarrow> int \<Rightarrow> message option" where
  "AssistantMessage r i = (case response_candidate r i of
     None \<Rightarrow> None
   | Some c \<Rightarrow> Some \<lparr>m_Role = RoleAssistant, m_Content = cloneContents (cand_Content c),
       m_ProviderState = (case cand_ProviderState c of None \<Rightarrow> r_ProviderState r | Some s \<Rightarrow> Some s)\<rparr>)"

text \<open>\<^verbatim>\<open>Response.Clone\<close>, which also sorts the candidates by index (\<^verbatim>\<open>sort.Slice\<close> is
  unspecified on equal indexes; the model keeps their order).\<close>

definition Response_Clone :: "response \<Rightarrow> response" where
  "Response_Clone r = r\<lparr>r_Candidates := sort_key cand_Index
     (map (\<lambda>c. c\<lparr>cand_Content := cloneContents (cand_Content c)\<rparr>) (r_Candidates r))\<rparr>"

section \<open>Events\<close>

definition Event_Clone :: "event \<Rightarrow> event" where
  "Event_Clone e = e\<lparr>ev_Part := Content_Clone (ev_Part e)\<rparr>"

definition DisplayText :: "event \<Rightarrow> string" where
  "DisplayText e =
     (if ev_Kind e \<noteq> EventPartDelta then []
      else if d_Kind (ev_Delta e) \<in> {DeltaText, DeltaReasoningSummary, DeltaRefusal} then d_Text (ev_Delta e)
      else [])"

datatype shape_error =
    StartNoInfo | StartPayload | NegativeIndex | PartResponsePayload | PartStartDelta | PartStartInvalid string
  | PartStartImage content_error | PartStartMIME | PartStartCallName | PartStartCallArguments
  | NotStreamable string | PartDeltaPart | DeltaTextMedia | DeltaMediaText | DeltaUnknown string
  | PartEndData | EndNoInfo | EndPartPayload | EndNegativeFinish nat | EventUnknown string

definition contentSet :: "content \<Rightarrow> bool" where
  "contentSet c \<longleftrightarrow> c_Kind c \<noteq> [] \<or> unionCount c \<noteq> 0"

definition deltaSet :: "delta \<Rightarrow> bool" where
  "deltaSet d \<longleftrightarrow> d_Kind d \<noteq> [] \<or> d_Text d \<noteq> [] \<or> d_Media d \<noteq> []"

definition partPayloadShape :: "event \<Rightarrow> shape_error + unit" where
  "partPayloadShape e =
     (if ev_CandidateIndex e < 0 \<or> ev_PartIndex e < 0 then Inl NegativeIndex
      else if ev_Response e \<noteq> None \<or> ev_Finishes e \<noteq> [] \<or> ev_Usage e \<noteq> None then Inl PartResponsePayload
      else Inr ())"

definition validateDeltaShape :: "delta \<Rightarrow> shape_error + unit" where
  "validateDeltaShape d =
     (if d_Kind d \<in> {DeltaText, DeltaToolArguments, DeltaReasoningSummary, DeltaRefusal} then
        guard (d_Media d = []) DeltaTextMedia
      else if d_Kind d = DeltaMediaBytes then guard (d_Text d = []) DeltaMediaText
      else Inl (DeltaUnknown (d_Kind d)))"

definition validatePartStart :: "go_std \<Rightarrow> content \<Rightarrow> shape_error + unit" where
  "validatePartStart G c =
     (if c_Kind c = ContentText then
        guard (c_Text c \<noteq> None \<and> unionCount c = 1) (PartStartInvalid (c_Kind c))
      else if c_Kind c = ContentImage then
        (case c_Image c of
           None \<Rightarrow> Inl (PartStartInvalid (c_Kind c))
         | Some i \<Rightarrow>
             if unionCount c \<noteq> 1 then Inl (PartStartInvalid (c_Kind c))
             else if img_URI i \<noteq> [] then
               (case validateImage G i of Inl e \<Rightarrow> Inl (PartStartImage e) | Inr _ \<Rightarrow> Inr ())
             else guard (img_MIMEType i \<noteq> []) PartStartMIME)
      else if c_Kind c = ContentToolCall then
        (case c_ToolCall c of
           None \<Rightarrow> Inl PartStartCallName
         | Some call \<Rightarrow>
             if unionCount c \<noteq> 1 \<or> tc_Name call = [] then Inl PartStartCallName
             else guard (\<not> (tc_Arguments call \<noteq> [] \<and> \<not> IsObject (tc_Arguments call))) PartStartCallArguments)
      else if c_Kind c = ContentReasoningSummary then
        guard (c_ReasoningSummary c \<noteq> None \<and> unionCount c = 1) (PartStartInvalid (c_Kind c))
      else if c_Kind c = ContentRefusal then
        guard (c_Refusal c \<noteq> None \<and> unionCount c = 1) (PartStartInvalid (c_Kind c))
      else Inl (NotStreamable (c_Kind c)))"

definition validateEventShape :: "go_std \<Rightarrow> event \<Rightarrow> shape_error + unit" where
  "validateEventShape G e =
     (if ev_Kind e = EventResponseStart then
        (if ev_Response e = None then Inl StartNoInfo
         else guard (\<not> (ev_CandidateIndex e \<noteq> 0 \<or> ev_PartIndex e \<noteq> 0 \<or> contentSet (ev_Part e)
           \<or> deltaSet (ev_Delta e) \<or> ev_Finishes e \<noteq> [] \<or> ev_Usage e \<noteq> None \<or> ev_ItemID e \<noteq> []
           \<or> ev_CallID e \<noteq> [])) StartPayload)
      else if ev_Kind e = EventPartStart then
        rbind (partPayloadShape e) (\<lambda>_.
        rbind (guard (\<not> deltaSet (ev_Delta e)) PartStartDelta) (\<lambda>_.
        validatePartStart G (ev_Part e)))
      else if ev_Kind e = EventPartDelta then
        rbind (partPayloadShape e) (\<lambda>_.
        rbind (guard (\<not> contentSet (ev_Part e)) PartDeltaPart) (\<lambda>_.
        validateDeltaShape (ev_Delta e)))
      else if ev_Kind e = EventPartEnd then
        rbind (partPayloadShape e) (\<lambda>_.
        guard (\<not> (contentSet (ev_Part e) \<or> deltaSet (ev_Delta e))) PartEndData)
      else if ev_Kind e = EventResponseEnd then
        (if ev_Response e = None then Inl EndNoInfo
         else rbind (guard (\<not> (ev_CandidateIndex e \<noteq> 0 \<or> ev_PartIndex e \<noteq> 0 \<or> contentSet (ev_Part e)
           \<or> deltaSet (ev_Delta e) \<or> ev_ItemID e \<noteq> [] \<or> ev_CallID e \<noteq> [])) EndPartPayload) (\<lambda>_.
         check_each (\<lambda>f. guard (\<not> f_CandidateIndex f < 0) ()) (\<lambda>i _. EndNegativeFinish i) 0 (ev_Finishes e)))
      else Inl (EventUnknown (ev_Kind e)))"

end
