(* ===== verification/Reducer.thy ===== *)
theory Reducer
  imports Events
begin

text \<open>
  The reducer that turns a sequence of events into a response: \<^verbatim>\<open>src/core/models/reducer.go\<close>.

  \<^verbatim>\<open>r.parts\<close> and \<^verbatim>\<open>candidate.parts\<close> hold pointers to the same accumulators, and the
  code relies on that: deltas go through the first map and the response is read through the second.
  The accumulators therefore live in a store \<open>rd_heap\<close>, and both maps hold addresses (positions in
  the store). Candidate accumulators are reached through one map only and are kept in it.

  An operation that fails returns its error only. The one failure after a change, an invalid
  completed part in \<^verbatim>\<open>endPart\<close>, leaves a reducer that \<^verbatim>\<open>eventStream\<close> never reads
  again: it stores the error, and \<^verbatim>\<open>Next\<close> and \<^verbatim>\<open>Response\<close> then return at once.
\<close>

record part_acc =
  pa_content :: content
  pa_text :: string
  pa_args :: string
  pa_media :: string
  pa_ended :: bool

record cand_acc =
  ca_index :: int
  ca_parts :: "(int, nat) gmap"
  ca_finish :: string
  ca_rawFinish :: string
  ca_providerState :: "provider_state option"

record reducer =
  rd_provider :: string
  rd_started :: bool
  rd_ended :: bool
  rd_response :: "response option"
  rd_candidates :: "(int, cand_acc) gmap"
  rd_parts :: "(int \<times> int, nat) gmap"
  rd_heap :: "part_acc list"

datatype reduce_error =
    BadShape shape_error | AfterEnd | DuplicateStart | StartWithoutInfo
  | BeforeStart string | DuplicatePartStart | NoPart string | PartAlreadyEnded string
  | DeltaTarget string | DeltaKindUnknown string | ArgumentsTwice | InvalidPart content_error
  | PartStillOpen | ProviderChanged

definition newReducer :: "string \<Rightarrow> reducer" where
  "newReducer provider = \<lparr>rd_provider = provider, rd_started = False, rd_ended = False, rd_response = None,
     rd_candidates = [], rd_parts = [], rd_heap = []\<rparr>"

definition event_key :: "event \<Rightarrow> int \<times> int" where
  "event_key e = (ev_CandidateIndex e, ev_PartIndex e)"

definition initial_response :: "string \<Rightarrow> response_info \<Rightarrow> response" where
  "initial_response provider info =
     \<lparr>r_Provider = provider, r_ID = ri_ID info, r_Model = ri_Model info, r_Status = ri_Status info,
      r_Candidates = [], r_Usage = no_usage, r_ProviderState = ri_ProviderState info,
      r_RequestID = ri_RequestID info, r_CreatedAt = ri_CreatedAt info, r_Metadata = ri_Metadata info\<rparr>"

definition start :: "reducer \<Rightarrow> event \<Rightarrow> reduce_error + reducer" where
  "start r e =
     (if rd_started r then Inl DuplicateStart
      else case ev_Response e of
        None \<Rightarrow> Inl StartWithoutInfo
      | Some info \<Rightarrow>
          let provider = (if ri_Provider info = [] then rd_provider r else ri_Provider info) in
          Inr (r\<lparr>rd_provider := provider,
            rd_response := Some (initial_response provider info), rd_started := True\<rparr>))"

definition new_candidate :: "int \<Rightarrow> string \<Rightarrow> cand_acc" where
  "new_candidate i finish = \<lparr>ca_index = i, ca_parts = [], ca_finish = finish, ca_rawFinish = [],
     ca_providerState = None\<rparr>"

definition startPart :: "reducer \<Rightarrow> event \<Rightarrow> reduce_error + reducer" where
  "startPart r e =
     (if \<not> rd_started r then Inl (BeforeStart EventPartStart)
      else if map_of (rd_parts r) (event_key e) \<noteq> None then Inl DuplicatePartStart
      else
        let part = \<lparr>pa_content = Content_Clone (ev_Part e), pa_text = [], pa_args = [], pa_media = [],
              pa_ended = False\<rparr>;
            addr = length (rd_heap r);
            cand = (case map_of (rd_candidates r) (ev_CandidateIndex e) of
              None \<Rightarrow> new_candidate (ev_CandidateIndex e) FinishUnknown | Some c \<Rightarrow> c) in
        Inr (r\<lparr>rd_heap := rd_heap r @ [part],
          rd_parts := gput (event_key e) addr (rd_parts r),
          rd_candidates := gput (ev_CandidateIndex e)
            (cand\<lparr>ca_parts := gput (ev_PartIndex e) addr (ca_parts cand)\<rparr>) (rd_candidates r)\<rparr>))"

text \<open>The accumulator after a delta.\<close>

definition add_delta :: "part_acc \<Rightarrow> delta \<Rightarrow> reduce_error + part_acc" where
  "add_delta p d =
     (if d_Kind d = DeltaText then
        (if c_Kind (pa_content p) \<noteq> ContentText then Inl (DeltaTarget (d_Kind d))
         else Inr (p\<lparr>pa_text := pa_text p @ d_Text d\<rparr>))
      else if d_Kind d = DeltaToolArguments then
        (if c_Kind (pa_content p) \<noteq> ContentToolCall then Inl (DeltaTarget (d_Kind d))
         else Inr (p\<lparr>pa_args := pa_args p @ d_Text d\<rparr>))
      else if d_Kind d = DeltaReasoningSummary then
        (if c_Kind (pa_content p) \<noteq> ContentReasoningSummary then Inl (DeltaTarget (d_Kind d))
         else Inr (p\<lparr>pa_text := pa_text p @ d_Text d\<rparr>))
      else if d_Kind d = DeltaRefusal then
        (if c_Kind (pa_content p) \<noteq> ContentRefusal then Inl (DeltaTarget (d_Kind d))
         else Inr (p\<lparr>pa_text := pa_text p @ d_Text d\<rparr>))
      else if d_Kind d = DeltaMediaBytes then
        (if c_Kind (pa_content p) \<noteq> ContentImage \<or> img_URI (the (c_Image (pa_content p))) \<noteq> []
         then Inl (DeltaTarget (d_Kind d))
         else Inr (p\<lparr>pa_media := pa_media p @ d_Media d\<rparr>))
      else Inl (DeltaKindUnknown (d_Kind d)))"

definition deltaPart :: "reducer \<Rightarrow> event \<Rightarrow> reduce_error + reducer" where
  "deltaPart r e =
     (if \<not> rd_started r then Inl (BeforeStart EventPartDelta)
      else case map_of (rd_parts r) (event_key e) of
        None \<Rightarrow> Inl (NoPart EventPartDelta)
      | Some a \<Rightarrow>
          if pa_ended (rd_heap r ! a) then Inl (PartAlreadyEnded EventPartDelta)
          else rbind (add_delta (rd_heap r ! a) (ev_Delta e)) (\<lambda>p.
            Inr (r\<lparr>rd_heap := (rd_heap r)[a := p]\<rparr>)))"

text \<open>\<^verbatim>\<open>append(data, media...)\<close> keeps a nil slice nil when there is nothing to append.\<close>

definition append_bytes :: "string option \<Rightarrow> string \<Rightarrow> string option" where
  "append_bytes d m = (if m = [] then d else Some (bytes_of d @ m))"

text \<open>The content of a part when it ends.\<close>

definition completed :: "part_acc \<Rightarrow> reduce_error + content" where
  "completed p = (case pa_content p of Content k t im tc tr rs rf \<Rightarrow>
     if k = ContentText then Inr (Content k (map_option (\<lambda>s. s @ pa_text p) t) im tc tr rs rf)
     else if k = ContentReasoningSummary then
       Inr (Content k t im tc tr (map_option (\<lambda>s. s @ pa_text p) rs) rf)
     else if k = ContentRefusal then Inr (Content k t im tc tr rs (map_option (\<lambda>s. s @ pa_text p) rf))
     else if k = ContentImage then
       Inr (Content k t (map_option (\<lambda>i. i\<lparr>img_Data := append_bytes (img_Data i) (pa_media p)\<rparr>) im) tc tr rs rf)
     else if k = ContentToolCall \<and> pa_args p \<noteq> [] then
       (case tc of
          Some call \<Rightarrow>
            if tc_Arguments call \<noteq> [] then Inl ArgumentsTwice
            else Inr (Content k t im (Some (call\<lparr>tc_Arguments := pa_args p\<rparr>)) tr rs rf)
        | None \<Rightarrow> Inr (pa_content p))
     else Inr (pa_content p))"

definition endPart :: "go_std \<Rightarrow> reducer \<Rightarrow> event \<Rightarrow> reduce_error + reducer" where
  "endPart G r e =
     (if \<not> rd_started r then Inl (BeforeStart EventPartEnd)
      else case map_of (rd_parts r) (event_key e) of
        None \<Rightarrow> Inl (NoPart EventPartEnd)
      | Some a \<Rightarrow>
          if pa_ended (rd_heap r ! a) then Inl (PartAlreadyEnded EventPartEnd)
          else rbind (completed (rd_heap r ! a)) (\<lambda>c.
            case Content_Validate G c of
              Inl why \<Rightarrow> Inl (InvalidPart why)
            | Inr _ \<Rightarrow> Inr (r\<lparr>rd_heap := (rd_heap r)[a := (rd_heap r ! a)\<lparr>pa_content := c, pa_ended := True\<rparr>]\<rparr>)))"

text \<open>The metadata of \<^verbatim>\<open>response_end\<close> overrides what is set.\<close>

definition merge_info :: "response \<Rightarrow> response_info \<Rightarrow> response" where
  "merge_info resp info = resp
     \<lparr>r_ID := (if ri_ID info \<noteq> [] then ri_ID info else r_ID resp),
      r_Model := (if ri_Model info \<noteq> [] then ri_Model info else r_Model resp),
      r_Status := (if ri_Status info \<noteq> [] then ri_Status info else r_Status resp),
      r_RequestID := (if ri_RequestID info \<noteq> [] then ri_RequestID info else r_RequestID resp),
      r_CreatedAt := (if t_IsZero (ri_CreatedAt info) then r_CreatedAt resp else ri_CreatedAt info),
      r_Metadata := (if ri_Metadata info \<noteq> None then ri_Metadata info else r_Metadata resp),
      r_ProviderState := (if ri_ProviderState info \<noteq> None then ri_ProviderState info else r_ProviderState resp)\<rparr>"

definition apply_finish :: "(int, cand_acc) gmap \<Rightarrow> candidate_finish \<Rightarrow> (int, cand_acc) gmap" where
  "apply_finish cands f =
     (let c = (case map_of cands (f_CandidateIndex f) of
          None \<Rightarrow> new_candidate (f_CandidateIndex f) [] | Some c \<Rightarrow> c) in
      gput (f_CandidateIndex f)
        (c\<lparr>ca_finish := (if f_Reason f = [] then FinishUnknown else f_Reason f),
           ca_rawFinish := f_RawReason f, ca_providerState := f_ProviderState f\<rparr>) cands)"

definition build_candidate :: "part_acc list \<Rightarrow> int \<times> cand_acc \<Rightarrow> candidate" where
  "build_candidate heap x = (case x of (i, acc) \<Rightarrow>
     \<lparr>cand_Index = i,
      cand_Content = map (\<lambda>(j, a). Content_Clone (pa_content (heap ! a))) (sort_key fst (ca_parts acc)),
      cand_FinishReason = (if ca_finish acc = [] then FinishUnknown else ca_finish acc),
      cand_RawFinishReason = ca_rawFinish acc, cand_ProviderState = ca_providerState acc\<rparr>)"

definition end_response :: "reducer \<Rightarrow> event \<Rightarrow> reduce_error + reducer" where
  "end_response r e =
     (if \<not> rd_started r then Inl (BeforeStart EventResponseEnd)
      else if list_ex (\<lambda>(k, a). \<not> pa_ended (rd_heap r ! a)) (rd_parts r) then Inl PartStillOpen
      else
        let resp0 = the (rd_response r) in
        rbind (case ev_Response e of
            None \<Rightarrow> Inr resp0
          | Some info \<Rightarrow>
              if ri_Provider info \<noteq> [] \<and> ri_Provider info \<noteq> r_Provider resp0 then Inl ProviderChanged
              else Inr (merge_info resp0 info)) (\<lambda>resp1.
        let cands = foldl apply_finish (rd_candidates r) (ev_Finishes e);
            resp2 = (case ev_Usage e of None \<Rightarrow> resp1 | Some u \<Rightarrow> resp1\<lparr>r_Usage := u\<rparr>);
            resp3 = resp2\<lparr>r_Candidates := map (build_candidate (rd_heap r)) (sort_key fst cands)\<rparr>;
            resp4 = (if r_Status resp3 = [] then resp3\<lparr>r_Status := ResponseStatusCompleted\<rparr> else resp3) in
        Inr (r\<lparr>rd_candidates := cands, rd_response := Some resp4, rd_ended := True\<rparr>)))"

definition reducer_apply :: "go_std \<Rightarrow> reducer \<Rightarrow> event \<Rightarrow> reduce_error + reducer" where
  "reducer_apply G r e =
     (case validateEventShape G e of
        Inl why \<Rightarrow> Inl (BadShape why)
      | Inr _ \<Rightarrow>
          if rd_ended r then Inl AfterEnd
          else if ev_Kind e = EventResponseStart then start r e
          else if ev_Kind e = EventPartStart then startPart r e
          else if ev_Kind e = EventPartDelta then deltaPart r e
          else if ev_Kind e = EventPartEnd then endPart G r e
          else end_response r e)"

definition reducer_result :: "reducer \<Rightarrow> response option" where
  "reducer_result r = (if \<not> rd_ended r then None else map_option Response_Clone (rd_response r))"

text \<open>A sequence of events applied in order; the first error stops it.\<close>

definition reduce :: "go_std \<Rightarrow> reducer \<Rightarrow> event list \<Rightarrow> reduce_error + reducer" where
  "reduce G = rfold (reducer_apply G)"

end
