(* ===== verification/Reducer_Inv.thy ===== *)
theory Reducer_Inv
  imports Reducer
begin

text \<open>
  What a response should be, as a function of the event history alone (\<open>expected_response\<close>), and
  the invariant that ties the reducer's store to the history: every accumulator holds the deltas of
  its part, the two maps share accumulators consistently, distinct parts have distinct addresses.
\<close>

section \<open>Specification: a response as a function of the event history\<close>

fun part_start :: "event list \<Rightarrow> int \<times> int \<Rightarrow> content option" where
  "part_start [] k = None"
| "part_start (e # es) k =
     (if ev_Kind e = EventPartStart \<and> event_key e = k then Some (ev_Part e) else part_start es k)"

definition deltas :: "event list \<Rightarrow> int \<times> int \<Rightarrow> delta list" where
  "deltas es k = map ev_Delta (filter (\<lambda>e. ev_Kind e = EventPartDelta \<and> event_key e = k) es)"

definition delta_text :: "event list \<Rightarrow> int \<times> int \<Rightarrow> string" where
  "delta_text es k = concat (map d_Text (deltas es k))"

definition delta_media :: "event list \<Rightarrow> int \<times> int \<Rightarrow> string" where
  "delta_media es k = concat (map d_Media (deltas es k))"

definition part_ended :: "event list \<Rightarrow> int \<times> int \<Rightarrow> bool" where
  "part_ended es k \<longleftrightarrow> (\<exists>e\<in>set es. ev_Kind e = EventPartEnd \<and> event_key e = k)"

text \<open>A part with its deltas added: text and refusals and summaries are extended, inline image data
  is extended, tool arguments are the concatenated deltas when there are any.\<close>

definition assemble :: "content \<Rightarrow> string \<Rightarrow> string \<Rightarrow> content" where
  "assemble c txt media = (case c of Content k t im tc tr rs rf \<Rightarrow>
     Content k (if k = ContentText then map_option (\<lambda>s. s @ txt) t else t)
       (if k = ContentImage then map_option (\<lambda>i. i\<lparr>img_Data := append_bytes (img_Data i) media\<rparr>) im else im)
       (if k = ContentToolCall \<and> txt \<noteq> [] then map_option (\<lambda>call. call\<lparr>tc_Arguments := txt\<rparr>) tc else tc)
       tr
       (if k = ContentReasoningSummary then map_option (\<lambda>s. s @ txt) rs else rs)
       (if k = ContentRefusal then map_option (\<lambda>s. s @ txt) rf else rf))"

definition assembled :: "event list \<Rightarrow> int \<times> int \<Rightarrow> content" where
  "assembled es k = assemble (Content_Clone (the (part_start es k))) (delta_text es k) (delta_media es k)"

text \<open>The parts and candidates of a history, in increasing order.\<close>

definition part_indexes :: "event list \<Rightarrow> int \<Rightarrow> int list" where
  "part_indexes es i = sort (remdups (map ev_PartIndex
     (filter (\<lambda>e. ev_Kind e = EventPartStart \<and> ev_CandidateIndex e = i) es)))"

definition candidate_indexes :: "event list \<Rightarrow> candidate_finish list \<Rightarrow> int list" where
  "candidate_indexes es fs = sort (remdups (map ev_CandidateIndex (filter (\<lambda>e. ev_Kind e = EventPartStart) es)
     @ map f_CandidateIndex fs))"

definition last_finish :: "candidate_finish list \<Rightarrow> int \<Rightarrow> candidate_finish option" where
  "last_finish fs i = find (\<lambda>f. f_CandidateIndex f = i) (rev fs)"

definition expected_candidate :: "event list \<Rightarrow> candidate_finish list \<Rightarrow> int \<Rightarrow> candidate" where
  "expected_candidate es fs i =
     \<lparr>cand_Index = i,
      cand_Content = map (\<lambda>j. assembled es (i, j)) (part_indexes es i),
      cand_FinishReason = (case last_finish fs i of None \<Rightarrow> FinishUnknown
        | Some f \<Rightarrow> if f_Reason f = [] then FinishUnknown else f_Reason f),
      cand_RawFinishReason = (case last_finish fs i of None \<Rightarrow> [] | Some f \<Rightarrow> f_RawReason f),
      cand_ProviderState = (case last_finish fs i of None \<Rightarrow> None | Some f \<Rightarrow> f_ProviderState f)\<rparr>"

text \<open>The response of a complete history, for a stream created for provider \<open>p\<close>.\<close>

definition expected_response :: "string \<Rightarrow> event list \<Rightarrow> response" where
  "expected_response p es =
     (let info = the (ev_Response (hd es));
          e = last es;
          resp = merge_info (initial_response (if ri_Provider info = [] then p else ri_Provider info) info)
            (the (ev_Response e)) in
      resp\<lparr>r_Candidates := map (expected_candidate es (ev_Finishes e)) (candidate_indexes es (ev_Finishes e)),
           r_Usage := (case ev_Usage e of None \<Rightarrow> no_usage | Some u \<Rightarrow> u),
           r_Status := (if r_Status resp = [] then ResponseStatusCompleted else r_Status resp)\<rparr>)"

lemma part_start_append: "part_start (es @ fs) k = (case part_start es k of None \<Rightarrow> part_start fs k | Some c \<Rightarrow> Some c)"
  by (induction es) auto

lemma delta_text_snoc:
  "delta_text (es @ [e]) k = delta_text es k @ (if ev_Kind e = EventPartDelta \<and> event_key e = k then d_Text (ev_Delta e) else [])"
  by (simp add: delta_text_def deltas_def)

lemma delta_media_snoc:
  "delta_media (es @ [e]) k = delta_media es k @ (if ev_Kind e = EventPartDelta \<and> event_key e = k then d_Media (ev_Delta e) else [])"
  by (simp add: delta_media_def deltas_def)

lemma part_ended_snoc: "part_ended (es @ [e]) k \<longleftrightarrow> part_ended es k \<or> ev_Kind e = EventPartEnd \<and> event_key e = k"
  by (auto simp: part_ended_def)

lemmas history_snoc = part_start_append delta_text_snoc delta_media_snoc part_ended_snoc

lemma clone_kind [simp]: "c_Kind (Content_Clone c) = c_Kind c"
  by (cases c) simp

section \<open>The invariant\<close>

text \<open>An accumulator agrees with the history of its part.\<close>

definition acc_ok :: "go_std \<Rightarrow> event list \<Rightarrow> int \<times> int \<Rightarrow> part_acc \<Rightarrow> bool" where
  "acc_ok G es k p \<longleftrightarrow>
     c_Kind (pa_content p) = c_Kind (the (part_start es k))
     \<and> pa_media p = delta_media es k
     \<and> (if c_Kind (pa_content p) = ContentToolCall then pa_args p = delta_text es k
        else pa_text p = delta_text es k)
     \<and> pa_ended p = part_ended es k
     \<and> (if pa_ended p then pa_content p = assembled es k \<and> Content_Validate G (pa_content p) = Inr ()
        else pa_content p = Content_Clone (the (part_start es k)))"

definition quiet :: "event list \<Rightarrow> int \<times> int \<Rightarrow> bool" where
  "quiet es k \<longleftrightarrow> delta_text es k = [] \<and> delta_media es k = [] \<and> \<not> part_ended es k"

definition parts_inv :: "go_std \<Rightarrow> event list \<Rightarrow> reducer \<Rightarrow> bool" where
  "parts_inv G es r \<longleftrightarrow> wf_gmap (rd_parts r)
     \<and> (\<forall>k. map_of (rd_parts r) k = None \<longleftrightarrow> part_start es k = None)
     \<and> (\<forall>k. part_start es k = None \<longrightarrow> quiet es k)
     \<and> (\<forall>k a. map_of (rd_parts r) k = Some a \<longrightarrow> a < length (rd_heap r) \<and> acc_ok G es k (rd_heap r ! a))
     \<and> (\<forall>k k' a. map_of (rd_parts r) k = Some a \<longrightarrow> map_of (rd_parts r) k' = Some a \<longrightarrow> k = k')"

definition cands_inv :: "reducer \<Rightarrow> bool" where
  "cands_inv r \<longleftrightarrow> wf_gmap (rd_candidates r)
     \<and> (\<forall>i j. map_of (rd_candidates r) i = None \<longrightarrow> map_of (rd_parts r) (i, j) = None)
     \<and> (\<forall>i c. map_of (rd_candidates r) i = Some c \<longrightarrow> wf_gmap (ca_parts c) \<and> ca_parts c \<noteq> []
          \<and> ca_finish c = FinishUnknown \<and> ca_rawFinish c = [] \<and> ca_providerState c = None
          \<and> (\<forall>j. map_of (ca_parts c) j = map_of (rd_parts r) (i, j)))"

lemma parts_invD:
  assumes "parts_inv G es r"
  shows "wf_gmap (rd_parts r)"
    and "map_of (rd_parts r) k = None \<longleftrightarrow> part_start es k = None"
    and "part_start es k = None \<Longrightarrow> quiet es k"
    and "map_of (rd_parts r) k = Some a \<Longrightarrow> a < length (rd_heap r)"
    and "map_of (rd_parts r) k = Some a \<Longrightarrow> acc_ok G es k (rd_heap r ! a)"
    and "map_of (rd_parts r) k = Some a \<Longrightarrow> part_start es k \<noteq> None"
    and "map_of (rd_parts r) k = Some a \<Longrightarrow> map_of (rd_parts r) k' = Some a \<Longrightarrow> k = k'"
  using assms unfolding parts_inv_def by (blast, blast, blast, blast, blast, metis option.distinct(1), blast)

lemma parts_invI:
  assumes "wf_gmap (rd_parts r)"
    and "\<And>k. map_of (rd_parts r) k = None \<longleftrightarrow> part_start es k = None"
    and "\<And>k. part_start es k = None \<Longrightarrow> quiet es k"
    and "\<And>k a. map_of (rd_parts r) k = Some a \<Longrightarrow> a < length (rd_heap r) \<and> acc_ok G es k (rd_heap r ! a)"
    and "\<And>k k' a. map_of (rd_parts r) k = Some a \<Longrightarrow> map_of (rd_parts r) k' = Some a \<Longrightarrow> k = k'"
  shows "parts_inv G es r"
  using assms unfolding parts_inv_def by blast

lemma completed_eq:
  assumes "completed p = Inr c"
  shows "c = assemble (pa_content p) (if c_Kind (pa_content p) = ContentToolCall then pa_args p else pa_text p) (pa_media p)"
proof -
  obtain k t im tc tr rs rf where p: "pa_content p = Content k t im tc tr rs rf" by (cases "pa_content p")
  show ?thesis using assms unfolding p completed_def assemble_def content.case content.sel
    by (simp add: p split: if_splits option.splits) auto
qed

lemma completed_assembled:
  "acc_ok G es k p \<Longrightarrow> \<not> pa_ended p \<Longrightarrow> completed p = Inr c \<Longrightarrow> c = assembled es k"
  by (auto simp: acc_ok_def assembled_def dest: completed_eq split: if_splits)

lemma assemble_kind [simp]: "c_Kind (assemble c x y) = c_Kind c"
  by (cases c) (simp add: assemble_def)

lemma acc_ok_other:
  assumes "acc_ok G es k p" "part_start es k \<noteq> None"
    and "\<not> (ev_Kind e = EventPartDelta \<and> event_key e = k)" "\<not> (ev_Kind e = EventPartEnd \<and> event_key e = k)"
  shows "acc_ok G (es @ [e]) k p"
  using assms by (auto simp: acc_ok_def assembled_def history_snoc split: option.splits)

lemma acc_ok_start:
  assumes "part_start es k = None" "ev_Kind e = EventPartStart" "event_key e = k" "quiet es k"
  shows "acc_ok G (es @ [e]) k \<lparr>pa_content = Content_Clone (ev_Part e), pa_text = [], pa_args = [], pa_media = [],
              pa_ended = False\<rparr>"
  using assms by (auto simp: acc_ok_def quiet_def history_snoc split: option.splits)

lemma acc_ok_delta:
  assumes "acc_ok G es k p" "part_start es k \<noteq> None" "\<not> pa_ended p" "add_delta p (ev_Delta e) = Inr q"
    "ev_Kind e = EventPartDelta" "event_key e = k" "validateDeltaShape (ev_Delta e) = Inr ()"
  shows "acc_ok G (es @ [e]) k q"
  using assms
  by (auto simp: acc_ok_def history_snoc add_delta_def validateDeltaShape_def split: option.splits if_splits)


lemma acc_ok_end:
  assumes "acc_ok G es k p" "part_start es k \<noteq> None" "\<not> pa_ended p" "completed p = Inr c"
    "ev_Kind e = EventPartEnd" "event_key e = k" "Content_Validate G c = Inr ()"
  shows "acc_ok G (es @ [e]) k (p\<lparr>pa_content := c, pa_ended := True\<rparr>)"
proof -
  have c: "c = assembled es k" by (rule completed_assembled [OF assms(1,3,4)])
  have "assembled (es @ [e]) k = assembled es k"
    using assms by (auto simp: assembled_def history_snoc split: option.splits)
  then show ?thesis using assms c
    by (auto simp: acc_ok_def history_snoc assembled_def split: option.splits)
qed

text \<open>Steps that replace one accumulator.\<close>

lemma parts_inv_update:
  assumes inv: "parts_inv G es r" and a: "map_of (rd_parts r) (event_key e) = Some a"
    and kind: "ev_Kind e \<noteq> EventPartStart" and ok: "acc_ok G (es @ [e]) (event_key e) q"
  shows "parts_inv G (es @ [e]) (r\<lparr>rd_heap := (rd_heap r)[a := q]\<rparr>)"
proof -
  note D = parts_invD [OF inv]
  have started: "part_start (es @ [e]) k = part_start es k" for k
    using kind by (simp add: part_start_append split: option.splits)
  show ?thesis
  proof (rule parts_invI, goal_cases)
    case 1 then show ?case using D(1) by simp
  next
    case (2 k) then show ?case using D(2) [of k] by (simp add: started)
  next
    case (3 k)
    then have "part_start es k = None" by (simp add: started)
    moreover from this have "k \<noteq> event_key e" using D(6) [OF a] by auto
    ultimately show ?case using D(3) [of k] by (simp add: quiet_def history_snoc)
  next
    case (4 k b)
    then have b: "map_of (rd_parts r) k = Some b" by simp
    show ?case
    proof (cases "k = event_key e")
      case True
      then show ?thesis using b a ok D(4) [OF a] by simp
    next
      case False
      then have "b \<noteq> a" using D(7) [OF b, of "event_key e"] a by auto
      moreover have "acc_ok G (es @ [e]) k (rd_heap r ! b)"
        using False by (intro acc_ok_other D(5) [OF b] D(6) [OF b]) auto
      ultimately show ?thesis using D(4) [OF b] by simp
    qed
  next
    case (5 k k' b) then show ?case using D(7) [of k b k'] by simp
  qed
qed

lemma parts_inv_startPart:
  assumes inv: "parts_inv G es r" and kind: "ev_Kind e = EventPartStart" and step: "startPart r e = Inr r'"
  shows "parts_inv G (es @ [e]) r'"
proof -
  note D = parts_invD [OF inv]
  let ?k = "event_key e"
  let ?p = "\<lparr>pa_content = Content_Clone (ev_Part e), pa_text = [], pa_args = [], pa_media = [], pa_ended = False\<rparr>"
  have new: "map_of (rd_parts r) ?k = None" and heap: "rd_heap r' = rd_heap r @ [?p]"
    and parts: "rd_parts r' = gput ?k (length (rd_heap r)) (rd_parts r)"
    using step by (auto simp: startPart_def Let_def split: if_splits)
  have none: "part_start es ?k = None" using D(2) new by simp
  have started: "part_start (es @ [e]) k = (if k = ?k then Some (ev_Part e) else part_start es k)" for k
    using kind none by (auto simp: part_start_append split: option.splits)
  show ?thesis
  proof (rule parts_invI, goal_cases)
    case 1 then show ?case using D(1) by (simp add: parts)
  next
    case (2 k) then show ?case using D(2) [of k] by (simp add: parts started)
  next
    case (3 k)
    then have "part_start es k = None" by (simp add: started split: if_splits)
    then show ?case using D(3) [of k] kind by (simp add: quiet_def history_snoc)
  next
    case (4 k b)
    show ?case
    proof (cases "k = ?k")
      case True
      then show ?thesis using 4 acc_ok_start [OF none kind refl D(3) [OF none], of G] by (auto simp: heap parts)
    next
      case False
      then have b: "map_of (rd_parts r) k = Some b" using 4 by (simp add: parts)
      have "acc_ok G (es @ [e]) k (rd_heap r ! b)"
        using kind by (intro acc_ok_other D(5) [OF b] D(6) [OF b]) auto
      then show ?thesis using D(4) [OF b] by (simp add: heap nth_append)
    qed
  next
    case (5 k k' b)
    then show ?case using D(4) [of k b] D(4) [of k' b] D(7) [of k b k'] by (auto simp: parts split: if_splits)
  qed
qed

lemma cands_invD:
  assumes "cands_inv r"
  shows "wf_gmap (rd_candidates r)"
    and "map_of (rd_candidates r) i = None \<Longrightarrow> map_of (rd_parts r) (i, j) = None"
    and "map_of (rd_candidates r) i = Some c \<Longrightarrow> wf_gmap (ca_parts c) \<and> ca_parts c \<noteq> []
      \<and> ca_finish c = FinishUnknown \<and> ca_rawFinish c = [] \<and> ca_providerState c = None"
    and "map_of (rd_candidates r) i = Some c \<Longrightarrow> map_of (ca_parts c) j = map_of (rd_parts r) (i, j)"
  using assms unfolding cands_inv_def by blast+

lemma gput_nonempty [simp]: "gput k v m \<noteq> []"
  by (cases m) (auto simp: gput_def)

lemma cands_inv_startPart:
  assumes inv: "cands_inv r" and step: "startPart r e = Inr r'"
  shows "cands_inv r'"
proof -
  note D = cands_invD [OF inv]
  let ?i = "ev_CandidateIndex e" and ?a = "length (rd_heap r)"
  define c where "c = (case map_of (rd_candidates r) ?i of None \<Rightarrow> new_candidate ?i FinishUnknown | Some c \<Rightarrow> c)"
  have parts: "rd_parts r' = gput (event_key e) ?a (rd_parts r)"
    and cands: "rd_candidates r' = gput ?i (c\<lparr>ca_parts := gput (ev_PartIndex e) ?a (ca_parts c)\<rparr>) (rd_candidates r)"
    using step by (auto simp: startPart_def Let_def c_def split: if_splits)
  have c: "wf_gmap (ca_parts c) \<and> ca_finish c = FinishUnknown \<and> ca_rawFinish c = [] \<and> ca_providerState c = None"
    and cp: "\<And>j. map_of (ca_parts c) j = map_of (rd_parts r) (?i, j)"
    using D(2,3,4) [of ?i] by (auto simp: c_def new_candidate_def split: option.splits)
  show ?thesis unfolding cands_inv_def
  proof (intro conjI allI impI)
    show "wf_gmap (rd_candidates r')" using D(1) by (simp add: cands)
  next
    fix i j assume "map_of (rd_candidates r') i = None"
    then show "map_of (rd_parts r') (i, j) = None"
      using D(2) [of i j] by (auto simp: cands parts event_key_def split: if_splits)
  next
    fix i c' j assume c': "map_of (rd_candidates r') i = Some c'"
    have "(wf_gmap (ca_parts c') \<and> ca_parts c' \<noteq> [] \<and> ca_finish c' = FinishUnknown \<and> ca_rawFinish c' = []
        \<and> ca_providerState c' = None) \<and> map_of (ca_parts c') j = map_of (rd_parts r') (i, j)"
    proof (cases "i = ?i")
      case True
      then show ?thesis using c cp c' by (auto simp: cands parts event_key_def)
    next
      case False
      then have "map_of (rd_candidates r) i = Some c'" using c' by (simp add: cands)
      then show ?thesis using D(3) D(4) [of i c' j] False by (auto simp: parts event_key_def)
    qed
    then show "wf_gmap (ca_parts c')" "ca_parts c' \<noteq> []" "ca_finish c' = FinishUnknown" "ca_rawFinish c' = []"
      "ca_providerState c' = None" "map_of (ca_parts c') j = map_of (rd_parts r') (i, j)" by auto
  qed
qed

definition open_inv :: "go_std \<Rightarrow> string \<Rightarrow> event list \<Rightarrow> reducer \<Rightarrow> bool" where
  "open_inv G p es r \<longleftrightarrow> parts_inv G es r \<and> cands_inv r \<and> \<not> rd_ended r
     \<and> (case es of
          [] \<Rightarrow> \<not> rd_started r \<and> rd_provider r = p \<and> rd_parts r = []
        | e # _ \<Rightarrow> rd_started r \<and> ev_Kind e = EventResponseStart
            \<and> (\<exists>info. ev_Response e = Some info
               \<and> rd_response r = Some (initial_response (if ri_Provider info = [] then p else ri_Provider info) info))
            \<and> (\<forall>e'\<in>set (tl es). ev_Kind e' \<in> {EventPartStart, EventPartDelta, EventPartEnd}))"

lemma parts_inv_cong:
  "rd_parts r' = rd_parts r \<Longrightarrow> rd_heap r' = rd_heap r \<Longrightarrow> parts_inv G es r' = parts_inv G es r"
  by (simp add: parts_inv_def)

lemma parts_inv_first:
  assumes "rd_parts r = []" "ev_Kind e = EventResponseStart"
  shows "parts_inv G [e] r"
  using assms by (intro parts_invI) (auto simp: quiet_def delta_text_def delta_media_def deltas_def part_ended_def)

lemma open_inv_init: "open_inv G p [] (newReducer p)"
  by (auto simp: open_inv_def newReducer_def cands_inv_def quiet_def delta_text_def delta_media_def deltas_def
      part_ended_def intro!: parts_invI)

lemma shape_kinds:
  assumes "validateEventShape G e = Inr u"
  shows "ev_Kind e \<in> {EventResponseStart, EventPartStart, EventPartDelta, EventPartEnd, EventResponseEnd}"
  using assms by (auto simp: validateEventShape_def split: if_splits)

lemma cands_inv_heap [simp]: "cands_inv (r\<lparr>rd_heap := h\<rparr>) = cands_inv r"
  by (simp add: cands_inv_def)

lemma deltaPart_inv:
  assumes P: "parts_inv G es r" and C: "cands_inv r" and shape: "validateEventShape G e = Inr ()"
    and kind: "ev_Kind e = EventPartDelta" and step: "deltaPart r e = Inr r'"
  shows "parts_inv G (es @ [e]) r' \<and> cands_inv r' \<and> rd_started r \<and> rd_started r' \<and> rd_response r' = rd_response r"
proof -
  obtain a q where a: "map_of (rd_parts r) (event_key e) = Some a" and s: "rd_started r"
    and q: "\<not> pa_ended (rd_heap r ! a)" "add_delta (rd_heap r ! a) (ev_Delta e) = Inr q"
    and r': "r' = r\<lparr>rd_heap := (rd_heap r)[a := q]\<rparr>"
    using step by (auto simp: deltaPart_def result_simps split: if_splits option.splits)
  have "validateDeltaShape (ev_Delta e) = Inr ()"
    using shape kind by (simp add: validateEventShape_def result_simps)
  then have "acc_ok G (es @ [e]) (event_key e) q"
    by (rule acc_ok_delta [OF parts_invD(5) [OF P a] parts_invD(6) [OF P a] q kind refl])
  then show ?thesis using parts_inv_update [OF P a] kind C s by (simp add: r')
qed

lemma endPart_inv:
  assumes P: "parts_inv G es r" and C: "cands_inv r"
    and kind: "ev_Kind e = EventPartEnd" and step: "endPart G r e = Inr r'"
  shows "parts_inv G (es @ [e]) r' \<and> cands_inv r' \<and> rd_started r \<and> rd_started r' \<and> rd_response r' = rd_response r"
proof -
  obtain a c where a: "map_of (rd_parts r) (event_key e) = Some a" and s: "rd_started r"
    and c: "\<not> pa_ended (rd_heap r ! a)" "completed (rd_heap r ! a) = Inr c" "Content_Validate G c = Inr ()"
    and r': "r' = r\<lparr>rd_heap := (rd_heap r)[a := (rd_heap r ! a)\<lparr>pa_content := c, pa_ended := True\<rparr>]\<rparr>"
    using step by (auto simp: endPart_def result_simps split: if_splits option.splits sum.splits)
  have "acc_ok G (es @ [e]) (event_key e) ((rd_heap r ! a)\<lparr>pa_content := c, pa_ended := True\<rparr>)"
    by (rule acc_ok_end [OF parts_invD(5) [OF P a] parts_invD(6) [OF P a] c(1,2) kind refl c(3)])
  then show ?thesis using parts_inv_update [OF P a] kind C s by (simp add: r')
qed

lemma end_response_ended: "end_response r e = Inr r' \<Longrightarrow> rd_ended r'"
  by (auto simp: end_response_def Let_def result_simps split: if_splits)

lemma reducer_apply_cases:
  assumes "reducer_apply G r e = Inr r'"
  obtains (first) "ev_Kind e = EventResponseStart" "start r e = Inr r'"
  | (part) "ev_Kind e = EventPartStart" "startPart r e = Inr r'"
  | (delta) "ev_Kind e = EventPartDelta" "deltaPart r e = Inr r'"
  | (finish) "ev_Kind e = EventPartEnd" "endPart G r e = Inr r'"
  | (last) "ev_Kind e = EventResponseEnd" "end_response r e = Inr r'"
  using assms shape_kinds [of G e] by (auto simp: reducer_apply_def result_simps split: if_splits)

lemma reducer_apply_shape: "reducer_apply G r e = Inr r' \<Longrightarrow> validateEventShape G e = Inr () \<and> \<not> rd_ended r"
  by (auto simp: reducer_apply_def result_simps split: if_splits)

lemma open_inv_more:
  assumes "open_inv G p es r" "parts_inv G (es @ [e]) r'" "cands_inv r'" "rd_started r" "rd_started r'"
    "rd_response r' = rd_response r" "\<not> rd_ended r'" "ev_Kind e \<in> {EventPartStart, EventPartDelta, EventPartEnd}"
  shows "open_inv G p (es @ [e]) r'"
  using assms by (cases es) (auto simp: open_inv_def)

lemma start_inv:
  assumes inv: "open_inv G p es r" and kind: "ev_Kind e = EventResponseStart" and step: "start r e = Inr r'"
  shows "open_inv G p (es @ [e]) r'"
proof -
  have es: "es = []" using inv step by (cases es) (auto simp: open_inv_def start_def)
  then have r: "rd_parts r = []" "cands_inv r" "\<not> rd_ended r" "rd_provider r = p"
    using inv by (auto simp: open_inv_def)
  obtain info where info: "ev_Response e = Some info" "rd_started r'"
    "rd_response r' = Some (initial_response (if ri_Provider info = [] then p else ri_Provider info) info)"
    using step r by (auto simp: start_def Let_def split: if_splits option.splits)
  have same: "rd_parts r' = rd_parts r" "rd_candidates r' = rd_candidates r" "rd_ended r' = rd_ended r"
    using step by (auto simp: start_def Let_def split: if_splits option.splits)
  then have "cands_inv r'" using r by (simp add: cands_inv_def)
  moreover have "parts_inv G [e] r'" using r kind same by (intro parts_inv_first) simp_all
  ultimately show ?thesis using es r kind same info by (simp add: open_inv_def)
qed

lemma open_inv_step:
  assumes inv: "open_inv G p es r" and step: "reducer_apply G r e = Inr r'" and "open": "\<not> rd_ended r'"
  shows "open_inv G p (es @ [e]) r'"
proof -
  have P: "parts_inv G es r" and C: "cands_inv r" using inv by (auto simp: open_inv_def)
  from step show ?thesis
  proof (cases rule: reducer_apply_cases)
    case first
    then show ?thesis by (rule start_inv [OF inv])
  next
    case part
    then have "rd_started r \<and> rd_started r' \<and> rd_response r' = rd_response r"
      by (auto simp: startPart_def Let_def split: if_splits)
    then show ?thesis using part parts_inv_startPart [OF P] cands_inv_startPart [OF C] "open"
      by (intro open_inv_more [OF inv]) auto
  next
    case delta
    then show ?thesis using deltaPart_inv [OF P C] reducer_apply_shape [OF step] "open"
      by (intro open_inv_more [OF inv]) auto
  next
    case finish
    then show ?thesis using endPart_inv [OF P C] "open" by (intro open_inv_more [OF inv]) auto
  next
    case last
    then show ?thesis using end_response_ended "open" by blast
  qed
qed

lemma open_inv_reduce:
  "reduce G (newReducer p) es = Inr r \<Longrightarrow> \<not> rd_ended r \<Longrightarrow> open_inv G p es r"
proof (induction es arbitrary: r rule: rev_induct)
  case Nil
  then show ?case using open_inv_init [of G p] by (simp add: reduce_def)
next
  case (snoc e es)
  then obtain r0 where r0: "reduce G (newReducer p) es = Inr r0" "reducer_apply G r0 e = Inr r"
    by (auto simp: reduce_def rfold_append result_simps)
  then have "\<not> rd_ended r0" using reducer_apply_shape by blast
  with r0 snoc show ?case by (blast intro: open_inv_step)
qed

end
