(* ===== verification/Reducer_Props.thy ===== *)
theory Reducer_Props
  imports Reducer_Inv
begin

text \<open>
  The reducer implements its specification: a complete accepted history yields exactly
  \<open>expected_response\<close>, whose blocks are all valid; an accepted history is one start, the lives of
  its parts in any interleaving, and one end.
\<close>

section \<open>Reading the store in key order\<close>

lemma part_start_iff:
  "part_start es k \<noteq> None \<longleftrightarrow> (\<exists>e\<in>set es. ev_Kind e = EventPartStart \<and> event_key e = k)"
  by (induction es) auto

lemma set_part_indexes: "set (part_indexes es i) = {j. part_start es (i, j) \<noteq> None}"
  unfolding part_start_iff by (auto simp: part_indexes_def event_key_def)

lemma set_candidate_indexes:
  "set (candidate_indexes es fs) = {i. \<exists>j. part_start es (i, j) \<noteq> None} \<union> f_CandidateIndex ` set fs"
  unfolding part_start_iff by (auto simp: candidate_indexes_def event_key_def)

lemma sorted_indexes [simp]: "sorted (part_indexes es i)" "distinct (part_indexes es i)"
  "sorted (candidate_indexes es fs)" "distinct (candidate_indexes es fs)"
  by (simp_all add: part_indexes_def candidate_indexes_def)

text \<open>Reading a Go map in key order.\<close>

lemma keys_sorted:
  assumes "wf_gmap m" "sorted ks" "distinct ks" "set ks = fst ` set m"
  shows "map fst (sort_key fst m) = ks"
proof (rule sorted_distinct_set_unique)
  show "distinct (map fst (sort_key fst m))"
    using assms(1) unfolding wf_gmap_def
    by (metis distinct_map distinct_sort inj_on_def set_sort)
qed (use assms in auto)

lemma map_sorted:
  assumes "wf_gmap m" "sorted ks" "distinct ks" "set ks = fst ` set m"
    and f: "\<And>k v. map_of m k = Some v \<Longrightarrow> f (k, v) = g k"
  shows "map f (sort_key fst m) = map g ks"
proof -
  have "map f (sort_key fst m) = map g (map fst (sort_key fst m))"
    using f wf_gmap_map_of [OF assms(1)] by auto
  then show ?thesis using keys_sorted [OF assms(1-4)] by simp
qed

lemma map_of_finishes:
  assumes "wf_gmap cands"
  shows "wf_gmap (foldl apply_finish cands fs)"
    and "map_of (foldl apply_finish cands fs) i = (case last_finish fs i of
      None \<Rightarrow> map_of cands i
    | Some f \<Rightarrow> Some ((case map_of cands i of None \<Rightarrow> new_candidate i [] | Some c \<Rightarrow> c)
        \<lparr>ca_finish := (if f_Reason f = [] then FinishUnknown else f_Reason f),
         ca_rawFinish := f_RawReason f, ca_providerState := f_ProviderState f\<rparr>))"
  using assms
proof (induction fs arbitrary: i rule: rev_induct)
  case (snoc f fs)
  { case 1 then show ?case using snoc by (simp add: apply_finish_def Let_def) }
  { case 2 then show ?case using snoc(2) [of i] by (auto simp: apply_finish_def Let_def last_finish_def split: option.splits) }
qed (simp_all add: last_finish_def)

lemma last_finish_iff: "last_finish fs i \<noteq> None \<longleftrightarrow> i \<in> f_CandidateIndex ` set fs"
  by (auto simp: last_finish_def find_None_iff)

lemma dom_gmap: "fst ` set m = {k. map_of m k \<noteq> None}"
  by (auto simp: map_of_eq_None_iff)

lemma candidate_contents:
  assumes P: "parts_inv G es r" and ended: "list_all (\<lambda>(k, a). pa_ended (rd_heap r ! a)) (rd_parts r)"
    and wf: "wf_gmap ps" and ps: "\<And>j. map_of ps j = map_of (rd_parts r) (i, j)"
  shows "map (\<lambda>(j, a). Content_Clone (pa_content (rd_heap r ! a))) (sort_key fst ps)
    = map (\<lambda>j. assembled es (i, j)) (part_indexes es i)"
proof (rule map_sorted [OF wf])
  have "map_of (rd_parts r) (i, j) \<noteq> None \<longleftrightarrow> part_start es (i, j) \<noteq> None" for j
    using parts_invD(2) [OF P] by simp
  then show "set (part_indexes es i) = fst ` set ps"
    unfolding set_part_indexes dom_gmap ps by auto
next
  fix j a assume "map_of ps j = Some a"
  then have a: "map_of (rd_parts r) (i, j) = Some a" by (simp add: ps)
  then have "pa_ended (rd_heap r ! a)" using ended by (auto simp: list_all_iff dest: map_of_SomeD)
  with parts_invD(5) [OF P a] show "(case (j, a) of (j, a) \<Rightarrow> Content_Clone (pa_content (rd_heap r ! a))) = assembled es (i, j)"
    by (auto simp: acc_ok_def dest: clone_valid)
qed simp_all

lemma assembled_valid:
  assumes P: "parts_inv G es r" and ended: "list_all (\<lambda>(k, a). pa_ended (rd_heap r ! a)) (rd_parts r)"
    and "part_start es k \<noteq> None"
  shows "Content_Validate G (assembled es k) = Inr ()"
proof -
  obtain a where a: "map_of (rd_parts r) k = Some a" using parts_invD(2) [OF P, of k] assms(3) by auto
  then have "pa_ended (rd_heap r ! a)" using ended by (auto simp: list_all_iff dest: map_of_SomeD)
  with parts_invD(5) [OF P a] show ?thesis by (auto simp: acc_ok_def)
qed

lemma built_candidates:
  assumes P: "parts_inv G es r" and C: "cands_inv r"
    and ended: "list_all (\<lambda>(k, a). pa_ended (rd_heap r ! a)) (rd_parts r)"
  shows "map (build_candidate (rd_heap r)) (sort_key fst (foldl apply_finish (rd_candidates r) fs))
    = map (expected_candidate es fs) (candidate_indexes es fs)"
proof (rule map_sorted)
  note D = cands_invD [OF C]
  note F = map_of_finishes [OF D(1)]
  show "wf_gmap (foldl apply_finish (rd_candidates r) fs)" by (rule F(1))
  have parts: "map_of (rd_candidates r) i \<noteq> None \<longleftrightarrow> (\<exists>j. part_start es (i, j) \<noteq> None)" for i
  proof
    assume "map_of (rd_candidates r) i \<noteq> None"
    then obtain c where c: "map_of (rd_candidates r) i = Some c" by auto
    then obtain j a ps where "ca_parts c = (j, a) # ps" using D(3) [OF c] by (cases "ca_parts c") auto
    then have "map_of (rd_parts r) (i, j) = Some a" using D(4) [OF c, of j] by simp
    then show "\<exists>j. part_start es (i, j) \<noteq> None" using parts_invD(6) [OF P] by blast
  next
    assume "\<exists>j. part_start es (i, j) \<noteq> None"
    then obtain j where "map_of (rd_parts r) (i, j) \<noteq> None" using parts_invD(2) [OF P] by auto
    then show "map_of (rd_candidates r) i \<noteq> None" using D(2) [of i j] by metis
  qed
  have "map_of (foldl apply_finish (rd_candidates r) fs) i \<noteq> None \<longleftrightarrow>
      (\<exists>j. part_start es (i, j) \<noteq> None) \<or> i \<in> f_CandidateIndex ` set fs" for i
    using F(2) [of fs i] parts [of i] last_finish_iff [of fs i] by (auto split: option.splits)
  then show "set (candidate_indexes es fs) = fst ` set (foldl apply_finish (rd_candidates r) fs)"
    unfolding set_candidate_indexes dom_gmap by auto
  fix i c assume c: "map_of (foldl apply_finish (rd_candidates r) fs) i = Some c"
  have c0: "wf_gmap (ca_parts c) \<and> (\<forall>j. map_of (ca_parts c) j = map_of (rd_parts r) (i, j))"
    using c D(2,3,4) [of i] unfolding F(2) by (auto simp: new_candidate_def split: option.splits)
  have meta: "(if ca_finish c = [] then FinishUnknown else ca_finish c) = cand_FinishReason (expected_candidate es fs i)"
    "ca_rawFinish c = cand_RawFinishReason (expected_candidate es fs i)"
    "ca_providerState c = cand_ProviderState (expected_candidate es fs i)"
    using c D(3) [of i] unfolding F(2)
    by (auto simp: expected_candidate_def new_candidate_def split: option.splits)
  show "build_candidate (rd_heap r) (i, c) = expected_candidate es fs i"
    using candidate_contents [OF P ended, of "ca_parts c" i] c0 meta
    by (simp add: build_candidate_def expected_candidate_def)
qed simp_all

lemma reduce_complete:
  assumes "reduce G (newReducer p) es = Inr r" "rd_ended r"
  obtains es' e r0 where "es = es' @ [e]" "reduce G (newReducer p) es' = Inr r0" "open_inv G p es' r0"
    "validateEventShape G e = Inr ()" "ev_Kind e = EventResponseEnd" "end_response r0 e = Inr r"
proof -
  have "es \<noteq> []" using assms by (auto simp: reduce_def newReducer_def)
  then obtain es' e where es: "es = es' @ [e]" by (metis rev_exhaust)
  with assms obtain r0 where r0: "reduce G (newReducer p) es' = Inr r0" "reducer_apply G r0 e = Inr r"
    by (auto simp: reduce_def rfold_append result_simps)
  have s: "validateEventShape G e = Inr ()" "\<not> rd_ended r0" using reducer_apply_shape [OF r0(2)] by auto
  have inv: "open_inv G p es' r0" by (rule open_inv_reduce [OF r0(1) s(2)])
  have "ev_Kind e = EventResponseEnd \<and> end_response r0 e = Inr r"
  proof (rule ccontr)
    assume "\<not> (ev_Kind e = EventResponseEnd \<and> end_response r0 e = Inr r)"
    with r0(2) s(2) assms(2) show False
      by (cases rule: reducer_apply_cases)
        (auto simp: start_def startPart_def deltaPart_def endPart_def Let_def result_simps split: if_splits option.splits)
  qed
  with that es r0 inv s show thesis by blast
qed

lemma expected_snoc:
  assumes "ev_Kind e = EventResponseEnd"
  shows "part_indexes (es @ [e]) i = part_indexes es i" "candidate_indexes (es @ [e]) fs = candidate_indexes es fs"
    "assembled (es @ [e]) k = assembled es k" "expected_candidate (es @ [e]) fs i = expected_candidate es fs i"
    "part_start (es @ [e]) k = part_start es k"
proof -
  show ps: "part_start (es @ [e]) k = part_start es k" for k
    using assms by (simp add: part_start_append split: option.splits)
  show a: "assembled (es @ [e]) k = assembled es k" for k
    using assms ps by (simp add: assembled_def history_snoc)
  show i: "part_indexes (es @ [e]) i = part_indexes es i" for i using assms by (simp add: part_indexes_def)
  show "candidate_indexes (es @ [e]) fs = candidate_indexes es fs" using assms by (simp add: candidate_indexes_def)
  show "expected_candidate (es @ [e]) fs i = expected_candidate es fs i" by (simp add: expected_candidate_def a i)
qed

lemma valid_expected:
  assumes "parts_inv G es r" "list_all (\<lambda>(k, a). pa_ended (rd_heap r ! a)) (rd_parts r)"
    and "c \<in> set (cand_Content (expected_candidate es fs i))"
  shows "Content_Validate G c = Inr ()"
  using assms(3) set_part_indexes [of es i] by (auto simp: expected_candidate_def intro!: assembled_valid [OF assms(1,2)])

lemma end_expected:
  assumes inv: "open_inv G p es r0" and kind: "ev_Kind e = EventResponseEnd" and some: "ev_Response e \<noteq> None"
    and step: "end_response r0 e = Inr r"
  shows "rd_response r = Some (expected_response p (es @ [e]))" and "es \<noteq> []"
    and "\<forall>c\<in>set (r_Candidates (expected_response p (es @ [e]))). \<forall>x\<in>set (cand_Content c). Content_Validate G x = Inr ()"
proof -
  have P: "parts_inv G es r0" and C: "cands_inv r0" using inv by (auto simp: open_inv_def)
  have started: "rd_started r0" using step by (auto simp: end_response_def split: if_splits)
  then show es: "es \<noteq> []" using inv by (auto simp: open_inv_def)
  have ended: "list_all (\<lambda>(k, a). pa_ended (rd_heap r0 ! a)) (rd_parts r0)"
    using step by (auto simp: end_response_def list_ex_iff list_all_iff split: if_splits)
  note cs = built_candidates [OF P C ended]
  obtain info where info: "ev_Response (hd es) = Some info"
    "rd_response r0 = Some (initial_response (if ri_Provider info = [] then p else ri_Provider info) info)"
    using inv es by (cases es) (auto simp: open_inv_def)
  obtain info' where info': "ev_Response e = Some info'" using some by auto
  define init where "init = initial_response (if ri_Provider info = [] then p else ri_Provider info) info"
  define resp where "resp = merge_info init info'"
  have usage: "r_Usage resp = no_usage" by (simp add: resp_def init_def merge_info_def initial_response_def)
  have exp: "expected_response p (es @ [e]) =
    resp\<lparr>r_Candidates := map (expected_candidate es (ev_Finishes e)) (candidate_indexes es (ev_Finishes e)),
           r_Usage := (case ev_Usage e of None \<Rightarrow> no_usage | Some u \<Rightarrow> u),
           r_Status := (if r_Status resp = [] then ResponseStatusCompleted else r_Status resp)\<rparr>"
    using es info info' by (simp add: expected_response_def Let_def resp_def init_def expected_snoc [OF kind])
  show "rd_response r = Some (expected_response p (es @ [e]))"
  proof -
    have r0: "rd_response r0 = Some init" using info by (simp add: init_def)
    have "rd_response r = Some (let resp3 = (case ev_Usage e of None \<Rightarrow> resp | Some u \<Rightarrow> resp\<lparr>r_Usage := u\<rparr>)
        \<lparr>r_Candidates := map (expected_candidate es (ev_Finishes e)) (candidate_indexes es (ev_Finishes e))\<rparr> in
        if r_Status resp3 = [] then resp3\<lparr>r_Status := ResponseStatusCompleted\<rparr> else resp3)"
      using step started ended r0 info'
      by (auto simp: end_response_def Let_def cs resp_def [symmetric] result_simps simp del: case_sum_eq_Inr_iff split: if_splits)
    also have "\<dots> = Some (expected_response p (es @ [e]))"
      unfolding exp using usage by (cases resp) (simp add: Let_def split: option.splits)
    finally show ?thesis .
  qed
  show "\<forall>c\<in>set (r_Candidates (expected_response p (es @ [e]))). \<forall>x\<in>set (cand_Content c). Content_Validate G x = Inr ()"
    unfolding exp using valid_expected [OF P ended] by auto
qed

lemma Response_Clone_id:
  assumes "sorted (map cand_Index (r_Candidates resp))"
    and "\<forall>c\<in>set (r_Candidates resp). \<forall>x\<in>set (cand_Content c). Content_Validate G x = Inr ()"
  shows "Response_Clone resp = resp"
proof -
  have "map (\<lambda>c. c\<lparr>cand_Content := cloneContents (cand_Content c)\<rparr>) (r_Candidates resp) = r_Candidates resp"
    using assms(2) by (intro map_idI) (auto simp: clone_children [of _ G])
  then show ?thesis using assms(1) by (simp add: Response_Clone_def sort_key_id_if_sorted)
qed

section \<open>The life of a part\<close>

definition part_events :: "event list \<Rightarrow> int \<times> int \<Rightarrow> event list" where
  "part_events es k = filter (\<lambda>e. ev_Kind e \<in> {EventPartStart, EventPartDelta, EventPartEnd} \<and> event_key e = k) es"

text \<open>One start, any number of deltas, then at most one end.\<close>

definition part_opened :: "event list \<Rightarrow> bool" where
  "part_opened es \<longleftrightarrow> (\<exists>s ds. es = s # ds \<and> ev_Kind s = EventPartStart \<and> (\<forall>d\<in>set ds. ev_Kind d = EventPartDelta))"

definition part_closed :: "event list \<Rightarrow> bool" where
  "part_closed es \<longleftrightarrow> (\<exists>ds t. es = ds @ [t] \<and> part_opened ds \<and> ev_Kind t = EventPartEnd)"

definition life_inv :: "event list \<Rightarrow> reducer \<Rightarrow> bool" where
  "life_inv es r \<longleftrightarrow> (\<forall>i j. case map_of (rd_parts r) (i, j) of
       None \<Rightarrow> part_events es (i, j) = []
     | Some a \<Rightarrow> if pa_ended (rd_heap r ! a) then part_closed (part_events es (i, j)) else part_opened (part_events es (i, j)))"

lemma part_opened_snoc: "part_opened es \<Longrightarrow> ev_Kind e = EventPartDelta \<Longrightarrow> part_opened (es @ [e])"
  by (auto simp: part_opened_def)

lemma part_opened_single: "ev_Kind e = EventPartStart \<Longrightarrow> part_opened [e]"
  by (simp add: part_opened_def)

lemma part_closed_snoc: "part_opened es \<Longrightarrow> ev_Kind e = EventPartEnd \<Longrightarrow> part_closed (es @ [e])"
  by (auto simp: part_closed_def)

lemma part_events_snoc:
  "part_events (es @ [e]) k = part_events es k @
     (if ev_Kind e \<in> {EventPartStart, EventPartDelta, EventPartEnd} \<and> event_key e = k then [e] else [])"
  by (simp add: part_events_def)

lemma life_invD:
  assumes "life_inv es r"
  shows "map_of (rd_parts r) k = None \<Longrightarrow> part_events es k = []"
    and "map_of (rd_parts r) k = Some a \<Longrightarrow> pa_ended (rd_heap r ! a) \<Longrightarrow> part_closed (part_events es k)"
    and "map_of (rd_parts r) k = Some a \<Longrightarrow> \<not> pa_ended (rd_heap r ! a) \<Longrightarrow> part_opened (part_events es k)"
  using assms unfolding life_inv_def by (cases k; force split: option.splits if_splits)+

lemma life_invI:
  assumes "\<And>k. map_of (rd_parts r) k = None \<Longrightarrow> part_events es k = []"
    and "\<And>k a. map_of (rd_parts r) k = Some a \<Longrightarrow> pa_ended (rd_heap r ! a) \<Longrightarrow> part_closed (part_events es k)"
    and "\<And>k a. map_of (rd_parts r) k = Some a \<Longrightarrow> \<not> pa_ended (rd_heap r ! a) \<Longrightarrow> part_opened (part_events es k)"
  shows "life_inv es r"
  using assms unfolding life_inv_def by (auto split: option.splits)

lemma life_inv_update:
  assumes L: "life_inv es r" and P: "parts_inv G es r" and a: "map_of (rd_parts r) (event_key e) = Some a"
    and kind: "ev_Kind e \<noteq> EventPartStart"
    and here: "pa_ended q \<Longrightarrow> part_closed (part_events (es @ [e]) (event_key e))"
      "\<not> pa_ended q \<Longrightarrow> part_opened (part_events (es @ [e]) (event_key e))"
  shows "life_inv (es @ [e]) (r\<lparr>rd_heap := (rd_heap r)[a := q]\<rparr>)"
proof (rule life_invI, goal_cases)
  case (1 k)
  then have "k \<noteq> event_key e" using a by auto
  then show ?case using life_invD(1) [OF L, of k] 1 by (simp add: part_events_snoc)
next
  case (2 k b)
  then show ?case
    using here(1) life_invD(2) [OF L, of k b] parts_invD(7) [OF P, of "event_key e" a k] parts_invD(4) [OF P a] a
    by (cases "k = event_key e"; cases "a = b") (auto simp: part_events_snoc)
next
  case (3 k b)
  then show ?case
    using here(2) life_invD(3) [OF L, of k b] parts_invD(7) [OF P, of "event_key e" a k] parts_invD(4) [OF P a] a
    by (cases "k = event_key e"; cases "a = b") (auto simp: part_events_snoc)
qed

lemma life_inv_startPart:
  assumes L: "life_inv es r" and P: "parts_inv G es r" and kind: "ev_Kind e = EventPartStart"
    and step: "startPart r e = Inr r'"
  shows "life_inv (es @ [e]) r'"
proof -
  let ?k = "event_key e"
  let ?p = "\<lparr>pa_content = Content_Clone (ev_Part e), pa_text = [], pa_args = [], pa_media = [], pa_ended = False\<rparr>"
  have new: "map_of (rd_parts r) ?k = None" and heap: "rd_heap r' = rd_heap r @ [?p]"
    and parts: "rd_parts r' = gput ?k (length (rd_heap r)) (rd_parts r)"
    using step by (auto simp: startPart_def Let_def split: if_splits)
  have old: "rd_heap r' ! b = rd_heap r ! b" if "map_of (rd_parts r) k = Some b" for k b
    using parts_invD(4) [OF P that] by (simp add: heap nth_append)
  show ?thesis
  proof (rule life_invI, goal_cases)
    case (1 k)
    then show ?case using life_invD(1) [OF L, of k] by (auto simp: parts part_events_snoc split: if_splits)
  next
    case (2 k b)
    show ?case
    proof (cases "k = ?k")
      case True then show ?thesis using 2 by (auto simp: parts heap)
    next
      case False
      then have b: "map_of (rd_parts r) k = Some b" using 2 by (simp add: parts)
      then show ?thesis using life_invD(2) [OF L b] 2 old [OF b] False by (simp add: part_events_snoc)
    qed
  next
    case (3 k b)
    show ?case
    proof (cases "k = ?k")
      case True then show ?thesis using kind life_invD(1) [OF L new] by (simp add: part_events_snoc part_opened_single)
    next
      case False
      then have b: "map_of (rd_parts r) k = Some b" using 3 by (simp add: parts)
      then show ?thesis using life_invD(3) [OF L b] 3 old [OF b] False by (simp add: part_events_snoc)
    qed
  qed
qed

lemma life_inv_same:
  assumes "life_inv es r" "rd_parts r' = rd_parts r" "rd_heap r' = rd_heap r"
    "ev_Kind e \<notin> {EventPartStart, EventPartDelta, EventPartEnd}"
  shows "life_inv (es @ [e]) r'"
proof -
  have "part_events (es @ [e]) k = part_events es k" for k using assms(4) by (simp add: part_events_snoc)
  then show ?thesis using assms(2,3) life_invD [OF assms(1)] by (intro life_invI) simp_all
qed

lemma life_inv_step:
  assumes L: "life_inv es r" and inv: "open_inv G p es r" and step: "reducer_apply G r e = Inr r'"
  shows "life_inv (es @ [e]) r'"
proof -
  have P: "parts_inv G es r" using inv by (simp add: open_inv_def)
  from step show ?thesis
  proof (cases rule: reducer_apply_cases)
    case first
    then have "rd_parts r' = rd_parts r" "rd_heap r' = rd_heap r"
      by (auto simp: start_def Let_def split: if_splits option.splits)
    then show ?thesis using life_inv_same [OF L] first by simp
  next
    case part
    then show ?thesis by (intro life_inv_startPart [OF L P])
  next
    case delta
    then obtain a q where a: "map_of (rd_parts r) (event_key e) = Some a" "\<not> pa_ended (rd_heap r ! a)"
      "add_delta (rd_heap r ! a) (ev_Delta e) = Inr q" "r' = r\<lparr>rd_heap := (rd_heap r)[a := q]\<rparr>"
      by (auto simp: deltaPart_def result_simps split: if_splits option.splits)
    have "\<not> pa_ended q" using a by (auto simp: add_delta_def split: if_splits)
    then show ?thesis using delta a life_invD(3) [OF L a(1,2)]
      by (auto simp: part_events_snoc intro!: life_inv_update [OF L P] part_opened_snoc)
  next
    case finish
    then obtain a c where a: "map_of (rd_parts r) (event_key e) = Some a" "\<not> pa_ended (rd_heap r ! a)"
      "r' = r\<lparr>rd_heap := (rd_heap r)[a := (rd_heap r ! a)\<lparr>pa_content := c, pa_ended := True\<rparr>]\<rparr>"
      by (auto simp: endPart_def result_simps split: if_splits option.splits)
    then show ?thesis using finish life_invD(3) [OF L a(1,2)]
      by (auto simp: part_events_snoc intro!: life_inv_update [OF L P] part_closed_snoc)
  next
    case last
    then have "rd_parts r' = rd_parts r" "rd_heap r' = rd_heap r"
      by (auto simp: end_response_def Let_def result_simps split: if_splits)
    then show ?thesis using life_inv_same [OF L] last by simp
  qed
qed

lemma life_inv_reduce: "reduce G (newReducer p) es = Inr r \<Longrightarrow> life_inv es r"
proof (induction es arbitrary: r rule: rev_induct)
  case Nil
  then show ?case by (auto simp: reduce_def newReducer_def life_inv_def part_events_def)
next
  case (snoc e es)
  then obtain r0 where r0: "reduce G (newReducer p) es = Inr r0" "reducer_apply G r0 e = Inr r"
    by (auto simp: reduce_def rfold_append result_simps)
  then have "open_inv G p es r0" using reducer_apply_shape open_inv_reduce by blast
  with r0 snoc show ?case by (blast intro: life_inv_step)
qed


section \<open>Reading a reduced response\<close>

lemma display_text_defined:
  "\<forall>c\<in>set cs. Content_Validate G c = Inr () \<Longrightarrow>
     display_text cs = Some (concat (map (\<lambda>c. case TextValue c of None \<Rightarrow> [] | Some s \<Rightarrow> s) cs))"
proof (induction cs)
  case (Cons c cs)
  then have "Content_Validate G c = Inr ()" by simp
  then show ?case using Cons
    by (cases rule: Content_Validate_cases) (auto simp: content_shapes TextValue_def Let_def)
qed simp

lemma collect_calls_defined:
  "\<forall>c\<in>set cs. Content_Validate G c = Inr () \<Longrightarrow>
     collect_calls cs = Some (ToolCalls \<lparr>m_Role = RoleAssistant, m_Content = cs, m_ProviderState = s\<rparr>)"
proof (induction cs)
  case (Cons c cs)
  then have "Content_Validate G c = Inr ()" by simp
  then show ?case using Cons
    by (cases rule: Content_Validate_cases) (auto simp: content_shapes ToolCalls_def)
qed (simp add: ToolCalls_def)

lemma find_candidate_in: "find_candidate i cs = Some c \<Longrightarrow> c \<in> set cs"
  by (induction cs) (auto split: if_splits)

lemma reduce_result:
  assumes "reduce G (newReducer p) es = Inr r" "rd_ended r"
  shows "reducer_result r = Some (expected_response p es)"
    and "\<forall>c\<in>set (r_Candidates (expected_response p es)). \<forall>x\<in>set (cand_Content c). Content_Validate G x = Inr ()"
proof -
  obtain es' e r0 where d: "es = es' @ [e]" "open_inv G p es' r0" "validateEventShape G e = Inr ()"
    "ev_Kind e = EventResponseEnd" "end_response r0 e = Inr r"
    using reduce_complete [OF assms] by blast
  have "ev_Response e \<noteq> None" using d(3,4) by (auto simp: validateEventShape_def split: if_splits)
  note E = end_expected [OF d(2,4) this d(5)]
  show valid: "\<forall>c\<in>set (r_Candidates (expected_response p es)). \<forall>x\<in>set (cand_Content c). Content_Validate G x = Inr ()"
    using E(3) d(1) by simp
  have "map cand_Index (r_Candidates (expected_response p es)) = candidate_indexes es (ev_Finishes (last es))"
    by (simp add: expected_response_def Let_def expected_candidate_def comp_def)
  then have "Response_Clone (expected_response p es) = expected_response p es"
    by (intro Response_Clone_id [OF _ valid]) simp
  then show "reducer_result r = Some (expected_response p es)"
    using E(1) d(1) assms(2) by (simp add: reducer_result_def)
qed

section \<open>Properties\<close>

text \<open>C2 (refinement). A complete history that the reducer accepts yields exactly the response its
  events describe: candidates in increasing index order, each with its parts in increasing order, each
  part being its start block with all deltas appended, the last finish of each candidate, the metadata
  of the end event over that of the start event. Every block of the response is valid.\<close>

theorem reduce_refines_expected:
  assumes "reduce G (newReducer p) es = Inr r" and "rd_ended r"
  shows "reducer_result r = Some (expected_response p es)
     \<and> (\<forall>c\<in>set (r_Candidates (expected_response p es)). \<forall>x\<in>set (cand_Content c). Content_Validate G x = Inr ())"
  using reduce_result [OF assms] by blast

text \<open>A stream with two interleaved parts of one candidate.\<close>

definition sample_info :: response_info where
  "sample_info = \<lparr>ri_Provider = ''p'', ri_ID = ''1'', ri_Model = ''m'', ri_Status = [], ri_RequestID = [],
     ri_CreatedAt = \<lparr>t_IsZero = True, t_String = []\<rparr>, ri_Metadata = None, ri_ProviderState = None\<rparr>"

definition sample_events :: "event list" where
  "sample_events =
     [(zero_event EventResponseStart)\<lparr>ev_Response := Some sample_info\<rparr>,
      (zero_event EventPartStart)\<lparr>ev_PartIndex := 1, ev_Part := Content ContentToolCall None None
        (Some \<lparr>tc_ID = ''c'', tc_Name = ''f'', tc_Arguments = []\<rparr>) None None None\<rparr>,
      (zero_event EventPartStart)\<lparr>ev_Part := Text ''He''\<rparr>,
      (zero_event EventPartDelta)\<lparr>ev_PartIndex := 1, ev_Delta := \<lparr>d_Kind = DeltaToolArguments, d_Text = ''{'', d_Media = []\<rparr>\<rparr>,
      (zero_event EventPartDelta)\<lparr>ev_Delta := \<lparr>d_Kind = DeltaText, d_Text = ''llo'', d_Media = []\<rparr>\<rparr>,
      (zero_event EventPartDelta)\<lparr>ev_PartIndex := 1, ev_Delta := \<lparr>d_Kind = DeltaToolArguments, d_Text = ''}'', d_Media = []\<rparr>\<rparr>,
      (zero_event EventPartEnd)\<lparr>ev_PartIndex := 1\<rparr>,
      zero_event EventPartEnd,
      (zero_event EventResponseEnd)\<lparr>ev_Response := Some sample_info,
        ev_Finishes := [\<lparr>f_CandidateIndex = 0, f_Reason = ''stop'', f_RawReason = [], f_ProviderState = None\<rparr>]\<rparr>]"

abbreviation "sample_std \<equiv> \<lparr>url_scheme = \<lambda>_. None, json_valid = \<lambda>_. True\<rparr>"

abbreviation "sample_reducer \<equiv> projr (reduce sample_std (newReducer []) sample_events)"

lemma sample_reduces: "reduce sample_std (newReducer []) sample_events = Inr sample_reducer" "rd_ended sample_reducer"
  by code_simp+

theorem reduce_refines_expected_witness:
  "map_option r_Candidates (reducer_result sample_reducer) =
     Some [\<lparr>cand_Index = 0, cand_Content = [Text ''Hello'', ToolCallContent ''c'' ''f'' ''{}''],
       cand_FinishReason = ''stop'', cand_RawFinishReason = [], cand_ProviderState = None\<rparr>]"
proof -
  have "reducer_result sample_reducer = Some (expected_response [] sample_events)"
    using reduce_refines_expected [OF sample_reduces] by blast
  moreover have "r_Candidates (expected_response [] sample_events) =
     [\<lparr>cand_Index = 0, cand_Content = [Text ''Hello'', ToolCallContent ''c'' ''f'' ''{}''],
       cand_FinishReason = ''stop'', cand_RawFinishReason = [], cand_ProviderState = None\<rparr>]"
    by code_simp
  ultimately show ?thesis by simp
qed

text \<open>A complete accepted history is one \<^verbatim>\<open>response_start\<close>, then part events only,
  then one \<^verbatim>\<open>response_end\<close>; and the events of each part, taken out of the interleaving, are one
  start, its deltas and one end.\<close>

theorem reduced_history_shape:
  assumes "reduce G (newReducer p) es = Inr r" and "rd_ended r"
  shows "\<exists>s mid e. es = s # mid @ [e] \<and> ev_Kind s = EventResponseStart \<and> ev_Kind e = EventResponseEnd
     \<and> (\<forall>x\<in>set mid. ev_Kind x \<in> {EventPartStart, EventPartDelta, EventPartEnd})
     \<and> (\<forall>x\<in>set mid. part_closed (part_events mid (event_key x)))"
proof -
  obtain es' e r0 where d: "es = es' @ [e]" "reduce G (newReducer p) es' = Inr r0" "open_inv G p es' r0"
    "ev_Kind e = EventResponseEnd" "end_response r0 e = Inr r"
    using reduce_complete [OF assms] by blast
  have "rd_started r0" and ended: "list_all (\<lambda>(k, a). pa_ended (rd_heap r0 ! a)) (rd_parts r0)"
    using d(5) by (auto simp: end_response_def list_ex_iff list_all_iff split: if_splits)
  then obtain s mid where s: "es' = s # mid" "ev_Kind s = EventResponseStart"
    and kinds: "\<forall>x\<in>set mid. ev_Kind x \<in> {EventPartStart, EventPartDelta, EventPartEnd}"
    using d(3) by (cases es') (auto simp: open_inv_def)
  note L = life_inv_reduce [OF d(2)]
  have "part_closed (part_events mid (event_key x))" if x: "x \<in> set mid" for x
  proof -
    have same: "part_events es' (event_key x) = part_events mid (event_key x)" using s by (simp add: part_events_def)
    have "part_events mid (event_key x) \<noteq> []" using x kinds by (auto simp: part_events_def filter_empty_conv)
    then obtain a where a: "map_of (rd_parts r0) (event_key x) = Some a"
      using life_invD(1) [OF L, of "event_key x"] same by (metis option.exhaust)
    then have "pa_ended (rd_heap r0 ! a)" using ended by (auto simp: list_all_iff dest: map_of_SomeD)
    with life_invD(2) [OF L a] same show ?thesis by simp
  qed
  with d(1,4) s kinds show ?thesis by auto
qed

theorem reduced_history_shape_witness:
  "\<exists>s mid e. sample_events = s # mid @ [e] \<and> (\<forall>x\<in>set mid. part_closed (part_events mid (event_key x)))"
  using reduced_history_shape [OF sample_reduces] by blast

text \<open>Reading a reduced response never dereferences a nil variant: its text is the
  concatenation of the text-like blocks of candidate zero, and its tool calls are those of that
  candidate's assistant message, in order.\<close>

theorem reduced_response_reads:
  assumes "reduce G (newReducer p) es = Inr r" and "rd_ended r" and "reducer_result r = Some resp"
    and "response_candidate resp 0 = Some c"
  shows "Response_Text resp = Some (concat (map (\<lambda>x. case TextValue x of None \<Rightarrow> [] | Some s \<Rightarrow> s) (cand_Content c)))
     \<and> (\<exists>m. AssistantMessage resp 0 = Some m \<and> Response_ToolCalls resp = Some (ToolCalls m))"
proof -
  have "c \<in> set (r_Candidates resp)" using assms(4) by (auto simp: response_candidate_def dest: find_candidate_in)
  then have valid: "\<forall>x\<in>set (cand_Content c). Content_Validate G x = Inr ()"
    using reduce_result [OF assms(1,2)] assms(3) by simp
  then show ?thesis using assms(4) display_text_defined [OF valid] collect_calls_defined [OF valid] clone_children [OF valid]
    by (simp add: Response_Text_def Response_ToolCalls_def AssistantMessage_def)
qed

theorem reduced_response_reads_witness:
  "\<exists>resp. reducer_result sample_reducer = Some resp \<and> Response_Text resp = Some ''Hello''"
proof -
  have r: "reducer_result sample_reducer = Some (the (reducer_result sample_reducer))" by code_simp
  have c: "response_candidate (the (reducer_result sample_reducer)) 0 =
      Some \<lparr>cand_Index = 0, cand_Content = [Text ''Hello'', ToolCallContent ''c'' ''f'' ''{}''],
       cand_FinishReason = ''stop'', cand_RawFinishReason = [], cand_ProviderState = None\<rparr>" by code_simp
  show ?thesis using reduced_response_reads [OF sample_reduces r c] r
    by (auto simp: TextValue_def Text_def ToolCallContent_def)
qed

end
