(* ===== verification/Interfaces.thy ===== *)
theory Interfaces
  imports Prelude
begin

text \<open>
  Contracts that several components implement. Each is a locale; the components interpret it on
  their own definitions.

  \<^item> \<open>bounded_setting\<close>: a configured limit where zero selects the ceiling and other values may only
    tighten it (\<^verbatim>\<open>streamInt64Limit\<close>, \<^verbatim>\<open>normalizeInt64\<close> and their relatives).
  \<^item> \<open>meter\<close>: a counter that is charged and refuses to pass its cap (event frames, JSON nodes,
    argument envelopes).
  \<^item> \<open>transition_system\<close>: states reached by steps, with the induction that establishes invariants
    (reducers, streams, the resource coordinator).
\<close>

locale bounded_setting =
  fixes norm :: "int \<Rightarrow> 'e + int" and least :: int and highest :: int
  assumes zero: "norm 0 = Inr highest"
    and keeps: "v \<noteq> 0 \<Longrightarrow> norm v = Inr w \<Longrightarrow> w = v"
    and accepts: "v \<noteq> 0 \<Longrightarrow> (\<exists>w. norm v = Inr w) \<longleftrightarrow> least \<le> v \<and> v \<le> highest"
    and ordered: "0 < least" "least \<le> highest"
begin

lemma within: "norm v = Inr w \<Longrightarrow> least \<le> w \<and> w \<le> highest"
  using zero keeps [of v w] accepts [of v] ordered by (cases "v = 0") auto

lemma idempotent: "norm v = Inr w \<Longrightarrow> norm w = Inr w"
proof -
  assume v: "norm v = Inr w"
  then have "least \<le> w" "w \<le> highest" using within by auto
  moreover have "w \<noteq> 0" using calculation ordered by auto
  ultimately obtain u where "norm w = Inr u" using accepts by blast
  with keeps \<open>w \<noteq> 0\<close> show ?thesis by auto
qed

lemma tightens: "norm v = Inr w \<Longrightarrow> w = (if v = 0 then highest else v)"
  using zero keeps by (cases "v = 0") auto

end

locale meter =
  fixes charge :: "int \<Rightarrow> 's \<Rightarrow> 'e + 's" and used :: "'s \<Rightarrow> int" and cap :: "'s \<Rightarrow> int"
  assumes charged: "charge n s = Inr s' \<Longrightarrow> 0 \<le> n \<and> used s' = used s + n \<and> cap s' = cap s \<and> used s' \<le> cap s'"
begin

definition charge_all :: "int list \<Rightarrow> 's \<Rightarrow> 'e + 's" where
  "charge_all ns s = rfold (\<lambda>s n. charge n s) s ns"

lemma charge_all_total:
  "charge_all ns s = Inr s' \<Longrightarrow> used s' = used s + sum_list ns \<and> cap s' = cap s"
  unfolding charge_all_def
  by (induction ns arbitrary: s) (auto simp: result_simps dest!: charged)

lemma never_exceeds:
  "charge_all ns s = Inr s' \<Longrightarrow> used s \<le> cap s \<Longrightarrow> used s + sum_list ns \<le> cap s"
  unfolding charge_all_def
  by (induction ns arbitrary: s) (fastforce simp: result_simps dest!: charged)+

end

locale transition_system =
  fixes initial :: "'s \<Rightarrow> bool" and trans :: "'s \<Rightarrow> 's \<Rightarrow> bool"
begin

inductive reach :: "'s \<Rightarrow> bool" where
  init: "initial s \<Longrightarrow> reach s"
| step: "reach s \<Longrightarrow> trans s t \<Longrightarrow> reach t"

lemma invariant:
  assumes "reach s" "\<And>s. initial s \<Longrightarrow> I s" "\<And>s t. reach s \<Longrightarrow> I s \<Longrightarrow> trans s t \<Longrightarrow> I t"
  shows "I s"
  using assms(1) by induction (auto intro: assms)

end

end
