(* ===== verification/Stream_Limits.thy ===== *)
theory Stream_Limits
  imports Reducer_Props Interfaces
begin

text \<open>
  Hard limits on one provider turn: \<^verbatim>\<open>src/core/models/stream_limits.go\<close>.

  \<open>frame_counter\<close> is \<^verbatim>\<open>eventFrameCounter\<close>; \<open>limiter\<close> is \<^verbatim>\<open>streamLimiter\<close>, its map
  \<^verbatim>\<open>candidates\<close> a list of distinct keys and \<^verbatim>\<open>parts\<close> a Go map. Reading a variant through a
  nil pointer is the error \<open>NilVariant\<close> (a panic in Go). A limiter is not used after it returned an
  error, so errors carry no state.
\<close>

section \<open>Limits\<close>

record stream_limits =
  MaxEventBytes :: int
  MaxTurnBytes :: int
  MaxEvents :: int
  MaxCandidates :: int
  MaxParts :: int
  MaxMetadataEntries :: int
  MaxToolCalls :: int

datatype limit_error = LimitNegative string | LimitRange string int int | TurnBelowEvent

definition defaultStreamEventBytes :: int where "defaultStreamEventBytes = 2 * 2 ^ 20"
definition defaultStreamTurnBytes :: int where "defaultStreamTurnBytes = 32 * 2 ^ 20"
definition defaultStreamEvents :: int where "defaultStreamEvents = 65536"
definition defaultStreamCandidates :: int where "defaultStreamCandidates = 8"
definition defaultStreamParts :: int where "defaultStreamParts = 4096"
definition defaultStreamMetadataEntries :: int where "defaultStreamMetadataEntries = 256"
definition defaultStreamToolCalls :: int where "defaultStreamToolCalls = 128"
definition maxTerminalFinishes :: int where "maxTerminalFinishes = 8"
definition streamFrameNodeBytes :: int where "streamFrameNodeBytes = 16"

lemmas stream_defaults = defaultStreamEventBytes_def defaultStreamTurnBytes_def defaultStreamEvents_def
  defaultStreamCandidates_def defaultStreamParts_def defaultStreamMetadataEntries_def
  defaultStreamToolCalls_def maxTerminalFinishes_def

lemma stream_bytes_code [code]:
  "defaultStreamEventBytes = 2097152" "defaultStreamTurnBytes = 33554432"
  by (simp_all add: stream_defaults)

definition streamInt64Limit :: "int \<Rightarrow> int \<Rightarrow> int \<Rightarrow> string \<Rightarrow> limit_error + int" where
  "streamInt64Limit v highest minimum name =
     (if v < 0 then Inl (LimitNegative name)
      else if v = 0 then Inr highest
      else if v < minimum \<or> v > highest then Inl (LimitRange name minimum highest)
      else Inr v)"

definition streamIntLimit :: "int \<Rightarrow> int \<Rightarrow> int \<Rightarrow> string \<Rightarrow> limit_error + int" where
  "streamIntLimit v highest minimum name =
     (if v < 0 then Inl (LimitNegative name)
      else if v = 0 then Inr highest
      else if v < minimum \<or> v > highest then Inl (LimitRange name minimum highest)
      else Inr v)"

definition normalizeStreamLimits :: "stream_limits \<Rightarrow> limit_error + stream_limits" where
  "normalizeStreamLimits L =
     rbind (streamInt64Limit (MaxEventBytes L) defaultStreamEventBytes 512 ''MaxEventBytes'') (\<lambda>eb.
     rbind (streamInt64Limit (MaxTurnBytes L) defaultStreamTurnBytes 1024 ''MaxTurnBytes'') (\<lambda>tb.
     rbind (guard (\<not> tb < eb) TurnBelowEvent) (\<lambda>_.
     rbind (streamIntLimit (MaxEvents L) defaultStreamEvents 2 ''MaxEvents'') (\<lambda>ev.
     rbind (streamIntLimit (MaxCandidates L) defaultStreamCandidates 1 ''MaxCandidates'') (\<lambda>cs.
     rbind (streamIntLimit (MaxParts L) defaultStreamParts 1 ''MaxParts'') (\<lambda>ps.
     rbind (streamIntLimit (MaxMetadataEntries L) defaultStreamMetadataEntries 1 ''MaxMetadataEntries'') (\<lambda>me.
     rbind (streamIntLimit (MaxToolCalls L) defaultStreamToolCalls 1 ''MaxToolCalls'') (\<lambda>tc.
     Inr \<lparr>MaxEventBytes = eb, MaxTurnBytes = tb, MaxEvents = ev, MaxCandidates = cs, MaxParts = ps,
       MaxMetadataEntries = me, MaxToolCalls = tc\<rparr>))))))))"

definition no_limits :: stream_limits where
  "no_limits = \<lparr>MaxEventBytes = 0, MaxTurnBytes = 0, MaxEvents = 0, MaxCandidates = 0, MaxParts = 0,
     MaxMetadataEntries = 0, MaxToolCalls = 0\<rparr>"

section \<open>Identities\<close>

datatype identity_error = IdentityEmpty | IdentityUtf8 | IdentityBytes int | IdentityControl

definition BoundedIdentity :: "string \<Rightarrow> int \<Rightarrow> bool \<Rightarrow> identity_error + unit" where
  "BoundedIdentity s limit allowEmpty =
     (if \<not> allowEmpty \<and> s = [] then Inl IdentityEmpty
      else if \<not> utf8_valid s then Inl IdentityUtf8
      else if int (length s) > limit then Inl (IdentityBytes limit)
      else if has_control s then Inl IdentityControl
      else Inr ())"

section \<open>Measuring an event\<close>

record frame_counter =
  fc_size :: int
  fc_max :: int

datatype frame_error =
    FrameShape shape_error | FrameOverflow | FrameExceeds int | FrameUtf8 | FrameRawTooLong
  | FrameRawJson json_error | FrameKind string | NilVariant

definition fc_add :: "int \<Rightarrow> frame_counter \<Rightarrow> frame_error + frame_counter" where
  "fc_add n c =
     (if n < 0 \<or> n > max_int64 - fc_size c then Inl FrameOverflow
      else if fc_size c + n > fc_max c then Inl (FrameExceeds (fc_max c))
      else Inr (c\<lparr>fc_size := fc_size c + n\<rparr>))"

definition fc_node :: "frame_counter \<Rightarrow> frame_error + frame_counter" where
  "fc_node c = fc_add streamFrameNodeBytes c"

definition fc_string :: "string \<Rightarrow> frame_counter \<Rightarrow> frame_error + frame_counter" where
  "fc_string s c =
     (if \<not> utf8_valid s then Inl FrameUtf8
      else rbind (fc_node c) (fc_add (int (length s))))"

definition fc_bytes :: "string \<Rightarrow> frame_counter \<Rightarrow> frame_error + frame_counter" where
  "fc_bytes s c = rbind (fc_node c) (fc_add (int (length s)))"

fun fc_jsonValue :: "value \<Rightarrow> frame_counter \<Rightarrow> frame_error + frame_counter" where
  "fc_jsonValue (VNumber n) c = rbind (fc_node c) (fc_add (int (length n)))"
| "fc_jsonValue (VString s) c = rbind (fc_node c) (fc_add (int (length s)))"
| "fc_jsonValue (VArray vs) c = rbind (fc_node c) (\<lambda>c. rfold (\<lambda>c v. fc_jsonValue v c) c vs)"
| "fc_jsonValue (VObject ms) c = rbind (fc_node c) (\<lambda>c.
     rfold (\<lambda>c (k, v). rbind (fc_string k c) (fc_jsonValue v)) c ms)"
| "fc_jsonValue _ c = fc_node c"

definition fc_raw :: "string \<Rightarrow> frame_counter \<Rightarrow> frame_error + frame_counter" where
  "fc_raw s c =
     (if s = [] then fc_node c
      else if int (length s) > fc_max c - fc_size c then Inl FrameRawTooLong
      else case Parse s ObjectLimits of
        Inl e \<Rightarrow> Inl (FrameRawJson e)
      | Inr v \<Rightarrow> rbind (fc_bytes s c) (fc_jsonValue v))"

definition fc_strings :: "string list \<Rightarrow> frame_counter \<Rightarrow> frame_error + frame_counter" where
  "fc_strings ss c = rfold (\<lambda>c s. fc_string s c) c ss"

definition measureProviderStateFrame :: "provider_state option \<Rightarrow> frame_counter \<Rightarrow> frame_error + frame_counter" where
  "measureProviderStateFrame s c = (case s of
     None \<Rightarrow> fc_node c
   | Some st \<Rightarrow> rbind (fc_string (ps_Provider st) c) (fc_raw (ps_Data st)))"

definition metadata_entries :: "response_info \<Rightarrow> (string, string) gmap" where
  "metadata_entries info = (case ri_Metadata info of None \<Rightarrow> [] | Some m \<Rightarrow> m)"

definition measureResponseInfoFrame :: "response_info \<Rightarrow> frame_counter \<Rightarrow> frame_error + frame_counter" where
  "measureResponseInfoFrame info c =
     rbind (fc_node c) (\<lambda>c.
     rbind (fc_strings [ri_Provider info, ri_ID info, ri_Model info, ri_Status info, ri_RequestID info,
       t_String (ri_CreatedAt info)] c) (\<lambda>c.
     rbind (rfold (\<lambda>c (k, v). rbind (fc_string k c) (fc_string v)) c (metadata_entries info)) (\<lambda>c.
     measureProviderStateFrame (ri_ProviderState info) c)))"

definition nil_panic :: "'a option \<Rightarrow> ('a \<Rightarrow> frame_error + 'b) \<Rightarrow> frame_error + 'b" where
  "nil_panic x f = (case x of None \<Rightarrow> Inl NilVariant | Some v \<Rightarrow> f v)"

fun measureContentFrame :: "content \<Rightarrow> frame_counter \<Rightarrow> frame_error + frame_counter" where
  "measureContentFrame (Content k t im tc tr rs rf) c =
     rbind (fc_node c) (\<lambda>c. rbind (fc_string k c) (\<lambda>c.
       if k = ContentText then nil_panic t (\<lambda>s. fc_string s c)
       else if k = ContentImage then nil_panic im (\<lambda>i.
         rbind (fc_strings [img_URI i, img_MIMEType i, img_Detail i] c) (fc_bytes (bytes_of (img_Data i))))
       else if k = ContentToolCall then nil_panic tc (\<lambda>call.
         rbind (fc_strings [tc_ID call, tc_Name call] c) (fc_raw (tc_Arguments call)))
       else if k = ContentToolResult then
         (case tr of None \<Rightarrow> Inl NilVariant
          | Some (ToolResult cid n cs e) \<Rightarrow>
              rbind (fc_strings [cid, n] c) (\<lambda>c. rbind (fc_node c) (\<lambda>c.
                rfold (\<lambda>c x. measureContentFrame x c) c cs)))
       else if k = ContentReasoningSummary then nil_panic rs (\<lambda>s. fc_string s c)
       else if k = ContentRefusal then nil_panic rf (\<lambda>s. fc_string s c)
       else Inl (FrameKind k)))"

definition measureFinish :: "candidate_finish \<Rightarrow> frame_counter \<Rightarrow> frame_error + frame_counter" where
  "measureFinish f c =
     rbind (fc_node c) (\<lambda>c. rbind (fc_strings [f_Reason f, f_RawReason f] c)
       (measureProviderStateFrame (f_ProviderState f)))"

text \<open>The body of \<^verbatim>\<open>measureEventFrame\<close> after the shape check, on its counter.\<close>

definition measurePayload :: "event \<Rightarrow> frame_counter \<Rightarrow> frame_error + frame_counter" where
  "measurePayload e c =
     rbind (fc_string ''serpe.models.event.v1'' c) (\<lambda>c.
     rbind (fc_strings [ev_Kind e, ev_ProviderEventID e, ev_ItemID e, ev_CallID e] c) (\<lambda>c.
     rbind (fc_add (3 * streamFrameNodeBytes) c) (\<lambda>c.
     rbind (if contentSet (ev_Part e) then measureContentFrame (ev_Part e) c else Inr c) (\<lambda>c.
     rbind (if deltaSet (ev_Delta e)
       then rbind (fc_strings [d_Kind (ev_Delta e), d_Text (ev_Delta e)] c) (fc_bytes (d_Media (ev_Delta e)))
       else Inr c) (\<lambda>c.
     rbind (case ev_Response e of None \<Rightarrow> Inr c | Some info \<Rightarrow> measureResponseInfoFrame info c) (\<lambda>c.
     rbind (rfold (\<lambda>c f. measureFinish f c) c (ev_Finishes e)) (\<lambda>c.
     case ev_Usage e of None \<Rightarrow> Inr c
       | Some u \<Rightarrow> rbind (fc_add (7 * streamFrameNodeBytes) c) (fc_raw (u_Raw u)))))))))"

definition measureEventFrame :: "go_std \<Rightarrow> event \<Rightarrow> int \<Rightarrow> frame_error + int" where
  "measureEventFrame G e maxb = (case validateEventShape G e of
     Inl why \<Rightarrow> Inl (FrameShape why)
   | Inr _ \<Rightarrow> rbind (measurePayload e \<lparr>fc_size = 0, fc_max = maxb\<rparr>) (\<lambda>c. Inr (fc_size c)))"

section \<open>The limiter\<close>

record limiter =
  l_limits :: stream_limits
  l_events :: int
  l_turnBytes :: int
  l_metadataEntries :: int
  l_toolCalls :: int
  l_candidates :: "int list"
  l_parts :: "(int \<times> int, string) gmap"

datatype limiter_error =
    EventCount int | CandidateRange int | PartRange int | TooManyFinishes | FinishRange int
  | DuplicateFinish int | FrameError frame_error | EventTooLarge int | TurnTooLarge int
  | MetadataCount int | PartCount int | CandidateCountLimit int | ToolCallCount int

definition newStreamLimiter :: "stream_limits \<Rightarrow> limiter" where
  "newStreamLimiter L = \<lparr>l_limits = L, l_events = 0, l_turnBytes = 0, l_metadataEntries = 0, l_toolCalls = 0,
     l_candidates = [], l_parts = []\<rparr>"

fun check_finishes :: "stream_limits \<Rightarrow> int list \<Rightarrow> candidate_finish list \<Rightarrow> limiter_error + unit" where
  "check_finishes L seen [] = Inr ()"
| "check_finishes L seen (f # fs) =
     (if f_CandidateIndex f < 0 \<or> f_CandidateIndex f \<ge> MaxCandidates L then Inl (FinishRange (f_CandidateIndex f))
      else if f_CandidateIndex f \<in> set seen then Inl (DuplicateFinish (f_CandidateIndex f))
      else check_finishes L (f_CandidateIndex f # seen) fs)"

definition validateIndexes :: "limiter \<Rightarrow> event \<Rightarrow> limiter_error + unit" where
  "validateIndexes l e =
     rbind (if ev_Kind e = EventPartStart \<or> ev_Kind e = EventPartDelta \<or> ev_Kind e = EventPartEnd then
         rbind (guard (\<not> (ev_CandidateIndex e < 0 \<or> ev_CandidateIndex e \<ge> MaxCandidates (l_limits l)))
             (CandidateRange (ev_CandidateIndex e))) (\<lambda>_.
           guard (\<not> (ev_PartIndex e < 0 \<or> ev_PartIndex e \<ge> MaxParts (l_limits l))) (PartRange (ev_PartIndex e)))
       else Inr ()) (\<lambda>_.
     rbind (guard (\<not> int (length (ev_Finishes e)) > maxTerminalFinishes) TooManyFinishes) (\<lambda>_.
     check_finishes (l_limits l) [] (ev_Finishes e)))"

definition metadata_count :: "event \<Rightarrow> int" where
  "metadata_count e = (case ev_Response e of None \<Rightarrow> 0 | Some info \<Rightarrow> int (length (metadata_entries info)))"

fun add_finish_candidates :: "stream_limits \<Rightarrow> int list \<Rightarrow> candidate_finish list \<Rightarrow> limiter_error + int list" where
  "add_finish_candidates L cands [] = Inr cands"
| "add_finish_candidates L cands (f # fs) =
     (if f_CandidateIndex f \<in> set cands then add_finish_candidates L cands fs
      else if int (length cands) \<ge> MaxCandidates L then Inl (CandidateCountLimit (MaxCandidates L))
      else add_finish_candidates L (f_CandidateIndex f # cands) fs)"

definition is_tool_start :: "event \<Rightarrow> bool" where
  "is_tool_start e \<longleftrightarrow> ev_Kind e = EventPartStart \<and> c_Kind (ev_Part e) = ContentToolCall
     \<and> c_ToolCall (ev_Part e) \<noteq> None"

definition acceptStructure :: "limiter \<Rightarrow> event \<Rightarrow> limiter_error + limiter" where
  "acceptStructure l e =
     (let L = l_limits l;
          is_start = (ev_Kind e = EventPartStart);
          newCandidate = (is_start \<and> ev_CandidateIndex e \<notin> set (l_candidates l));
          newPart = (is_start \<and> map_of (l_parts l) (event_key e) = None) in
      rbind (guard (\<not> metadata_count e > MaxMetadataEntries L - l_metadataEntries l)
        (MetadataCount (MaxMetadataEntries L))) (\<lambda>_.
      rbind (guard (\<not> (newPart \<and> int (length (l_parts l)) \<ge> MaxParts L)) (PartCount (MaxParts L))) (\<lambda>_.
      rbind (guard (\<not> (newCandidate \<and> int (length (l_candidates l)) \<ge> MaxCandidates L))
        (CandidateCountLimit (MaxCandidates L))) (\<lambda>_.
      rbind (add_finish_candidates L (l_candidates l) (ev_Finishes e)) (\<lambda>cands.
      rbind (guard (\<not> (is_tool_start e \<and> l_toolCalls l \<ge> MaxToolCalls L)) (ToolCallCount (MaxToolCalls L))) (\<lambda>_.
      Inr (l\<lparr>l_toolCalls := l_toolCalls l + (if is_tool_start e then 1 else 0),
        l_metadataEntries := l_metadataEntries l + metadata_count e,
        l_candidates := (if newCandidate then List.insert (ev_CandidateIndex e) cands else cands),
        l_parts := (if newPart then gput (event_key e) (c_Kind (ev_Part e)) (l_parts l) else l_parts l)\<rparr>)))))))"

definition limiter_accept :: "go_std \<Rightarrow> limiter \<Rightarrow> event \<Rightarrow> limiter_error + limiter" where
  "limiter_accept G l e =
     (let L = l_limits l in
      if l_events l \<ge> MaxEvents L then Inl (EventCount (MaxEvents L))
      else rbind (validateIndexes l e) (\<lambda>_.
        case measureEventFrame G e (MaxEventBytes L) of
          Inl why \<Rightarrow> Inl (FrameError why)
        | Inr n \<Rightarrow>
            if n > MaxEventBytes L then Inl (EventTooLarge (MaxEventBytes L))
            else if n > MaxTurnBytes L - l_turnBytes l then Inl (TurnTooLarge (MaxTurnBytes L))
            else rbind (acceptStructure l e) (\<lambda>l'.
              Inr (l'\<lparr>l_events := l_events l' + 1, l_turnBytes := l_turnBytes l' + n\<rparr>))))"

definition accept_all :: "go_std \<Rightarrow> limiter \<Rightarrow> event list \<Rightarrow> limiter_error + limiter" where
  "accept_all G = rfold (limiter_accept G)"

end
