(* ===== verification/Stream_Limits_Props.thy ===== *)
theory Stream_Limits_Props
  imports Stream_Limits
begin

text \<open>
  The limiter keeps a turn within its limits. The cost of an event is given by pure functions
  (\<open>event_size\<close>, \<open>event_ok\<close>); \<open>charges\<close> says that a measuring operation succeeds exactly when its
  input is well formed and its cost fits, and composes along the code, so that
  \<^verbatim>\<open>measureEventFrame\<close> is shown to compute \<open>event_size\<close>. The invariant \<open>limiter_inv\<close> relates
  the limiter's counters to the history of accepted events.
\<close>

section \<open>What an event costs\<close>

definition node_size :: int where "node_size = 16"

definition str_size :: "string \<Rightarrow> int" where
  "str_size s = node_size + int (length s)"

fun json_size :: "value \<Rightarrow> int" where
  "json_size (VNumber n) = str_size n"
| "json_size (VString s) = str_size s"
| "json_size (VArray vs) = node_size + sum_list (map json_size vs)"
| "json_size (VObject ms) = node_size + sum_list (map (\<lambda>(k, v). str_size k + json_size v) ms)"
| "json_size _ = node_size"

definition raw_ok :: "string \<Rightarrow> bool" where
  "raw_ok s \<longleftrightarrow> s = [] \<or> (case Parse s ObjectLimits of Inl _ \<Rightarrow> False | Inr _ \<Rightarrow> True)"

definition raw_size :: "string \<Rightarrow> int" where
  "raw_size s = (if s = [] then node_size else str_size s
     + (case Parse s ObjectLimits of Inl _ \<Rightarrow> 0 | Inr v \<Rightarrow> json_size v))"

fun state_ok :: "provider_state option \<Rightarrow> bool" where
  "state_ok None = True"
| "state_ok (Some st) = (utf8_valid (ps_Provider st) \<and> raw_ok (ps_Data st))"

fun state_size :: "provider_state option \<Rightarrow> int" where
  "state_size None = node_size"
| "state_size (Some st) = str_size (ps_Provider st) + raw_size (ps_Data st)"

definition info_strings :: "response_info \<Rightarrow> string list" where
  "info_strings info = [ri_Provider info, ri_ID info, ri_Model info, ri_Status info, ri_RequestID info,
     t_String (ri_CreatedAt info)]"

definition info_ok :: "response_info \<Rightarrow> bool" where
  "info_ok info \<longleftrightarrow> list_all utf8_valid (info_strings info)
     \<and> list_all (\<lambda>(k, v). utf8_valid k \<and> utf8_valid v) (metadata_entries info) \<and> state_ok (ri_ProviderState info)"

definition info_size :: "response_info \<Rightarrow> int" where
  "info_size info = node_size + sum_list (map str_size (info_strings info))
     + sum_list (map (\<lambda>(k, v). str_size k + str_size v) (metadata_entries info)) + state_size (ri_ProviderState info)"

definition opt_ok :: "('a \<Rightarrow> bool) \<Rightarrow> 'a option \<Rightarrow> bool" where
  "opt_ok p x = (case x of None \<Rightarrow> False | Some v \<Rightarrow> p v)"

fun content_ok :: "content \<Rightarrow> bool" where
  "content_ok (Content k t im tc tr rs rf) =
     (utf8_valid k \<and>
      (if k = ContentText then opt_ok utf8_valid t
       else if k = ContentImage then
         opt_ok (\<lambda>i. utf8_valid (img_URI i) \<and> utf8_valid (img_MIMEType i) \<and> utf8_valid (img_Detail i)) im
       else if k = ContentToolCall then
         opt_ok (\<lambda>call. utf8_valid (tc_ID call) \<and> utf8_valid (tc_Name call) \<and> raw_ok (tc_Arguments call)) tc
       else if k = ContentToolResult then
         (case tr of None \<Rightarrow> False
          | Some (ToolResult cid n cs e) \<Rightarrow> utf8_valid cid \<and> utf8_valid n \<and> (\<forall>x\<in>set cs. content_ok x))
       else if k = ContentReasoningSummary then opt_ok utf8_valid rs
       else if k = ContentRefusal then opt_ok utf8_valid rf
       else False))"

fun content_size :: "content \<Rightarrow> int" where
  "content_size (Content k t im tc tr rs rf) = node_size + str_size k +
     (if k = ContentText then str_size (the t)
      else if k = ContentImage then str_size (img_URI (the im)) + str_size (img_MIMEType (the im))
        + str_size (img_Detail (the im)) + str_size (bytes_of (img_Data (the im)))
      else if k = ContentToolCall then str_size (tc_ID (the tc)) + str_size (tc_Name (the tc))
        + raw_size (tc_Arguments (the tc))
      else if k = ContentToolResult then
        (case tr of None \<Rightarrow> 0
         | Some (ToolResult cid n cs e) \<Rightarrow>
             str_size cid + str_size n + node_size + sum_list (map content_size cs))
      else if k = ContentReasoningSummary then str_size (the rs)
      else if k = ContentRefusal then str_size (the rf)
      else 0)"

definition finish_ok :: "candidate_finish \<Rightarrow> bool" where
  "finish_ok f \<longleftrightarrow> utf8_valid (f_Reason f) \<and> utf8_valid (f_RawReason f) \<and> state_ok (f_ProviderState f)"

definition finish_size :: "candidate_finish \<Rightarrow> int" where
  "finish_size f = node_size + str_size (f_Reason f) + str_size (f_RawReason f) + state_size (f_ProviderState f)"

definition event_strings :: "event \<Rightarrow> string list" where
  "event_strings e = [''serpe.models.event.v1'', ev_Kind e, ev_ProviderEventID e, ev_ItemID e, ev_CallID e]"

definition event_ok :: "event \<Rightarrow> bool" where
  "event_ok e \<longleftrightarrow> list_all utf8_valid (event_strings e)
     \<and> (contentSet (ev_Part e) \<longrightarrow> content_ok (ev_Part e))
     \<and> utf8_valid (d_Kind (ev_Delta e)) \<and> utf8_valid (d_Text (ev_Delta e))
     \<and> (case ev_Response e of None \<Rightarrow> True | Some info \<Rightarrow> info_ok info)
     \<and> list_all finish_ok (ev_Finishes e)
     \<and> (case ev_Usage e of None \<Rightarrow> True | Some u \<Rightarrow> raw_ok (u_Raw u))"

definition event_size :: "event \<Rightarrow> int" where
  "event_size e = sum_list (map str_size (event_strings e)) + 3 * node_size
     + (if contentSet (ev_Part e) then content_size (ev_Part e) else 0)
     + (if deltaSet (ev_Delta e) then str_size (d_Kind (ev_Delta e)) + str_size (d_Text (ev_Delta e))
         + str_size (d_Media (ev_Delta e)) else 0)
     + (case ev_Response e of None \<Rightarrow> 0 | Some info \<Rightarrow> info_size info)
     + sum_list (map finish_size (ev_Finishes e))
     + (case ev_Usage e of None \<Rightarrow> 0 | Some u \<Rightarrow> 7 * node_size + raw_size (u_Raw u))"

section \<open>Charging a counter\<close>

definition counter_ok :: "frame_counter \<Rightarrow> bool" where
  "counter_ok c \<longleftrightarrow> 0 \<le> fc_size c \<and> fc_size c \<le> fc_max c \<and> fc_max c \<le> max_int64"

text \<open>A measuring operation succeeds exactly when its input is well formed and the cost fits.\<close>

definition charges :: "(frame_counter \<Rightarrow> frame_error + frame_counter) \<Rightarrow> bool \<Rightarrow> int \<Rightarrow> bool" where
  "charges f ok n \<longleftrightarrow> 0 \<le> n \<and> (\<forall>c c'. counter_ok c \<longrightarrow>
     (f c = Inr c' \<longleftrightarrow> ok \<and> fc_size c + n \<le> fc_max c \<and> c' = c\<lparr>fc_size := fc_size c + n\<rparr>))"

lemma chargesD:
  "charges f ok n \<Longrightarrow> counter_ok c \<Longrightarrow>
     f c = Inr c' \<longleftrightarrow> ok \<and> fc_size c + n \<le> fc_max c \<and> c' = c\<lparr>fc_size := fc_size c + n\<rparr>"
  by (simp add: charges_def)

lemma charges_nonneg: "charges f ok n \<Longrightarrow> 0 \<le> n"
  by (simp add: charges_def)

lemma charges_add: "0 \<le> n \<Longrightarrow> charges (fc_add n) True n"
  by (auto simp: charges_def fc_add_def counter_ok_def)

lemma charges_id: "charges Inr True 0"
  by (auto simp: charges_def counter_ok_def)

lemma charges_fail: "(\<And>c. \<exists>e. f c = Inl e) \<Longrightarrow> 0 \<le> n \<Longrightarrow> charges f False n"
  unfolding charges_def by (metis sum.distinct(1))

lemma charges_seq:
  assumes f: "charges f a n" and g: "charges g b m"
  shows "charges (\<lambda>c. rbind (f c) g) (a \<and> b) (n + m)"
  unfolding charges_def
proof (intro conjI allI impI)
  show "0 \<le> n + m" using f g by (simp add: charges_def)
  fix c c' assume c: "counter_ok c"
  show "rbind (f c) g = Inr c' \<longleftrightarrow> (a \<and> b) \<and> fc_size c + (n + m) \<le> fc_max c \<and> c' = c\<lparr>fc_size := fc_size c + (n + m)\<rparr>"
  proof (cases "fc_size c + n \<le> fc_max c")
    case True
    then have ok: "counter_ok (c\<lparr>fc_size := fc_size c + n\<rparr>)"
      using c charges_nonneg [OF f] by (simp add: counter_ok_def)
    show ?thesis using True by (auto simp: result_simps chargesD [OF f c] chargesD [OF g ok] add.assoc)
  next
    case False
    then show ?thesis using charges_nonneg [OF g] by (auto simp: result_simps chargesD [OF f c])
  qed
qed

lemma charges_rfold:
  assumes "\<And>x. x \<in> set xs \<Longrightarrow> charges (\<lambda>c. f c x) (ok x) (n x)"
  shows "charges (\<lambda>c. rfold f c xs) (\<forall>x\<in>set xs. ok x) (sum_list (map n xs))"
  using assms
proof (induction xs)
  case (Cons x xs)
  then show ?case using charges_seq [of "\<lambda>c. f c x" "ok x" "n x" "\<lambda>c. rfold f c xs"] by simp
qed (simp add: charges_id)

lemma charges_node: "charges fc_node True node_size"
  using charges_add [of node_size] by (simp add: fc_node_def [abs_def] node_size_def streamFrameNodeBytes_def)

lemma charges_bytes: "charges (fc_bytes s) True (str_size s)"
  using charges_seq [OF charges_node charges_add [of "int (length s)"]]
  by (simp add: fc_bytes_def [abs_def] str_size_def)

lemma charges_string: "charges (fc_string s) (utf8_valid s) (str_size s)"
proof (cases "utf8_valid s")
  case True
  then show ?thesis using charges_bytes [of s] by (simp add: fc_string_def [abs_def] fc_bytes_def [abs_def])
next
  case False
  then show ?thesis by (auto simp: fc_string_def str_size_def node_size_def intro!: charges_fail)
qed

lemma charges_strings: "charges (fc_strings ss) (list_all utf8_valid ss) (sum_list (map str_size ss))"
  using charges_rfold [of ss "\<lambda>c s. fc_string s c", OF charges_string]
  by (simp add: fc_strings_def [abs_def] list_all_iff)

lemma charges_json:
  assumes "wf_value L v"
  shows "charges (fc_jsonValue v) True (json_size v)"
  using assms
proof (induction v)
  case (VArray vs)
  then have "charges (\<lambda>c. rfold (\<lambda>c v. fc_jsonValue v c) c vs) True (sum_list (map json_size vs))"
    using charges_rfold [of vs "\<lambda>c v. fc_jsonValue v c" "\<lambda>_. True" json_size] by (simp add: list_all_iff)
  from charges_seq [OF charges_node this] show ?case by simp
next
  case (VObject ms)
  have "charges (\<lambda>c. (\<lambda>c (k, v). rbind (fc_string k c) (fc_jsonValue v)) c x) True ((\<lambda>(k, v). str_size k + json_size v) x)"
    if x: "x \<in> set ms" for x
  proof -
    obtain k v where kv: "x = (k, v)" by (cases x)
    have "utf8_valid k" "wf_value L v" using VObject.prems x kv by (auto simp: list_all_iff)
    then have "charges (fc_jsonValue v) True (json_size v)" using VObject.IH [OF x, of v] kv by simp
    from charges_seq [OF charges_string [of k] this] \<open>utf8_valid k\<close> kv show ?thesis by simp
  qed
  then have "charges (\<lambda>c. rfold (\<lambda>c (k, v). rbind (fc_string k c) (fc_jsonValue v)) c ms) True
      (sum_list (map (\<lambda>(k, v). str_size k + json_size v) ms))"
    using charges_rfold [of ms "\<lambda>c (k, v). rbind (fc_string k c) (fc_jsonValue v)" "\<lambda>_. True"] by simp
  from charges_seq [OF charges_node this] show ?case by simp
next
  case (VNumber x) then show ?case using charges_bytes [of x] by (simp add: fc_bytes_def [abs_def])
next
  case (VString x) then show ?case using charges_bytes [of x] by (simp add: fc_bytes_def [abs_def])
qed (use charges_node in \<open>auto simp: charges_def\<close>)


lemma charges_raw: "charges (fc_raw s) (raw_ok s) (raw_size s)"
proof (cases "s = []")
  case True
  then show ?thesis using charges_node by (simp add: fc_raw_def [abs_def] raw_ok_def raw_size_def)
next
  case s: False
  show ?thesis
  proof (cases "Parse s ObjectLimits")
    case (Inl e)
    then show ?thesis using s
      by (auto simp: fc_raw_def raw_ok_def raw_size_def str_size_def node_size_def intro!: charges_fail) 
  next
    case (Inr v)
    then have "wf_value canonicalLimits v" by (rule object_parses_canonical [THEN parsed_wf])
    note both = charges_seq [OF charges_bytes [of s] charges_json [OF this]]
    have "json_size v \<ge> 0" using charges_nonneg [OF charges_json [OF \<open>wf_value canonicalLimits v\<close>]] .
    then show ?thesis using s Inr both
      unfolding charges_def fc_raw_def raw_ok_def raw_size_def by (auto simp: str_size_def node_size_def)
  qed
qed

lemma charges_state: "charges (measureProviderStateFrame st) (state_ok st) (state_size st)"
  using charges_node charges_seq [OF charges_string charges_raw]
  by (cases st) (simp_all add: measureProviderStateFrame_def [abs_def])

lemma charges_metadata:
  "charges (\<lambda>c. rfold (\<lambda>c (k, v). rbind (fc_string k c) (fc_string v)) c m)
     (list_all (\<lambda>(k, v). utf8_valid k \<and> utf8_valid v) m) (sum_list (map (\<lambda>(k, v). str_size k + str_size v) m))"
proof -
  have "charges (\<lambda>c. (\<lambda>c (k, v). rbind (fc_string k c) (fc_string v)) c x)
      ((\<lambda>(k, v). utf8_valid k \<and> utf8_valid v) x) ((\<lambda>(k, v). str_size k + str_size v) x)" for x
    using charges_seq [OF charges_string charges_string] by (cases x) simp
  from charges_rfold [OF this] show ?thesis by (simp add: list_all_iff)
qed

lemma charges_info: "charges (measureResponseInfoFrame info) (info_ok info) (info_size info)"
  using charges_seq [OF charges_node charges_seq [OF charges_strings [of "info_strings info"]
    charges_seq [OF charges_metadata [of "metadata_entries info"] charges_state [of "ri_ProviderState info"]]]]
  by (simp add: measureResponseInfoFrame_def [abs_def] info_ok_def info_size_def info_strings_def add.assoc)

lemma charges_finish: "charges (measureFinish f) (finish_ok f) (finish_size f)"
  using charges_seq [OF charges_node charges_seq [OF charges_strings [of "[f_Reason f, f_RawReason f]"]
    charges_state [of "f_ProviderState f"]]]
  by (simp add: measureFinish_def [abs_def] finish_ok_def finish_size_def add.assoc)

lemma charges_opt:
  assumes "\<And>v. x = Some v \<Longrightarrow> charges (f v) (p v) (n v)" "\<And>v. 0 \<le> m" "\<And>v. x = Some v \<Longrightarrow> m = n v"
  shows "charges (\<lambda>c. nil_panic x (\<lambda>v. f v c)) (opt_ok p x) m"
  using assms by (cases x) (auto simp: nil_panic_def opt_ok_def intro!: charges_fail)

lemma str_size_nonneg [simp]: "0 \<le> str_size s" and node_size_nonneg [simp]: "0 \<le> node_size"
  by (simp_all add: str_size_def node_size_def)

lemma raw_size_nonneg [simp]: "0 \<le> raw_size s"
  using charges_nonneg [OF charges_raw] .

lemma charges_if:
  "(b \<Longrightarrow> charges f p n) \<Longrightarrow> (\<not> b \<Longrightarrow> charges g q m) \<Longrightarrow>
     charges (\<lambda>c. if b then f c else g c) (if b then p else q) (if b then n else m)"
  by simp

lemma charges_image:
  "charges (\<lambda>c. rbind (fc_strings [img_URI i, img_MIMEType i, img_Detail i] c) (fc_bytes (bytes_of (img_Data i))))
     (utf8_valid (img_URI i) \<and> utf8_valid (img_MIMEType i) \<and> utf8_valid (img_Detail i))
     (str_size (img_URI i) + str_size (img_MIMEType i) + str_size (img_Detail i) + str_size (bytes_of (img_Data i)))"
  using charges_seq [OF charges_strings [of "[img_URI i, img_MIMEType i, img_Detail i]"] charges_bytes [of "bytes_of (img_Data i)"]]
  by (simp add: add.assoc)

lemma charges_call:
  "charges (\<lambda>c. rbind (fc_strings [tc_ID call, tc_Name call] c) (fc_raw (tc_Arguments call)))
     (utf8_valid (tc_ID call) \<and> utf8_valid (tc_Name call) \<and> raw_ok (tc_Arguments call))
     (str_size (tc_ID call) + str_size (tc_Name call) + raw_size (tc_Arguments call))"
  using charges_seq [OF charges_strings [of "[tc_ID call, tc_Name call]"] charges_raw [of "tc_Arguments call"]]
  by (simp add: add.assoc)

lemma charges_children:
  assumes "\<And>x. x \<in> set cs \<Longrightarrow> charges (measureContentFrame x) (content_ok x) (content_size x)"
  shows "charges (\<lambda>c. rbind (fc_strings [cid, n] c) (\<lambda>c. rbind (fc_node c) (\<lambda>c.
      rfold (\<lambda>c x. measureContentFrame x c) c cs)))
    (utf8_valid cid \<and> utf8_valid n \<and> (\<forall>x\<in>set cs. content_ok x))
    (str_size cid + str_size n + node_size + sum_list (map content_size cs))"
  using charges_seq [OF charges_strings [of "[cid, n]"]
      charges_seq [OF charges_node charges_rfold [of cs "\<lambda>c x. measureContentFrame x c", OF assms]]]
  by (simp add: add.assoc)

lemma charges_content: "charges (measureContentFrame x) (content_ok x) (content_size x)"
proof (induction x rule: Content_Clone.induct)
  case (1 k t im tc tr rs rf)
  have result: "charges (\<lambda>c. case tr of None \<Rightarrow> Inl NilVariant | Some (ToolResult cid n cs e) \<Rightarrow>
      rbind (fc_strings [cid, n] c) (\<lambda>c. rbind (fc_node c) (\<lambda>c. rfold (\<lambda>c x. measureContentFrame x c) c cs)))
    (case tr of None \<Rightarrow> False
       | Some (ToolResult cid n cs e) \<Rightarrow> utf8_valid cid \<and> utf8_valid n \<and> (\<forall>x\<in>set cs. content_ok x))
    (case tr of None \<Rightarrow> 0 | Some (ToolResult cid n cs e) \<Rightarrow>
       str_size cid + str_size n + node_size + sum_list (map content_size cs))"
    using charges_children "1.IH" by (auto simp: charges_fail split: option.splits tool_result.splits)
  have words: "charges (\<lambda>c. nil_panic v (\<lambda>s. fc_string s c)) (opt_ok utf8_valid v) (str_size (the v))" for v
    by (rule charges_opt [where n = str_size]) (auto intro: charges_string)
  have image: "charges (\<lambda>c. nil_panic im (\<lambda>i. rbind (fc_strings [img_URI i, img_MIMEType i, img_Detail i] c)
        (fc_bytes (bytes_of (img_Data i)))))
      (opt_ok (\<lambda>i. utf8_valid (img_URI i) \<and> utf8_valid (img_MIMEType i) \<and> utf8_valid (img_Detail i)) im)
      (str_size (img_URI (the im)) + str_size (img_MIMEType (the im))
        + str_size (img_Detail (the im)) + str_size (bytes_of (img_Data (the im))))"
    by (rule charges_opt, rule charges_image) auto
  have call: "charges (\<lambda>c. nil_panic tc (\<lambda>call. rbind (fc_strings [tc_ID call, tc_Name call] c) (fc_raw (tc_Arguments call))))
      (opt_ok (\<lambda>call. utf8_valid (tc_ID call) \<and> utf8_valid (tc_Name call) \<and> raw_ok (tc_Arguments call)) tc)
      (str_size (tc_ID (the tc)) + str_size (tc_Name (the tc)) + raw_size (tc_Arguments (the tc)))"
    by (rule charges_opt, rule charges_call) auto
  have unknown: "charges (\<lambda>c. Inl (FrameKind k)) False 0" by (rule charges_fail) auto
  note body = charges_if [OF words [of t] charges_if [OF image charges_if [OF call charges_if [OF result
    charges_if [OF words [of rs] charges_if [OF words [of rf] unknown]]]]]]
  show ?case
    using charges_seq [OF charges_node charges_seq [OF charges_string [of k] body
      [of "k = ContentText" "k = ContentImage" "k = ContentToolCall" "k = ContentToolResult"
          "k = ContentReasoningSummary" "k = ContentRefusal"]]]
    unfolding measureContentFrame.simps content_ok.simps content_size.simps by (simp only: add.assoc simp_thms)
qed


lemma charges_id_if: "charges f p n \<Longrightarrow> charges (\<lambda>c. if b then f c else Inr c) (b \<longrightarrow> p) (if b then n else 0)"
  using charges_id by simp

lemma charges_id_option:
  "(\<And>v. charges (f v) (p v) (n v)) \<Longrightarrow>
     charges (\<lambda>c. case x of None \<Rightarrow> Inr c | Some v \<Rightarrow> f v c)
       (case x of None \<Rightarrow> True | Some v \<Rightarrow> p v) (case x of None \<Rightarrow> 0 | Some v \<Rightarrow> n v)"
  using charges_id by (cases x) simp_all

lemma charges_delta:
  "charges (\<lambda>c. rbind (fc_strings [d_Kind d, d_Text d] c) (fc_bytes (d_Media d)))
     (utf8_valid (d_Kind d) \<and> utf8_valid (d_Text d)) (str_size (d_Kind d) + str_size (d_Text d) + str_size (d_Media d))"
  using charges_seq [OF charges_strings [of "[d_Kind d, d_Text d]"] charges_bytes [of "d_Media d"]] by (simp add: add.assoc)

lemma charges_usage:
  "charges (\<lambda>c. rbind (fc_add (7 * streamFrameNodeBytes) c) (fc_raw (u_Raw u))) (raw_ok (u_Raw u))
     (7 * node_size + raw_size (u_Raw u))"
  using charges_seq [OF charges_add [of "7 * node_size"] charges_raw [of "u_Raw u"]]
  by (simp add: node_size_def streamFrameNodeBytes_def)

text \<open>The body of \<^verbatim>\<open>measureEventFrame\<close> after the shape check.\<close>

lemma delta_unset: "\<not> deltaSet d \<Longrightarrow> utf8_valid (d_Kind d) \<and> utf8_valid (d_Text d)"
  by (simp add: deltaSet_def)

lemma charges_payload: "charges (measurePayload e) (event_ok e) (event_size e)"
proof -
  have ok: "event_ok e \<longleftrightarrow> utf8_valid ''serpe.models.event.v1''
     \<and> list_all utf8_valid [ev_Kind e, ev_ProviderEventID e, ev_ItemID e, ev_CallID e] \<and> True
     \<and> (contentSet (ev_Part e) \<longrightarrow> content_ok (ev_Part e))
     \<and> (deltaSet (ev_Delta e) \<longrightarrow> utf8_valid (d_Kind (ev_Delta e)) \<and> utf8_valid (d_Text (ev_Delta e)))
     \<and> (case ev_Response e of None \<Rightarrow> True | Some info \<Rightarrow> info_ok info)
     \<and> (\<forall>f\<in>set (ev_Finishes e). finish_ok f)
     \<and> (case ev_Usage e of None \<Rightarrow> True | Some u \<Rightarrow> raw_ok (u_Raw u))"
    using delta_unset [of "ev_Delta e"] by (simp add: event_ok_def event_strings_def list_all_iff) blast
  have size: "event_size e = str_size ''serpe.models.event.v1'' +
     (sum_list (map str_size [ev_Kind e, ev_ProviderEventID e, ev_ItemID e, ev_CallID e]) + (3 * streamFrameNodeBytes
     + ((if contentSet (ev_Part e) then content_size (ev_Part e) else 0)
     + ((if deltaSet (ev_Delta e) then str_size (d_Kind (ev_Delta e)) + str_size (d_Text (ev_Delta e))
         + str_size (d_Media (ev_Delta e)) else 0)
     + ((case ev_Response e of None \<Rightarrow> 0 | Some info \<Rightarrow> info_size info)
     + (sum_list (map finish_size (ev_Finishes e))
     + (case ev_Usage e of None \<Rightarrow> 0 | Some u \<Rightarrow> 7 * node_size + raw_size (u_Raw u))))))))"
    by (simp add: event_size_def event_strings_def node_size_def streamFrameNodeBytes_def)
  show ?thesis unfolding ok size measurePayload_def [abs_def]
    by (intro charges_seq charges_string charges_strings charges_add charges_id_if charges_content charges_delta
        charges_id_option charges_info charges_rfold charges_finish charges_usage)
      (simp add: streamFrameNodeBytes_def)
qed

lemma measureEventFrame_iff:
  assumes "0 \<le> m" "m \<le> max_int64"
  shows "measureEventFrame G e m = Inr n \<longleftrightarrow>
    validateEventShape G e = Inr () \<and> event_ok e \<and> n = event_size e \<and> event_size e \<le> m"
proof -
  have c: "counter_ok \<lparr>fc_size = 0, fc_max = m\<rparr>" using assms by (simp add: counter_ok_def)
  show ?thesis
    by (auto simp: measureEventFrame_def result_simps chargesD [OF charges_payload [of e] c])
qed

section \<open>Interfaces\<close>

lemma streamInt64_setting:
  "0 < lo \<Longrightarrow> lo \<le> hi \<Longrightarrow> bounded_setting (\<lambda>v. streamInt64Limit v hi lo name) lo hi"
  by unfold_locales (auto simp: streamInt64Limit_def split: if_splits)

lemma streamInt_setting:
  "0 < lo \<Longrightarrow> lo \<le> hi \<Longrightarrow> bounded_setting (\<lambda>v. streamIntLimit v hi lo name) lo hi"
  by unfold_locales (auto simp: streamIntLimit_def split: if_splits)

interpretation event_bytes: bounded_setting
  "\<lambda>v. streamInt64Limit v defaultStreamEventBytes 512 ''MaxEventBytes''" 512 defaultStreamEventBytes
  by (rule streamInt64_setting) (simp_all add: stream_defaults)

interpretation turn_bytes: bounded_setting
  "\<lambda>v. streamInt64Limit v defaultStreamTurnBytes 1024 ''MaxTurnBytes''" 1024 defaultStreamTurnBytes
  by (rule streamInt64_setting) (simp_all add: stream_defaults)

interpretation events_limit: bounded_setting
  "\<lambda>v. streamIntLimit v defaultStreamEvents 2 ''MaxEvents''" 2 defaultStreamEvents
  by (rule streamInt_setting) (simp_all add: stream_defaults)

interpretation candidates_limit: bounded_setting
  "\<lambda>v. streamIntLimit v defaultStreamCandidates 1 ''MaxCandidates''" 1 defaultStreamCandidates
  by (rule streamInt_setting) (simp_all add: stream_defaults)

interpretation parts_limit: bounded_setting
  "\<lambda>v. streamIntLimit v defaultStreamParts 1 ''MaxParts''" 1 defaultStreamParts
  by (rule streamInt_setting) (simp_all add: stream_defaults)

interpretation metadata_limit: bounded_setting
  "\<lambda>v. streamIntLimit v defaultStreamMetadataEntries 1 ''MaxMetadataEntries''" 1 defaultStreamMetadataEntries
  by (rule streamInt_setting) (simp_all add: stream_defaults)

interpretation tool_calls_limit: bounded_setting
  "\<lambda>v. streamIntLimit v defaultStreamToolCalls 1 ''MaxToolCalls''" 1 defaultStreamToolCalls
  by (rule streamInt_setting) (simp_all add: stream_defaults)

interpretation frame: meter fc_add fc_size fc_max
  by unfold_locales (auto simp: fc_add_def split: if_splits)

lemma normalize_fields:
  "normalizeStreamLimits L = Inr M \<longleftrightarrow>
     streamInt64Limit (MaxEventBytes L) defaultStreamEventBytes 512 ''MaxEventBytes'' = Inr (MaxEventBytes M)
     \<and> streamInt64Limit (MaxTurnBytes L) defaultStreamTurnBytes 1024 ''MaxTurnBytes'' = Inr (MaxTurnBytes M)
     \<and> MaxEventBytes M \<le> MaxTurnBytes M
     \<and> streamIntLimit (MaxEvents L) defaultStreamEvents 2 ''MaxEvents'' = Inr (MaxEvents M)
     \<and> streamIntLimit (MaxCandidates L) defaultStreamCandidates 1 ''MaxCandidates'' = Inr (MaxCandidates M)
     \<and> streamIntLimit (MaxParts L) defaultStreamParts 1 ''MaxParts'' = Inr (MaxParts M)
     \<and> streamIntLimit (MaxMetadataEntries L) defaultStreamMetadataEntries 1 ''MaxMetadataEntries'' = Inr (MaxMetadataEntries M)
     \<and> streamIntLimit (MaxToolCalls L) defaultStreamToolCalls 1 ''MaxToolCalls'' = Inr (MaxToolCalls M)"
  by (cases M) (auto simp: normalizeStreamLimits_def result_simps)

definition within_ceilings :: "stream_limits \<Rightarrow> bool" where
  "within_ceilings M \<longleftrightarrow> 512 \<le> MaxEventBytes M \<and> MaxEventBytes M \<le> defaultStreamEventBytes
     \<and> 1024 \<le> MaxTurnBytes M \<and> MaxTurnBytes M \<le> defaultStreamTurnBytes \<and> MaxEventBytes M \<le> MaxTurnBytes M
     \<and> 2 \<le> MaxEvents M \<and> MaxEvents M \<le> defaultStreamEvents
     \<and> 1 \<le> MaxCandidates M \<and> MaxCandidates M \<le> defaultStreamCandidates
     \<and> 1 \<le> MaxParts M \<and> MaxParts M \<le> defaultStreamParts
     \<and> 1 \<le> MaxMetadataEntries M \<and> MaxMetadataEntries M \<le> defaultStreamMetadataEntries
     \<and> 1 \<le> MaxToolCalls M \<and> MaxToolCalls M \<le> defaultStreamToolCalls"

lemma normalized_within: "normalizeStreamLimits L = Inr M \<Longrightarrow> within_ceilings M"
  unfolding normalize_fields within_ceilings_def
  using event_bytes.within turn_bytes.within events_limit.within candidates_limit.within parts_limit.within
    metadata_limit.within tool_calls_limit.within by blast

lemma normalize_idem: "normalizeStreamLimits L = Inr M \<Longrightarrow> normalizeStreamLimits M = Inr M"
  unfolding normalize_fields
  using event_bytes.idempotent turn_bytes.idempotent events_limit.idempotent candidates_limit.idempotent
    parts_limit.idempotent metadata_limit.idempotent tool_calls_limit.idempotent by blast

lemma normalize_tightens:
  "normalizeStreamLimits L = Inr M \<Longrightarrow>
     MaxEventBytes M = (if MaxEventBytes L = 0 then defaultStreamEventBytes else MaxEventBytes L)
     \<and> MaxTurnBytes M = (if MaxTurnBytes L = 0 then defaultStreamTurnBytes else MaxTurnBytes L)
     \<and> MaxEvents M = (if MaxEvents L = 0 then defaultStreamEvents else MaxEvents L)
     \<and> MaxCandidates M = (if MaxCandidates L = 0 then defaultStreamCandidates else MaxCandidates L)
     \<and> MaxParts M = (if MaxParts L = 0 then defaultStreamParts else MaxParts L)
     \<and> MaxMetadataEntries M = (if MaxMetadataEntries L = 0 then defaultStreamMetadataEntries else MaxMetadataEntries L)
     \<and> MaxToolCalls M = (if MaxToolCalls L = 0 then defaultStreamToolCalls else MaxToolCalls L)"
  unfolding normalize_fields
  using event_bytes.tightens turn_bytes.tightens events_limit.tightens candidates_limit.tightens
    parts_limit.tightens metadata_limit.tightens tool_calls_limit.tightens by blast

section \<open>The limiter and its history\<close>

definition started_parts :: "event list \<Rightarrow> (int \<times> int) set" where
  "started_parts es = event_key ` set (filter (\<lambda>e. ev_Kind e = EventPartStart) es)"

definition seen_candidates :: "event list \<Rightarrow> int set" where
  "seen_candidates es = fst ` started_parts es \<union> f_CandidateIndex ` set (concat (map ev_Finishes es))"

definition in_range_event :: "stream_limits \<Rightarrow> event \<Rightarrow> bool" where
  "in_range_event L e \<longleftrightarrow>
     (ev_Kind e \<in> {EventPartStart, EventPartDelta, EventPartEnd} \<longrightarrow>
        0 \<le> ev_CandidateIndex e \<and> ev_CandidateIndex e < MaxCandidates L \<and> 0 \<le> ev_PartIndex e \<and> ev_PartIndex e < MaxParts L)
     \<and> (\<forall>f\<in>set (ev_Finishes e). 0 \<le> f_CandidateIndex f \<and> f_CandidateIndex f < MaxCandidates L)
     \<and> distinct (map f_CandidateIndex (ev_Finishes e))"

definition limiter_inv :: "stream_limits \<Rightarrow> event list \<Rightarrow> limiter \<Rightarrow> bool" where
  "limiter_inv L es l \<longleftrightarrow> l_limits l = L
     \<and> l_events l = int (length es) \<and> l_events l \<le> MaxEvents L
     \<and> l_turnBytes l = sum_list (map event_size es) \<and> l_turnBytes l \<le> MaxTurnBytes L
     \<and> l_metadataEntries l = sum_list (map metadata_count es) \<and> l_metadataEntries l \<le> MaxMetadataEntries L
     \<and> l_toolCalls l = int (length (filter is_tool_start es)) \<and> l_toolCalls l \<le> MaxToolCalls L
     \<and> distinct (l_candidates l) \<and> set (l_candidates l) = seen_candidates es
     \<and> int (length (l_candidates l)) \<le> MaxCandidates L
     \<and> wf_gmap (l_parts l) \<and> fst ` set (l_parts l) = started_parts es \<and> int (length (l_parts l)) \<le> MaxParts L
     \<and> (\<forall>e\<in>set es. event_size e \<le> MaxEventBytes L \<and> in_range_event L e \<and> event_ok e)"

lemma check_finishes_iff:
  "check_finishes L seen fs = Inr u \<longleftrightarrow>
     (\<forall>f\<in>set fs. 0 \<le> f_CandidateIndex f \<and> f_CandidateIndex f < MaxCandidates L \<and> f_CandidateIndex f \<notin> set seen)
     \<and> distinct (map f_CandidateIndex fs)"
  by (induction fs arbitrary: seen) (auto, metis image_eqI)

lemma validateIndexes_in_range:
  "validateIndexes l e = Inr u \<Longrightarrow> in_range_event (l_limits l) e"
  by (auto simp: validateIndexes_def in_range_event_def result_simps check_finishes_iff split: if_splits)

lemma add_finish_candidates_Inr:
  "add_finish_candidates L cands fs = Inr cands' \<Longrightarrow> distinct cands \<Longrightarrow>
     distinct cands' \<and> set cands' = set cands \<union> f_CandidateIndex ` set fs
     \<and> (int (length cands) \<le> MaxCandidates L \<longrightarrow> int (length cands') \<le> MaxCandidates L)"
  by (induction fs arbitrary: cands) (auto split: if_splits)

lemma started_parts_snoc:
  "started_parts (es @ [e]) = (if ev_Kind e = EventPartStart then insert (event_key e) (started_parts es) else started_parts es)"
  by (auto simp: started_parts_def)

lemma seen_candidates_snoc:
  "seen_candidates (es @ [e]) = seen_candidates es \<union> f_CandidateIndex ` set (ev_Finishes e)
     \<union> (if ev_Kind e = EventPartStart then {ev_CandidateIndex e} else {})"
  by (auto simp: seen_candidates_def started_parts_snoc event_key_def)

lemma limiter_accept_parts:
  assumes "limiter_accept G l e = Inr l'" "within_ceilings (l_limits l)"
  obtains l1 where "l_events l < MaxEvents (l_limits l)" "in_range_event (l_limits l) e" "validateEventShape G e = Inr ()"
    "event_ok e" "event_size e \<le> MaxEventBytes (l_limits l)" "event_size e \<le> MaxTurnBytes (l_limits l) - l_turnBytes l"
    "acceptStructure l e = Inr l1" "l' = l1\<lparr>l_events := l_events l1 + 1, l_turnBytes := l_turnBytes l1 + event_size e\<rparr>"
proof -
  have m: "0 \<le> MaxEventBytes (l_limits l)" "MaxEventBytes (l_limits l) \<le> max_int64"
    using assms(2) by (auto simp: within_ceilings_def stream_defaults max_int64_def)
  show thesis using assms(1) that
    by (auto simp: limiter_accept_def Let_def result_simps measureEventFrame_iff [OF m] split: if_splits
        dest!: validateIndexes_in_range)
qed

lemma part_start_no_finishes:
  "validateEventShape G e = Inr () \<Longrightarrow> ev_Kind e = EventPartStart \<Longrightarrow> ev_Finishes e = []"
  by (auto simp: validateEventShape_def partPayloadShape_def result_simps split: if_splits)

lemma acceptStructure_inv:
  assumes inv: "limiter_inv L es l" and shape: "validateEventShape G e = Inr ()" and step: "acceptStructure l e = Inr l'"
  shows "l_limits l' = L \<and> l_events l' = l_events l \<and> l_turnBytes l' = l_turnBytes l"
    and "l_metadataEntries l' = sum_list (map metadata_count (es @ [e])) \<and> l_metadataEntries l' \<le> MaxMetadataEntries L"
    and "l_toolCalls l' = int (length (filter is_tool_start (es @ [e]))) \<and> l_toolCalls l' \<le> MaxToolCalls L"
    and "distinct (l_candidates l') \<and> set (l_candidates l') = seen_candidates (es @ [e]) \<and> int (length (l_candidates l')) \<le> MaxCandidates L"
    and "wf_gmap (l_parts l') \<and> fst ` set (l_parts l') = started_parts (es @ [e]) \<and> int (length (l_parts l')) \<le> MaxParts L"
proof -
  obtain cands where
    meta: "metadata_count e \<le> MaxMetadataEntries L - l_metadataEntries l"
    and parts: "\<not> ((ev_Kind e = EventPartStart \<and> map_of (l_parts l) (event_key e) = None) \<and> int (length (l_parts l)) \<ge> MaxParts L)"
    and cand: "\<not> ((ev_Kind e = EventPartStart \<and> ev_CandidateIndex e \<notin> set (l_candidates l)) \<and> int (length (l_candidates l)) \<ge> MaxCandidates L)"
    and fin: "add_finish_candidates L (l_candidates l) (ev_Finishes e) = Inr cands"
    and tool: "\<not> (is_tool_start e \<and> l_toolCalls l \<ge> MaxToolCalls L)"
    and l': "l' = l\<lparr>l_toolCalls := l_toolCalls l + (if is_tool_start e then 1 else 0),
        l_metadataEntries := l_metadataEntries l + metadata_count e,
        l_candidates := (if ev_Kind e = EventPartStart \<and> ev_CandidateIndex e \<notin> set (l_candidates l)
          then List.insert (ev_CandidateIndex e) cands else cands),
        l_parts := (if ev_Kind e = EventPartStart \<and> map_of (l_parts l) (event_key e) = None
          then gput (event_key e) (c_Kind (ev_Part e)) (l_parts l) else l_parts l)\<rparr>"
    using step inv unfolding acceptStructure_def Let_def limiter_inv_def rbind_eq_Inr_iff guard_eq_Inr_iff by auto
  have L: "l_limits l = L" "distinct (l_candidates l)" "set (l_candidates l) = seen_candidates es"
    "int (length (l_candidates l)) \<le> MaxCandidates L" "wf_gmap (l_parts l)" "fst ` set (l_parts l) = started_parts es"
    "int (length (l_parts l)) \<le> MaxParts L" "l_metadataEntries l = sum_list (map metadata_count es)"
    "l_toolCalls l = int (length (filter is_tool_start es))" "l_toolCalls l \<le> MaxToolCalls L"
    using inv by (simp_all add: limiter_inv_def)
  note F = add_finish_candidates_Inr [OF fin L(2)]
  show "l_limits l' = L \<and> l_events l' = l_events l \<and> l_turnBytes l' = l_turnBytes l" using L by (simp add: l')
  show "l_metadataEntries l' = sum_list (map metadata_count (es @ [e])) \<and> l_metadataEntries l' \<le> MaxMetadataEntries L"
    using L meta by (simp add: l')
  show "l_toolCalls l' = int (length (filter is_tool_start (es @ [e]))) \<and> l_toolCalls l' \<le> MaxToolCalls L"
    using L tool by (auto simp: l')
  show "distinct (l_candidates l') \<and> set (l_candidates l') = seen_candidates (es @ [e]) \<and> int (length (l_candidates l')) \<le> MaxCandidates L"
  proof (cases "ev_Kind e = EventPartStart")
    case True
    then have none: "ev_Finishes e = []" using shape by (rule part_start_no_finishes [rotated])
    then have "cands = l_candidates l" using fin by simp
    then show ?thesis using True none cand L by (auto simp: l' seen_candidates_snoc)
  next
    case False
    then show ?thesis using F L by (auto simp: l' seen_candidates_snoc)
  qed
  show "wf_gmap (l_parts l') \<and> fst ` set (l_parts l') = started_parts (es @ [e]) \<and> int (length (l_parts l')) \<le> MaxParts L"
  proof (cases "ev_Kind e = EventPartStart \<and> map_of (l_parts l) (event_key e) = None")
    case True
    then show ?thesis using parts L length_gput_new [of "l_parts l" "event_key e" "c_Kind (ev_Part e)"]
      by (simp add: l' keys_gput started_parts_snoc)
  next
    case False
    then have "ev_Kind e = EventPartStart \<Longrightarrow> event_key e \<in> started_parts es"
      using L(6) by (metis map_of_eq_None_iff)
    then show ?thesis using L False by (auto simp: l' started_parts_snoc)
  qed
qed

lemma limiter_inv_step:
  assumes inv: "limiter_inv L es l" and L: "within_ceilings L" and step: "limiter_accept G l e = Inr l'"
  shows "limiter_inv L (es @ [e]) l'"
proof -
  have lim: "l_limits l = L" using inv by (simp add: limiter_inv_def)
  from step L [folded lim] show ?thesis
  proof (rule limiter_accept_parts)
    fix l1
    assume a: "l_events l < MaxEvents (l_limits l)" "in_range_event (l_limits l) e" "validateEventShape G e = Inr ()"
      "event_ok e" "event_size e \<le> MaxEventBytes (l_limits l)" "event_size e \<le> MaxTurnBytes (l_limits l) - l_turnBytes l"
      "acceptStructure l e = Inr l1" "l' = l1\<lparr>l_events := l_events l1 + 1, l_turnBytes := l_turnBytes l1 + event_size e\<rparr>"
    show ?thesis using acceptStructure_inv [OF inv a(3,7)] a inv lim by (simp add: limiter_inv_def)
  qed
qed

lemma limiter_inv_init: "within_ceilings L \<Longrightarrow> limiter_inv L [] (newStreamLimiter L)"
  by (simp add: limiter_inv_def newStreamLimiter_def within_ceilings_def seen_candidates_def started_parts_def)

lemma limiter_inv_all: "within_ceilings L \<Longrightarrow> accept_all G (newStreamLimiter L) es = Inr l \<Longrightarrow> limiter_inv L es l"
proof (induction es arbitrary: l rule: rev_induct)
  case Nil
  then show ?case using limiter_inv_init [of L] by (simp add: accept_all_def)
next
  case (snoc e es)
  then obtain l0 where "accept_all G (newStreamLimiter L) es = Inr l0" "limiter_accept G l0 e = Inr l"
    by (auto simp: accept_all_def rfold_append result_simps)
  with snoc show ?case by (blast intro: limiter_inv_step)
qed

section \<open>Properties\<close>

text \<open>C22 (bounds). Under normalised limits, a turn whose events were all accepted stays within every
  limit: the number of events, the frame size of each event and of the whole turn, metadata entries,
  tool calls, candidates and parts; and every index is in range.\<close>

theorem accepted_turn_within_limits:
  assumes "normalizeStreamLimits L0 = Inr L" and "accept_all G (newStreamLimiter L) es = Inr l"
  shows "int (length es) \<le> MaxEvents L
     \<and> (\<forall>e\<in>set es. event_size e \<le> MaxEventBytes L \<and> in_range_event L e)
     \<and> sum_list (map event_size es) \<le> MaxTurnBytes L
     \<and> sum_list (map metadata_count es) \<le> MaxMetadataEntries L
     \<and> int (length (filter is_tool_start es)) \<le> MaxToolCalls L
     \<and> int (card (seen_candidates es)) \<le> MaxCandidates L
     \<and> int (card (started_parts es)) \<le> MaxParts L"
proof -
  have inv: "limiter_inv L es l" using limiter_inv_all [OF normalized_within [OF assms(1)] assms(2)] .
  have "card (seen_candidates es) = length (l_candidates l)"
    using inv by (metis distinct_card limiter_inv_def)
  moreover have "card (started_parts es) = length (l_parts l)"
    using inv unfolding limiter_inv_def wf_gmap_def by (metis distinct_card length_map list.set_map)
  ultimately show ?thesis using inv by (auto simp: limiter_inv_def)
qed

text \<open>C23 (functional). The frame size of an event is computed exactly: measuring succeeds when the
  event has a legal shape, its strings are UTF-8, its raw JSON parses and its cost is within the
  maximum, and then returns that cost; nothing overflows.\<close>

theorem frame_size_exact:
  assumes "0 \<le> m" and "m \<le> max_int64"
  shows "measureEventFrame G e m = Inr n \<longleftrightarrow>
    validateEventShape G e = Inr () \<and> event_ok e \<and> n = event_size e \<and> event_size e \<le> m"
  using assms by (rule measureEventFrame_iff)

text \<open>Normalising stream limits gives limits within the package ceilings, keeps every
  non-zero field, replaces zero by the ceiling, and changes nothing when repeated.\<close>

theorem stream_limits_normal:
  assumes "normalizeStreamLimits L = Inr M"
  shows "within_ceilings M \<and> normalizeStreamLimits M = Inr M
     \<and> MaxEventBytes M = (if MaxEventBytes L = 0 then defaultStreamEventBytes else MaxEventBytes L)
     \<and> MaxTurnBytes M = (if MaxTurnBytes L = 0 then defaultStreamTurnBytes else MaxTurnBytes L)
     \<and> MaxEvents M = (if MaxEvents L = 0 then defaultStreamEvents else MaxEvents L)
     \<and> MaxCandidates M = (if MaxCandidates L = 0 then defaultStreamCandidates else MaxCandidates L)
     \<and> MaxParts M = (if MaxParts L = 0 then defaultStreamParts else MaxParts L)
     \<and> MaxMetadataEntries M = (if MaxMetadataEntries L = 0 then defaultStreamMetadataEntries else MaxMetadataEntries L)
     \<and> MaxToolCalls M = (if MaxToolCalls L = 0 then defaultStreamToolCalls else MaxToolCalls L)"
  using normalized_within [OF assms] normalize_idem [OF assms] normalize_tightens [OF assms] by blast

theorem stream_limits_normal_witness:
  "\<exists>M. normalizeStreamLimits (no_limits\<lparr>MaxEvents := 7\<rparr>) = Inr M \<and> MaxEvents M = 7 \<and> within_ceilings M"
proof -
  have n: "normalizeStreamLimits (no_limits\<lparr>MaxEvents := 7\<rparr>) =
      Inr (projr (normalizeStreamLimits (no_limits\<lparr>MaxEvents := 7\<rparr>)))" by code_simp
  show ?thesis using stream_limits_normal [OF n] n by (auto simp: no_limits_def)
qed

abbreviation "sample_limits \<equiv> projr (normalizeStreamLimits no_limits)"

theorem accepted_turn_within_limits_witness:
  "int (length sample_events) \<le> MaxEvents sample_limits
     \<and> sum_list (map event_size sample_events) \<le> MaxTurnBytes sample_limits"
proof -
  have n: "normalizeStreamLimits no_limits = Inr sample_limits" by code_simp
  have a: "accept_all sample_std (newStreamLimiter sample_limits) sample_events =
      Inr (projr (accept_all sample_std (newStreamLimiter sample_limits) sample_events))" by code_simp
  show ?thesis using accepted_turn_within_limits [OF n a] by blast
qed

theorem frame_size_exact_witness:
  "measureEventFrame sample_std (sample_events ! 2) 512 = Inr (event_size (sample_events ! 2))"
proof -
  have "validateEventShape sample_std (sample_events ! 2) = Inr ()" "event_ok (sample_events ! 2)"
    "event_size (sample_events ! 2) \<le> 512" by code_simp+
  then show ?thesis using frame_size_exact [of 512 sample_std "sample_events ! 2"] by (simp add: max_int64_def)
qed

end
