(* ===== verification/Stream.thy ===== *)
theory Stream
  imports Stream_Limits_Props
begin

text \<open>
  The pull-based stream: \<^verbatim>\<open>src/core/models/stream.go\<close> and \<^verbatim>\<open>response_limits.go\<close>.

  \<open>event_stream\<close> is \<^verbatim>\<open>eventStream\<close>. \<^verbatim>\<open>Next\<close> holds the mutex twice, with the call of the
  source in between, and \<^verbatim>\<open>Close\<close> may run there: it is the two operations \<open>next_begin\<close> and
  \<open>next_end\<close>, and \<open>stream_step\<close> interleaves them with \<^verbatim>\<open>Close\<close> and \<^verbatim>\<open>Response\<close> in any
  order. What the source returns and what \<^verbatim>\<open>ctx.Err()\<close> says at that moment are arguments. The
  field \<open>s_sourceCloses\<close> counts the calls of \<^verbatim>\<open>source.Close\<close> that \<^verbatim>\<open>closeOnce\<close> lets through.
\<close>

section \<open>State\<close>

datatype ctx_error = Canceled | DeadlineExceeded

text \<open>An error of the source carries a \<^verbatim>\<open>*models.Error\<close> in its chain, or not.\<close>

datatype source_error = SourceModelError string | SourceOtherError string

datatype source_result = SourceEvent event | SourceEOF | SourceFailed source_error

datatype stream_error =
    StreamUnexpectedEOF | StreamContext ctx_error | StreamModel string | StreamRead string bool
  | StreamNoLimiter | StreamBadLimits limit_error | StreamLimit limiter_error | StreamReduce reduce_error
  | StreamNilSource

record event_stream =
  s_nilSource :: bool
  s_reducer :: reducer
  s_limiter :: "limiter option"
  s_provider :: string
  s_current :: event
  s_err :: "stream_error option"
  s_response :: "response option"
  s_terminalSeen :: bool
  s_finished :: bool
  s_closed :: bool
  s_sourceCloses :: nat

section \<open>Construction\<close>

datatype stream_option = WithStreamProvider string | WithStreamLimits stream_limits

record stream_options =
  o_provider :: string
  o_limits :: stream_limits
  o_limitErr :: "limit_error option"

fun apply_option :: "stream_options \<Rightarrow> stream_option option \<Rightarrow> stream_options" where
  "apply_option opt None = opt"
| "apply_option opt (Some (WithStreamProvider p)) = opt\<lparr>o_provider := p\<rparr>"
| "apply_option opt (Some (WithStreamLimits L)) = (case normalizeStreamLimits L of
     Inl e \<Rightarrow> opt\<lparr>o_limits := no_limits, o_limitErr := Some e\<rparr>
   | Inr M \<Rightarrow> opt\<lparr>o_limits := M, o_limitErr := None\<rparr>)"

definition default_limits :: "stream_options \<Rightarrow> stream_options" where
  "default_limits opt =
     (if o_limitErr opt = None \<and> MaxEventBytes (o_limits opt) = 0
      then apply_option opt (Some (WithStreamLimits no_limits)) else opt)"

definition NewStream :: "bool \<Rightarrow> stream_option option list \<Rightarrow> event_stream" where
  "NewStream nil_source options =
     (let opt = default_limits (foldl apply_option
          \<lparr>o_provider = [], o_limits = no_limits, o_limitErr = None\<rparr> options) in
      \<lparr>s_nilSource = nil_source, s_reducer = newReducer (o_provider opt),
       s_limiter = (if o_limitErr opt = None then Some (newStreamLimiter (o_limits opt)) else None),
       s_provider = o_provider opt, s_current = zero_event [],
       s_err = (if nil_source then Some StreamNilSource else map_option StreamBadLimits (o_limitErr opt)),
       s_response = None, s_terminalSeen = False, s_finished = False, s_closed = False, s_sourceCloses = 0\<rparr>)"

section \<open>Operations\<close>

text \<open>The first critical section of \<^verbatim>\<open>Next\<close>: whether the source is called.\<close>

definition next_begin :: "event_stream \<Rightarrow> bool" where
  "next_begin s = (\<not> (s_finished s \<or> s_err s \<noteq> None \<or> s_closed s))"

definition read_error :: "event_stream \<Rightarrow> ctx_error option \<Rightarrow> source_error \<Rightarrow> stream_error" where
  "read_error s ctx e = (case ctx of
     Some c \<Rightarrow> StreamContext c
   | None \<Rightarrow> (case e of SourceModelError m \<Rightarrow> StreamModel m
       | SourceOtherError m \<Rightarrow> StreamRead m (\<not> s_terminalSeen s)))"

text \<open>The part of \<^verbatim>\<open>Next\<close> that handles an event: limiter first, then reducer.\<close>

definition next_event :: "go_std \<Rightarrow> event_stream \<Rightarrow> event \<Rightarrow> event_stream \<times> bool" where
  "next_event G s e = (case s_limiter s of
     None \<Rightarrow> (s\<lparr>s_err := Some StreamNoLimiter\<rparr>, False)
   | Some l \<Rightarrow> (case limiter_accept G l e of
       Inl why \<Rightarrow> (s\<lparr>s_err := Some (StreamLimit why)\<rparr>, False)
     | Inr l' \<Rightarrow> (case reducer_apply G (s_reducer s) e of
         Inl why \<Rightarrow> (s\<lparr>s_limiter := Some l', s_err := Some (StreamReduce why)\<rparr>, False)
       | Inr r' \<Rightarrow> (s\<lparr>s_limiter := Some l', s_reducer := r', s_current := Event_Clone e,
           s_terminalSeen := (s_terminalSeen s \<or> ev_Kind e = EventResponseEnd)\<rparr>, True))))"

text \<open>The second critical section of \<^verbatim>\<open>Next\<close>, after the source returned.\<close>

definition next_end :: "go_std \<Rightarrow> ctx_error option \<Rightarrow> event_stream \<Rightarrow> source_result \<Rightarrow> event_stream \<times> bool" where
  "next_end G ctx s res =
     (if s_closed s \<or> s_err s \<noteq> None then (s, False)
      else case res of
        SourceEOF \<Rightarrow>
          if \<not> s_terminalSeen s then (s\<lparr>s_err := Some StreamUnexpectedEOF\<rparr>, False)
          else (s\<lparr>s_finished := True, s_response := reducer_result (s_reducer s)\<rparr>, False)
      | SourceFailed e \<Rightarrow> (s\<lparr>s_err := Some (read_error s ctx e)\<rparr>, False)
      | SourceEvent e \<Rightarrow> next_event G s e)"

definition stream_Text :: "event_stream \<Rightarrow> string" where
  "stream_Text s = DisplayText (s_current s)"

text \<open>\<^verbatim>\<open>Response()\<close>: the stream (it caches the response) and the result.\<close>

definition stream_Response :: "event_stream \<Rightarrow> event_stream \<times> response option" where
  "stream_Response s =
     (if s_err s \<noteq> None \<or> (\<not> s_finished s \<and> \<not> s_closed s) then (s, None)
      else let s' = (if s_response s = None \<and> s_terminalSeen s
             then s\<lparr>s_response := reducer_result (s_reducer s)\<rparr> else s) in
        (s', map_option Response_Clone (s_response s')))"

definition stream_Close :: "ctx_error option \<Rightarrow> event_stream \<Rightarrow> event_stream" where
  "stream_Close ctx s =
     (let s1 = (if s_closed s then s
          else let c = s\<lparr>s_closed := True\<rparr> in
            if \<not> s_terminalSeen c \<and> s_err c = None
            then c\<lparr>s_err := Some (StreamContext (case ctx of None \<Rightarrow> Canceled | Some e \<Rightarrow> e))\<rparr>
            else if s_terminalSeen c then c\<lparr>s_finished := True, s_response := reducer_result (s_reducer c)\<rparr>
            else c) in
      if s_sourceCloses s1 = 0 \<and> \<not> s_nilSource s1 then s1\<lparr>s_sourceCloses := 1\<rparr> else s1)"

section \<open>Interleavings\<close>

datatype reader = Idle | Waiting

text \<open>A stream, its single reader, and the events that \<^verbatim>\<open>Next\<close> has delivered so far.\<close>

record stream_system =
  y_stream :: event_stream
  y_reader :: reader
  y_events :: "event list"

inductive stream_step :: "go_std \<Rightarrow> stream_system \<Rightarrow> stream_system \<Rightarrow> bool" for G where
  refuse: "y_reader y = Idle \<Longrightarrow> \<not> next_begin (y_stream y) \<Longrightarrow> stream_step G y y"
| call: "y_reader y = Idle \<Longrightarrow> next_begin (y_stream y) \<Longrightarrow> stream_step G y (y\<lparr>y_reader := Waiting\<rparr>)"
| stop: "y_reader y = Waiting \<Longrightarrow> next_end G ctx (y_stream y) res = (s, False) \<Longrightarrow>
     stream_step G y (y\<lparr>y_reader := Idle, y_stream := s\<rparr>)"
| deliver: "y_reader y = Waiting \<Longrightarrow> next_end G ctx (y_stream y) (SourceEvent e) = (s, True) \<Longrightarrow>
     stream_step G y (y\<lparr>y_reader := Idle, y_stream := s, y_events := y_events y @ [e]\<rparr>)"
| close: "stream_step G y (y\<lparr>y_stream := stream_Close ctx (y_stream y)\<rparr>)"
| response: "stream_step G y (y\<lparr>y_stream := fst (stream_Response (y_stream y))\<rparr>)"

definition stream_initial :: "bool \<Rightarrow> stream_option option list \<Rightarrow> stream_system \<Rightarrow> bool" where
  "stream_initial nil_source options y \<longleftrightarrow>
     y = \<lparr>y_stream = NewStream nil_source options, y_reader = Idle, y_events = []\<rparr>"

inductive_cases stream_stepE: "stream_step G y y'"

section \<open>Unary responses\<close>

text \<open>\<^verbatim>\<open>responseEventSource\<close>: the phase, and the position in the candidates.\<close>

record response_source =
  rs_phase :: nat
  rs_candidate :: nat
  rs_part :: nat

definition responseInfo :: "response \<Rightarrow> response_info" where
  "responseInfo r = \<lparr>ri_Provider = r_Provider r, ri_ID = r_ID r, ri_Model = r_Model r, ri_Status = r_Status r,
     ri_RequestID = r_RequestID r, ri_CreatedAt = r_CreatedAt r, ri_Metadata = r_Metadata r,
     ri_ProviderState = r_ProviderState r\<rparr>"

text \<open>The loop that skips exhausted candidates.\<close>

function skip_candidates :: "response \<Rightarrow> nat \<Rightarrow> nat \<Rightarrow> nat \<times> nat" where
  "skip_candidates r c p =
     (if c < length (r_Candidates r) \<and> p \<ge> length (cand_Content (r_Candidates r ! c))
      then skip_candidates r (c + 1) 0 else (c, p))"
  by pat_completeness auto
termination by (relation "measure (\<lambda>(r, c, p). length (r_Candidates r) - c)") auto

declare skip_candidates.simps [simp del]

definition finish_event :: "response \<Rightarrow> event" where
  "finish_event r = (zero_event EventResponseEnd)\<lparr>ev_Response := Some (responseInfo r),
     ev_Finishes := map (\<lambda>c. \<lparr>f_CandidateIndex = cand_Index c, f_Reason = cand_FinishReason c,
       f_RawReason = cand_RawFinishReason c, f_ProviderState = cand_ProviderState c\<rparr>) (r_Candidates r),
     ev_Usage := Some (r_Usage r)\<rparr>"

definition source_next :: "response \<Rightarrow> response_source \<Rightarrow> source_result \<times> response_source" where
  "source_next r st =
     (if rs_phase st = 0 then
        (SourceEvent ((zero_event EventResponseStart)\<lparr>ev_Response := Some (responseInfo r)\<rparr>), st\<lparr>rs_phase := 1\<rparr>)
      else if rs_phase st = 1 \<or> rs_phase st = 2 then
        (case skip_candidates r (rs_candidate st) (rs_part st) of (c, p) \<Rightarrow>
          if c < length (r_Candidates r) then
            let cand = r_Candidates r ! c in
            if rs_phase st = 1 then
              (SourceEvent ((zero_event EventPartStart)\<lparr>ev_CandidateIndex := cand_Index cand, ev_PartIndex := int p,
                 ev_Part := cand_Content cand ! p\<rparr>),
               st\<lparr>rs_phase := 2, rs_candidate := c, rs_part := p\<rparr>)
            else
              (SourceEvent ((zero_event EventPartEnd)\<lparr>ev_CandidateIndex := cand_Index cand, ev_PartIndex := int p\<rparr>),
               st\<lparr>rs_phase := 1, rs_candidate := c, rs_part := p + 1\<rparr>)
          else (SourceEvent (finish_event r), st\<lparr>rs_phase := 3, rs_candidate := c, rs_part := p\<rparr>))
      else (SourceEOF, st\<lparr>rs_phase := 4\<rparr>))"

text \<open>\<^verbatim>\<open>for stream.Next() { }\<close>: one reader, nobody else. Fuel bounds the rounds; the source
  of a response runs out of events, and the property below shows that the fuel chosen is enough.\<close>

fun drain :: "go_std \<Rightarrow> response \<Rightarrow> nat \<Rightarrow> event_stream \<Rightarrow> response_source \<Rightarrow> event_stream option" where
  "drain G r 0 s st = None"
| "drain G r (Suc n) s st =
     (if \<not> next_begin s then Some s
      else case source_next r st of (res, st') \<Rightarrow>
        (case next_end G None s res of (s', more_events) \<Rightarrow>
          if more_events then drain G r n s' st' else Some s'))"

datatype unary_error = UnaryNil | UnaryTooManyCandidates | UnaryStream stream_error | UnaryOutOfFuel

definition unary_fuel :: "response \<Rightarrow> nat" where
  "unary_fuel r = 2 * sum_list (map (\<lambda>c. length (cand_Content c)) (r_Candidates r)) + 4"

definition ApplyStreamLimitsToResponse ::
  "go_std \<Rightarrow> response option \<Rightarrow> stream_limits \<Rightarrow> unary_error + response option" where
  "ApplyStreamLimitsToResponse G resp L = (case resp of
     None \<Rightarrow> Inl UnaryNil
   | Some r \<Rightarrow>
       if int (length (r_Candidates r)) > maxTerminalFinishes then Inl UnaryTooManyCandidates
       else case drain G r (unary_fuel r)
           (NewStream False [Some (WithStreamProvider (r_Provider r)), Some (WithStreamLimits L)])
           \<lparr>rs_phase = 0, rs_candidate = 0, rs_part = 0\<rparr> of
         None \<Rightarrow> Inl UnaryOutOfFuel
       | Some s \<Rightarrow> (case s_err s of
           Some e \<Rightarrow> Inl (UnaryStream e)
         | None \<Rightarrow> Inr (snd (stream_Response s))))"

end
