(* ===== verification/Stream_Props.thy ===== *)
theory Stream_Props
  imports Stream
begin

text \<open>
  Streams as a transition system: \<open>stream_inv\<close> relates the state of a stream, under every
  interleaving of its reader with \<^verbatim>\<open>Close\<close> and \<^verbatim>\<open>Response\<close>, to the events delivered so
  far. Re-reducing a unary response is a run of that system over the events of the response.
\<close>

interpretation stream_ts: transition_system "stream_initial nil_source options" "stream_step G"
  for nil_source options G .

section \<open>Configuration\<close>

definition configured :: "stream_option option list \<Rightarrow> stream_options" where
  "configured options = default_limits (foldl apply_option
     \<lparr>o_provider = [], o_limits = no_limits, o_limitErr = None\<rparr> options)"

definition options_ok :: "stream_options \<Rightarrow> bool" where
  "options_ok opt \<longleftrightarrow> (o_limitErr opt = None \<longrightarrow> o_limits opt = no_limits \<or> within_ceilings (o_limits opt))"

lemma apply_option_ok: "options_ok opt \<Longrightarrow> options_ok (apply_option opt x)"
  by (cases "(opt, x)" rule: apply_option.cases) (auto simp: options_ok_def split: sum.splits dest: normalized_within)

lemma options_ok_fold: "options_ok opt \<Longrightarrow> options_ok (foldl apply_option opt options)"
  by (induction options arbitrary: opt) (simp_all add: apply_option_ok)

lemma normalize_no_limits: "normalizeStreamLimits no_limits = Inr (projr (normalizeStreamLimits no_limits))"
  by code_simp

lemma configured_limits: "o_limitErr (configured options) = None \<Longrightarrow> within_ceilings (o_limits (configured options))"
proof -
  let ?opt = "foldl apply_option \<lparr>o_provider = [], o_limits = no_limits, o_limitErr = None\<rparr> options"
  assume ok: "o_limitErr (configured options) = None"
  have f: "options_ok ?opt" by (rule options_ok_fold) (simp add: options_ok_def)
  obtain M where M: "normalizeStreamLimits no_limits = Inr M" using normalize_no_limits by blast
  show ?thesis
  proof (cases "o_limitErr ?opt = None \<and> MaxEventBytes (o_limits ?opt) = 0")
    case True
    then show ?thesis using M normalized_within [OF M] by (simp add: configured_def default_limits_def)
  next
    case False
    then have "configured options = ?opt" by (auto simp: configured_def default_limits_def)
    then show ?thesis using f ok False by (auto simp: options_ok_def no_limits_def)
  qed
qed

section \<open>The invariant\<close>

definition stream_inv :: "go_std \<Rightarrow> stream_options \<Rightarrow> stream_system \<Rightarrow> bool" where
  "stream_inv G opt y \<longleftrightarrow> (let s = y_stream y; es = y_events y in
     reduce G (newReducer (o_provider opt)) es = Inr (s_reducer s)
     \<and> (es \<noteq> [] \<longrightarrow> o_limitErr opt = None \<and> (\<exists>l. accept_all G (newStreamLimiter (o_limits opt)) es = Inr l))
     \<and> (s_err s = None \<longrightarrow> o_limitErr opt = None \<and>
          (\<exists>l. s_limiter s = Some l \<and> accept_all G (newStreamLimiter (o_limits opt)) es = Inr l))
     \<and> s_terminalSeen s = rd_ended (s_reducer s)
     \<and> (s_finished s \<longrightarrow> s_terminalSeen s)
     \<and> (s_response s \<noteq> None \<longrightarrow> s_finished s \<and> s_response s = reducer_result (s_reducer s))
     \<and> (s_closed s \<and> s_err s = None \<longrightarrow> s_finished s)
     \<and> (y_reader y = Waiting \<and> s_finished s \<longrightarrow> s_closed s)
     \<and> s_sourceCloses s = (if s_closed s \<and> \<not> s_nilSource s then 1 else 0))"

lemma stream_inv_init:
  assumes "stream_initial n options y"
  shows "stream_inv G (configured options) y"
  using assms
  by (auto simp: stream_initial_def stream_inv_def NewStream_def configured_def [symmetric] Let_def reduce_def
      newReducer_def accept_all_def)

lemma reduce_snoc: "reduce G r0 es = Inr r \<Longrightarrow> reducer_apply G r e = Inr r' \<Longrightarrow> reduce G r0 (es @ [e]) = Inr r'"
  by (simp add: reduce_def rfold_append)

lemma accept_snoc: "accept_all G l0 es = Inr l \<Longrightarrow> limiter_accept G l e = Inr l' \<Longrightarrow> accept_all G l0 (es @ [e]) = Inr l'"
  by (simp add: accept_all_def rfold_append)

lemma apply_ended:
  "reducer_apply G r e = Inr r' \<Longrightarrow> rd_ended r' \<longleftrightarrow> ev_Kind e = EventResponseEnd"
proof -
  assume step: "reducer_apply G r e = Inr r'"
  then have "\<not> rd_ended r" using reducer_apply_shape by blast
  with step show ?thesis
    by (cases rule: reducer_apply_cases)
      (auto simp: start_def startPart_def deltaPart_def endPart_def Let_def result_simps dest: end_response_ended
        split: if_splits option.splits)
qed

lemma deliver_inv:
  assumes inv: "stream_inv G opt y" and "y_reader y = Waiting"
    and step: "next_end G ctx (y_stream y) (SourceEvent e) = (s, True)"
  shows "stream_inv G opt (y\<lparr>y_reader := Idle, y_stream := s, y_events := y_events y @ [e]\<rparr>)"
proof -
  let ?s = "y_stream y"
  obtain l l' r' where ok: "\<not> s_closed ?s" "s_err ?s = None" "s_limiter ?s = Some l"
    "limiter_accept G l e = Inr l'" "reducer_apply G (s_reducer ?s) e = Inr r'"
    and s: "s = ?s\<lparr>s_limiter := Some l', s_reducer := r', s_current := Event_Clone e,
           s_terminalSeen := (s_terminalSeen ?s \<or> ev_Kind e = EventResponseEnd)\<rparr>"
    using step by (auto simp: next_end_def next_event_def split: if_splits option.splits sum.splits)
  have "\<not> rd_ended (s_reducer ?s)" using reducer_apply_shape [OF ok(5)] by blast
  then show ?thesis
    using inv ok assms(2) apply_ended [OF ok(5)] unfolding s
    by (auto simp: stream_inv_def Let_def intro: reduce_snoc accept_snoc)
qed

lemma stop_inv:
  assumes inv: "stream_inv G opt y" and "y_reader y = Waiting"
    and step: "next_end G ctx (y_stream y) res = (s, False)"
  shows "stream_inv G opt (y\<lparr>y_reader := Idle, y_stream := s\<rparr>)"
  using assms
  by (auto simp: stream_inv_def next_end_def next_event_def Let_def
      split: if_splits source_result.splits option.splits sum.splits)

lemma close_inv:
  assumes "stream_inv G opt y" shows "stream_inv G opt (y\<lparr>y_stream := stream_Close ctx (y_stream y)\<rparr>)"
  using assms by (auto simp: stream_inv_def stream_Close_def Let_def reducer_result_def)

lemma response_inv:
  assumes "stream_inv G opt y" shows "stream_inv G opt (y\<lparr>y_stream := fst (stream_Response (y_stream y))\<rparr>)"
  using assms by (auto simp: stream_inv_def stream_Response_def Let_def)

lemma stream_inv_step: "stream_inv G opt y \<Longrightarrow> stream_step G y y' \<Longrightarrow> stream_inv G opt y'"
proof (erule stream_stepE)
  assume "stream_inv G opt y" "y' = y\<lparr>y_reader := Waiting\<rparr>" "next_begin (y_stream y)"
  then show "stream_inv G opt y'" by (simp add: stream_inv_def next_begin_def Let_def)
qed (auto intro: deliver_inv stop_inv close_inv response_inv)

lemma stream_reach_inv: "stream_ts.reach n options G y \<Longrightarrow> stream_inv G (configured options) y"
  by (erule stream_ts.invariant) (auto intro: stream_inv_init stream_inv_step)

section \<open>Consequences\<close>

lemma expected_clone:
  assumes "reduce G (newReducer p) es = Inr r" "rd_ended r"
  shows "Response_Clone (expected_response p es) = expected_response p es"
proof (rule Response_Clone_id [OF _ reduce_result(2) [OF assms]])
  have "map cand_Index (r_Candidates (expected_response p es)) = candidate_indexes es (ev_Finishes (last es))"
    by (simp add: expected_response_def Let_def expected_candidate_def comp_def)
  then show "sorted (map cand_Index (r_Candidates (expected_response p es)))" by simp
qed

lemma stream_Response_expected:
  assumes reach: "stream_ts.reach n options G y" and resp: "snd (stream_Response (y_stream y)) = Some resp"
  shows "resp = expected_response (o_provider (configured options)) (y_events y)" "s_err (y_stream y) = None"
    "\<exists>r. reduce G (newReducer (o_provider (configured options))) (y_events y) = Inr r \<and> rd_ended r"
proof -
  let ?s = "y_stream y" and ?p = "o_provider (configured options)"
  note inv = stream_reach_inv [OF reach]
  have err: "s_err ?s = None" and fin: "s_finished ?s \<or> s_closed ?s"
    using resp by (auto simp: stream_Response_def split: if_splits)
  then have seen: "s_terminalSeen ?s" and red: "reduce G (newReducer ?p) (y_events y) = Inr (s_reducer ?s)"
    using inv by (auto simp: stream_inv_def Let_def)
  then have ended: "rd_ended (s_reducer ?s)" using inv by (simp add: stream_inv_def Let_def)
  note R = reduce_result [OF red ended]
  have "snd (stream_Response ?s) = map_option Response_Clone (reducer_result (s_reducer ?s))"
    using inv err fin seen by (auto simp: stream_Response_def stream_inv_def Let_def)
  then show "resp = expected_response ?p (y_events y)" using resp R(1) expected_clone [OF red ended] by simp
  show "s_err ?s = None" by (rule err)
  show "\<exists>r. reduce G (newReducer ?p) (y_events y) = Inr r \<and> rd_ended r" using red ended by blast
qed

lemma stream_stays_stopped:
  assumes "stream_ts.reach n options G y" "stream_step G y y'" "\<not> next_begin (y_stream y)"
  shows "\<not> next_begin (y_stream y') \<and> y_events y' = y_events y"
proof -
  have inv: "stream_inv G (configured options) y" by (rule stream_reach_inv [OF assms(1)])
  from assms(2) show ?thesis
  proof (rule stream_stepE)
    fix ctx e s assume a: "y' = y\<lparr>y_reader := Idle, y_stream := s, y_events := y_events y @ [e]\<rparr>"
      "y_reader y = Waiting" "next_end G ctx (y_stream y) (SourceEvent e) = (s, True)"
    then have "\<not> s_closed (y_stream y)" "s_err (y_stream y) = None"
      by (auto simp: next_end_def split: if_splits)
    then show ?thesis using inv assms(3) a(2) by (auto simp: stream_inv_def next_begin_def Let_def)
  next
    fix ctx res s assume a: "y' = y\<lparr>y_reader := Idle, y_stream := s\<rparr>" "next_end G ctx (y_stream y) res = (s, False)"
    show ?thesis using a assms(3)
      by (auto simp: next_end_def next_event_def next_begin_def split: if_splits source_result.splits option.splits sum.splits)
  qed (use assms(3) in \<open>auto simp: next_begin_def stream_Close_def stream_Response_def Let_def\<close>)
qed

lemma reach_events_limited:
  assumes "stream_ts.reach n options G y" "y_events y \<noteq> []"
  shows "within_ceilings (o_limits (configured options))"
    "\<exists>l. accept_all G (newStreamLimiter (o_limits (configured options))) (y_events y) = Inr l"
  using stream_reach_inv [OF assms(1)] assms(2) configured_limits [of options]
  by (auto simp: stream_inv_def Let_def)

section \<open>The events of a unary response\<close>

definition start_event :: "response \<Rightarrow> event" where
  "start_event r = (zero_event EventResponseStart)\<lparr>ev_Response := Some (responseInfo r)\<rparr>"

definition part_pair :: "candidate \<Rightarrow> nat \<Rightarrow> event list" where
  "part_pair c p =
     [(zero_event EventPartStart)\<lparr>ev_CandidateIndex := cand_Index c, ev_PartIndex := int p, ev_Part := cand_Content c ! p\<rparr>,
      (zero_event EventPartEnd)\<lparr>ev_CandidateIndex := cand_Index c, ev_PartIndex := int p\<rparr>]"

definition candidate_events :: "nat \<Rightarrow> candidate \<Rightarrow> event list" where
  "candidate_events p c = concat (map (part_pair c) [p..<length (cand_Content c)])"

definition tail_events :: "response \<Rightarrow> nat \<Rightarrow> nat \<Rightarrow> event list" where
  "tail_events r c p = (case drop c (r_Candidates r) of
     [] \<Rightarrow> [] | x # xs \<Rightarrow> candidate_events p x @ concat (map (candidate_events 0) xs))"

definition response_events :: "response \<Rightarrow> event list" where
  "response_events r = start_event r # concat (map (candidate_events 0) (r_Candidates r)) @ [finish_event r]"

text \<open>What the source has still to deliver.\<close>

definition pending :: "response \<Rightarrow> response_source \<Rightarrow> event list" where
  "pending r st =
     (if rs_phase st = 0 then response_events r
      else if rs_phase st = 1 then tail_events r (rs_candidate st) (rs_part st) @ [finish_event r]
      else if rs_phase st = 2 then
        part_pair (r_Candidates r ! rs_candidate st) (rs_part st) ! 1
          # tail_events r (rs_candidate st) (rs_part st + 1) @ [finish_event r]
      else [])"

definition source_ok :: "response \<Rightarrow> response_source \<Rightarrow> bool" where
  "source_ok r st \<longleftrightarrow>
     (rs_phase st = 0 \<longrightarrow> rs_candidate st = 0 \<and> rs_part st = 0)
     \<and> (rs_phase st = 2 \<longrightarrow> rs_candidate st < length (r_Candidates r)
        \<and> rs_part st < length (cand_Content (r_Candidates r ! rs_candidate st)))"

lemma drop_nth: "c < length xs \<Longrightarrow> drop c xs = xs ! c # drop (Suc c) xs"
  by (simp add: Cons_nth_drop_Suc)

lemma tail_events_cand:
  "c < length (r_Candidates r) \<Longrightarrow> tail_events r c p =
     candidate_events p (r_Candidates r ! c) @ concat (map (candidate_events 0) (drop (Suc c) (r_Candidates r)))"
  by (simp add: tail_events_def drop_nth)

lemma tail_events_done: "\<not> c < length (r_Candidates r) \<Longrightarrow> tail_events r c p = []"
  by (simp add: tail_events_def)

lemma tail_events_zero: "tail_events r c 0 = concat (map (candidate_events 0) (drop c (r_Candidates r)))"
  by (cases "drop c (r_Candidates r)") (simp_all add: tail_events_def)

lemma candidate_events_step:
  "p < length (cand_Content x) \<Longrightarrow> candidate_events p x = part_pair x p @ candidate_events (Suc p) x"
  by (simp add: candidate_events_def upt_conv_Cons)

lemma candidate_events_done: "\<not> p < length (cand_Content x) \<Longrightarrow> candidate_events p x = []"
  by (simp add: candidate_events_def)

lemma skip_candidates_events:
  "skip_candidates r c p = (c', p') \<Longrightarrow> tail_events r c p = tail_events r c' p'
     \<and> (c' < length (r_Candidates r) \<longrightarrow> p' < length (cand_Content (r_Candidates r ! c')))"
proof (induction r c p rule: skip_candidates.induct)
  case (1 r c p)
  show ?case
  proof (cases "c < length (r_Candidates r) \<and> p \<ge> length (cand_Content (r_Candidates r ! c))")
    case True
    then have "skip_candidates r (c + 1) 0 = (c', p')" using "1.prems" by (subst (asm) skip_candidates.simps) simp
    moreover have "tail_events r c p = tail_events r (c + 1) 0"
      using True by (simp add: tail_events_cand candidate_events_done tail_events_zero)
    ultimately show ?thesis using "1.IH" True by auto
  next
    case False
    then show ?thesis using "1.prems" by (subst (asm) skip_candidates.simps) auto
  qed
qed

lemma skip_id: "c < length (r_Candidates r) \<Longrightarrow> p < length (cand_Content (r_Candidates r ! c)) \<Longrightarrow> skip_candidates r c p = (c, p)"
  by (subst skip_candidates.simps) simp

lemma source_next_pending:
  assumes ok: "source_ok r st"
  shows "case pending r st of
      [] \<Rightarrow> fst (source_next r st) = SourceEOF
    | e # es \<Rightarrow> fst (source_next r st) = SourceEvent e \<and> pending r (snd (source_next r st)) = es
        \<and> source_ok r (snd (source_next r st))"
proof -
  let ?c = "rs_candidate st" and ?p = "rs_part st"
  consider "rs_phase st = 0" | "rs_phase st = 1" | "rs_phase st = 2" | "rs_phase st > 2" by linarith
  then show ?thesis
  proof cases
    case 1
    then show ?thesis using ok
      by (simp add: pending_def source_next_def response_events_def start_event_def source_ok_def tail_events_zero)
  next
    case 2
    obtain c p where cp: "skip_candidates r ?c ?p = (c, p)" by fastforce
    note S = skip_candidates_events [OF cp]
    show ?thesis
    proof (cases "c < length (r_Candidates r)")
      case True
      then have "tail_events r ?c ?p = part_pair (r_Candidates r ! c) p @ tail_events r c (Suc p)"
        using S by (simp add: tail_events_cand candidate_events_step)
      then show ?thesis using 2 True S cp
        by (simp add: pending_def source_next_def part_pair_def source_ok_def Let_def)
    next
      case False
      then show ?thesis using 2 S cp
        by (simp add: pending_def source_next_def tail_events_done source_ok_def Let_def)
    qed
  next
    case 3
    then have lt: "?c < length (r_Candidates r)" "?p < length (cand_Content (r_Candidates r ! ?c))"
      using ok by (auto simp: source_ok_def)
    then show ?thesis using 3
      by (simp add: pending_def source_next_def skip_id part_pair_def source_ok_def Let_def)
  next
    case 4
    then show ?thesis by (simp add: pending_def source_next_def)
  qed
qed

lemma drain_reaches:
  assumes "stream_ts.reach nil options G y" "y_reader y = Idle" "\<not> s_finished (y_stream y)" "\<not> s_closed (y_stream y)"
    and "source_ok r st" "length (pending r st) + 1 < n"
  shows "\<exists>y'. drain G r n (y_stream y) st = Some (y_stream y') \<and> stream_ts.reach nil options G y'
    \<and> (s_err (y_stream y') = None \<longrightarrow> s_finished (y_stream y') \<and> y_events y' = y_events y @ pending r st)"
  using assms
proof (induction n arbitrary: y st)
  case (Suc n)
  let ?s = "y_stream y"
  show ?case
  proof (cases "next_begin ?s")
    case False
    then show ?thesis using Suc.prems by (auto simp: next_begin_def intro!: exI [of _ y])
  next
    case True
    let ?w = "y\<lparr>y_reader := Waiting\<rparr>"
    have w: "stream_ts.reach nil options G ?w"
      using Suc.prems True by (blast intro: stream_ts.step stream_step.call)
    obtain res st' where n: "source_next r st = (res, st')" by fastforce
    obtain s' b where e: "next_end G None ?s res = (s', b)" by fastforce
    show ?thesis
    proof (cases b)
      case False
      let ?y = "?w\<lparr>y_reader := Idle, y_stream := s'\<rparr>"
      have "stream_step G ?w ?y" using e False by (intro stream_step.stop) auto
      then have y: "stream_ts.reach nil options G ?y" using w by (rule stream_ts.step [rotated])
      have "s_finished s' \<and> pending r st = []" if "s_err s' = None"
        using that e False True source_next_pending [OF Suc.prems(5)] n
        by (auto simp: next_end_def next_event_def next_begin_def
            split: if_splits source_result.splits option.splits sum.splits list.splits)
      then show ?thesis using y n e False True by (intro exI [of _ ?y]) simp
    next
      case more: True
      obtain ev where ev: "res = SourceEvent ev"
        using e more by (auto simp: next_end_def split: if_splits source_result.splits)
      let ?y = "?w\<lparr>y_reader := Idle, y_stream := s', y_events := y_events ?w @ [ev]\<rparr>"
      have "stream_step G ?w ?y" using e more ev by (intro stream_step.deliver [where ctx = None]) auto
      then have y: "stream_ts.reach nil options G ?y" using w by (rule stream_ts.step [rotated])
      obtain es where es: "pending r st = ev # es" "pending r st' = es" "source_ok r st'"
        using source_next_pending [OF Suc.prems(5)] n ev by (auto split: list.splits)
      have "\<not> s_finished s' \<and> \<not> s_closed s'" using e more True
        by (auto simp: next_end_def next_event_def next_begin_def
            split: if_splits source_result.splits option.splits sum.splits)
      then have "\<exists>y'. drain G r n (y_stream ?y) st' = Some (y_stream y') \<and> stream_ts.reach nil options G y'
        \<and> (s_err (y_stream y') = None \<longrightarrow> s_finished (y_stream y') \<and> y_events y' = y_events ?y @ pending r st')"
        using Suc.prems(6) es by (intro Suc.IH y) auto
      then show ?thesis using n e more True es by simp
    qed
  qed
qed simp

section \<open>What re-reducing a unary response gives\<close>

definition normalized_candidate :: "candidate \<Rightarrow> candidate" where
  "normalized_candidate c = c\<lparr>cand_Content := cloneContents (cand_Content c),
     cand_FinishReason := (if cand_FinishReason c = [] then FinishUnknown else cand_FinishReason c)\<rparr>"

definition normalized_response :: "response \<Rightarrow> response" where
  "normalized_response r = r\<lparr>r_Candidates := map normalized_candidate (sort_key cand_Index (r_Candidates r)),
     r_Status := (if r_Status r = [] then ResponseStatusCompleted else r_Status r)\<rparr>"

lemma part_start_unique:
  assumes "e \<in> set es" "ev_Kind e = EventPartStart" "event_key e = k"
    and "\<And>e'. e' \<in> set es \<Longrightarrow> ev_Kind e' = EventPartStart \<Longrightarrow> event_key e' = k \<Longrightarrow> ev_Part e' = ev_Part e"
  shows "part_start es k = Some (ev_Part e)"
  using assms
proof (induction es)
  case (Cons x es)
  show ?case
  proof (cases "ev_Kind x = EventPartStart \<and> event_key x = k")
    case True
    then have "ev_Part x = ev_Part e" by (intro Cons.prems(4)) simp_all
    then show ?thesis using True by simp
  next
    case False
    then have "e \<in> set es" using Cons.prems(1-3) by auto
    moreover have "ev_Part e' = ev_Part e" if "e' \<in> set es" "ev_Kind e' = EventPartStart" "event_key e' = k" for e'
      by (rule Cons.prems(4)) (use that in simp_all)
    ultimately have "part_start es k = Some (ev_Part e)" using Cons.prems(2,3) by (intro Cons.IH)
    then show ?thesis using False by auto
  qed
qed simp

lemma assemble_nothing: "assemble c [] [] = c"
  by (cases c) (simp add: assemble_def append_bytes_def option.map_ident)

lemma in_response_events:
  "e \<in> set (response_events r) \<longleftrightarrow> e = start_event r \<or> e = finish_event r
     \<or> (\<exists>c\<in>set (r_Candidates r). \<exists>p<length (cand_Content c). e = part_pair c p ! 0 \<or> e = part_pair c p ! 1)"
proof -
  have pair: "set (part_pair c p) = {part_pair c p ! 0, part_pair c p ! 1}" for c p by (simp add: part_pair_def)
  show ?thesis unfolding response_events_def candidate_events_def
    by (auto simp add: pair atLeast0LessThan Bex_def simp del: One_nat_def)
qed

lemma response_event_kinds:
  "ev_Kind (start_event r) = EventResponseStart" "ev_Kind (finish_event r) = EventResponseEnd"
  "ev_Kind (part_pair c p ! 0) = EventPartStart" "ev_Kind (part_pair c p ! 1) = EventPartEnd"
  "event_key (part_pair c p ! 0) = (cand_Index c, int p)" "ev_Part (part_pair c p ! 0) = cand_Content c ! p"
  by (simp_all add: start_event_def finish_event_def zero_event_def part_pair_def event_key_def)

lemma start_events:
  assumes "e \<in> set (response_events r)" "ev_Kind e = EventPartStart"
  obtains c p where "c \<in> set (r_Candidates r)" "p < length (cand_Content c)" "e = part_pair c p ! 0"
proof -
  have "e \<noteq> start_event r" "e \<noteq> finish_event r" "\<And>c p. e \<noteq> part_pair c p ! 1"
    using assms(2) response_event_kinds by force+
  then show thesis using assms(1) that unfolding in_response_events by blast
qed

lemma no_deltas: "deltas (response_events r) k = []"
proof -
  have "ev_Kind e \<noteq> EventPartDelta" if "e \<in> set (response_events r)" for e
    using that response_event_kinds unfolding in_response_events by (auto simp del: One_nat_def)
  then show ?thesis by (simp add: deltas_def filter_empty_conv)
qed

lemma same_candidate:
  "distinct (map cand_Index (r_Candidates r)) \<Longrightarrow> c \<in> set (r_Candidates r) \<Longrightarrow> d \<in> set (r_Candidates r) \<Longrightarrow>
     cand_Index c = cand_Index d \<Longrightarrow> c = d"
  by (auto simp: distinct_map inj_on_def)

lemma response_part_start:
  assumes d: "distinct (map cand_Index (r_Candidates r))" and c: "c \<in> set (r_Candidates r)"
  shows "p < length (cand_Content c) \<Longrightarrow> part_start (response_events r) (cand_Index c, int p) = Some (cand_Content c ! p)"
    and "part_start (response_events r) (cand_Index c, j) \<noteq> None \<longleftrightarrow> j \<in> int ` {..<length (cand_Content c)}"
proof -
  show some: "part_start (response_events r) (cand_Index c, int p) = Some (cand_Content c ! p)"
    if p: "p < length (cand_Content c)" for p
  proof -
    have in_es: "part_pair c p ! 0 \<in> set (response_events r)" unfolding in_response_events using c p by blast
    have "part_start (response_events r) (cand_Index c, int p) = Some (ev_Part (part_pair c p ! 0))"
    proof (rule part_start_unique [OF in_es])
      fix e' assume e': "e' \<in> set (response_events r)" "ev_Kind e' = EventPartStart" "event_key e' = (cand_Index c, int p)"
      obtain c' p' where x: "c' \<in> set (r_Candidates r)" "e' = part_pair c' p' ! 0" using start_events [OF e'(1,2)] .
      then have "c' = c" "p' = p" using e'(3) same_candidate [OF d _ c] by (auto simp: response_event_kinds)
      then show "ev_Part e' = ev_Part (part_pair c p ! 0)" using x by simp
    qed (simp_all add: response_event_kinds)
    then show ?thesis by (simp add: response_event_kinds)
  qed
  show "part_start (response_events r) (cand_Index c, j) \<noteq> None \<longleftrightarrow> j \<in> int ` {..<length (cand_Content c)}"
  proof
    assume "part_start (response_events r) (cand_Index c, j) \<noteq> None"
    then obtain e where e: "e \<in> set (response_events r)" "ev_Kind e = EventPartStart" "event_key e = (cand_Index c, j)"
      unfolding part_start_iff by blast
    obtain c' p' where x: "c' \<in> set (r_Candidates r)" "p' < length (cand_Content c')" "e = part_pair c' p' ! 0"
      using start_events [OF e(1,2)] .
    then show "j \<in> int ` {..<length (cand_Content c)}"
      using e(3) same_candidate [OF d _ c] by (auto simp: response_event_kinds)
  qed (use some in auto)
qed

lemma response_part_indexes:
  assumes "distinct (map cand_Index (r_Candidates r))" "c \<in> set (r_Candidates r)"
  shows "part_indexes (response_events r) (cand_Index c) = map int [0..<length (cand_Content c)]"
proof (rule sorted_distinct_set_unique)
  show "set (part_indexes (response_events r) (cand_Index c)) = set (map int [0..<length (cand_Content c)])"
    using response_part_start(2) [OF assms] by (auto simp: set_part_indexes atLeast0LessThan)
qed (simp_all add: sorted_map distinct_map)

lemma find_rev_distinct:
  "distinct (map f xs) \<Longrightarrow> x \<in> set xs \<Longrightarrow> find (\<lambda>y. f y = f x) (rev xs) = Some x"
proof (induction xs rule: rev_induct)
  case (snoc y xs)
  then show ?case by (cases "f y = f x") (auto simp: image_iff)
qed simp

lemma response_last_finish:
  assumes "distinct (map cand_Index (r_Candidates r))" "c \<in> set (r_Candidates r)"
  shows "last_finish (ev_Finishes (finish_event r)) (cand_Index c) =
    Some \<lparr>f_CandidateIndex = cand_Index c, f_Reason = cand_FinishReason c, f_RawReason = cand_RawFinishReason c,
      f_ProviderState = cand_ProviderState c\<rparr>"
proof -
  let ?f = "\<lambda>c. \<lparr>f_CandidateIndex = cand_Index c, f_Reason = cand_FinishReason c, f_RawReason = cand_RawFinishReason c,
      f_ProviderState = cand_ProviderState c\<rparr>"
  have "find (\<lambda>y. f_CandidateIndex y = f_CandidateIndex (?f c)) (rev (map ?f (r_Candidates r))) = Some (?f c)"
    by (rule find_rev_distinct) (use assms in \<open>auto simp: comp_def\<close>)
  then show ?thesis by (simp add: last_finish_def finish_event_def)
qed

lemma response_candidate_normal:
  assumes "distinct (map cand_Index (r_Candidates r))" "c \<in> set (r_Candidates r)"
  shows "expected_candidate (response_events r) (ev_Finishes (finish_event r)) (cand_Index c) = normalized_candidate c"
proof -
  have "map (\<lambda>p. assembled (response_events r) (cand_Index c, int p)) [0..<length (cand_Content c)]
      = map (\<lambda>p. Content_Clone (cand_Content c ! p)) [0..<length (cand_Content c)]"
    using response_part_start(1) [OF assms]
    by (auto simp: assembled_def delta_text_def delta_media_def no_deltas assemble_nothing)
  also have "\<dots> = cloneContents (cand_Content c)"
    unfolding cloneContents_def by (metis (no_types, lifting) map_map comp_apply map_nth map_cong)
  finally have content: "map (\<lambda>p. assembled (response_events r) (cand_Index c, int p)) [0..<length (cand_Content c)]
      = cloneContents (cand_Content c)" .
  show ?thesis
    by (rule candidate.equality) (simp_all add: content expected_candidate_def normalized_candidate_def
      response_last_finish [OF assms] response_part_indexes [OF assms] comp_def)
qed

lemma response_candidate_indexes:
  assumes "distinct (map cand_Index (r_Candidates r))"
  shows "candidate_indexes (response_events r) (ev_Finishes (finish_event r)) = map cand_Index (sort_key cand_Index (r_Candidates r))"
proof (rule sorted_distinct_set_unique)
  have "f_CandidateIndex ` set (ev_Finishes (finish_event r)) = cand_Index ` set (r_Candidates r)"
    by (auto simp: finish_event_def image_iff)
  moreover have "{i. \<exists>j. part_start (response_events r) (i, j) \<noteq> None} \<subseteq> cand_Index ` set (r_Candidates r)"
    unfolding part_start_iff by (auto elim!: start_events simp: response_event_kinds)
  ultimately show "set (candidate_indexes (response_events r) (ev_Finishes (finish_event r)))
      = set (map cand_Index (sort_key cand_Index (r_Candidates r)))"
    unfolding set_candidate_indexes set_map set_sort by blast
qed (use assms in \<open>auto simp: distinct_map\<close>)

lemma expected_of_response:
  assumes "distinct (map cand_Index (r_Candidates r))"
  shows "expected_response (r_Provider r) (response_events r) = normalized_response r"
proof -
  have ends: "hd (response_events r) = start_event r" "last (response_events r) = finish_event r"
    by (simp_all add: response_events_def)
  have cands: "map (expected_candidate (response_events r) (ev_Finishes (finish_event r)))
      (candidate_indexes (response_events r) (ev_Finishes (finish_event r)))
    = map normalized_candidate (sort_key cand_Index (r_Candidates r))"
    using response_candidate_normal [OF assms] by (simp add: response_candidate_indexes [OF assms])
  show ?thesis
    unfolding expected_response_def Let_def ends cands
    by (cases r) (simp add: start_event_def finish_event_def responseInfo_def merge_info_def initial_response_def
      normalized_response_def)
qed


lemma length_response_events: "length (response_events r) + 2 = unary_fuel r"
proof -
  have "length (candidate_events 0 c) = 2 * length (cand_Content c)" for c
  proof -
    have "length (concat (map (part_pair c) xs)) = 2 * length xs" for xs
      by (induction xs) (simp_all add: part_pair_def)
    then show ?thesis by (simp add: candidate_events_def)
  qed
  then have "length (concat (map (candidate_events 0) cs)) = 2 * sum_list (map (\<lambda>c. length (cand_Content c)) cs)" for cs
    by (induction cs) simp_all
  then show ?thesis by (simp add: response_events_def unary_fuel_def)
qed

lemma unary_run:
  fixes r :: response and L :: stream_limits
  defines "options \<equiv> [Some (WithStreamProvider (r_Provider r)), Some (WithStreamLimits L)]"
  shows "\<exists>y. drain G r (unary_fuel r) (NewStream False options) \<lparr>rs_phase = 0, rs_candidate = 0, rs_part = 0\<rparr> = Some (y_stream y)
    \<and> stream_ts.reach False options G y
    \<and> (s_err (y_stream y) = None \<longrightarrow> s_finished (y_stream y) \<and> y_events y = response_events r)"
proof -
  let ?y = "\<lparr>y_stream = NewStream False options, y_reader = Idle, y_events = []\<rparr>"
  let ?st = "\<lparr>rs_phase = 0, rs_candidate = 0, rs_part = 0\<rparr>"
  have "stream_ts.reach False options G ?y" by (intro stream_ts.init) (simp add: stream_initial_def)
  then have "\<exists>y'. drain G r (unary_fuel r) (y_stream ?y) ?st = Some (y_stream y') \<and> stream_ts.reach False options G y'
    \<and> (s_err (y_stream y') = None \<longrightarrow> s_finished (y_stream y') \<and> y_events y' = y_events ?y @ pending r ?st)"
    using length_response_events [of r]
    by (intro drain_reaches) (simp_all add: NewStream_def Let_def source_ok_def pending_def)
  then show ?thesis by (simp add: pending_def)
qed

lemma unary_provider: "o_provider (configured [Some (WithStreamProvider p), Some (WithStreamLimits L)]) = p"
  by (auto simp: configured_def default_limits_def split: sum.splits)

lemma finished_response:
  assumes "stream_ts.reach n options G y" "s_err (y_stream y) = None" "s_finished (y_stream y)"
  shows "\<exists>resp. snd (stream_Response (y_stream y)) = Some resp"
proof -
  let ?s = "y_stream y"
  have inv: "stream_inv G (configured options) y" by (rule stream_reach_inv [OF assms(1)])
  have red: "reduce G (newReducer (o_provider (configured options))) (y_events y) = Inr (s_reducer ?s)"
    and seen: "s_terminalSeen ?s" and ended: "rd_ended (s_reducer ?s)"
    and cached: "s_response ?s \<noteq> None \<longrightarrow> s_response ?s = reducer_result (s_reducer ?s)"
    using inv assms(3) by (auto simp: stream_inv_def Let_def)
  have "reducer_result (s_reducer ?s) \<noteq> None" using reduce_result(1) [OF red ended] by simp
  then show ?thesis using assms(2,3) seen cached by (auto simp: stream_Response_def Let_def)
qed

section \<open>Properties\<close>

text \<open>C3 (safety). In every interleaving of the reader with \<^verbatim>\<open>Close\<close> and \<^verbatim>\<open>Response\<close>, a
  response that \<^verbatim>\<open>Response()\<close> returns is the one described by the events delivered so far, and
  those events are a complete history that the reducer accepted; the stream has no error then.\<close>

theorem stream_response_correct:
  assumes "stream_ts.reach nil_source options G y" and "snd (stream_Response (y_stream y)) = Some resp"
  shows "resp = expected_response (o_provider (configured options)) (y_events y)
     \<and> s_err (y_stream y) = None
     \<and> (\<exists>r. reduce G (newReducer (o_provider (configured options))) (y_events y) = Inr r \<and> rd_ended r)"
  using stream_Response_expected [OF assms] by blast

text \<open>C30 (safety). Once \<^verbatim>\<open>Next\<close> would return false it stays that way: no step delivers another
  event, also when a call of \<^verbatim>\<open>Next\<close> was waiting in the source while the stream was closed.\<close>

theorem stream_stops_for_good:
  assumes "stream_ts.reach nil_source options G y" and "stream_step G y y'" and "\<not> next_begin (y_stream y)"
  shows "\<not> next_begin (y_stream y') \<and> y_events y' = y_events y"
  using assms by (rule stream_stays_stopped)


text \<open>C29 (roundtrip). Re-reducing a unary response under limits either fails or returns the very
  same response, with candidates in index order, a missing finish reason or status filled in, and
  copied blocks; the loop over \<^verbatim>\<open>stream.Next()\<close> always ends.\<close>

theorem unary_response_normalized:
  "ApplyStreamLimitsToResponse G (Some r) L \<noteq> Inl UnaryOutOfFuel
   \<and> (ApplyStreamLimitsToResponse G (Some r) L = Inr out \<longrightarrow> out = Some (normalized_response r))"
proof -
  let ?options = "[Some (WithStreamProvider (r_Provider r)), Some (WithStreamLimits L)]"
  obtain y where y: "drain G r (unary_fuel r) (NewStream False ?options) \<lparr>rs_phase = 0, rs_candidate = 0, rs_part = 0\<rparr> = Some (y_stream y)"
    "stream_ts.reach False ?options G y"
    "s_err (y_stream y) = None \<longrightarrow> s_finished (y_stream y) \<and> y_events y = response_events r"
    using unary_run [of G r L] by auto
  have "out = Some (normalized_response r)" if out: "ApplyStreamLimitsToResponse G (Some r) L = Inr out"
  proof -
    have err: "s_err (y_stream y) = None" and o: "out = snd (stream_Response (y_stream y))"
      using out y(1) by (auto simp: ApplyStreamLimitsToResponse_def split: if_splits option.splits)
    have fin: "s_finished (y_stream y)" and es: "y_events y = response_events r" using y(3) err by auto
    obtain resp where resp: "snd (stream_Response (y_stream y)) = Some resp"
      using finished_response [OF y(2) err fin] by blast
    have "y_events y \<noteq> []" by (simp add: es response_events_def)
    note R = reach_events_limited [OF y(2) this]
    obtain l where "accept_all G (newStreamLimiter (o_limits (configured ?options))) (y_events y) = Inr l" using R by blast
    then have "limiter_inv (o_limits (configured ?options)) (y_events y) l" by (rule limiter_inv_all [OF R(1)])
    then have "in_range_event (o_limits (configured ?options)) (finish_event r)"
      using es by (auto simp: limiter_inv_def in_response_events)
    then have "distinct (map cand_Index (r_Candidates r))"
      by (simp add: in_range_event_def finish_event_def comp_def)
    then show ?thesis
      using o resp stream_Response_expected(1) [OF y(2) resp] es expected_of_response by (simp add: unary_provider)
  qed
  then show ?thesis using y(1) by (auto simp: ApplyStreamLimitsToResponse_def split: option.splits)
qed

text \<open>A unary response whose candidate lacks a finish reason, and a stream that was driven over it.\<close>

definition sample_response :: response where
  "sample_response = \<lparr>r_Provider = ''p'', r_ID = ''1'', r_Model = ''m'', r_Status = [],
     r_Candidates = [\<lparr>cand_Index = 0, cand_Content = [Text ''hi''], cand_FinishReason = [],
       cand_RawFinishReason = [], cand_ProviderState = None\<rparr>],
     r_Usage = no_usage, r_ProviderState = None, r_RequestID = [],
     r_CreatedAt = \<lparr>t_IsZero = True, t_String = []\<rparr>, r_Metadata = None\<rparr>"

abbreviation "sample_options \<equiv> [Some (WithStreamProvider (r_Provider sample_response)), Some (WithStreamLimits no_limits)]"

lemma sample_stream:
  "\<exists>y. stream_ts.reach False sample_options sample_std y \<and> s_err (y_stream y) = None \<and> s_finished (y_stream y)
     \<and> y_events y = response_events sample_response"
proof -
  obtain y where y: "drain sample_std sample_response (unary_fuel sample_response) (NewStream False sample_options)
      \<lparr>rs_phase = 0, rs_candidate = 0, rs_part = 0\<rparr> = Some (y_stream y)"
    "stream_ts.reach False sample_options sample_std y"
    "s_err (y_stream y) = None \<longrightarrow> s_finished (y_stream y) \<and> y_events y = response_events sample_response"
    using unary_run [of sample_std sample_response no_limits] by auto
  have "map_option s_err (drain sample_std sample_response (unary_fuel sample_response) (NewStream False sample_options)
      \<lparr>rs_phase = 0, rs_candidate = 0, rs_part = 0\<rparr>) = Some None" by code_simp
  with y show ?thesis by auto
qed

theorem stream_response_correct_witness:
  "\<exists>(y :: stream_system) resp. snd (stream_Response (y_stream y)) = Some resp
     \<and> resp = expected_response (o_provider (configured sample_options)) (response_events sample_response)"
proof -
  obtain y where y: "stream_ts.reach False sample_options sample_std y" "s_err (y_stream y) = None"
    "s_finished (y_stream y)" "y_events y = response_events sample_response" using sample_stream by blast
  obtain resp where resp: "snd (stream_Response (y_stream y)) = Some resp" using finished_response [OF y(1-3)] by blast
  show ?thesis using stream_response_correct [OF y(1) resp] resp y(4) by (intro exI [of _ y] exI [of _ resp]) simp
qed

theorem stream_stops_for_good_witness:
  "\<exists>y :: stream_system. \<not> next_begin (stream_Close None (y_stream y)) \<and> y_events y = response_events sample_response"
proof -
  obtain y where y: "stream_ts.reach False sample_options sample_std y" "s_finished (y_stream y)"
    "y_events y = response_events sample_response" using sample_stream by blast
  have "\<not> next_begin (y_stream y)" using y(2) by (simp add: next_begin_def)
  from stream_stops_for_good [OF y(1) stream_step.close this] y(3) show ?thesis by (intro exI [of _ y]) simp
qed


theorem unary_response_normalized_witness:
  "ApplyStreamLimitsToResponse sample_std (Some sample_response) no_limits = Inr (Some (normalized_response sample_response))"
proof -
  have "ApplyStreamLimitsToResponse sample_std (Some sample_response) no_limits =
      Inr (projr (ApplyStreamLimitsToResponse sample_std (Some sample_response) no_limits))" by code_simp
  then show ?thesis using unary_response_normalized by metis
qed

end
