(* ===== verification/Tool_Limits.thy ===== *)
theory Tool_Limits
  imports Stream_Limits
begin

text \<open>
  Limits and input envelopes of the tool executor: \<^verbatim>\<open>src/core/tools/limits.go\<close>,
  \<^verbatim>\<open>errors.go\<close> and \<^verbatim>\<open>input.go\<close>.

  Go \<^verbatim>\<open>int\<close> and \<^verbatim>\<open>int64\<close> are both 64 bits wide; sums and products are taken in
  \<open>int\<close> and wrapped with \<open>wrap64\<close> where the source multiplies or adds unguarded.
  Errors are classified by their sentinel (\<^verbatim>\<open>ErrInvalidConfig\<close>, \<^verbatim>\<open>ErrInputLimit\<close>,
  \<^verbatim>\<open>ErrOutputLimit\<close>, \<^verbatim>\<open>ErrExecution\<close>); \<^verbatim>\<open>CallError\<close> is the refusal a tool may
  return from planning.
\<close>

section \<open>Errors\<close>

datatype config_fault =
    ConfigNegative string | ConfigCeiling string int | ConfigMinimum string int
  | TooManyTools | NilTool nat | TypedNilTool nat | ActivatorWithoutPlanner nat | DefinitionPanic nat
  | DefinitionUtf8 nat | DescriptionBytes nat | SchemaBytes nat | DefinitionInvalid nat tool_error
  | NotPortable nat | NameBytes nat | NoDescription nat | DescriptionNul nat | BadSchema nat
  | DefinitionsBytes | PatternBudget | DuplicateTool string

datatype input_fault =
    BatchEmpty | BatchCalls nat int | CallID nat identity_error | DuplicateCallID string
  | CallName nat | CallArguments nat | BatchArguments int
  | ReserveOverflow | BelowReserve int nat | NilStartOption | OptionTwice | OptionNotPositive
  | OptionRaises

datatype exec_fault =
    ClaimBudget | ClaimAccess nat | ResourceEmpty nat | ResourceUtf8 nat | ResourceBytes nat
  | ResourceControl nat | WeakensWrite | EmptyRegistration | TicketsExhausted | NotPending nat
  | BadCallMessage | ToolFault string

datatype tools_error =
    ErrInvalidConfig config_fault
  | ErrInputLimit input_fault
  | ErrOutputLimit
  | ErrExecution exec_fault
  | CallError string
  | ErrCancelled

definition maxCallErrorBytes :: nat where "maxCallErrorBytes = 4 * 2 ^ 10"

definition validateCallMessage :: "string \<Rightarrow> bool" where
  "validateCallMessage msg \<longleftrightarrow> msg \<noteq> [] \<and> utf8_valid msg \<and> length msg \<le> maxCallErrorBytes"

definition Reject :: "string \<Rightarrow> tools_error" where
  "Reject msg = (if validateCallMessage msg then CallError msg else ErrExecution BadCallMessage)"

definition asCallError :: "tools_error \<Rightarrow> string option" where
  "asCallError e = (case e of CallError msg \<Rightarrow> if validateCallMessage msg then Some msg else None | _ \<Rightarrow> None)"

section \<open>Configuration\<close>

record input_limits =
  il_MaxCalls :: int
  il_MaxCallIDBytes :: int
  il_MaxToolNameBytes :: int
  il_MaxArgumentsBytes :: int
  il_MaxBatchArgumentBytes :: int

record output_limits =
  ol_MaxBlocks :: int
  ol_MaxTextBytes :: int
  ol_MaxImageBytes :: int
  ol_MaxImageWidth :: int
  ol_MaxImageHeight :: int
  ol_MaxImagePixels :: int
  ol_MaxFramedBytes :: int
  ol_MaxBatchFramedBytes :: int
  ol_MaxMetadataBytes :: int

record tools_config =
  cfg_MaxParallel :: int
  cfg_Input :: input_limits
  cfg_Output :: output_limits

definition minTextBytes :: int where "minTextBytes = 512"
definition minFramedBytes :: int where "minFramedBytes = 1024"
definition minArgumentsBytes :: int where "minArgumentsBytes = 2"
definition maxParallelHard :: int where "maxParallelHard = 32"
definition minParallelDerived :: int where "minParallelDerived = 4"
definition defaultMaxCalls :: int where "defaultMaxCalls = 128"
definition defaultMaxCallIDBytes :: int where "defaultMaxCallIDBytes = 1024"
definition defaultMaxNameBytes :: int where "defaultMaxNameBytes = 1024"
definition defaultMaxArgBytes :: int where "defaultMaxArgBytes = 16777216"
definition defaultMaxBatchArg :: int where "defaultMaxBatchArg = 16777216"
definition defaultMaxBlocks :: int where "defaultMaxBlocks = 64"
definition defaultMaxTextBytes :: int where "defaultMaxTextBytes = 65536"
definition defaultMaxImageBytes :: int where "defaultMaxImageBytes = 7340032"
definition defaultMaxImageWidth :: int where "defaultMaxImageWidth = 8192"
definition defaultMaxImageHeight :: int where "defaultMaxImageHeight = 8192"
definition defaultMaxImagePixels :: int where "defaultMaxImagePixels = 40000000"
definition defaultMaxFramedBytes :: int where "defaultMaxFramedBytes = 8388608"
definition defaultMaxBatchFramed :: int where "defaultMaxBatchFramed = 8388608"
definition defaultMaxMetadata :: int where "defaultMaxMetadata = 127"
definition perCallErrorReserve :: int where "perCallErrorReserve = 1024"

lemmas tool_defaults = minTextBytes_def minFramedBytes_def minArgumentsBytes_def maxParallelHard_def
  minParallelDerived_def defaultMaxCalls_def defaultMaxCallIDBytes_def defaultMaxNameBytes_def
  defaultMaxArgBytes_def defaultMaxBatchArg_def defaultMaxBlocks_def defaultMaxTextBytes_def
  defaultMaxImageBytes_def defaultMaxImageWidth_def defaultMaxImageHeight_def defaultMaxImagePixels_def
  defaultMaxFramedBytes_def defaultMaxBatchFramed_def defaultMaxMetadata_def perCallErrorReserve_def

text \<open>The closures \<^verbatim>\<open>set\<close> and \<^verbatim>\<open>setI\<close> of the normalisers.\<close>

definition set_limit :: "int \<Rightarrow> int \<Rightarrow> int \<Rightarrow> int \<Rightarrow> string \<Rightarrow> tools_error + int" where
  "set_limit v def highest least name =
     (if v < 0 then Inl (ErrInvalidConfig (ConfigNegative name))
      else let w = (if v = 0 then def else v) in
        if w > highest then Inl (ErrInvalidConfig (ConfigCeiling name highest))
        else if w < least then Inl (ErrInvalidConfig (ConfigMinimum name least))
        else Inr w)"

definition normalizeInput :: "input_limits \<Rightarrow> tools_error + input_limits" where
  "normalizeInput L =
     rbind (set_limit (il_MaxCalls L) defaultMaxCalls defaultMaxCalls 1 ''MaxCalls'') (\<lambda>calls.
     rbind (set_limit (il_MaxCallIDBytes L) defaultMaxCallIDBytes defaultMaxCallIDBytes 1 ''MaxCallIDBytes'') (\<lambda>ids.
     rbind (set_limit (il_MaxToolNameBytes L) defaultMaxNameBytes defaultMaxNameBytes 1 ''MaxToolNameBytes'') (\<lambda>names.
     rbind (set_limit (il_MaxArgumentsBytes L) defaultMaxArgBytes defaultMaxArgBytes minArgumentsBytes
       ''MaxArgumentsBytes'') (\<lambda>args.
     rbind (set_limit (il_MaxBatchArgumentBytes L) defaultMaxBatchArg defaultMaxBatchArg
       (wrap64 (calls * minArgumentsBytes)) ''MaxBatchArgumentBytes'') (\<lambda>batch.
     Inr \<lparr>il_MaxCalls = calls, il_MaxCallIDBytes = ids, il_MaxToolNameBytes = names,
       il_MaxArgumentsBytes = args, il_MaxBatchArgumentBytes = batch\<rparr>)))))"

definition normalizeOutput :: "output_limits \<Rightarrow> tools_error + output_limits" where
  "normalizeOutput L =
     rbind (set_limit (ol_MaxBlocks L) defaultMaxBlocks defaultMaxBlocks 1 ''MaxBlocks'') (\<lambda>blocks.
     rbind (set_limit (ol_MaxTextBytes L) defaultMaxTextBytes defaultMaxTextBytes minTextBytes ''MaxTextBytes'') (\<lambda>texts.
     rbind (set_limit (ol_MaxImageBytes L) defaultMaxImageBytes defaultMaxImageBytes 1 ''MaxImageBytes'') (\<lambda>images.
     rbind (set_limit (ol_MaxImageWidth L) defaultMaxImageWidth defaultMaxImageWidth 1 ''MaxImageWidth'') (\<lambda>width.
     rbind (set_limit (ol_MaxImageHeight L) defaultMaxImageHeight defaultMaxImageHeight 1 ''MaxImageHeight'') (\<lambda>height.
     rbind (set_limit (ol_MaxImagePixels L) defaultMaxImagePixels defaultMaxImagePixels 1 ''MaxImagePixels'') (\<lambda>pixels.
     rbind (set_limit (ol_MaxFramedBytes L) defaultMaxFramedBytes defaultMaxFramedBytes minFramedBytes
       ''MaxFramedBytes'') (\<lambda>framed.
     rbind (set_limit (ol_MaxBatchFramedBytes L) defaultMaxBatchFramed defaultMaxBatchFramed minFramedBytes
       ''MaxBatchFramedBytes'') (\<lambda>batch.
     rbind (set_limit (ol_MaxMetadataBytes L) defaultMaxMetadata defaultMaxMetadata 1 ''MaxMetadataBytes'') (\<lambda>meta.
     Inr \<lparr>ol_MaxBlocks = blocks, ol_MaxTextBytes = texts, ol_MaxImageBytes = images,
       ol_MaxImageWidth = width, ol_MaxImageHeight = height, ol_MaxImagePixels = pixels,
       ol_MaxFramedBytes = framed, ol_MaxBatchFramedBytes = batch, ol_MaxMetadataBytes = meta\<rparr>)))))))))"

text \<open>\<open>procs\<close> is \<^verbatim>\<open>runtime.GOMAXPROCS(0)\<close>, the number of processors of the host.\<close>

definition normalizeParallel :: "int \<Rightarrow> int \<Rightarrow> tools_error + int" where
  "normalizeParallel procs n =
     (if n < 0 then Inl (ErrInvalidConfig (ConfigNegative ''MaxParallel''))
      else if n = 0 then
        (let k = (if procs < minParallelDerived then minParallelDerived else procs)
         in Inr (if k > maxParallelHard then maxParallelHard else k))
      else if n > maxParallelHard then Inl (ErrInvalidConfig (ConfigCeiling ''MaxParallel'' maxParallelHard))
      else Inr n)"

definition normalizeConfig :: "int \<Rightarrow> tools_config \<Rightarrow> tools_error + tools_config" where
  "normalizeConfig procs cfg =
     rbind (normalizeInput (cfg_Input cfg)) (\<lambda>inp.
     rbind (normalizeOutput (cfg_Output cfg)) (\<lambda>out.
     rbind (normalizeParallel procs (cfg_MaxParallel cfg)) (\<lambda>par.
     if ol_MaxBatchFramedBytes out < minFramedBytes
     then Inl (ErrInvalidConfig (ConfigMinimum ''MaxBatchFramedBytes'' minFramedBytes))
     else Inr \<lparr>cfg_MaxParallel = par, cfg_Input = inp, cfg_Output = out\<rparr>)))"

section \<open>Guarded arithmetic and quotas\<close>

definition mul64 :: "int \<Rightarrow> int \<Rightarrow> int option" where
  "mul64 a b =
     (if a = 0 \<or> b = 0 then Some 0
      else if a > 0 \<and> b > 0 \<and> a > go_div max_int64 b then None
      else if a < 0 \<and> b < 0 \<and> (a = min_int64 \<or> b = min_int64) then None
      else Some (wrap64 (a * b)))"

definition add64 :: "int \<Rightarrow> int \<Rightarrow> int option" where
  "add64 a b =
     (if b > 0 \<and> a > max_int64 - b then None
      else if b < 0 \<and> a < min_int64 - b then None
      else Some (wrap64 (a + b)))"

definition allocateCallQuotas :: "output_limits \<Rightarrow> nat \<Rightarrow> tools_error + output_limits list" where
  "allocateCallQuotas batch n =
     (if n = 0 then Inl (ErrInputLimit BatchEmpty)
      else case mul64 (int n) perCallErrorReserve of
        None \<Rightarrow> Inl (ErrInputLimit ReserveOverflow)
      | Some need \<Rightarrow>
          if ol_MaxBatchFramedBytes batch < need
          then Inl (ErrInputLimit (BelowReserve (ol_MaxBatchFramedBytes batch) n))
          else
            (let base = ol_MaxBatchFramedBytes batch div int n;
                 rem = ol_MaxBatchFramedBytes batch mod int n
             in Inr (map (\<lambda>i.
                  let share = (if int i < rem then base + 1 else base)
                  in batch\<lparr>ol_MaxFramedBytes :=
                       (if share > ol_MaxFramedBytes batch then ol_MaxFramedBytes batch else share)\<rparr>)
                [0..<n])))"

section \<open>Envelopes\<close>

definition name_start :: "char \<Rightarrow> bool" where
  "name_start c \<longleftrightarrow> c = CHR ''_'' \<or> (CHR ''A'' \<le> c \<and> c \<le> CHR ''Z'') \<or> (CHR ''a'' \<le> c \<and> c \<le> CHR ''z'')"

definition name_char :: "char \<Rightarrow> bool" where
  "name_char c \<longleftrightarrow> name_start c \<or> (CHR ''0'' \<le> c \<and> c \<le> CHR ''9'')"

definition validToolName :: "string \<Rightarrow> bool" where
  "validToolName s \<longleftrightarrow> s \<noteq> [] \<and> length s \<le> 64 \<and> name_start (hd s) \<and> list_all name_char (tl s)"

definition validCallID :: "string \<Rightarrow> int \<Rightarrow> identity_error + unit" where
  "validCallID cid maxBytes = BoundedIdentity cid maxBytes False"

text \<open>The loop of \<^verbatim>\<open>checkEnvelope\<close>: the ids seen so far and the argument bytes counted.\<close>

fun check_calls :: "input_limits \<Rightarrow> nat \<Rightarrow> string list \<Rightarrow> int \<Rightarrow> tool_call list \<Rightarrow> tools_error + unit" where
  "check_calls L i seen args [] = Inr ()"
| "check_calls L i seen args (call # calls) =
     (case validCallID (tc_ID call) (il_MaxCallIDBytes L) of
        Inl e \<Rightarrow> Inl (ErrInputLimit (CallID i e))
      | Inr _ \<Rightarrow>
          if tc_ID call \<in> set seen then Inl (ErrInputLimit (DuplicateCallID (tc_ID call)))
          else if int (length (tc_Name call)) > il_MaxToolNameBytes L then Inl (ErrInputLimit (CallName i))
          else if int (length (tc_Arguments call)) > il_MaxArgumentsBytes L
            then Inl (ErrInputLimit (CallArguments i))
          else case add64 args (int (length (tc_Arguments call))) of
            None \<Rightarrow> Inl (ErrInputLimit (BatchArguments (il_MaxBatchArgumentBytes L)))
          | Some sum_args \<Rightarrow>
              if sum_args > il_MaxBatchArgumentBytes L
              then Inl (ErrInputLimit (BatchArguments (il_MaxBatchArgumentBytes L)))
              else check_calls L (i + 1) (tc_ID call # seen) sum_args calls)"

definition checkEnvelope :: "tool_call list \<Rightarrow> input_limits \<Rightarrow> tools_error + unit" where
  "checkEnvelope calls L =
     (if calls = [] then Inl (ErrInputLimit BatchEmpty)
      else if int (length calls) > il_MaxCalls L
        then Inl (ErrInputLimit (BatchCalls (length calls) (il_MaxCalls L)))
      else check_calls L 0 [] 0 calls)"

text \<open>\<^verbatim>\<open>StartOption\<close> has one implementation, \<^verbatim>\<open>maxBatchFramedOption\<close>; \<open>None\<close> is a
  nil option. The state is \<^verbatim>\<open>startConfig.maxBatchFramed\<close>.\<close>

definition apply_start_option :: "int option \<Rightarrow> int option \<Rightarrow> tools_error + int option" where
  "apply_start_option cfg opt =
     (case opt of
        None \<Rightarrow> Inl (ErrInputLimit NilStartOption)
      | Some v \<Rightarrow>
          if cfg \<noteq> None then Inl (ErrInputLimit OptionTwice)
          else if v \<le> 0 then Inl (ErrInputLimit OptionNotPositive)
          else Inr (Some v))"

definition applyStartOptions :: "int option list \<Rightarrow> output_limits \<Rightarrow> nat \<Rightarrow> tools_error + output_limits" where
  "applyStartOptions opts base calls =
     rbind (rfold apply_start_option None opts) (\<lambda>cfg.
     rbind (case cfg of
        None \<Rightarrow> Inr base
      | Some v \<Rightarrow>
          if v > ol_MaxBatchFramedBytes base then Inl (ErrInputLimit OptionRaises)
          else Inr (base\<lparr>ol_MaxBatchFramedBytes := v\<rparr>)) (\<lambda>out.
     case mul64 (int calls) perCallErrorReserve of
       None \<Rightarrow> Inl (ErrInputLimit (BelowReserve (ol_MaxBatchFramedBytes out) calls))
     | Some need \<Rightarrow>
         if ol_MaxBatchFramedBytes out < need
         then Inl (ErrInputLimit (BelowReserve (ol_MaxBatchFramedBytes out) calls))
         else Inr out))"

text \<open>\<^verbatim>\<open>parseArguments\<close> on a context that is not done; \<^verbatim>\<open>ctx.Err()\<close> is the first argument.\<close>

definition argumentLimits :: limits where
  "argumentLimits = \<lparr>MaxDepth = 128, MaxNodes = 262144, MaxNumberBytes = 128, MaxExponent = 1000, MaxScale = 1024\<rparr>"

datatype argument_error = ArgumentContext tools_error | ArgumentJSON json_error

definition parseArguments :: "tools_error option \<Rightarrow> string \<Rightarrow> argument_error + value" where
  "parseArguments ctxErr raw =
     (case ctxErr of
        Some e \<Rightarrow> Inl (ArgumentContext e)
      | None \<Rightarrow> (case ParseObject raw argumentLimits of Inl e \<Rightarrow> Inl (ArgumentJSON e) | Inr v \<Rightarrow> Inr v))"

section \<open>Diagnostics\<close>

text \<open>\<^verbatim>\<open>string([]rune(s))\<close>: every invalid byte becomes \<open>RuneError\<close>.\<close>

definition stringsToValid :: "string \<Rightarrow> string" where
  "stringsToValid s = concat (map encode_rune (runes s))"

text \<open>The rune loop of \<^verbatim>\<open>sanitizeDiagnostic\<close>: it collects until the text reaches the limit.\<close>

fun collect_runes :: "nat \<Rightarrow> nat list \<Rightarrow> nat list \<Rightarrow> nat list" where
  "collect_runes limit acc [] = acc"
| "collect_runes limit acc (r # rs) =
     (if is_control r \<and> r \<noteq> 10 \<and> r \<noteq> 9 then collect_runes limit acc rs
      else if limit \<le> length (concat (map encode_rune (acc @ [r]))) then acc @ [r]
      else collect_runes limit (acc @ [r]) rs)"

text \<open>The loop that shortens a cut text to a valid one.\<close>

function trim_invalid :: "string \<Rightarrow> string" where
  "trim_invalid s = (if s \<noteq> [] \<and> \<not> utf8_valid s then trim_invalid (butlast s) else s)"
  by pat_completeness auto
termination
  by (relation "measure length") auto

declare trim_invalid.simps [simp del]

definition sanitizeDiagnostic :: "string \<Rightarrow> nat \<Rightarrow> string" where
  "sanitizeDiagnostic s limit =
     (let s = (if utf8_valid s then s else stringsToValid s);
          out = concat (map encode_rune (collect_runes limit [] (runes s)))
      in if length out > limit then trim_invalid (take limit out) else out)"

end
