(* ===== verification/Tool_Limits_Props.thy ===== *)
theory Tool_Limits_Props
  imports Tool_Limits Interfaces
begin

text \<open>
  What the limits of the executor guarantee: configuration is normalised once and for all, the guarded
  arithmetic is exact on the operands the code passes, a batch is cut into quotas that add up to the batch
  ceiling, envelopes are accepted exactly when every bound holds, and diagnostics are clean text.
\<close>

section \<open>Configuration\<close>

lemma set_limit_setting:
  "0 < least \<Longrightarrow> least \<le> highest \<Longrightarrow> bounded_setting (\<lambda>v. set_limit v highest highest least name) least highest"
  by unfold_locales (auto simp: set_limit_def Let_def split: if_splits)

interpretation max_calls: bounded_setting
  "\<lambda>v. set_limit v defaultMaxCalls defaultMaxCalls 1 ''MaxCalls''" 1 defaultMaxCalls
  by (rule set_limit_setting) (simp_all add: tool_defaults)

interpretation call_id_bytes: bounded_setting
  "\<lambda>v. set_limit v defaultMaxCallIDBytes defaultMaxCallIDBytes 1 ''MaxCallIDBytes''" 1 defaultMaxCallIDBytes
  by (rule set_limit_setting) (simp_all add: tool_defaults)

interpretation tool_name_bytes: bounded_setting
  "\<lambda>v. set_limit v defaultMaxNameBytes defaultMaxNameBytes 1 ''MaxToolNameBytes''" 1 defaultMaxNameBytes
  by (rule set_limit_setting) (simp_all add: tool_defaults)

interpretation argument_bytes: bounded_setting
  "\<lambda>v. set_limit v defaultMaxArgBytes defaultMaxArgBytes minArgumentsBytes ''MaxArgumentsBytes''"
  minArgumentsBytes defaultMaxArgBytes
  by (rule set_limit_setting) (simp_all add: tool_defaults)

interpretation max_blocks: bounded_setting
  "\<lambda>v. set_limit v defaultMaxBlocks defaultMaxBlocks 1 ''MaxBlocks''" 1 defaultMaxBlocks
  by (rule set_limit_setting) (simp_all add: tool_defaults)

interpretation text_bytes: bounded_setting
  "\<lambda>v. set_limit v defaultMaxTextBytes defaultMaxTextBytes minTextBytes ''MaxTextBytes''"
  minTextBytes defaultMaxTextBytes
  by (rule set_limit_setting) (simp_all add: tool_defaults)

interpretation image_bytes: bounded_setting
  "\<lambda>v. set_limit v defaultMaxImageBytes defaultMaxImageBytes 1 ''MaxImageBytes''" 1 defaultMaxImageBytes
  by (rule set_limit_setting) (simp_all add: tool_defaults)

interpretation image_width: bounded_setting
  "\<lambda>v. set_limit v defaultMaxImageWidth defaultMaxImageWidth 1 ''MaxImageWidth''" 1 defaultMaxImageWidth
  by (rule set_limit_setting) (simp_all add: tool_defaults)

interpretation image_height: bounded_setting
  "\<lambda>v. set_limit v defaultMaxImageHeight defaultMaxImageHeight 1 ''MaxImageHeight''" 1 defaultMaxImageHeight
  by (rule set_limit_setting) (simp_all add: tool_defaults)

interpretation image_pixels: bounded_setting
  "\<lambda>v. set_limit v defaultMaxImagePixels defaultMaxImagePixels 1 ''MaxImagePixels''" 1 defaultMaxImagePixels
  by (rule set_limit_setting) (simp_all add: tool_defaults)

interpretation framed_bytes: bounded_setting
  "\<lambda>v. set_limit v defaultMaxFramedBytes defaultMaxFramedBytes minFramedBytes ''MaxFramedBytes''"
  minFramedBytes defaultMaxFramedBytes
  by (rule set_limit_setting) (simp_all add: tool_defaults)

interpretation batch_framed_bytes: bounded_setting
  "\<lambda>v. set_limit v defaultMaxBatchFramed defaultMaxBatchFramed minFramedBytes ''MaxBatchFramedBytes''"
  minFramedBytes defaultMaxBatchFramed
  by (rule set_limit_setting) (simp_all add: tool_defaults)

interpretation metadata_bytes: bounded_setting
  "\<lambda>v. set_limit v defaultMaxMetadata defaultMaxMetadata 1 ''MaxMetadataBytes''" 1 defaultMaxMetadata
  by (rule set_limit_setting) (simp_all add: tool_defaults)

text \<open>The effective limits of an executor.\<close>

definition input_within :: "input_limits \<Rightarrow> bool" where
  "input_within L \<longleftrightarrow> 1 \<le> il_MaxCalls L \<and> il_MaxCalls L \<le> defaultMaxCalls
     \<and> 1 \<le> il_MaxCallIDBytes L \<and> il_MaxCallIDBytes L \<le> defaultMaxCallIDBytes
     \<and> 1 \<le> il_MaxToolNameBytes L \<and> il_MaxToolNameBytes L \<le> defaultMaxNameBytes
     \<and> minArgumentsBytes \<le> il_MaxArgumentsBytes L \<and> il_MaxArgumentsBytes L \<le> defaultMaxArgBytes
     \<and> il_MaxCalls L * minArgumentsBytes \<le> il_MaxBatchArgumentBytes L
     \<and> il_MaxBatchArgumentBytes L \<le> defaultMaxBatchArg"

definition output_within :: "output_limits \<Rightarrow> bool" where
  "output_within L \<longleftrightarrow> 1 \<le> ol_MaxBlocks L \<and> ol_MaxBlocks L \<le> defaultMaxBlocks
     \<and> minTextBytes \<le> ol_MaxTextBytes L \<and> ol_MaxTextBytes L \<le> defaultMaxTextBytes
     \<and> 1 \<le> ol_MaxImageBytes L \<and> ol_MaxImageBytes L \<le> defaultMaxImageBytes
     \<and> 1 \<le> ol_MaxImageWidth L \<and> ol_MaxImageWidth L \<le> defaultMaxImageWidth
     \<and> 1 \<le> ol_MaxImageHeight L \<and> ol_MaxImageHeight L \<le> defaultMaxImageHeight
     \<and> 1 \<le> ol_MaxImagePixels L \<and> ol_MaxImagePixels L \<le> defaultMaxImagePixels
     \<and> minFramedBytes \<le> ol_MaxFramedBytes L \<and> ol_MaxFramedBytes L \<le> defaultMaxFramedBytes
     \<and> minFramedBytes \<le> ol_MaxBatchFramedBytes L \<and> ol_MaxBatchFramedBytes L \<le> defaultMaxBatchFramed
     \<and> 1 \<le> ol_MaxMetadataBytes L \<and> ol_MaxMetadataBytes L \<le> defaultMaxMetadata"

lemma set_limit_eq: "v \<noteq> 0 \<Longrightarrow> set_limit v d h l name = Inr w \<longleftrightarrow> 0 < v \<and> l \<le> v \<and> v \<le> h \<and> w = v"
  by (auto simp: set_limit_def Let_def)

lemma batch_minimum: "1 \<le> c \<Longrightarrow> c \<le> defaultMaxCalls \<Longrightarrow> wrap64 (c * minArgumentsBytes) = c * minArgumentsBytes"
  by (intro wrap64_id) (simp add: in_int64_def min_int64_def max_int64_def tool_defaults)

lemma normalizeInput_within: "normalizeInput L = Inr M \<Longrightarrow> input_within M"
  by (auto simp: normalizeInput_def result_simps input_within_def batch_minimum
      dest!: max_calls.within call_id_bytes.within tool_name_bytes.within argument_bytes.within)
    (auto simp: set_limit_def Let_def tool_defaults split: if_splits)

lemma normalizeInput_fix: "input_within M \<Longrightarrow> normalizeInput M = Inr M"
  using batch_minimum [of "il_MaxCalls M"] unfolding input_within_def normalizeInput_def
  by (simp add: set_limit_def Let_def tool_defaults)

lemma normalizeOutput_within: "normalizeOutput L = Inr M \<Longrightarrow> output_within M"
  by (auto simp: normalizeOutput_def result_simps output_within_def
      dest!: max_blocks.within text_bytes.within image_bytes.within image_width.within image_height.within
        image_pixels.within framed_bytes.within batch_framed_bytes.within metadata_bytes.within)

lemma normalizeOutput_fix: "output_within M \<Longrightarrow> normalizeOutput M = Inr M"
  unfolding output_within_def normalizeOutput_def by (simp add: set_limit_def Let_def tool_defaults)

lemma normalizeParallel_within: "normalizeParallel procs n = Inr k \<Longrightarrow> 1 \<le> k \<and> k \<le> maxParallelHard"
  by (auto simp: normalizeParallel_def Let_def tool_defaults split: if_splits)

lemma normalizeParallel_fix: "1 \<le> k \<Longrightarrow> k \<le> maxParallelHard \<Longrightarrow> normalizeParallel procs k = Inr k"
  by (simp add: normalizeParallel_def)

lemma normalizeConfig_within:
  "normalizeConfig procs cfg = Inr c \<Longrightarrow> input_within (cfg_Input c) \<and> output_within (cfg_Output c)
     \<and> 1 \<le> cfg_MaxParallel c \<and> cfg_MaxParallel c \<le> maxParallelHard"
  by (auto simp: normalizeConfig_def result_simps split: if_splits
      dest: normalizeInput_within normalizeOutput_within normalizeParallel_within)

section \<open>Guarded arithmetic\<close>

lemma add64_exact: "in_int64 a \<Longrightarrow> in_int64 b \<Longrightarrow> add64 a b = (if in_int64 (a + b) then Some (a + b) else None)"
  by (auto simp: add64_def in_int64_def wrap64_id)

lemma mul64_nonneg:
  assumes "0 \<le> a" "0 \<le> b"
  shows "mul64 a b = (if a * b \<le> max_int64 then Some (a * b) else None)"
proof (cases "a = 0 \<or> b = 0")
  case True
  then show ?thesis by (auto simp: mul64_def max_int64_def)
next
  case False
  with assms have pos: "0 < a" "0 < b" by auto
  have "a > max_int64 div b \<longleftrightarrow> \<not> a * b \<le> max_int64"
    using pos int_le_div_iff [of b a max_int64] by auto
  moreover have "go_div max_int64 b = max_int64 div b"
    using pos by (intro go_div_nonneg) (auto simp: max_int64_def)
  moreover have "a * b \<le> max_int64 \<Longrightarrow> wrap64 (a * b) = a * b"
    using mult_pos_pos [OF pos] by (intro wrap64_id) (simp add: in_int64_def min_int64_def)
  ultimately show ?thesis
    using pos False by (auto simp: mul64_def)
qed

section \<open>Quotas\<close>

lemma quota_sum: "sum_list (map (\<lambda>i. if int i < r then b + 1 else b) [0..<n]) = int n * b + min (int n) (max 0 r)"
  for b r :: int
  by (induction n) (auto simp: algebra_simps)

lemma reserve_product: "n \<le> 2 ^ 40 \<Longrightarrow> mul64 (int n) perCallErrorReserve = Some (int n * 1024)"
  by (subst mul64_nonneg) (auto simp: tool_defaults max_int64_def)

lemma allocate_Inr:
  assumes "allocateCallQuotas batch n = Inr qs"
  shows "0 < n" "int n * 1024 \<le> ol_MaxBatchFramedBytes batch"
    "qs = map (\<lambda>i. batch\<lparr>ol_MaxFramedBytes := min (ol_MaxFramedBytes batch)
        (if int i < ol_MaxBatchFramedBytes batch mod int n then ol_MaxBatchFramedBytes batch div int n + 1
         else ol_MaxBatchFramedBytes batch div int n)\<rparr>) [0..<n]"
  using assms
  by (auto simp: allocateCallQuotas_def mul64_nonneg tool_defaults Let_def min_def split: if_splits option.splits)

lemma quotas_within_batch:
  assumes "allocateCallQuotas batch n = Inr qs"
  shows "sum_list (map ol_MaxFramedBytes qs) \<le> ol_MaxBatchFramedBytes batch"
proof -
  let ?B = "ol_MaxBatchFramedBytes batch"
  note a = allocate_Inr [OF assms]
  have "sum_list (map ol_MaxFramedBytes qs)
      \<le> sum_list (map (\<lambda>i. if int i < ?B mod int n then ?B div int n + 1 else ?B div int n) [0..<n])"
    unfolding a(3) map_map by (rule sum_list_mono) simp
  also have "\<dots> = int n * (?B div int n) + ?B mod int n"
    unfolding quota_sum using a(1) pos_mod_bound [of "int n" ?B] pos_mod_sign [of "int n" ?B] by simp
  also have "\<dots> = ?B" by simp
  finally show ?thesis .
qed

lemma quota_reserve:
  assumes "allocateCallQuotas batch n = Inr qs" "q \<in> set qs" "minFramedBytes \<le> ol_MaxFramedBytes batch"
  shows "minFramedBytes \<le> ol_MaxFramedBytes q" "ol_MaxFramedBytes q \<le> ol_MaxFramedBytes batch"
    "q = batch\<lparr>ol_MaxFramedBytes := ol_MaxFramedBytes q\<rparr>"
proof -
  note a = allocate_Inr [OF assms(1)]
  have "1024 \<le> ol_MaxBatchFramedBytes batch div int n"
    using a(1,2) int_le_div_iff [of "int n" 1024 "ol_MaxBatchFramedBytes batch"] by (simp add: mult.commute)
  then show "minFramedBytes \<le> ol_MaxFramedBytes q" "ol_MaxFramedBytes q \<le> ol_MaxFramedBytes batch"
    "q = batch\<lparr>ol_MaxFramedBytes := ol_MaxFramedBytes q\<rparr>"
    using assms(2,3) unfolding a(3) by (auto simp: tool_defaults)
qed

section \<open>Envelopes\<close>

lemma validCallID_iff:
  "validCallID s m = Inr u \<longleftrightarrow> s \<noteq> [] \<and> utf8_valid s \<and> int (length s) \<le> m \<and> \<not> has_control s"
  by (auto simp: validCallID_def BoundedIdentity_def)

definition call_ok :: "input_limits \<Rightarrow> tool_call \<Rightarrow> bool" where
  "call_ok L call \<longleftrightarrow> validCallID (tc_ID call) (il_MaxCallIDBytes L) = Inr ()
     \<and> int (length (tc_Name call)) \<le> il_MaxToolNameBytes L
     \<and> int (length (tc_Arguments call)) \<le> il_MaxArgumentsBytes L"

definition argument_bytes_of :: "tool_call list \<Rightarrow> int" where
  "argument_bytes_of calls = (\<Sum>c\<leftarrow>calls. int (length (tc_Arguments c)))"

lemma argument_bytes_nonneg: "0 \<le> argument_bytes_of calls"
  unfolding argument_bytes_of_def by (rule sum_list_nonneg) auto

lemma check_calls_iff:
  assumes "0 \<le> args" "args \<le> il_MaxBatchArgumentBytes L" "input_within L"
  shows "check_calls L i seen args calls = Inr () \<longleftrightarrow>
    (\<forall>c \<in> set calls. call_ok L c) \<and> distinct (map tc_ID calls) \<and> set (map tc_ID calls) \<inter> set seen = {}
    \<and> args + argument_bytes_of calls \<le> il_MaxBatchArgumentBytes L"
  using assms(1,2)
proof (induction calls arbitrary: i seen args)
  case Nil
  then show ?case by (simp add: argument_bytes_of_def)
next
  case (Cons c calls)
  let ?n = "int (length (tc_Arguments c))"
  have small: "il_MaxBatchArgumentBytes L \<le> 16777216" "il_MaxArgumentsBytes L \<le> 16777216"
    using assms(3) by (auto simp: input_within_def tool_defaults)
  have add: "?n \<le> il_MaxArgumentsBytes L \<Longrightarrow> add64 args ?n = Some (args + ?n)"
    using Cons.prems small
    by (subst add64_exact) (auto simp: in_int64_def max_int64_def min_int64_def)
  have split: "argument_bytes_of (c # calls) = ?n + argument_bytes_of calls"
    by (simp add: argument_bytes_of_def)
  show ?case
  proof (cases "validCallID (tc_ID c) (il_MaxCallIDBytes L)")
    case (Inr u)
    then show ?thesis
      using add Cons.IH [of "args + ?n" "i + 1" "tc_ID c # seen"] Cons.prems argument_bytes_nonneg [of calls]
      by (auto simp: call_ok_def split)
  qed (simp add: call_ok_def)
qed

section \<open>Diagnostics\<close>

lemma runes_step: "s \<noteq> [] \<Longrightarrow> runes s = fst (decode_rune s) # runes (drop (snd (decode_rune s)) s)"
  by (subst runes.simps) simp

lemma runes_encode: "runes (encode_rune r @ t) = (if scalar r then r else RuneError) # runes t"
proof -
  let ?q = "if scalar r then r else RuneError"
  have q: "scalar ?q" by (simp add: scalar_def RuneError_def)
  have "encode_scalar ?q \<noteq> []" by (simp add: encode_scalar_def)
  with decode_encode_scalar [OF q, of t] show ?thesis
    by (subst runes_step) (simp_all add: encode_rune_def)
qed

lemma utf8_valid_runes: "utf8_valid (concat (map encode_rune rs))"
  by (induction rs) (simp_all add: utf8_valid_append utf8_valid_encode)

lemma runes_concat: "runes (concat (map encode_rune rs)) = map (\<lambda>r. if scalar r then r else RuneError) rs"
proof (induction rs)
  case Nil
  then show ?case by (simp add: runes.simps)
qed (simp add: runes_encode)

lemma runes_append: "utf8_valid s \<Longrightarrow> runes (s @ t) = runes s @ runes t"
proof (induction s rule: utf8_valid.induct)
  case (1 s)
  show ?case
  proof (cases "s = []")
    case False
    then have ok: "rune_ok s" "utf8_valid (drop (snd (decode_rune s)) s)"
      using 1(2) by (simp_all add: utf8_valid_step)
    have "decode_rune (s @ t) = decode_rune s" using ok(1) False by (rule decode_rune_extend)
    then show ?thesis
      using 1(1) [OF False ok(2)] False decode_rune_width_le [of s]
      by (simp add: runes_step)
  qed (simp add: runes.simps)
qed

lemma trim_invalid_prefix: "\<exists>t. s = trim_invalid s @ t"
proof (induction s rule: trim_invalid.induct)
  case (1 s)
  show ?case
  proof (cases "s \<noteq> [] \<and> \<not> utf8_valid s")
    case True
    with 1 obtain t where "butlast s = trim_invalid (butlast s) @ t" by auto
    with True have "s = trim_invalid (butlast s) @ (t @ [last s])"
      by (metis append.assoc append_butlast_last_id)
    then show ?thesis using True by (subst trim_invalid.simps) auto
  next
    case False
    then show ?thesis by (simp only: trim_invalid.simps [of s] if_False append_Nil2) (auto intro: exI [of _ "[]"])
  qed
qed

lemma trim_invalid_valid: "utf8_valid (trim_invalid s)"
  by (induction s rule: trim_invalid.induct) (subst trim_invalid.simps, auto)

definition printable :: "nat \<Rightarrow> bool" where
  "printable r \<longleftrightarrow> is_control r \<longrightarrow> r = 10 \<or> r = 9"

lemma collect_printable: "list_all printable acc \<Longrightarrow> list_all printable (collect_runes limit acc rs)"
  by (induction limit acc rs rule: collect_runes.induct) (auto simp: printable_def)

lemma printable_replaced [simp]: "printable RuneError"
  by (simp add: printable_def is_control_def RuneError_def)

lemma sanitize_text:
  "utf8_valid (sanitizeDiagnostic s limit) \<and> length (sanitizeDiagnostic s limit) \<le> limit
   \<and> list_all printable (runes (sanitizeDiagnostic s limit))"
proof -
  define s' where "s' = (if utf8_valid s then s else stringsToValid s)"
  define rs where "rs = collect_runes limit [] (runes s')"
  define out where "out = concat (map encode_rune rs)"
  have p: "list_all printable (runes out)"
    using collect_printable [of "[]" limit "runes s'"]
    by (auto simp: out_def runes_concat rs_def list_all_iff)
  have v: "utf8_valid out" by (simp add: out_def utf8_valid_runes)
  have eq: "sanitizeDiagnostic s limit = (if length out > limit then trim_invalid (take limit out) else out)"
    by (simp add: sanitizeDiagnostic_def Let_def s'_def rs_def out_def)
  show ?thesis
  proof (cases "length out > limit")
    case True
    obtain t where t: "take limit out = trim_invalid (take limit out) @ t" using trim_invalid_prefix by blast
    then have "out = trim_invalid (take limit out) @ (t @ drop limit out)"
      by (metis append.assoc append_take_drop_id)
    then have "runes out = runes (trim_invalid (take limit out)) @ runes (t @ drop limit out)"
      using runes_append [OF trim_invalid_valid] by metis
    with p have "list_all printable (runes (trim_invalid (take limit out)))" by simp
    moreover have "length (trim_invalid (take limit out)) \<le> limit"
      using arg_cong [OF t, of length] by simp
    ultimately show ?thesis using True eq trim_invalid_valid by simp
  qed (simp add: eq p v)
qed

section \<open>Properties\<close>

text \<open>An accepted configuration lies within the package ceilings and minimums, and normalising it
  again changes nothing, whatever the number of processors.\<close>

theorem config_normalized:
  assumes "normalizeConfig procs cfg = Inr c"
  shows "input_within (cfg_Input c) \<and> output_within (cfg_Output c)
    \<and> 1 \<le> cfg_MaxParallel c \<and> cfg_MaxParallel c \<le> maxParallelHard
    \<and> normalizeConfig procs' c = Inr c"
proof -
  have "input_within (cfg_Input c)" "output_within (cfg_Output c)"
    "1 \<le> cfg_MaxParallel c" "cfg_MaxParallel c \<le> maxParallelHard"
    using normalizeConfig_within [OF assms] by auto
  moreover from this have "normalizeConfig procs' c = Inr c"
    by (simp add: normalizeConfig_def normalizeInput_fix normalizeOutput_fix normalizeParallel_fix)
      (simp add: output_within_def)
  ultimately show ?thesis by blast
qed

definition zero_config :: tools_config where
  "zero_config = \<lparr>cfg_MaxParallel = 0,
     cfg_Input = \<lparr>il_MaxCalls = 0, il_MaxCallIDBytes = 0, il_MaxToolNameBytes = 0, il_MaxArgumentsBytes = 0,
       il_MaxBatchArgumentBytes = 0\<rparr>,
     cfg_Output = \<lparr>ol_MaxBlocks = 0, ol_MaxTextBytes = 0, ol_MaxImageBytes = 0, ol_MaxImageWidth = 0,
       ol_MaxImageHeight = 0, ol_MaxImagePixels = 0, ol_MaxFramedBytes = 0, ol_MaxBatchFramedBytes = 0,
       ol_MaxMetadataBytes = 0\<rparr>\<rparr>"

definition default_config :: tools_config where
  "default_config = projr (normalizeConfig 8 zero_config)"

lemma default_config_ok: "normalizeConfig 8 zero_config = Inr default_config"
  unfolding default_config_def by code_simp

theorem config_normalized_witness: "output_within (cfg_Output default_config)"
  using config_normalized [OF default_config_ok] by blast

text \<open>The guarded arithmetic reports overflow exactly: on 64-bit operands \<^verbatim>\<open>add64\<close> returns the sum or
  refuses it when it does not fit, and so does \<^verbatim>\<open>mul64\<close> on non-negative operands.\<close>

theorem guarded_arithmetic_exact:
  assumes "in_int64 a" "in_int64 b"
  shows "add64 a b = (if in_int64 (a + b) then Some (a + b) else None)
    \<and> (0 \<le> a \<longrightarrow> 0 \<le> b \<longrightarrow> mul64 a b = (if in_int64 (a * b) then Some (a * b) else None))"
proof -
  have "0 \<le> a \<Longrightarrow> 0 \<le> b \<Longrightarrow> in_int64 (a * b) \<longleftrightarrow> a * b \<le> max_int64"
    by (auto simp: in_int64_def min_int64_def intro: order_trans [OF _ mult_nonneg_nonneg])
  then show ?thesis using add64_exact [OF assms] mul64_nonneg [of a b] by simp
qed

theorem guarded_arithmetic_exact_witness: "add64 max_int64 1 = None \<and> mul64 (2 ^ 32) (2 ^ 31) = None"
  using guarded_arithmetic_exact [of max_int64 1] guarded_arithmetic_exact [of "2 ^ 32" "2 ^ 31"]
  by (simp add: in_int64_def max_int64_def min_int64_def)

text \<open>On operands of mixed sign the product check lets an overflow through and returns a wrapped value.\<close>

lemma mul64_misses_overflow:
  "in_int64 (- (2 ^ 62)) \<and> in_int64 4 \<and> \<not> in_int64 (- (2 ^ 62) * 4) \<and> mul64 (- (2 ^ 62)) 4 = Some 0"
  by (simp add: in_int64_def mul64_def max_int64_def min_int64_def wrap64_def)

text \<open>C28 (bounds). Quotas of a batch: one per call, each the batch limits with a framed share that is at least the
  reserve of an error result and at most the per-call ceiling, the shares together within the batch ceiling. Under
  normalised limits the allocation is refused only when the batch ceiling is below the reserve of its calls.\<close>

theorem quotas_partition_batch:
  assumes "output_within batch" and "0 < n" and "int n \<le> defaultMaxCalls"
  shows "case allocateCallQuotas batch n of
      Inl _ \<Rightarrow> ol_MaxBatchFramedBytes batch < int n * perCallErrorReserve
    | Inr qs \<Rightarrow> length qs = n \<and> sum_list (map ol_MaxFramedBytes qs) \<le> ol_MaxBatchFramedBytes batch
        \<and> (\<forall>q \<in> set qs. output_within q \<and> ol_MaxFramedBytes q \<le> ol_MaxFramedBytes batch)"
proof (cases "allocateCallQuotas batch n")
  case (Inl e)
  have "n \<le> 2 ^ 40" using assms(3) by (simp add: tool_defaults)
  with Inl show ?thesis
    using reserve_product [of n] assms(2)
    by (simp add: allocateCallQuotas_def Let_def perCallErrorReserve_def split: if_splits)
next
  case (Inr qs)
  have m: "minFramedBytes \<le> ol_MaxFramedBytes batch" using assms(1) by (simp add: output_within_def)
  have "output_within q" if "q \<in> set qs" for q
    using quota_reserve(1,2) [OF Inr that m] assms(1)
    by (subst quota_reserve(3) [OF Inr that m]) (simp add: output_within_def)
  then show ?thesis
    using quotas_within_batch [OF Inr] quota_reserve(2) [OF Inr _ m] allocate_Inr(3) [OF Inr] Inr by auto
qed

theorem quotas_partition_batch_witness:
  "length (projr (allocateCallQuotas (cfg_Output default_config) 3)) = 3"
proof -
  have q: "allocateCallQuotas (cfg_Output default_config) 3 = Inr (projr (allocateCallQuotas (cfg_Output default_config) 3))"
    by code_simp
  have "output_within (cfg_Output default_config)" using normalizeConfig_within [OF default_config_ok] by blast
  from quotas_partition_batch [OF this, of 3] show ?thesis
    by (cases "allocateCallQuotas (cfg_Output default_config) 3") (use q in \<open>simp_all add: tool_defaults\<close>)
qed

text \<open>An envelope is accepted exactly when it is not empty, has at most the configured number of
  calls with distinct valid ids, and every name, argument text and the argument total keep their bounds.\<close>

theorem envelope_accepted_iff:
  assumes "input_within L"
  shows "checkEnvelope calls L = Inr () \<longleftrightarrow>
    calls \<noteq> [] \<and> int (length calls) \<le> il_MaxCalls L \<and> (\<forall>c \<in> set calls. call_ok L c)
    \<and> distinct (map tc_ID calls) \<and> argument_bytes_of calls \<le> il_MaxBatchArgumentBytes L"
proof -
  have "0 \<le> il_MaxBatchArgumentBytes L" using assms by (auto simp: input_within_def tool_defaults)
  then show ?thesis using check_calls_iff [of 0 L 0 "[]" calls] assms by (auto simp: checkEnvelope_def)
qed

theorem envelope_accepted_iff_witness:
  "checkEnvelope [\<lparr>tc_ID = ''a'', tc_Name = ''read'', tc_Arguments = ''{}''\<rparr>] (cfg_Input default_config) = Inr ()"
proof -
  have "input_within (cfg_Input default_config)"
    using normalizeConfig_within [OF default_config_ok] by blast
  from envelope_accepted_iff [OF this] show ?thesis by (simp add: call_ok_def argument_bytes_of_def) code_simp
qed

text \<open>Start options only tighten the batch ceiling, and once they are accepted the quotas of the batch
  can be allocated.\<close>

theorem start_options_tighten:
  assumes "applyStartOptions opts base calls = Inr out" and "0 < calls" and "int calls \<le> defaultMaxCalls"
  shows "ol_MaxBatchFramedBytes out \<le> ol_MaxBatchFramedBytes base
    \<and> out = base\<lparr>ol_MaxBatchFramedBytes := ol_MaxBatchFramedBytes out\<rparr>
    \<and> (\<exists>qs. allocateCallQuotas out calls = Inr qs)"
proof -
  have "calls \<le> 2 ^ 40" using assms(3) by (simp add: tool_defaults)
  then have r: "mul64 (int calls) perCallErrorReserve = Some (int calls * 1024)" by (rule reserve_product)
  then have need: "int calls * 1024 \<le> ol_MaxBatchFramedBytes out"
    using assms(1) by (auto simp: applyStartOptions_def result_simps split: if_splits)
  have "ol_MaxBatchFramedBytes out \<le> ol_MaxBatchFramedBytes base
      \<and> out = base\<lparr>ol_MaxBatchFramedBytes := ol_MaxBatchFramedBytes out\<rparr>"
    using assms(1) r by (auto simp: applyStartOptions_def result_simps split: if_splits option.splits)
  moreover have "\<exists>qs. allocateCallQuotas out calls = Inr qs"
    using need r assms(2) by (simp add: allocateCallQuotas_def Let_def)
  ultimately show ?thesis by blast
qed

theorem start_options_tighten_witness:
  "\<exists>qs. allocateCallQuotas (projr (applyStartOptions [Some 4096] (cfg_Output default_config) 2)) 2 = Inr qs"
proof -
  have "applyStartOptions [Some 4096] (cfg_Output default_config) 2
      = Inr (projr (applyStartOptions [Some 4096] (cfg_Output default_config) 2))" by code_simp
  from start_options_tighten [OF this] show ?thesis by (simp add: tool_defaults)
qed

text \<open>A sanitised diagnostic is valid UTF-8 of at most the given number of bytes, and its only
  control characters are newline and tab, whatever bytes it is made from.\<close>

theorem diagnostics_clean:
  "utf8_valid (sanitizeDiagnostic s limit) \<and> length (sanitizeDiagnostic s limit) \<le> limit
   \<and> list_all printable (runes (sanitizeDiagnostic s limit))"
  by (rule sanitize_text)

end
