(* ===== verification/Pattern.thy ===== *)
theory Pattern
  imports Tool_Limits_Props
begin

text \<open>
  The portable pattern language of tool schemas: \<^verbatim>\<open>src/core/tools/pattern.go\<close>. A recursive-descent recogniser that
  also counts compiled instructions before any regular expression is built.

  The parser state is the unread suffix of the pattern (\<^verbatim>\<open>p.s[p.i:]\<close>). \<^verbatim>\<open>parseExpr\<close>, \<^verbatim>\<open>parseSequence\<close> and
  \<^verbatim>\<open>parseAtom\<close> call each other through groups; the model bounds that recursion by fuel, and \<open>pattern_fuel\<close> is
  proved to be enough on every input, so running out of fuel never happens.
\<close>

section \<open>Lexical parts\<close>

datatype pattern_error =
    PatternUtf8 | PatternTrailing | PatternBudgetExceeded | UnterminatedGroup | MissingAtom | SpecialGroup
  | Metacharacter char | UnmatchedParen | QuantifierWithoutAtom | PatternControl | TrailingBackslash
  | BadEscape | UnterminatedClass | NegatedClass | BracketInClass | DashInClass | RangeEndpoint | EmptyClass
  | LazyQuantifier | InvalidRepetition | OpenRepetition | RepetitionBounds | OutOfFuel

definition maxRegexExpanded :: int where "maxRegexExpanded = 65536"
definition maxRegexTotal :: int where "maxRegexTotal = 262144"

definition addRegexCost :: "int \<Rightarrow> int \<Rightarrow> pattern_error + int" where
  "addRegexCost a b = (if a > maxRegexExpanded - b then Inl PatternBudgetExceeded else Inr (a + b))"

definition mulRegexCost :: "int \<Rightarrow> int \<Rightarrow> pattern_error + int" where
  "mulRegexCost a b = (if a \<noteq> 0 \<and> b > go_div maxRegexExpanded a then Inl PatternBudgetExceeded else Inr (a * b))"

definition punctuation :: string where
  "punctuation = [CHR 0x5C, CHR 0x5C] @ ''.^$|?*+()[]{}-''"

definition containsByte :: "string \<Rightarrow> char \<Rightarrow> bool" where
  "containsByte s b \<longleftrightarrow> list_ex (\<lambda>c. c = b) s"

text \<open>On entry the first byte is the backslash.\<close>

definition parseEscapedPunctuation :: "string \<Rightarrow> pattern_error + char \<times> string" where
  "parseEscapedPunctuation s =
     (case tl s of
        [] \<Rightarrow> Inl TrailingBackslash
      | c # rest \<Rightarrow> if byte c \<ge> 0x80 \<or> \<not> containsByte punctuation c then Inl BadEscape else Inr (c, rest))"

text \<open>One literal rune: the default branch of \<^verbatim>\<open>parseAtom\<close> and the tail of \<^verbatim>\<open>parseClassScalar\<close>.\<close>

definition parse_literal :: "string \<Rightarrow> pattern_error + string" where
  "parse_literal s =
     (let (r, n) = decode_rune s in
      if r = RuneError \<and> n = 1 then Inl PatternUtf8
      else if is_control r then Inl PatternControl
      else Inr (drop n s))"

definition parseClassScalar :: "string \<Rightarrow> pattern_error + string" where
  "parseClassScalar s =
     (if hd s = CHR 0x5C then rbind (parseEscapedPunctuation s) (\<lambda>(c, rest). Inr rest) else parse_literal s)"

text \<open>The loop of \<^verbatim>\<open>parseClass\<close> after the opening bracket; each round consumes at least one byte.\<close>

definition class_range :: "string \<Rightarrow> pattern_error + int \<times> string" where
  "class_range s =
     (case s of
        c # rest \<Rightarrow>
          if c = CHR ''-'' then
            (if rest = [] \<or> hd rest = CHR '']'' then Inl RangeEndpoint
             else rbind (parseClassScalar rest) (\<lambda>s'. Inr (2, s')))
          else Inr (1, s)
      | [] \<Rightarrow> Inr (1, s))"

lemma literal_shrinks: "s \<noteq> [] \<Longrightarrow> parse_literal s = Inr s' \<Longrightarrow> length s' < length s"
  using decode_rune_width_pos [of s]
  by (cases "decode_rune s") (auto simp: parse_literal_def split: if_splits)

lemma escape_shrinks: "s \<noteq> [] \<Longrightarrow> parseEscapedPunctuation s = Inr (c, s') \<Longrightarrow> length s' < length s"
  by (cases s) (auto simp: parseEscapedPunctuation_def split: list.splits if_splits)

lemma scalar_shrinks: "s \<noteq> [] \<Longrightarrow> parseClassScalar s = Inr s' \<Longrightarrow> length s' < length s"
  by (auto simp: parseClassScalar_def result_simps literal_shrinks dest: escape_shrinks split: if_splits)

lemma range_shrinks: "class_range s = Inr (k, s') \<Longrightarrow> length s' \<le> length s"
  by (fastforce simp: class_range_def result_simps split: list.splits if_splits dest: scalar_shrinks)

function class_items :: "int \<Rightarrow> string \<Rightarrow> pattern_error + int \<times> string" where
  "class_items items s =
     (if s = [] \<or> hd s = CHR '']'' then Inr (items, s)
      else if hd s = CHR ''['' then Inl BracketInClass
      else if hd s = CHR ''-'' then Inl DashInClass
      else case parseClassScalar s of
        Inl e \<Rightarrow> Inl e
      | Inr s1 \<Rightarrow> (case class_range s1 of Inl e \<Rightarrow> Inl e | Inr (k, s2) \<Rightarrow> class_items (items + k) s2))"
  by pat_completeness auto
termination
  by (relation "measure (\<lambda>(items, s). length s)") (auto dest!: scalar_shrinks range_shrinks)

declare class_items.simps [simp del]

definition parseClass :: "string \<Rightarrow> pattern_error + int \<times> string" where
  "parseClass s =
     (case tl s of
        [] \<Rightarrow> Inl UnterminatedClass
      | c # rest \<Rightarrow>
          if c = CHR ''^'' then Inl NegatedClass
          else rbind (class_items 0 (c # rest)) (\<lambda>(items, s').
            if s' = [] \<or> hd s' \<noteq> CHR '']'' then Inl UnterminatedClass
            else if items = 0 then Inl EmptyClass
            else Inr (items + 1, tl s')))"

text \<open>\<^verbatim>\<open>strconv.Atoi\<close> fails only on a number outside the 64-bit range, which is capped.\<close>

definition decimal_value :: "string \<Rightarrow> int" where
  "decimal_value ds = foldl (\<lambda>n c. n * 10 + (int (byte c) - 48)) 0 ds"

definition parseDecimal :: "string \<Rightarrow> (int \<times> string) option" where
  "parseDecimal s =
     (let ds = takeWhile isDigit s; rest = dropWhile isDigit s in
      if ds = [] then None
      else Some (if decimal_value ds > max_int64 then maxRegexExpanded + 1 else decimal_value ds, rest))"

definition at_byte :: "char \<Rightarrow> string \<Rightarrow> bool" where
  "at_byte c s \<longleftrightarrow> s \<noteq> [] \<and> hd s = c"

definition parseQuantifier :: "int \<Rightarrow> string \<Rightarrow> pattern_error + int \<times> string" where
  "parseQuantifier atom s =
     (case s of
        [] \<Rightarrow> Inr (atom, s)
      | c # rest \<Rightarrow>
          if c = CHR ''?'' \<or> c = CHR ''*'' \<or> c = CHR ''+'' then
            (if at_byte CHR ''?'' rest then Inl LazyQuantifier
             else rbind (addRegexCost atom 1) (\<lambda>cost. Inr (cost, rest)))
          else if c = CHR ''{'' then
            (case parseDecimal rest of
               None \<Rightarrow> Inl InvalidRepetition
             | Some (least, s1) \<Rightarrow>
                 rbind (if at_byte CHR '','' s1
                        then (case parseDecimal (tl s1) of
                                Some (n, s2) \<Rightarrow> Inr (n, s2) | None \<Rightarrow> Inl OpenRepetition)
                        else Inr (least, s1)) (\<lambda>(most, s2).
                 if \<not> at_byte CHR ''}'' s2 then Inl InvalidRepetition
                 else if least > 1000 \<or> most > 1000 \<or> least > most then Inl RepetitionBounds
                 else if at_byte CHR ''?'' (tl s2) then Inl LazyQuantifier
                 else rbind (mulRegexCost atom most) (\<lambda>cost.
                   rbind (addRegexCost cost 1) (\<lambda>cost'. Inr (cost', tl s2)))))
          else Inr (atom, s))"

section \<open>Expressions\<close>

text \<open>\<open>stop\<close> is the closing byte of a group, or \<open>None\<close> at the top level (\<^verbatim>\<open>stop == 0\<close>). \<open>parse_alternatives\<close> is the
  loop of \<^verbatim>\<open>parseExpr\<close> with its running total, \<open>parse_items\<close> the loop of \<^verbatim>\<open>parseSequence\<close>.\<close>

fun parseExpr :: "nat \<Rightarrow> char option \<Rightarrow> string \<Rightarrow> pattern_error + int \<times> string"
  and parse_alternatives :: "nat \<Rightarrow> char option \<Rightarrow> int \<Rightarrow> string \<Rightarrow> pattern_error + int \<times> string"
  and parseSequence :: "nat \<Rightarrow> char option \<Rightarrow> int \<Rightarrow> string \<Rightarrow> pattern_error + int \<times> string"
  and parseAtom :: "nat \<Rightarrow> string \<Rightarrow> pattern_error + int \<times> string" where
  "parseExpr 0 stop s = Inl OutOfFuel"
| "parseExpr (Suc n) stop s =
     rbind (parse_alternatives n stop 1 s) (\<lambda>(cost, s').
       case stop of
         None \<Rightarrow> Inr (cost, s')
       | Some c \<Rightarrow> if \<not> at_byte c s' then Inl UnterminatedGroup else Inr (cost, tl s'))"
| "parse_alternatives 0 stop acc s = Inl OutOfFuel"
| "parse_alternatives (Suc n) stop acc s =
     rbind (parseSequence n stop 1 s) (\<lambda>(seq, s').
     rbind (addRegexCost acc seq) (\<lambda>acc'.
     if \<not> at_byte CHR ''|'' s' then Inr (acc', s')
     else rbind (addRegexCost acc' 1) (\<lambda>acc''. parse_alternatives n stop acc'' (tl s'))))"
| "parseSequence 0 stop acc s = Inl OutOfFuel"
| "parseSequence (Suc n) stop acc s =
     (if s = [] \<or> hd s = CHR ''|'' \<or> stop = Some (hd s) then Inr (acc, s)
      else rbind (parseAtom n s) (\<lambda>(atom, s1).
        rbind (parseQuantifier atom s1) (\<lambda>(atom', s2).
        rbind (addRegexCost acc atom') (\<lambda>acc'. parseSequence n stop acc' s2))))"
| "parseAtom 0 s = Inl OutOfFuel"
| "parseAtom (Suc n) s =
     (case s of
        [] \<Rightarrow> Inl MissingAtom
      | c # rest \<Rightarrow>
          if c = CHR ''('' then
            (if at_byte CHR ''?'' rest then Inl SpecialGroup
             else rbind (parseExpr n (Some CHR '')'') rest) (\<lambda>(cost, s').
               rbind (addRegexCost cost 1) (\<lambda>cost'. Inr (cost', s'))))
          else if c = CHR ''['' then parseClass s
          else if c = CHR 0x5C then rbind (parseEscapedPunctuation s) (\<lambda>(_, s'). Inr (1, s'))
          else if c = CHR ''.'' \<or> c = CHR ''^'' \<or> c = CHR ''$'' then Inl (Metacharacter c)
          else if c = CHR '')'' then Inl UnmatchedParen
          else if c = CHR ''*'' \<or> c = CHR ''+'' \<or> c = CHR ''?'' \<or> c = CHR ''{'' \<or> c = CHR ''}''
            then Inl QuantifierWithoutAtom
          else rbind (parse_literal s) (\<lambda>s'. Inr (1, s')))"

definition pattern_fuel :: "string \<Rightarrow> nat" where "pattern_fuel s = 4 * length s + 4"

definition validatePortablePattern :: "string \<Rightarrow> pattern_error + int" where
  "validatePortablePattern pattern =
     (if \<not> utf8_valid pattern then Inl PatternUtf8
      else rbind (parseExpr (pattern_fuel pattern) None pattern) (\<lambda>(cost, rest).
        if rest \<noteq> [] then Inl PatternTrailing
        else if cost > maxRegexExpanded then Inl PatternBudgetExceeded
        else Inr cost))"

end
