(* ===== verification/Pattern_Props.thy ===== *)
theory Pattern_Props
  imports Pattern
begin

text \<open>
  The recogniser against a grammar: \<open>rx_expr p c\<close> says that \<open>p\<close> is a portable pattern whose compiled form costs \<open>c\<close>
  instructions. Whatever the recogniser accepts is in the grammar with that cost, the cost is within the budget, and
  the recogniser returns on every input.
\<close>

section \<open>The language\<close>

definition plain_rune :: "string \<Rightarrow> bool" where
  "plain_rune u \<longleftrightarrow> u \<noteq> [] \<and> rune_ok u \<and> snd (decode_rune u) = length u \<and> \<not> is_control (fst (decode_rune u))"

definition escaped :: "string \<Rightarrow> bool" where
  "escaped u \<longleftrightarrow> (\<exists>c. u = [CHR 0x5C, c] \<and> c \<in> set punctuation)"

definition class_scalar :: "string \<Rightarrow> bool" where
  "class_scalar u \<longleftrightarrow> escaped u \<or> plain_rune u \<and> hd u \<noteq> CHR 0x5C"

inductive rx_class :: "string \<Rightarrow> int \<Rightarrow> bool" where
  empty: "rx_class [] 0"
| single: "class_scalar u \<Longrightarrow> rx_class s k \<Longrightarrow> rx_class (u @ s) (k + 1)"
| range: "class_scalar u \<Longrightarrow> class_scalar v \<Longrightarrow> rx_class s k \<Longrightarrow> rx_class (u @ CHR ''-'' # v @ s) (k + 2)"

definition count_ok :: "string \<Rightarrow> int \<Rightarrow> bool" where
  "count_ok ds n \<longleftrightarrow> ds \<noteq> [] \<and> list_all isDigit ds \<and> decimal_value ds = n \<and> n \<le> 1000"

inductive rx_quant :: "string \<Rightarrow> int \<Rightarrow> int \<Rightarrow> bool" where
  once: "rx_quant [] c c"
| mark: "m \<in> {CHR ''?'', CHR ''*'', CHR ''+''} \<Longrightarrow> rx_quant [m] c (c + 1)"
| exactly: "count_ok ds n \<Longrightarrow> rx_quant (CHR ''{'' # ds @ ''}'') c (c * n + 1)"
| between: "count_ok ds n \<Longrightarrow> count_ok es m \<Longrightarrow> n \<le> m \<Longrightarrow>
    rx_quant (CHR ''{'' # ds @ CHR '','' # es @ ''}'') c (c * m + 1)"

inductive rx_expr :: "string \<Rightarrow> int \<Rightarrow> bool"
  and rx_alts :: "string \<Rightarrow> int \<Rightarrow> bool"
  and rx_seq :: "string \<Rightarrow> int \<Rightarrow> bool"
  and rx_atom :: "string \<Rightarrow> int \<Rightarrow> bool" where
  expr: "rx_alts s c \<Longrightarrow> rx_expr s (c + 1)"
| final: "rx_seq s c \<Longrightarrow> rx_alts s (c + 1)"
| alt: "rx_seq s c \<Longrightarrow> rx_alts t d \<Longrightarrow> rx_alts (s @ CHR ''|'' # t) (c + 1 + 1 + d)"
| stop: "rx_seq [] 0"
| item: "rx_atom a c \<Longrightarrow> rx_quant q c d \<Longrightarrow> rx_seq s e \<Longrightarrow> rx_seq (a @ q @ s) (d + e)"
| group: "rx_expr s c \<Longrightarrow> rx_atom (CHR ''('' # s @ '')'') (c + 1)"
| bracket: "rx_class s k \<Longrightarrow> 0 < k \<Longrightarrow> rx_atom (CHR ''['' # s @ '']'') (k + 1)"
| escape: "escaped u \<Longrightarrow> rx_atom u 1"
| literal: "plain_rune u \<Longrightarrow> hd u \<notin> set ''([.^$)*+?{}'' \<Longrightarrow> hd u \<noteq> CHR 0x5C \<Longrightarrow> rx_atom u 1"

section \<open>Soundness\<close>

lemma parse_literal_Inr:
  assumes "s \<noteq> []" "parse_literal s = Inr s'"
  shows "\<exists>u. s = u @ s' \<and> plain_rune u \<and> hd u = hd s"
proof -
  obtain r n where d: "decode_rune s = (r, n)" by fastforce
  have ok: "rune_ok s" "\<not> is_control r" "s' = drop n s"
    using assms(2) d by (auto simp: parse_literal_def rune_ok_def split: if_splits)
  let ?u = "take n s"
  have n: "0 < n" "n \<le> length s" using decode_rune_width_pos [OF assms(1)] decode_rune_width_le [of s] d by auto
  have du: "decode_rune ?u = (r, n)" using decode_rune_take [OF ok(1) assms(1)] d by simp
  have "plain_rune ?u" using du ok(1,2) d n assms(1) by (auto simp: plain_rune_def rune_ok_def)
  moreover have "s = ?u @ s'" "hd ?u = hd s" using ok(3) n assms(1) by (simp_all add: hd_take)
  ultimately show ?thesis by blast
qed

lemma parseEscaped_Inr:
  assumes "parseEscapedPunctuation s = Inr (c, s')" "s \<noteq> []" "hd s = CHR 0x5C"
  shows "s = [CHR 0x5C, c] @ s' \<and> escaped [CHR 0x5C, c]"
  using assms by (cases s) (auto simp: parseEscapedPunctuation_def escaped_def containsByte_def list_ex_iff
      split: list.splits if_splits)

lemma parseClassScalar_Inr:
  assumes "s \<noteq> []" "parseClassScalar s = Inr s'"
  shows "\<exists>u. s = u @ s' \<and> class_scalar u"
proof (cases "hd s = CHR 0x5C")
  case True
  with assms show ?thesis
    by (auto simp: parseClassScalar_def result_simps class_scalar_def dest!: parseEscaped_Inr)
next
  case False
  with assms parse_literal_Inr [OF assms(1)] show ?thesis
    unfolding parseClassScalar_def class_scalar_def by (metis (no_types))
qed

lemma class_range_Inr:
  assumes "class_range s = Inr (k, s')"
  shows "k = 1 \<and> s' = s \<or> k = 2 \<and> (\<exists>v. s = CHR ''-'' # v @ s' \<and> class_scalar v)"
  using assms parseClassScalar_Inr [of "tl s" s']
  by (cases s) (auto simp: class_range_def result_simps split: if_splits)

lemma class_items_Inr:
  "class_items items s = Inr (k, s') \<Longrightarrow> \<exists>u. s = u @ s' \<and> rx_class u (k - items) \<and> items \<le> k"
proof (induction items s rule: class_items.induct)
  case (1 items s)
  show ?case
  proof (cases "s = [] \<or> hd s = CHR '']''")
    case True
    then have "class_items items s = Inr (items, s)" by (subst class_items.simps) simp
    with 1(2) show ?thesis by (auto intro: rx_class.empty)
  next
    case False
    with 1(2) have n: "\<not> (hd s = CHR ''['')" "\<not> (hd s = CHR ''-'')"
      by (auto simp: class_items.simps [of items s] split: if_splits)
    from False n 1(2) obtain s1 j s2 where p: "parseClassScalar s = Inr s1" "class_range s1 = Inr (j, s2)"
      "class_items (items + j) s2 = Inr (k, s')"
      by (auto simp: class_items.simps [of items s] split: sum.splits)
    from 1(1) [OF False n p(1) p(2) refl p(3)] obtain w where
      w: "s2 = w @ s'" "rx_class w (k - (items + j))" "items + j \<le> k" by blast
    from parseClassScalar_Inr [OF _ p(1)] False obtain u where u: "s = u @ s1" "class_scalar u" by blast
    from class_range_Inr [OF p(2)] show ?thesis
    proof
      assume j: "j = 1 \<and> s2 = s1"
      then have "rx_class (u @ w) (k - items)" using rx_class.single [OF u(2) w(2)] by simp
      then show ?thesis using u(1) w(1,3) j by (intro exI [of _ "u @ w"]) simp
    next
      assume "j = 2 \<and> (\<exists>v. s1 = CHR ''-'' # v @ s2 \<and> class_scalar v)"
      then obtain v where v: "j = 2" "s1 = CHR ''-'' # v @ s2" "class_scalar v" by blast
      then have "rx_class (u @ CHR ''-'' # v @ w) (k - items)" using rx_class.range [OF u(2) v(3) w(2)] by simp
      then show ?thesis using u(1) w(1,3) v by (intro exI [of _ "u @ CHR ''-'' # v @ w"]) simp
    qed
  qed
qed

lemma parseClass_Inr:
  assumes "parseClass s = Inr (k, s')" "s \<noteq> []" "hd s = CHR ''[''"
  shows "\<exists>u. s = u @ s' \<and> rx_atom u k"
proof -
  obtain rest where s: "s = CHR ''['' # rest" using assms(2,3) by (cases s) auto
  with assms(1) obtain items t where c: "class_items 0 rest = Inr (items, t)" "t \<noteq> []" "hd t = CHR '']''" "items \<noteq> 0"
    "k = items + 1" "s' = tl t"
    by (auto simp: parseClass_def result_simps split: list.splits if_splits)
  from class_items_Inr [OF c(1)] obtain u where u: "rest = u @ t" "rx_class u items" "0 \<le> items" by auto
  have "s = (CHR ''['' # u @ '']'') @ s'" using s u(1) c(2,3,6) by (cases t) auto
  moreover have "rx_atom (CHR ''['' # u @ '']'') k" using rx_expr_rx_alts_rx_seq_rx_atom.bracket [OF u(2)] u(3) c(4,5) by simp
  ultimately show ?thesis by blast
qed

lemma parseDecimal_Some:
  assumes "parseDecimal s = Some (n, s')" "n \<le> 1000"
  shows "\<exists>ds. s = ds @ s' \<and> count_ok ds n"
proof -
  have "s = takeWhile isDigit s @ s'" "takeWhile isDigit s \<noteq> []" "decimal_value (takeWhile isDigit s) = n"
    using assms by (auto simp: parseDecimal_def Let_def maxRegexExpanded_def split: if_splits)
  moreover have "list_all isDigit (takeWhile isDigit s)" by (auto simp: list_all_iff dest: set_takeWhileD)
  ultimately show ?thesis using assms(2) by (auto simp: count_ok_def)
qed

lemma at_byteD: "at_byte c s \<Longrightarrow> s = c # tl s"
  by (cases s) (auto simp: at_byte_def)

lemma addRegexCost_Inr: "addRegexCost a b = Inr c \<longleftrightarrow> a + b \<le> maxRegexExpanded \<and> c = a + b"
  by (auto simp: addRegexCost_def)

lemma mulRegexCost_Inr: "mulRegexCost a b = Inr c \<Longrightarrow> c = a * b"
  by (auto simp: mulRegexCost_def split: if_splits)

lemma parseRepetition_Inr:
  assumes "parseQuantifier atom (CHR ''{'' # rest) = Inr (c, s')"
  shows "\<exists>q. CHR ''{'' # rest = q @ s' \<and> rx_quant q atom c"
proof -
  from assms obtain least s1 most s2 where d: "parseDecimal rest = Some (least, s1)"
    "(if at_byte CHR '','' s1 then (case parseDecimal (tl s1) of Some (n, s2) \<Rightarrow> Inr (n, s2) | None \<Rightarrow> Inl OpenRepetition)
      else Inr (least, s1)) = Inr (most, s2)"
    "at_byte CHR ''}'' s2" "least \<le> 1000" "most \<le> 1000" "least \<le> most" "c = atom * most + 1" "s' = tl s2"
    by (auto simp: parseQuantifier_def result_simps addRegexCost_Inr split: option.splits if_splits
        dest!: mulRegexCost_Inr)
  from parseDecimal_Some [OF d(1,4)] obtain ds where ds: "rest = ds @ s1" "count_ok ds least" by blast
  have e: "s2 = CHR ''}'' # s'" using at_byteD [OF d(3)] d(8) by simp
  show ?thesis
  proof (cases "at_byte CHR '','' s1")
    case True
    with d(2) have "parseDecimal (tl s1) = Some (most, s2)" by (auto split: option.splits)
    from parseDecimal_Some [OF this d(5)] obtain es where es: "tl s1 = es @ s2" "count_ok es most" by blast
    have "rest = ds @ CHR '','' # es @ CHR ''}'' # s'" using ds(1) at_byteD [OF True] es(1) e by simp
    then show ?thesis using rx_quant.between [OF ds(2) es(2) d(6), of atom] d(7)
      by (intro exI [of _ "CHR ''{'' # ds @ CHR '','' # es @ ''}''"]) simp
  next
    case False
    with d(2) have "most = least" "s2 = s1" by auto
    then show ?thesis using rx_quant.exactly [OF ds(2), of atom] d(7) ds(1) e
      by (intro exI [of _ "CHR ''{'' # ds @ ''}''"]) simp
  qed
qed

lemma parseQuantifier_Inr:
  assumes "parseQuantifier atom s = Inr (c, s')"
  shows "\<exists>q. s = q @ s' \<and> rx_quant q atom c"
proof (cases s)
  case Nil
  with assms show ?thesis by (auto simp: parseQuantifier_def intro: rx_quant.once)
next
  case (Cons m rest)
  consider "m \<in> {CHR ''?'', CHR ''*'', CHR ''+''}" | "m = CHR ''{''"
    | "m \<notin> {CHR ''?'', CHR ''*'', CHR ''+''}" "m \<noteq> CHR ''{''" by blast
  then show ?thesis
  proof cases
    case 1
    then have "s' = rest" "c = atom + 1"
      using assms Cons by (auto simp: parseQuantifier_def result_simps addRegexCost_Inr split: if_splits)
    with rx_quant.mark [OF 1, of atom] Cons show ?thesis by (intro exI [of _ "[m]"]) simp
  next
    case 2
    with assms Cons show ?thesis by (simp add: parseRepetition_Inr)
  next
    case 3
    then have "s' = s" "c = atom" using assms Cons by (auto simp: parseQuantifier_def)
    then show ?thesis by (auto intro: rx_quant.once)
  qed
qed

lemmas rx_rules = rx_expr_rx_alts_rx_seq_rx_atom.intros

lemma parseAtom_leaf:
  assumes "s = c # rest" "c \<noteq> CHR ''(''" "parseAtom (Suc n) s = Inr (k, s')"
  shows "\<exists>u. s = u @ s' \<and> rx_atom u k"
proof -
  consider "c = CHR ''[''" | "c = CHR 0x5C" | "c \<noteq> CHR ''[''" "c \<noteq> CHR 0x5C" by blast
  then show ?thesis
  proof cases
    case 1
    with assms show ?thesis by (intro parseClass_Inr) simp_all
  next
    case 2
    with assms show ?thesis by (auto simp: result_simps dest!: parseEscaped_Inr intro: rx_rules)
  next
    case 3
    then have "parse_literal s = Inr s'" "k = 1" "c \<notin> set ''([.^$)*+?{}''"
      using assms by (auto simp: result_simps split: if_splits)
    with parse_literal_Inr [of s s'] assms(1) 3(2) show ?thesis
      by (auto intro!: rx_expr_rx_alts_rx_seq_rx_atom.literal)
  qed
qed

lemma parser_sound:
  "parseExpr n stop s = Inr (c, s') \<Longrightarrow> \<exists>u. s = u @ (case stop of None \<Rightarrow> [] | Some b \<Rightarrow> [b]) @ s' \<and> rx_expr u c"
  "parse_alternatives n stop acc s = Inr (c, s') \<Longrightarrow> \<exists>u. s = u @ s' \<and> rx_alts u (c - acc)"
  "parseSequence n stop acc s = Inr (c, s') \<Longrightarrow> \<exists>u. s = u @ s' \<and> rx_seq u (c - acc)"
  "parseAtom n s = Inr (c, s') \<Longrightarrow> \<exists>u. s = u @ s' \<and> rx_atom u c"
proof (induction n stop s and n stop acc s and n stop acc s and n s arbitrary: c s' and c s' and c s' and c s'
    rule: parseExpr_parse_alternatives_parseSequence_parseAtom.induct)
  case (2 n stop s)
  then obtain d t where d: "parse_alternatives n stop 1 s = Inr (d, t)"
    "(case stop of None \<Rightarrow> Inr (d, t) | Some b \<Rightarrow> if \<not> at_byte b t then Inl UnterminatedGroup else Inr (d, tl t)) = Inr (c, s')"
    by (auto simp: result_simps)
  from 2(1) [OF d(1)] obtain u where u: "s = u @ t" "rx_alts u (d - 1)" by blast
  have t: "t = (case stop of None \<Rightarrow> [] | Some b \<Rightarrow> [b]) @ s'" "c = d"
    using d(2) by (auto split: option.splits if_splits dest: at_byteD)
  have "rx_expr u c" using rx_expr_rx_alts_rx_seq_rx_atom.expr [OF u(2)] t(2) by simp
  with u(1) t(1) show ?case by blast
next
  case (4 n stop acc s)
  then obtain q t where q: "parseSequence n stop 1 s = Inr (q, t)" by (auto simp: result_simps)
  from 4(1) [OF q] obtain u where u: "s = u @ t" "rx_seq u (q - 1)" by blast
  show ?case
  proof (cases "at_byte CHR ''|'' t")
    case False
    then have "s' = t" "c = acc + q" using 4(3) q by (auto simp: result_simps addRegexCost_Inr)
    then show ?thesis using u rx_expr_rx_alts_rx_seq_rx_atom.final [OF u(2)] by auto
  next
    case True
    then have rec: "addRegexCost acc q = Inr (acc + q)" "addRegexCost (acc + q) 1 = Inr (acc + q + 1)"
      "parse_alternatives n stop (acc + q + 1) (tl t) = Inr (c, s')"
      using 4(3) q by (auto simp: result_simps addRegexCost_Inr)
    from 4(2) [OF q refl rec(1) _ rec(2) rec(3)] True obtain v where
      v: "tl t = v @ s'" "rx_alts v (c - (acc + q + 1))" by auto
    have "s = (u @ CHR ''|'' # v) @ s'" using u(1) at_byteD [OF True] v(1) by simp
    moreover have "rx_alts (u @ CHR ''|'' # v) (c - acc)"
      using rx_expr_rx_alts_rx_seq_rx_atom.alt [OF u(2) v(2)] by (simp add: algebra_simps)
    ultimately show ?thesis by blast
  qed
next
  case (6 n stop acc s)
  show ?case
  proof (cases "s = [] \<or> hd s = CHR ''|'' \<or> stop = Some (hd s)")
    case True
    with 6(3) have "s' = s" "c = acc" by auto
    then show ?thesis by (auto intro: rx_rules)
  next
    case False
    with 6(3) obtain k s1 d s2 where p: "parseAtom n s = Inr (k, s1)" "parseQuantifier k s1 = Inr (d, s2)"
      "addRegexCost acc d = Inr (acc + d)" "parseSequence n stop (acc + d) s2 = Inr (c, s')"
      by (auto simp: result_simps addRegexCost_Inr)
    from 6(1) [OF False p(1)] obtain u where u: "s = u @ s1" "rx_atom u k" by blast
    from parseQuantifier_Inr [OF p(2)] obtain q where q: "s1 = q @ s2" "rx_quant q k d" by blast
    from 6(2) [OF False p(1) refl p(2) refl p(3) p(4)] obtain w where
      w: "s2 = w @ s'" "rx_seq w (c - (acc + d))" by blast
    have "rx_seq (u @ q @ w) (c - acc)"
      using rx_expr_rx_alts_rx_seq_rx_atom.item [OF u(2) q(2) w(2)] by (simp add: algebra_simps)
    then show ?thesis using u(1) q(1) w(1) by (intro exI [of _ "u @ q @ w"]) simp
  qed
next
  case (8 n s)
  then obtain b rest where s: "s = b # rest" by (cases s) auto
  show ?case
  proof (cases "b = CHR ''(''")
    case False
    with parseAtom_leaf [OF s] 8(2) show ?thesis by blast
  next
    case True
    with 8(2) s obtain k where k: "\<not> at_byte CHR ''?'' rest" "parseExpr n (Some CHR '')'') rest = Inr (k, s')" "c = k + 1"
      by (auto simp: result_simps addRegexCost_Inr split: if_splits)
    from 8(1) [OF s True k(1,2)] obtain u where u: "rest = u @ '')'' @ s'" "rx_expr u k" by auto
    have "s = (CHR ''('' # u @ '')'') @ s'" using s True u(1) by simp
    moreover have "rx_atom (CHR ''('' # u @ '')'') c" using rx_expr_rx_alts_rx_seq_rx_atom.group [OF u(2)] k(3) by simp
    ultimately show ?thesis by blast
  qed
qed simp_all

section \<open>The recursion ends\<close>

lemma consumed_le: "s = u @ s' \<Longrightarrow> length s' \<le> length s"
  by simp

lemma rx_atom_nonempty: "rx_atom u c \<Longrightarrow> u \<noteq> []"
  by (auto elim: rx_atom.cases simp: escaped_def plain_rune_def)

lemma atom_shrinks: "parseAtom n s = Inr (c, s') \<Longrightarrow> length s' < length s"
  using parser_sound(4) [of n s c s'] rx_atom_nonempty by fastforce

lemma lexical_fuel:
  "parse_literal s \<noteq> Inl OutOfFuel" "parseEscapedPunctuation s \<noteq> Inl OutOfFuel"
  "parseClassScalar s \<noteq> Inl OutOfFuel" "class_range s \<noteq> Inl OutOfFuel" "class_items items s \<noteq> Inl OutOfFuel"
  "parseClass s \<noteq> Inl OutOfFuel" "parseQuantifier a s \<noteq> Inl OutOfFuel" "addRegexCost a b \<noteq> Inl OutOfFuel"
proof -
  show lit: "parse_literal s \<noteq> Inl OutOfFuel" for s by (auto simp: parse_literal_def split: prod.splits)
  show esc: "parseEscapedPunctuation s \<noteq> Inl OutOfFuel" for s
    by (auto simp: parseEscapedPunctuation_def split: list.splits)
  show sc: "parseClassScalar s \<noteq> Inl OutOfFuel" for s
    using lit esc by (auto simp: parseClassScalar_def result_simps)
  show rng: "class_range s \<noteq> Inl OutOfFuel" for s
    using sc by (auto simp: class_range_def result_simps split: list.splits)
  show items: "class_items items s \<noteq> Inl OutOfFuel" for items s
  proof (induction items s rule: class_items.induct)
    case (1 items s)
    then show ?case
      using sc rng by (auto simp: class_items.simps [of items s] split: sum.splits if_splits)
  qed
  show add: "addRegexCost a b \<noteq> Inl OutOfFuel" for a b by (simp add: addRegexCost_def)
  have mul: "mulRegexCost a b \<noteq> Inl OutOfFuel" for a b by (simp add: mulRegexCost_def)
  show "parseClass s \<noteq> Inl OutOfFuel"
    using items by (auto simp: parseClass_def result_simps split: list.splits if_splits)
  show "parseQuantifier a s \<noteq> Inl OutOfFuel"
    using add mul by (auto simp: parseQuantifier_def result_simps split: list.splits if_splits option.splits)
qed

lemma parser_fuel:
  "4 * length s + 4 \<le> n \<Longrightarrow> parseExpr n stop s \<noteq> Inl OutOfFuel"
  "4 * length s + 3 \<le> n \<Longrightarrow> parse_alternatives n stop acc s \<noteq> Inl OutOfFuel"
  "4 * length s + 2 \<le> n \<Longrightarrow> parseSequence n stop acc s \<noteq> Inl OutOfFuel"
  "4 * length s + 1 \<le> n \<Longrightarrow> s \<noteq> [] \<Longrightarrow> parseAtom n s \<noteq> Inl OutOfFuel"
proof (induction n stop s and n stop acc s and n stop acc s and n s
    rule: parseExpr_parse_alternatives_parseSequence_parseAtom.induct)
  case (2 n stop s)
  then show ?case by (auto simp: result_simps split: option.splits)
next
  case (4 n stop acc s)
  have "parseSequence n stop 1 s \<noteq> Inl OutOfFuel" using 4 by simp
  moreover have "parse_alternatives n stop a (tl t) \<noteq> Inl OutOfFuel"
    if "parseSequence n stop 1 s = Inr (q, t)" "addRegexCost acc q = Inr a'" "addRegexCost a' 1 = Inr a"
      "at_byte CHR ''|'' t" for q t a a'
  proof -
    have "length t \<le> length s" using parser_sound(3) [OF that(1)] by auto
    moreover have "length (tl t) < length t" using at_byteD [OF that(4)] by (cases t) auto
    ultimately show ?thesis using 4(2) [OF that(1) refl that(2) _ that(3)] that(4) 4(3) by simp
  qed
  ultimately show ?case using lexical_fuel(8) by (auto simp: result_simps)
next
  case (6 n stop acc s)
  show ?case
  proof (cases "s = [] \<or> hd s = CHR ''|'' \<or> stop = Some (hd s)")
    case False
    have "parseAtom n s \<noteq> Inl OutOfFuel" using 6(1) [OF False] 6(3) False by simp
    moreover have "parseSequence n stop a s2 \<noteq> Inl OutOfFuel"
      if "parseAtom n s = Inr (k, s1)" "parseQuantifier k s1 = Inr (d, s2)" "addRegexCost acc d = Inr a" for k s1 d s2 a
    proof -
      have "length s2 < length s"
        using atom_shrinks [OF that(1)] parseQuantifier_Inr [OF that(2)] by auto
      then show ?thesis using 6(2) [OF False that(1) refl that(2) refl that(3)] 6(3) by simp
    qed
    ultimately show ?thesis using False lexical_fuel(7,8) by (auto simp: result_simps)
  qed auto
next
  case (8 n s)
  then obtain b rest where s: "s = b # rest" by (cases s) auto
  show ?case
  proof (cases "b = CHR ''('' \<and> \<not> at_byte CHR ''?'' rest")
    case True
    then have "parseExpr n (Some CHR '')'') rest \<noteq> Inl OutOfFuel" using 8(1) [OF s] 8(2) s by simp
    with True s show ?thesis using lexical_fuel(8) by (auto simp: result_simps)
  next
    case False
    with s show ?thesis using lexical_fuel(1,2,6) by (auto simp: result_simps split: if_splits)
  qed
qed simp_all

section \<open>Properties\<close>

text \<open>Every accepted pattern is a sentence of the portable language, and the returned number is the
  instruction count of that sentence, within the compiled-size budget.\<close>

theorem accepted_pattern_in_language:
  assumes "validatePortablePattern p = Inr c"
  shows "utf8_valid p \<and> rx_expr p c \<and> c \<le> maxRegexExpanded"
proof -
  obtain cost where "utf8_valid p" "parseExpr (pattern_fuel p) None p = Inr (cost, [])" "c = cost" "c \<le> maxRegexExpanded"
    using assms by (auto simp: validatePortablePattern_def result_simps split: if_splits)
  with parser_sound(1) [of "pattern_fuel p" None p cost "[]"] show ?thesis by auto
qed

theorem accepted_pattern_in_language_witness: "rx_expr ''(a|[0-9]{2,3})*'' (projr (validatePortablePattern ''(a|[0-9]{2,3})*''))"
proof -
  have "validatePortablePattern ''(a|[0-9]{2,3})*'' = Inr (projr (validatePortablePattern ''(a|[0-9]{2,3})*''))"
    by code_simp
  from accepted_pattern_in_language [OF this] show ?thesis by blast
qed

text \<open>The recogniser answers on every byte string: its recursion is bounded by the length of the
  pattern.\<close>

theorem pattern_check_total: "validatePortablePattern p \<noteq> Inl OutOfFuel"
  using parser_fuel(1) [of p "pattern_fuel p" None]
  by (auto simp: validatePortablePattern_def pattern_fuel_def result_simps split: if_splits)

end
