(* ===== verification/Schema.thy ===== *)
theory Schema
  imports Pattern_Props
begin

text \<open>
  Tool schemas: \<^verbatim>\<open>src/core/tools/schema.go\<close>. A JSON Schema subset is checked and compiled once, then arguments are
  validated against it under an evaluation budget.

  Numbers are exact rationals (\<^verbatim>\<open>math/big\<close>), read from the lexemes that the JSON parser yields. Regular expressions come
  from outside the sources (\<^verbatim>\<open>regexp\<close>): \<open>regexps\<close> says which patterns compile and which strings they match. A context
  may be cancelled at any moment: \<open>polls\<close> says for the n-th time the validator looks whether it finds the context done.
  Go maps are association lists with one entry per key. The fields \<^verbatim>\<open>raw\<close> and \<^verbatim>\<open>nodes\<close> of the compiler are written
  and never read, and \<^verbatim>\<open>mark\<close> is only called with its flag set; they are left out.
\<close>

section \<open>Numbers\<close>

text \<open>\<^verbatim>\<open>big.Rat.SetString\<close> on a JSON number.\<close>

definition ratFromLexeme :: "string \<Rightarrow> rat option" where
  "ratFromLexeme lexeme =
     (let (sg, s1) = scan_sign lexeme in
      case scan_int s1 of Inl _ \<Rightarrow> None | Inr (ip, s2) \<Rightarrow>
      (case scan_frac s2 of Inl _ \<Rightarrow> None | Inr (fr, s3) \<Rightarrow>
      (case scan_exp s3 of Inl _ \<Rightarrow> None | Inr (ex, e, rest) \<Rightarrow>
         if rest \<noteq> [] then None
         else
           let m = (if sg = [] then 1 else - 1) * decimal_value (ip @ tl fr);
               k = (case e of None \<Rightarrow> 0 | Some v \<Rightarrow> v) - int (length (tl fr))
           in Some (if 0 \<le> k then of_int (m * 10 ^ nat k) else of_int m / of_int (10 ^ nat (- k))))))"

definition rat_num :: "rat \<Rightarrow> int" where "rat_num r = fst (quotient_of r)"
definition rat_den :: "rat \<Rightarrow> int" where "rat_den r = snd (quotient_of r)"
definition rat_is_int :: "rat \<Rightarrow> bool" where "rat_is_int r \<longleftrightarrow> rat_den r = 1"

text \<open>\<^verbatim>\<open>big.Int.BitLen\<close> of a magnitude.\<close>

fun bit_len :: "nat \<Rightarrow> nat" where
  "bit_len n = (if n = 0 then 0 else Suc (bit_len (n div 2)))"

declare bit_len.simps [simp del]

text \<open>\<^verbatim>\<open>big.Rat.RatString\<close>.\<close>

fun nat_string :: "nat \<Rightarrow> string" where
  "nat_string n = (if n < 10 then [char_of (48 + n)] else nat_string (n div 10) @ [char_of (48 + n mod 10)])"

declare nat_string.simps [simp del]

definition int_string :: "int \<Rightarrow> string" where
  "int_string n = (if n < 0 then CHR ''-'' # nat_string (nat (- n)) else nat_string (nat n))"

definition rat_string :: "rat \<Rightarrow> string" where
  "rat_string r = int_string (rat_num r) @ (if rat_is_int r then [] else CHR ''/'' # int_string (rat_den r))"

section \<open>Compiled schemas\<close>

record regexps =
  rx_compiles :: "string \<Rightarrow> bool"
  rx_matches :: "string \<Rightarrow> string \<Rightarrow> bool"

text \<open>The fields of \<^verbatim>\<open>compiledSchema\<close> that hold no schema; a pattern is kept as its text.\<close>

record schema_facets =
  cs_acceptAll :: bool
  cs_rejectAll :: bool
  cs_regexCost :: int
  cs_typ :: string
  cs_enum :: "value list"
  cs_const :: "value option"
  cs_required :: "string list"
  cs_additionalFalse :: bool
  cs_minProperties :: "int option"
  cs_maxProperties :: "int option"
  cs_minItems :: "int option"
  cs_maxItems :: "int option"
  cs_minLength :: "int option"
  cs_maxLength :: "int option"
  cs_pattern :: "string option"
  cs_minimum :: "rat option"
  cs_maximum :: "rat option"
  cs_exclusiveMinimum :: "rat option"
  cs_exclusiveMaximum :: "rat option"
  cs_multipleOf :: "rat option"

datatype compiled_schema = CompiledSchema
  (cs_facets: schema_facets)
  (cs_properties: "(string \<times> compiled_schema) list")
  (cs_additional: "compiled_schema option")
  (cs_items: "compiled_schema option")

definition no_facets :: schema_facets where
  "no_facets = \<lparr>cs_acceptAll = False, cs_rejectAll = False, cs_regexCost = 0, cs_typ = [], cs_enum = [], cs_const = None,
     cs_required = [], cs_additionalFalse = False, cs_minProperties = None, cs_maxProperties = None, cs_minItems = None,
     cs_maxItems = None, cs_minLength = None, cs_maxLength = None, cs_pattern = None, cs_minimum = None,
     cs_maximum = None, cs_exclusiveMinimum = None, cs_exclusiveMaximum = None, cs_multipleOf = None\<rparr>"

definition empty_schema :: compiled_schema where
  "empty_schema = CompiledSchema no_facets [] None None"

definition upd_facets :: "(schema_facets \<Rightarrow> schema_facets) \<Rightarrow> compiled_schema \<Rightarrow> compiled_schema" where
  "upd_facets f s = CompiledSchema (f (cs_facets s)) (cs_properties s) (cs_additional s) (cs_items s)"

definition put_property :: "string \<Rightarrow> compiled_schema \<Rightarrow> compiled_schema \<Rightarrow> compiled_schema" where
  "put_property k child s = CompiledSchema (cs_facets s) (gput k child (cs_properties s)) (cs_additional s) (cs_items s)"

datatype schema_error =
    SchemaJSON json_error | RootObject | DialectURI | RootType | RootRef | GraphDepth | GraphNodes | RootDialectOnly
  | UnsupportedKeyword string | MemberBudget | KeywordObject string | KeywordSchema string | CyclicRef string
  | ExpectedSchema string | PropertyBounds | ItemBounds | LengthBounds | NumericBounds | AnnotationString string
  | AnnotationBool string | ExamplesArray | TypeString | UnknownType string | EnumScalars | EnumItem | EnumUnique
  | ConstScalar | RequiredArray | RequiredString | RequiredUnique | TupleItems | PatternString | PatternBytes
  | PatternFault pattern_error | PatternTotal | PatternCompile | NumberKeyword string | NonNegative string | TooLarge string
  | MultiplePositive | BadLexeme string | KeyError json_error

record compiler =
  sc_compiled :: "(string, compiled_schema option) gmap"
  sc_members :: int
  sc_graph :: int
  sc_regex :: int

definition maxSchemaRawDepth :: int where "maxSchemaRawDepth = 128"
definition maxSchemaRawNodes :: int where "maxSchemaRawNodes = 16384"
definition maxSchemaGraphDepth :: int where "maxSchemaGraphDepth = 64"
definition maxSchemaGraphNodes :: int where "maxSchemaGraphNodes = 4096"
definition maxSchemaMembers :: int where "maxSchemaMembers = 4096"
definition maxRegexBytes :: int where "maxRegexBytes = 1024"
definition maxEvalSteps :: int where "maxEvalSteps = 1048576"
definition maxEvalScanBytes :: int where "maxEvalScanBytes = 67108864"

definition draft202012 :: string where "draft202012 = ''https://json-schema.org/draft/2020-12/schema''"

definition escapePointer :: "string \<Rightarrow> string" where
  "escapePointer s = concat (map (\<lambda>c. if c = CHR ''/'' then ''~1'' else [c])
     (concat (map (\<lambda>c. if c = CHR ''~'' then ''~0'' else [c]) s)))"

fun isScalar :: "value \<Rightarrow> bool" where
  "isScalar VNull = True"
| "isScalar (VBool b) = True"
| "isScalar (VNumber n) = True"
| "isScalar (VString s) = True"
| "isScalar _ = False"

section \<open>Marking the schema graph\<close>

definition ignored_keyword :: "string \<Rightarrow> bool" where
  "ignored_keyword k \<longleftrightarrow> k \<in> {''type'', ''enum'', ''const'', ''required'', ''minProperties'', ''maxProperties'',
     ''minItems'', ''maxItems'', ''minLength'', ''maxLength'', ''pattern'',
     ''minimum'', ''maximum'', ''exclusiveMinimum'', ''exclusiveMaximum'', ''multipleOf'',
     ''title'', ''description'', ''$comment'', ''default'', ''examples'', ''deprecated'',
     ''readOnly'', ''writeOnly'', ''format'', ''contentEncoding'', ''contentMediaType''}"

lemma member_size: "(k, w) \<in> set ms \<Longrightarrow> size (w :: value) < size (VObject ms)"
  by (induction ms) auto

text \<open>The loops over members are folds that thread the compiler.\<close>

function (sequential) mark :: "string \<Rightarrow> value \<Rightarrow> int \<Rightarrow> compiler \<Rightarrow> schema_error + compiler"
  and walkKeyword :: "string \<Rightarrow> int \<Rightarrow> compiler \<Rightarrow> string \<times> value \<Rightarrow> schema_error + compiler" where
  "mark ptr val depth c =
     (if depth > maxSchemaGraphDepth then Inl GraphDepth
      else if sc_graph c \<ge> maxSchemaGraphNodes then Inl GraphNodes
      else
        let c1 = c\<lparr>sc_graph := sc_graph c + 1\<rparr> in
        case val of
          VObject ms \<Rightarrow> rfold (\<lambda>c m. walkKeyword ptr (depth + 1) c m) c1 ms
        | _ \<Rightarrow> Inr c1)"
| "walkKeyword parent depth c (key, val) =
     (if key = ''$schema'' then (if parent \<noteq> ''#'' then Inl RootDialectOnly else Inr c)
      else if key \<in> {''$id'', ''$anchor'', ''$dynamicAnchor'', ''$dynamicRef'', ''$vocabulary'', ''$ref''}
        then Inl (UnsupportedKeyword key)
      else if key = ''$defs'' \<or> key = ''properties'' then
        (case val of
           VObject ms \<Rightarrow> rfold (\<lambda>c m.
             if sc_members c + 1 > maxSchemaMembers then Inl MemberBudget
             else mark (parent @ ''/'' @ escapePointer key @ ''/'' @ escapePointer (fst m)) (snd m) depth
               (c\<lparr>sc_members := sc_members c + 1\<rparr>)) c ms
         | _ \<Rightarrow> Inl (KeywordObject key))
      else if key = ''items'' \<or> key = ''additionalProperties'' \<or> key = ''contentSchema'' then
        (case val of
           VBool b \<Rightarrow> if key = ''additionalProperties'' then Inr c
             else mark (parent @ ''/'' @ escapePointer key) val depth c
         | VObject ms \<Rightarrow> mark (parent @ ''/'' @ escapePointer key) val depth c
         | _ \<Rightarrow> Inl (KeywordSchema key))
      else if ignored_keyword key then Inr c
      else Inl (UnsupportedKeyword key))"
  by pat_completeness auto
termination
proof (relation "measure (case_sum (\<lambda>(p, v, d, c). 2 * size v) (\<lambda>(p, d, c, k, v). 2 * size v + 1))", goal_cases)
  case 1
  show ?case by simp
next
  case (2 ptr val depth c x ms s m)
  then show ?case using member_size [of "fst m" "snd m" ms] by (cases m) auto
next
  case (3 parent depth c key val ms s m)
  then show ?case using member_size [of "fst m" "snd m" ms] by (cases m) auto
qed simp_all

declare mark.simps [simp del] walkKeyword.simps [simp del]

section \<open>Compiling\<close>

fun value_kind :: "value \<Rightarrow> nat" where
  "value_kind VNull = 1"
| "value_kind (VBool b) = 2"
| "value_kind (VNumber n) = 3"
| "value_kind (VString s) = 4"
| "value_kind (VArray vs) = 5"
| "value_kind (VObject ms) = 6"
| "value_kind VInvalid = 0"

definition scalarEqualityKey :: "value \<Rightarrow> schema_error + string" where
  "scalarEqualityKey v =
     (case v of
        VNumber n \<Rightarrow> (case ratFromLexeme n of None \<Rightarrow> Inl (BadLexeme n) | Some r \<Rightarrow> Inr (''number:'' @ rat_string r))
      | _ \<Rightarrow> (case CanonicalValue v of Inl e \<Rightarrow> Inl (KeyError e)
                | Inr raw \<Rightarrow> Inr (nat_string (value_kind v) @ '':'' @ raw)))"

definition requireNumber :: "string \<Rightarrow> value \<Rightarrow> schema_error + rat" where
  "requireNumber name v =
     (case v of
        VNumber n \<Rightarrow> (case ratFromLexeme n of None \<Rightarrow> Inl (BadLexeme n) | Some r \<Rightarrow> Inr r)
      | _ \<Rightarrow> Inl (NumberKeyword name))"

definition requireNonNegInt :: "string \<Rightarrow> value \<Rightarrow> schema_error + int" where
  "requireNonNegInt name v =
     rbind (requireNumber name v) (\<lambda>r.
       if \<not> rat_is_int r \<or> r < 0 then Inl (NonNegative name)
       else if rat_num r > max_int64 then Inl (TooLarge name)
       else Inr (rat_num r))"

text \<open>The two loops that collect items and reject repeated ones.\<close>

fun enum_items :: "string list \<Rightarrow> value list \<Rightarrow> schema_error + value list" where
  "enum_items seen [] = Inr []"
| "enum_items seen (v # vs) =
     (if \<not> isScalar v then Inl EnumItem
      else rbind (scalarEqualityKey v) (\<lambda>key.
        if key \<in> set seen then Inl EnumUnique
        else rbind (enum_items (key # seen) vs) (\<lambda>items. Inr (v # items))))"

fun required_items :: "string list \<Rightarrow> int \<Rightarrow> value list \<Rightarrow> schema_error + string list \<times> int" where
  "required_items seen members [] = Inr ([], members)"
| "required_items seen members (v # vs) =
     (if members + 1 > maxSchemaMembers then Inl MemberBudget
      else case v of
        VString s \<Rightarrow>
          if s \<in> set seen then Inl RequiredUnique
          else rbind (required_items (s # seen) (members + 1) vs) (\<lambda>(items, n). Inr (s # items, n))
      | _ \<Rightarrow> Inl RequiredString)"

definition known_types :: "string list" where
  "known_types = [''object'', ''array'', ''string'', ''number'', ''integer'', ''boolean'', ''null'']"

definition annotation_strings :: "string list" where
  "annotation_strings = [''title'', ''description'', ''$comment'', ''format'', ''contentEncoding'', ''contentMediaType'']"

definition annotation_bools :: "string list" where
  "annotation_bools = [''deprecated'', ''readOnly'', ''writeOnly'']"

text \<open>The keywords of \<^verbatim>\<open>applyKeyword\<close> that hold no schema: they change the facets and the counters.\<close>

definition patternKeyword :: "regexps \<Rightarrow> schema_facets \<Rightarrow> value \<Rightarrow> compiler \<Rightarrow> schema_error + schema_facets \<times> compiler" where
  "patternKeyword X f val c =
     (case val of
        VString p \<Rightarrow>
          if int (length p) > maxRegexBytes then Inl PatternBytes
          else (case validatePortablePattern p of
            Inl e \<Rightarrow> Inl (PatternFault e)
          | Inr cost \<Rightarrow>
              if sc_regex c > maxRegexTotal - cost then Inl PatternTotal
              else if \<not> rx_compiles X p then Inl PatternCompile
              else Inr (f\<lparr>cs_pattern := Some p\<rparr>, c\<lparr>sc_regex := sc_regex c + cost\<rparr>))
      | _ \<Rightarrow> Inl PatternString)"

definition facetKeyword :: "regexps \<Rightarrow> schema_facets \<Rightarrow> string \<Rightarrow> value \<Rightarrow> compiler
    \<Rightarrow> schema_error + schema_facets \<times> compiler" where
  "facetKeyword X f key val c =
     (if key = ''$schema'' then (if val \<noteq> VString draft202012 then Inl DialectURI else Inr (f, c))
      else if key \<in> set annotation_strings then
        (case val of VString _ \<Rightarrow> Inr (f, c) | _ \<Rightarrow> Inl (AnnotationString key))
      else if key \<in> set annotation_bools then
        (case val of VBool _ \<Rightarrow> Inr (f, c) | _ \<Rightarrow> Inl (AnnotationBool key))
      else if key = ''examples'' then (case val of VArray _ \<Rightarrow> Inr (f, c) | _ \<Rightarrow> Inl ExamplesArray)
      else if key \<in> {''default'', ''contentSchema'', ''$defs''} then Inr (f, c)
      else if key = ''type'' then
        (case val of
           VString t \<Rightarrow> if t \<in> set known_types then Inr (f\<lparr>cs_typ := t\<rparr>, c) else Inl (UnknownType t)
         | _ \<Rightarrow> Inl TypeString)
      else if key = ''enum'' then
        (case val of
           VArray vs \<Rightarrow>
             if vs = [] \<or> length vs > 128 then Inl EnumScalars
             else rbind (enum_items [] vs) (\<lambda>items. Inr (f\<lparr>cs_enum := cs_enum f @ items\<rparr>, c))
         | _ \<Rightarrow> Inl EnumScalars)
      else if key = ''const'' then (if \<not> isScalar val then Inl ConstScalar else Inr (f\<lparr>cs_const := Some val\<rparr>, c))
      else if key = ''required'' then
        (case val of
           VArray vs \<Rightarrow> rbind (required_items [] (sc_members c) vs) (\<lambda>(items, n).
             Inr (f\<lparr>cs_required := cs_required f @ items\<rparr>, c\<lparr>sc_members := n\<rparr>))
         | _ \<Rightarrow> Inl RequiredArray)
      else if key = ''minProperties'' then rbind (requireNonNegInt key val) (\<lambda>n. Inr (f\<lparr>cs_minProperties := Some n\<rparr>, c))
      else if key = ''maxProperties'' then rbind (requireNonNegInt key val) (\<lambda>n. Inr (f\<lparr>cs_maxProperties := Some n\<rparr>, c))
      else if key = ''minItems'' then rbind (requireNonNegInt key val) (\<lambda>n. Inr (f\<lparr>cs_minItems := Some n\<rparr>, c))
      else if key = ''maxItems'' then rbind (requireNonNegInt key val) (\<lambda>n. Inr (f\<lparr>cs_maxItems := Some n\<rparr>, c))
      else if key = ''minLength'' then rbind (requireNonNegInt key val) (\<lambda>n. Inr (f\<lparr>cs_minLength := Some n\<rparr>, c))
      else if key = ''maxLength'' then rbind (requireNonNegInt key val) (\<lambda>n. Inr (f\<lparr>cs_maxLength := Some n\<rparr>, c))
      else if key = ''pattern'' then patternKeyword X f val c
      else if key = ''minimum'' then rbind (requireNumber key val) (\<lambda>r. Inr (f\<lparr>cs_minimum := Some r\<rparr>, c))
      else if key = ''maximum'' then rbind (requireNumber key val) (\<lambda>r. Inr (f\<lparr>cs_maximum := Some r\<rparr>, c))
      else if key = ''exclusiveMinimum'' then rbind (requireNumber key val) (\<lambda>r. Inr (f\<lparr>cs_exclusiveMinimum := Some r\<rparr>, c))
      else if key = ''exclusiveMaximum'' then rbind (requireNumber key val) (\<lambda>r. Inr (f\<lparr>cs_exclusiveMaximum := Some r\<rparr>, c))
      else if key = ''multipleOf'' then
        rbind (requireNumber key val) (\<lambda>r. if r \<le> 0 then Inl MultiplePositive else Inr (f\<lparr>cs_multipleOf := Some r\<rparr>, c))
      else Inl (UnsupportedKeyword key))"

definition lower_bounds :: "schema_facets \<Rightarrow> (rat \<times> bool) list" where
  "lower_bounds f = (case cs_minimum f of None \<Rightarrow> [] | Some r \<Rightarrow> [(r, False)])
     @ (case cs_exclusiveMinimum f of None \<Rightarrow> [] | Some r \<Rightarrow> [(r, True)])"

definition upper_bounds :: "schema_facets \<Rightarrow> (rat \<times> bool) list" where
  "upper_bounds f = (case cs_maximum f of None \<Rightarrow> [] | Some r \<Rightarrow> [(r, False)])
     @ (case cs_exclusiveMaximum f of None \<Rightarrow> [] | Some r \<Rightarrow> [(r, True)])"

definition validateNumericBounds :: "schema_facets \<Rightarrow> schema_error + unit" where
  "validateNumericBounds f =
     guard (\<not> list_ex (\<lambda>(lo, lx). list_ex (\<lambda>(up, ux). lo > up \<or> lo = up \<and> (lx \<or> ux)) (upper_bounds f)) (lower_bounds f))
       NumericBounds"

definition above :: "int option \<Rightarrow> int option \<Rightarrow> bool" where
  "above lo hi = (case (lo, hi) of (Some a, Some b) \<Rightarrow> a > b | _ \<Rightarrow> False)"

definition check_facets :: "schema_facets \<Rightarrow> schema_error + unit" where
  "check_facets f =
     (if above (cs_minProperties f) (cs_maxProperties f) then Inl PropertyBounds
      else if above (cs_minItems f) (cs_maxItems f) then Inl ItemBounds
      else if above (cs_minLength f) (cs_maxLength f) then Inl LengthBounds
      else validateNumericBounds f)"

text \<open>\<^verbatim>\<open>compile\<close> remembers each pointer, with \<^verbatim>\<open>nil\<close> while the schema at it is being compiled.\<close>

function (sequential) compile :: "regexps \<Rightarrow> string \<Rightarrow> value \<Rightarrow> int \<Rightarrow> compiler \<Rightarrow> schema_error + compiled_schema \<times> compiler"
  and compileBody :: "regexps \<Rightarrow> string \<Rightarrow> value \<Rightarrow> int \<Rightarrow> compiler \<Rightarrow> schema_error + compiled_schema \<times> compiler"
  and applyKeyword :: "regexps \<Rightarrow> string \<Rightarrow> int \<Rightarrow> compiled_schema \<times> compiler \<Rightarrow> string \<times> value
    \<Rightarrow> schema_error + compiled_schema \<times> compiler" where
  "compile X ptr val depth c =
     (if depth > maxSchemaGraphDepth then Inl GraphDepth
      else case map_of (sc_compiled c) ptr of
        Some None \<Rightarrow> Inl (CyclicRef ptr)
      | Some (Some got) \<Rightarrow> Inr (got, c)
      | None \<Rightarrow>
          rbind (compileBody X ptr val depth (c\<lparr>sc_compiled := gput ptr None (sc_compiled c)\<rparr>)) (\<lambda>(out, c1).
            Inr (out, c1\<lparr>sc_compiled := gput ptr (Some out) (sc_compiled c1)\<rparr>)))"
| "compileBody X ptr val depth c =
     (case val of
        VBool b \<Rightarrow> Inr (upd_facets (if b then cs_acceptAll_update (\<lambda>_. True) else cs_rejectAll_update (\<lambda>_. True)) empty_schema, c)
      | VObject ms \<Rightarrow>
          if ''$ref'' \<in> fst ` set ms then Inl (UnsupportedKeyword ''$ref'')
          else rbind (rfold (\<lambda>st m. applyKeyword X ptr depth st m) (empty_schema, c) ms) (\<lambda>(out, c1).
            rbind (check_facets (cs_facets out)) (\<lambda>_. Inr (out, c1)))
      | _ \<Rightarrow> Inl (ExpectedSchema ptr))"
| "applyKeyword X ptr depth (CompiledSchema f ps ad it, c) (key, val) =
     (if key = ''properties'' then
        (case val of
           VObject ms \<Rightarrow> rfold (\<lambda>st m.
             rbind (compile X (ptr @ ''/properties/'' @ escapePointer (fst m)) (snd m) (depth + 1) (snd st)) (\<lambda>(child, c1).
               Inr (put_property (fst m) child (fst st), c1)))
             (CompiledSchema f ps ad it, c) ms
         | _ \<Rightarrow> Inl (KeywordObject key))
      else if key = ''additionalProperties'' then
        (case val of
           VBool b \<Rightarrow> Inr (CompiledSchema (f\<lparr>cs_additionalFalse := \<not> b\<rparr>) ps ad it, c)
         | _ \<Rightarrow> rbind (compile X (ptr @ ''/additionalProperties'') val (depth + 1) c) (\<lambda>(child, c1).
             Inr (CompiledSchema f ps (Some child) it, c1)))
      else if key = ''items'' then
        (case val of
           VArray _ \<Rightarrow> Inl TupleItems
         | _ \<Rightarrow> rbind (compile X (ptr @ ''/items'') val (depth + 1) c) (\<lambda>(child, c1).
             Inr (CompiledSchema f ps ad (Some child), c1)))
      else rbind (facetKeyword X f key val c) (\<lambda>(f', c1). Inr (CompiledSchema f' ps ad it, c1)))"
  by pat_completeness auto
termination
proof (relation "measure (case_sum (\<lambda>(X, p, v, d, c). 3 * size v + 1)
    (case_sum (\<lambda>(X, p, v, d, c). 3 * size v) (\<lambda>(X, p, d, s, k, v). 3 * size v + 2)))", goal_cases)
  case (3 X ptr val depth c ms st m)
  then show ?case using member_size [of "fst m" "snd m" ms] by (cases m) auto
next
  case (4 X ptr depth f ps ad it c key val ms st m)
  then show ?case using member_size [of "fst m" "snd m" ms] by (cases m) auto
qed simp_all

declare compile.simps [simp del] compileBody.simps [simp del] applyKeyword.simps [simp del]

definition checkRoot :: "value \<Rightarrow> schema_error + unit" where
  "checkRoot v =
     (case v of
        VObject ms \<Rightarrow>
          rbind (case map_of ms ''$schema'' of Some s \<Rightarrow> guard (s = VString draft202012) DialectURI | None \<Rightarrow> Inr ()) (\<lambda>_.
            if map_of ms ''type'' \<noteq> Some (VString ''object'') then Inl RootType
            else guard (map_of ms ''$ref'' = None) RootRef)
      | _ \<Rightarrow> Inl RootObject)"

definition schemaLimits :: limits where
  "schemaLimits = \<lparr>MaxDepth = maxSchemaRawDepth, MaxNodes = maxSchemaRawNodes, MaxNumberBytes = 128, MaxExponent = 1000,
     MaxScale = 1024\<rparr>"

definition new_compiler :: compiler where
  "new_compiler = \<lparr>sc_compiled = [], sc_members = 0, sc_graph = 0, sc_regex = 0\<rparr>"

definition compileSchema :: "regexps \<Rightarrow> string \<Rightarrow> schema_error + compiled_schema" where
  "compileSchema X raw =
     (case Parse raw schemaLimits of
        Inl e \<Rightarrow> Inl (SchemaJSON e)
      | Inr val \<Rightarrow>
          rbind (mark ''#'' val 0 new_compiler) (\<lambda>c.
          rbind (checkRoot val) (\<lambda>_.
          rbind (compile X ''#'' val 0 c) (\<lambda>(out, c1).
          Inr (upd_facets (cs_regexCost_update (\<lambda>_. sc_regex c1)) out)))))"

end
