(* ===== verification/Schema_Eval.thy ===== *)
theory Schema_Eval
  imports Schema
begin

text \<open>
  Validation of instances against a compiled schema: \<^verbatim>\<open>validate\<close> and \<^verbatim>\<open>evalBudget\<close> of
  \<^verbatim>\<open>src/core/tools/schema.go\<close>. Every step and every scanned byte is charged to a budget, and the context is polled at
  every value and string. \<open>accepts\<close> is the verdict without budget and context.
\<close>

section \<open>The budget\<close>

record eval_budget =
  eb_steps :: int
  eb_scan :: int
  eb_polls :: nat

datatype eval_error = EvalContext | EvalBudget | EvalNumber string | Mismatch string

type_synonym polls = "nat \<Rightarrow> bool"

definition poll :: "polls \<Rightarrow> eval_budget \<Rightarrow> eval_error + eval_budget" where
  "poll ctx b = (if ctx (eb_polls b) then Inl EvalContext else Inr (b\<lparr>eb_polls := eb_polls b + 1\<rparr>))"

definition budget_step :: "eval_budget \<Rightarrow> eval_error + eval_budget" where
  "budget_step b = (if eb_steps b \<ge> maxEvalSteps then Inl EvalBudget else Inr (b\<lparr>eb_steps := eb_steps b + 1\<rparr>))"

definition addScan :: "int \<Rightarrow> eval_budget \<Rightarrow> eval_error + eval_budget" where
  "addScan n b = (case add64 (eb_scan b) n of
     None \<Rightarrow> Inl EvalBudget
   | Some m \<Rightarrow> if m > maxEvalScanBytes then Inl EvalBudget else Inr (b\<lparr>eb_scan := m\<rparr>))"

definition limbs :: "rat \<Rightarrow> int" where
  "limbs r = (let n = (bit_len (nat \<bar>rat_num r\<bar>) + bit_len (nat \<bar>rat_den r\<bar>) + 31) div 32 in if n < 1 then 1 else int n)"

definition chargeLimbs :: "rat \<Rightarrow> eval_budget \<Rightarrow> eval_error + eval_budget" where
  "chargeLimbs r b = (if limbs r > maxEvalSteps - eb_steps b then Inl EvalBudget
     else Inr (b\<lparr>eb_steps := eb_steps b + limbs r\<rparr>))"

section \<open>Single values\<close>

fun instanceEqual :: "value \<Rightarrow> value \<Rightarrow> bool" where
  "instanceEqual VNull VNull = True"
| "instanceEqual (VBool a) (VBool b) = (a = b)"
| "instanceEqual (VNumber m) (VNumber n) =
     (case (ratFromLexeme m, ratFromLexeme n) of (Some r, Some s) \<Rightarrow> r = s | _ \<Rightarrow> m = n)"
| "instanceEqual (VString s) (VString t) = (s = t)"
| "instanceEqual _ _ = False"

definition checkType :: "string \<Rightarrow> value \<Rightarrow> bool" where
  "checkType t v =
     (if t = ''object'' then value_kind v = 6
      else if t = ''array'' then value_kind v = 5
      else if t = ''string'' then value_kind v = 4
      else if t = ''number'' then value_kind v = 3
      else if t = ''integer'' then
        (case v of VNumber n \<Rightarrow> (case ratFromLexeme n of None \<Rightarrow> False | Some r \<Rightarrow> rat_is_int r) | _ \<Rightarrow> False)
      else if t = ''boolean'' then value_kind v = 2
      else if t = ''null'' then value_kind v = 1
      else False)"

definition at_least :: "int \<Rightarrow> int option \<Rightarrow> bool" where
  "at_least n m = (case m of None \<Rightarrow> True | Some k \<Rightarrow> k \<le> n)"

definition at_most :: "int \<Rightarrow> int option \<Rightarrow> bool" where
  "at_most n m = (case m of None \<Rightarrow> True | Some k \<Rightarrow> n \<le> k)"

definition rat_rel :: "(rat \<Rightarrow> rat \<Rightarrow> bool) \<Rightarrow> rat \<Rightarrow> rat option \<Rightarrow> bool" where
  "rat_rel R r m = (case m of None \<Rightarrow> True | Some k \<Rightarrow> R r k)"

definition validateString :: "regexps \<Rightarrow> polls \<Rightarrow> schema_facets \<Rightarrow> string \<Rightarrow> eval_budget \<Rightarrow> eval_error + eval_budget" where
  "validateString X ctx f s b =
     rbind (poll ctx b) (\<lambda>b.
     rbind (addScan (int (length s)) b) (\<lambda>b.
     if \<not> at_least (rune_count s) (cs_minLength f) then Inl (Mismatch ''minLength'')
     else if \<not> at_most (rune_count s) (cs_maxLength f) then Inl (Mismatch ''maxLength'')
     else case cs_pattern f of
       Some p \<Rightarrow> if rx_matches X p s then Inr b else Inl (Mismatch ''pattern'')
     | None \<Rightarrow> Inr b))"

definition validateNumber :: "schema_facets \<Rightarrow> string \<Rightarrow> eval_budget \<Rightarrow> eval_error + eval_budget" where
  "validateNumber f n b =
     (case ratFromLexeme n of
        None \<Rightarrow> Inl (EvalNumber n)
      | Some r \<Rightarrow>
          rbind (chargeLimbs r b) (\<lambda>b.
          if \<not> rat_rel (\<ge>) r (cs_minimum f) then Inl (Mismatch ''minimum'')
          else if \<not> rat_rel (\<le>) r (cs_maximum f) then Inl (Mismatch ''maximum'')
          else if \<not> rat_rel (>) r (cs_exclusiveMinimum f) then Inl (Mismatch ''exclusiveMinimum'')
          else if \<not> rat_rel (<) r (cs_exclusiveMaximum f) then Inl (Mismatch ''exclusiveMaximum'')
          else case cs_multipleOf f of
            None \<Rightarrow> Inr b
          | Some m \<Rightarrow> rbind (chargeLimbs (r / m) b) (\<lambda>b.
              if rat_is_int (r / m) then Inr b else Inl (Mismatch ''multipleOf''))))"

section \<open>Values\<close>

definition const_ok :: "schema_facets \<Rightarrow> value \<Rightarrow> bool" where
  "const_ok f v = (case cs_const f of None \<Rightarrow> True | Some k \<Rightarrow> instanceEqual k v)"

definition enum_ok :: "schema_facets \<Rightarrow> value \<Rightarrow> bool" where
  "enum_ok f v \<longleftrightarrow> cs_enum f = [] \<or> list_ex (\<lambda>item. instanceEqual item v) (cs_enum f)"

function (sequential) validate :: "regexps \<Rightarrow> polls \<Rightarrow> compiled_schema \<Rightarrow> value \<Rightarrow> eval_budget \<Rightarrow> eval_error + eval_budget"
  and validateObject :: "regexps \<Rightarrow> polls \<Rightarrow> compiled_schema \<Rightarrow> (string \<times> value) list \<Rightarrow> eval_budget
    \<Rightarrow> eval_error + eval_budget"
  and validateArray :: "regexps \<Rightarrow> polls \<Rightarrow> compiled_schema \<Rightarrow> value list \<Rightarrow> eval_budget \<Rightarrow> eval_error + eval_budget" where
  "validate X ctx s v b =
     rbind (poll ctx b) (\<lambda>b.
     rbind (budget_step b) (\<lambda>b.
     let f = cs_facets s in
     if cs_acceptAll f then Inr b
     else if cs_rejectAll f then Inl (Mismatch ''false'')
     else if cs_typ f \<noteq> [] \<and> \<not> checkType (cs_typ f) v then Inl (Mismatch ''type'')
     else if \<not> const_ok f v then Inl (Mismatch ''const'')
     else if \<not> enum_ok f v then Inl (Mismatch ''enum'')
     else case v of
       VObject ms \<Rightarrow> validateObject X ctx s ms b
     | VArray vs \<Rightarrow> validateArray X ctx s vs b
     | VString t \<Rightarrow> validateString X ctx f t b
     | VNumber n \<Rightarrow> validateNumber f n b
     | _ \<Rightarrow> Inr b))"
| "validateObject X ctx s ms b =
     (let f = cs_facets s in
      if \<not> at_least (int (length ms)) (cs_minProperties f) then Inl (Mismatch ''minProperties'')
      else if \<not> at_most (int (length ms)) (cs_maxProperties f) then Inl (Mismatch ''maxProperties'')
      else rbind (rfold (\<lambda>b m.
        case map_of (cs_properties s) (fst m) of
          Some child \<Rightarrow> validate X ctx child (snd m) b
        | None \<Rightarrow>
            if cs_additionalFalse f then Inl (Mismatch ''additionalProperties'')
            else (case cs_additional s of Some child \<Rightarrow> validate X ctx child (snd m) b | None \<Rightarrow> Inr b)) b ms) (\<lambda>b.
        if list_all (\<lambda>k. k \<in> fst ` set ms) (cs_required f) then Inr b else Inl (Mismatch ''required'')))"
| "validateArray X ctx s vs b =
     (let f = cs_facets s in
      if \<not> at_least (int (length vs)) (cs_minItems f) then Inl (Mismatch ''minItems'')
      else if \<not> at_most (int (length vs)) (cs_maxItems f) then Inl (Mismatch ''maxItems'')
      else case cs_items s of
        Some child \<Rightarrow> rfold (\<lambda>b v. validate X ctx child v b) b vs
      | None \<Rightarrow> Inr b)"
  by pat_completeness auto
termination
  by (relation "measure (case_sum (\<lambda>(X, c, s, v, b). 2 * size v + 1)
    (case_sum (\<lambda>(X, c, s, ms, b). 2 * size (VObject ms)) (\<lambda>(X, c, s, vs, b). 2 * size (VArray vs))))")
    (auto simp: less_Suc_eq_le size_list_estimation' dest!: member_size)

declare validate.simps [simp del] validateObject.simps [simp del] validateArray.simps [simp del]

section \<open>The verdict\<close>

definition string_ok :: "regexps \<Rightarrow> schema_facets \<Rightarrow> string \<Rightarrow> bool" where
  "string_ok X f s \<longleftrightarrow> at_least (rune_count s) (cs_minLength f) \<and> at_most (rune_count s) (cs_maxLength f)
     \<and> (case cs_pattern f of None \<Rightarrow> True | Some p \<Rightarrow> rx_matches X p s)"

definition number_ok :: "schema_facets \<Rightarrow> rat \<Rightarrow> bool" where
  "number_ok f r \<longleftrightarrow> rat_rel (\<ge>) r (cs_minimum f) \<and> rat_rel (\<le>) r (cs_maximum f) \<and> rat_rel (>) r (cs_exclusiveMinimum f)
     \<and> rat_rel (<) r (cs_exclusiveMaximum f) \<and> rat_rel (\<lambda>r m. rat_is_int (r / m)) r (cs_multipleOf f)"

text \<open>The facets that concern a value without its children.\<close>

definition facets_ok :: "regexps \<Rightarrow> schema_facets \<Rightarrow> value \<Rightarrow> bool" where
  "facets_ok X f v \<longleftrightarrow> (cs_typ f \<noteq> [] \<longrightarrow> checkType (cs_typ f) v) \<and> const_ok f v \<and> enum_ok f v
     \<and> (case v of
          VObject ms \<Rightarrow> at_least (int (length ms)) (cs_minProperties f) \<and> at_most (int (length ms)) (cs_maxProperties f)
            \<and> list_all (\<lambda>k. k \<in> fst ` set ms) (cs_required f)
        | VArray vs \<Rightarrow> at_least (int (length vs)) (cs_minItems f) \<and> at_most (int (length vs)) (cs_maxItems f)
        | VString s \<Rightarrow> string_ok X f s
        | VNumber n \<Rightarrow> (case ratFromLexeme n of None \<Rightarrow> False | Some r \<Rightarrow> number_ok f r)
        | _ \<Rightarrow> True)"

text \<open>The schema that applies to a member.\<close>

definition member_schema :: "compiled_schema \<Rightarrow> string \<Rightarrow> compiled_schema option" where
  "member_schema s k = (case map_of (cs_properties s) k of Some child \<Rightarrow> Some child | None \<Rightarrow> cs_additional s)"

definition member_allowed :: "compiled_schema \<Rightarrow> string \<Rightarrow> bool" where
  "member_allowed s k \<longleftrightarrow> map_of (cs_properties s) k \<noteq> None \<or> \<not> cs_additionalFalse (cs_facets s)"

function (sequential) accepts :: "regexps \<Rightarrow> compiled_schema \<Rightarrow> value \<Rightarrow> bool" where
  "accepts X s v \<longleftrightarrow> cs_acceptAll (cs_facets s) \<or> \<not> cs_rejectAll (cs_facets s) \<and> facets_ok X (cs_facets s) v
     \<and> (case v of
          VObject ms \<Rightarrow> list_all (\<lambda>m. member_allowed s (fst m)
            \<and> (case member_schema s (fst m) of Some child \<Rightarrow> accepts X child (snd m) | None \<Rightarrow> True)) ms
        | VArray vs \<Rightarrow> (case cs_items s of Some child \<Rightarrow> list_all (accepts X child) vs | None \<Rightarrow> True)
        | _ \<Rightarrow> True)"
  by pat_completeness auto
termination
  by (relation "measure (\<lambda>(X, s, v). size v)")
    (auto simp: less_Suc_eq_le size_list_estimation' dest!: member_size)

declare accepts.simps [simp del]

end
