(* ===== verification/Schema_Verdict.thy ===== *)
theory Schema_Verdict
  imports Schema_Eval
begin

text \<open>
  What a validation run says: an accepted value satisfies the schema and costs a fixed number of steps and scanned bytes, a
  mismatch means it does not, and the budget only runs out when that cost is too high.
\<close>

section \<open>Outcomes\<close>

definition budget_ok :: "eval_budget \<Rightarrow> bool" where
  "budget_ok b \<longleftrightarrow> 0 \<le> eb_steps b \<and> eb_steps b \<le> maxEvalSteps \<and> 0 \<le> eb_scan b \<and> eb_scan b \<le> maxEvalScanBytes"

text \<open>How a run from budget \<open>b\<close> may end when the verdict is \<open>acc\<close> and acceptance costs \<open>st\<close> steps and \<open>sc\<close> bytes.\<close>

definition outcome :: "polls \<Rightarrow> eval_budget \<Rightarrow> eval_error + eval_budget \<Rightarrow> bool \<Rightarrow> int \<Rightarrow> int \<Rightarrow> bool" where
  "outcome ctx b r acc st sc \<longleftrightarrow> 0 \<le> st \<and> 0 \<le> sc \<and> (case r of
     Inr b' \<Rightarrow> acc \<and> eb_steps b' = eb_steps b + st \<and> eb_scan b' = eb_scan b + sc \<and> budget_ok b'
   | Inl EvalContext \<Rightarrow> (\<exists>n. ctx n)
   | Inl EvalBudget \<Rightarrow> acc \<longrightarrow> eb_steps b + st > maxEvalSteps \<or> eb_scan b + sc > maxEvalScanBytes
   | Inl (EvalNumber n) \<Rightarrow> False
   | Inl (Mismatch m) \<Rightarrow> \<not> acc)"

named_theorems outcome_intros

lemma outcome_poll [outcome_intros]: "budget_ok b \<Longrightarrow> outcome ctx b (poll ctx b) True 0 0"
  by (auto simp: outcome_def poll_def budget_ok_def)

lemma outcome_step [outcome_intros]: "budget_ok b \<Longrightarrow> outcome ctx b (budget_step b) True 1 0"
  by (auto simp: outcome_def budget_step_def budget_ok_def)

lemma outcome_scan [outcome_intros]: "budget_ok b \<Longrightarrow> 0 \<le> n \<Longrightarrow> outcome ctx b (addScan n b) True 0 n"
proof -
  assume b: "budget_ok b" "0 \<le> n"
  have m: "maxEvalScanBytes \<le> max_int64" by (simp add: maxEvalScanBytes_def max_int64_def)
  have "add64 (eb_scan b) n = (if in_int64 (eb_scan b + n) then Some (eb_scan b + n) else None)" if "n \<le> max_int64"
    using b m that by (intro add64_exact) (auto simp: in_int64_def budget_ok_def min_int64_def)
  moreover have "add64 (eb_scan b) n = None" if "\<not> n \<le> max_int64"
    using b that m by (auto simp: add64_def budget_ok_def)
  ultimately show ?thesis
    using b m by (cases "n \<le> max_int64") (auto simp: outcome_def addScan_def budget_ok_def in_int64_def min_int64_def)
qed

lemma limbs_pos: "1 \<le> limbs r"
  by (simp add: limbs_def Let_def)

lemma outcome_limbs [outcome_intros]: "budget_ok b \<Longrightarrow> outcome ctx b (chargeLimbs r b) True (limbs r) 0"
  using limbs_pos [of r] by (auto simp: outcome_def chargeLimbs_def budget_ok_def)

lemma outcome_ok [outcome_intros]: "budget_ok b \<Longrightarrow> outcome ctx b (Inr b) True 0 0"
  by (simp add: outcome_def)

lemma outcome_mismatch: "0 \<le> st \<Longrightarrow> 0 \<le> sc \<Longrightarrow> outcome ctx b (Inl (Mismatch m)) False st sc"
  by (simp add: outcome_def)

lemma outcome_if:
  "0 \<le> st \<Longrightarrow> 0 \<le> sc \<Longrightarrow> (P \<Longrightarrow> outcome ctx b r acc st sc) \<Longrightarrow>
   outcome ctx b (if \<not> P then Inl (Mismatch m) else r) (P \<and> acc) st sc"
  by (simp add: outcome_mismatch)

lemma outcome_bind:
  assumes "outcome ctx b r a s c" "\<And>b'. budget_ok b' \<Longrightarrow> outcome ctx b' (g b') a' s' c'" "0 \<le> s'" "0 \<le> c'"
  shows "outcome ctx b (rbind r g) (a \<and> a') (s + s') (c + c')"
proof (cases r)
  case (Inl e)
  then show ?thesis using assms by (cases e) (auto simp: outcome_def)
next
  case (Inr b')
  then have o: "a" "eb_steps b' = eb_steps b + s" "eb_scan b' = eb_scan b + c" "budget_ok b'" "0 \<le> s" "0 \<le> c"
    using assms(1) by (auto simp: outcome_def)
  note g = assms(2) [OF o(4)]
  show ?thesis
  proof (cases "g b'")
    case (Inl e)
    with g Inr o show ?thesis by (cases e) (auto simp: outcome_def)
  next
    case (Inr b2)
    with g \<open>r = Inr b'\<close> o show ?thesis by (auto simp: outcome_def)
  qed
qed

lemma outcome_fold:
  assumes "\<And>x b. x \<in> set xs \<Longrightarrow> budget_ok b \<Longrightarrow> outcome ctx b (f b x) (a x) (s x) (c x)"
    and "\<And>x. x \<in> set xs \<Longrightarrow> 0 \<le> s x \<and> 0 \<le> c x"
    and "budget_ok b"
  shows "outcome ctx b (rfold f b xs) (list_all a xs) (sum_list (map s xs)) (sum_list (map c xs))"
  using assms
proof (induction xs arbitrary: b)
  case (Cons x xs)
  have nn: "0 \<le> sum_list (map s xs)" "0 \<le> sum_list (map c xs)"
    using Cons.prems(2) by (auto intro!: sum_list_nonneg)
  have "outcome ctx b (rbind (f b x) (\<lambda>b. rfold f b xs)) (a x \<and> list_all a xs) (s x + sum_list (map s xs)) (c x + sum_list (map c xs))"
    using Cons nn by (intro outcome_bind) auto
  then show ?case by simp
qed (simp add: outcome_ok)

lemma outcome_eq:
  "outcome ctx b r a s c \<Longrightarrow> a = a' \<Longrightarrow> s = s' \<Longrightarrow> c = c' \<Longrightarrow> outcome ctx b r a' s' c'"
  by simp

section \<open>Costs\<close>

definition number_steps :: "schema_facets \<Rightarrow> rat \<Rightarrow> int" where
  "number_steps f r = limbs r + (case cs_multipleOf f of None \<Rightarrow> 0 | Some m \<Rightarrow> limbs (r / m))"

lemma number_steps_pos: "0 \<le> number_steps f r"
  using limbs_pos [of r] limbs_pos [of "r / the (cs_multipleOf f)"] by (auto simp: number_steps_def split: option.splits)

function (sequential) eval_steps :: "compiled_schema \<Rightarrow> value \<Rightarrow> int" where
  "eval_steps s v = 1 + (if cs_acceptAll (cs_facets s) \<or> cs_rejectAll (cs_facets s) then 0 else case v of
       VObject ms \<Rightarrow> sum_list (map (\<lambda>m. case member_schema s (fst m) of Some child \<Rightarrow> eval_steps child (snd m) | None \<Rightarrow> 0) ms)
     | VArray vs \<Rightarrow> (case cs_items s of Some child \<Rightarrow> sum_list (map (eval_steps child) vs) | None \<Rightarrow> 0)
     | VNumber n \<Rightarrow> (case ratFromLexeme n of Some r \<Rightarrow> number_steps (cs_facets s) r | None \<Rightarrow> 0)
     | _ \<Rightarrow> 0)"
  by pat_completeness auto
termination
  by (relation "measure (\<lambda>(s, v). size v)")
    (auto simp: less_Suc_eq_le size_list_estimation' dest!: member_size)

function (sequential) eval_scan :: "compiled_schema \<Rightarrow> value \<Rightarrow> int" where
  "eval_scan s v = (if cs_acceptAll (cs_facets s) \<or> cs_rejectAll (cs_facets s) then 0 else case v of
       VObject ms \<Rightarrow> sum_list (map (\<lambda>m. case member_schema s (fst m) of Some child \<Rightarrow> eval_scan child (snd m) | None \<Rightarrow> 0) ms)
     | VArray vs \<Rightarrow> (case cs_items s of Some child \<Rightarrow> sum_list (map (eval_scan child) vs) | None \<Rightarrow> 0)
     | VString t \<Rightarrow> int (length t)
     | _ \<Rightarrow> 0)"
  by pat_completeness auto
termination
  by (relation "measure (\<lambda>(s, v). size v)")
    (auto simp: less_Suc_eq_le size_list_estimation' dest!: member_size)

declare eval_steps.simps [simp del] eval_scan.simps [simp del]

fun rational :: "value \<Rightarrow> bool" where
  "rational (VNumber n) = (ratFromLexeme n \<noteq> None)"
| "rational (VArray vs) = list_all rational vs"
| "rational (VObject ms) = list_all (\<lambda>(k, v). rational v) ms"
| "rational _ = True"

lemma eval_steps_nonneg: "0 \<le> eval_steps s v"
proof (induction s v rule: eval_steps.induct)
  case (1 s v)
  then show ?case
    by (subst eval_steps.simps)
      (auto intro!: sum_list_nonneg add_nonneg_nonneg number_steps_pos split: "value.splits" option.splits)
qed

lemma eval_scan_nonneg: "0 \<le> eval_scan s v"
proof (induction s v rule: eval_scan.induct)
  case (1 s v)
  then show ?case
    by (subst eval_scan.simps) (auto intro!: sum_list_nonneg split: "value.splits" option.splits)
qed

section \<open>The run\<close>

lemma outcome_string:
  assumes "budget_ok b"
  shows "outcome ctx b (validateString X ctx f s b) (string_ok X f s) 0 (int (length s))"
proof -
  have tail: "outcome ctx b' (if \<not> at_least (rune_count s) (cs_minLength f) then Inl (Mismatch ''minLength'')
       else if \<not> at_most (rune_count s) (cs_maxLength f) then Inl (Mismatch ''maxLength'')
       else case cs_pattern f of Some p \<Rightarrow> if rx_matches X p s then Inr b' else Inl (Mismatch ''pattern'') | None \<Rightarrow> Inr b')
     (string_ok X f s) 0 0" if "budget_ok b'" for b'
    using that by (auto simp: string_ok_def outcome_def split: option.splits)
  have "outcome ctx b (validateString X ctx f s b) (True \<and> (True \<and> string_ok X f s)) (0 + (0 + 0)) (0 + (int (length s) + 0))"
    unfolding validateString_def
    by (intro outcome_bind outcome_poll outcome_scan tail assms) simp_all
  then show ?thesis by simp
qed

lemma outcome_number:
  assumes "budget_ok b" "ratFromLexeme n = Some r"
  shows "outcome ctx b (validateNumber f n b) (number_ok f r) (number_steps f r) 0"
proof -
  define mult where "mult b = (case cs_multipleOf f of None \<Rightarrow> Inr b
      | Some m \<Rightarrow> rbind (chargeLimbs (r / m) b) (\<lambda>b. if rat_is_int (r / m) then Inr b else Inl (Mismatch ''multipleOf'')))" for b
  let ?ms = "case cs_multipleOf f of None \<Rightarrow> 0 | Some m \<Rightarrow> limbs (r / m)"
  let ?mo = "rat_rel (\<lambda>r m. rat_is_int (r / m)) r (cs_multipleOf f)"
  have nn: "0 \<le> ?ms" using limbs_pos [of "r / the (cs_multipleOf f)"] by (auto split: option.splits)
  have m: "outcome ctx b' (mult b') ?mo ?ms 0" if "budget_ok b'" for b'
  proof (cases "cs_multipleOf f")
    case None
    then show ?thesis using that by (simp add: mult_def rat_rel_def outcome_ok)
  next
    case (Some m)
    have "outcome ctx b' (rbind (chargeLimbs (r / m) b') (\<lambda>b. if rat_is_int (r / m) then Inr b else Inl (Mismatch ''multipleOf'')))
        (True \<and> rat_is_int (r / m)) (limbs (r / m) + 0) (0 + 0)"
      using that by (intro outcome_bind outcome_limbs) (auto simp: outcome_def)
    with Some show ?thesis by (simp add: mult_def rat_rel_def)
  qed
  have "outcome ctx b (rbind (chargeLimbs r b) (\<lambda>b.
      if \<not> rat_rel (\<ge>) r (cs_minimum f) then Inl (Mismatch ''minimum'')
      else if \<not> rat_rel (\<le>) r (cs_maximum f) then Inl (Mismatch ''maximum'')
      else if \<not> rat_rel (>) r (cs_exclusiveMinimum f) then Inl (Mismatch ''exclusiveMinimum'')
      else if \<not> rat_rel (<) r (cs_exclusiveMaximum f) then Inl (Mismatch ''exclusiveMaximum'')
      else mult b)) (True \<and> (rat_rel (\<ge>) r (cs_minimum f) \<and> rat_rel (\<le>) r (cs_maximum f) \<and> rat_rel (>) r (cs_exclusiveMinimum f)
        \<and> rat_rel (<) r (cs_exclusiveMaximum f) \<and> ?mo)) (limbs r + ?ms) (0 + 0)"
    by (intro outcome_bind outcome_limbs outcome_if m assms(1) nn) simp_all
  then show ?thesis
    unfolding validateNumber_def assms(2) option.case mult_def number_ok_def number_steps_def by simp
qed

lemma rational_member: "rational (VObject ms) \<Longrightarrow> m \<in> set ms \<Longrightarrow> rational (snd m)"
  by (cases m) (auto simp: list_all_iff)

text \<open>The claim about one value, for every schema and budget.\<close>

definition run_ok :: "regexps \<Rightarrow> polls \<Rightarrow> value \<Rightarrow> bool" where
  "run_ok X ctx v \<longleftrightarrow> (\<forall>s b. budget_ok b \<longrightarrow>
     outcome ctx b (validate X ctx s v b) (accepts X s v) (eval_steps s v) (eval_scan s v))"

lemma run_okD:
  "run_ok X ctx v \<Longrightarrow> budget_ok b \<Longrightarrow> outcome ctx b (validate X ctx s v b) (accepts X s v) (eval_steps s v) (eval_scan s v)"
  by (simp add: run_ok_def)

abbreviation member_ok :: "regexps \<Rightarrow> compiled_schema \<Rightarrow> string \<times> value \<Rightarrow> bool" where
  "member_ok X s m \<equiv> member_allowed s (fst m)
     \<and> (case member_schema s (fst m) of Some child \<Rightarrow> accepts X child (snd m) | None \<Rightarrow> True)"

abbreviation member_steps :: "compiled_schema \<Rightarrow> string \<times> value \<Rightarrow> int" where
  "member_steps s m \<equiv> (case member_schema s (fst m) of Some child \<Rightarrow> eval_steps child (snd m) | None \<Rightarrow> 0)"

abbreviation member_scan :: "compiled_schema \<Rightarrow> string \<times> value \<Rightarrow> int" where
  "member_scan s m \<equiv> (case member_schema s (fst m) of Some child \<Rightarrow> eval_scan child (snd m) | None \<Rightarrow> 0)"

lemma member_costs_nonneg: "0 \<le> member_steps s m \<and> 0 \<le> member_scan s m"
  by (auto simp: eval_steps_nonneg eval_scan_nonneg split: option.splits)

lemma outcome_object:
  assumes "\<And>m. m \<in> set ms \<Longrightarrow> run_ok X ctx (snd m)" "budget_ok b"
  shows "outcome ctx b (validateObject X ctx s ms b)
    (at_least (int (length ms)) (cs_minProperties (cs_facets s)) \<and> at_most (int (length ms)) (cs_maxProperties (cs_facets s))
      \<and> list_all (member_ok X s) ms \<and> list_all (\<lambda>k. k \<in> fst ` set ms) (cs_required (cs_facets s)))
    (sum_list (map (member_steps s) ms)) (sum_list (map (member_scan s) ms))"
proof -
  let ?f = "cs_facets s"
  let ?step = "\<lambda>b m. case map_of (cs_properties s) (fst m) of
        Some child \<Rightarrow> validate X ctx child (snd m) b
      | None \<Rightarrow> if cs_additionalFalse ?f then Inl (Mismatch ''additionalProperties'')
          else (case cs_additional s of Some child \<Rightarrow> validate X ctx child (snd m) b | None \<Rightarrow> Inr b)"
  have step: "outcome ctx b' (?step b' m) (member_ok X s m) (member_steps s m) (member_scan s m)"
    if "m \<in> set ms" "budget_ok b'" for m b'
    using run_okD [OF assms(1) [OF that(1)] that(2)] that(2) member_costs_nonneg [where s = s and m = m]
    by (auto simp: member_allowed_def member_schema_def outcome_ok outcome_mismatch split: option.splits)
  have "outcome ctx b (rbind (rfold ?step b ms) (\<lambda>b.
      if list_all (\<lambda>k. k \<in> fst ` set ms) (cs_required ?f) then Inr b else Inl (Mismatch ''required'')))
      (list_all (member_ok X s) ms \<and> list_all (\<lambda>k. k \<in> fst ` set ms) (cs_required ?f))
      (sum_list (map (member_steps s) ms) + 0) (sum_list (map (member_scan s) ms) + 0)"
    by (intro outcome_bind outcome_fold step member_costs_nonneg assms(2)) (auto simp: outcome_def)
  then show ?thesis
    unfolding validateObject.simps Let_def using member_costs_nonneg
    by (intro outcome_if) (auto intro!: sum_list_nonneg)
qed

lemma outcome_array:
  assumes "\<And>v. v \<in> set vs \<Longrightarrow> run_ok X ctx v" "budget_ok b"
  shows "outcome ctx b (validateArray X ctx s vs b)
    (at_least (int (length vs)) (cs_minItems (cs_facets s)) \<and> at_most (int (length vs)) (cs_maxItems (cs_facets s))
      \<and> (case cs_items s of Some child \<Rightarrow> list_all (accepts X child) vs | None \<Rightarrow> True))
    (case cs_items s of Some child \<Rightarrow> sum_list (map (eval_steps child) vs) | None \<Rightarrow> 0)
    (case cs_items s of Some child \<Rightarrow> sum_list (map (eval_scan child) vs) | None \<Rightarrow> 0)"
proof (cases "cs_items s")
  case None
  then show ?thesis using assms(2) unfolding validateArray.simps Let_def by (auto simp: outcome_mismatch outcome_ok)
next
  case (Some child)
  have "outcome ctx b (rfold (\<lambda>b v. validate X ctx child v b) b vs) (list_all (accepts X child) vs)
      (sum_list (map (eval_steps child) vs)) (sum_list (map (eval_scan child) vs))"
    by (intro outcome_fold run_okD assms) (simp_all add: eval_steps_nonneg eval_scan_nonneg)
  with Some show ?thesis
    unfolding validateArray.simps Let_def
    by (auto intro!: outcome_mismatch sum_list_nonneg simp: eval_steps_nonneg eval_scan_nonneg)
qed

text \<open>The part of \<^verbatim>\<open>validate\<close> that depends on the kind of the value.\<close>

definition kind_run :: "regexps \<Rightarrow> polls \<Rightarrow> compiled_schema \<Rightarrow> value \<Rightarrow> eval_budget \<Rightarrow> eval_error + eval_budget" where
  "kind_run X ctx s v b = (case v of
       VObject ms \<Rightarrow> validateObject X ctx s ms b
     | VArray vs \<Rightarrow> validateArray X ctx s vs b
     | VString t \<Rightarrow> validateString X ctx (cs_facets s) t b
     | VNumber n \<Rightarrow> validateNumber (cs_facets s) n b
     | _ \<Rightarrow> Inr b)"

abbreviation plain_ok :: "schema_facets \<Rightarrow> value \<Rightarrow> bool" where
  "plain_ok f v \<equiv> (cs_typ f \<noteq> [] \<longrightarrow> checkType (cs_typ f) v) \<and> const_ok f v \<and> enum_ok f v"

lemma outcome_kind:
  assumes "rational v" "budget_ok b" "\<not> cs_acceptAll (cs_facets s)" "\<not> cs_rejectAll (cs_facets s)" "plain_ok (cs_facets s) v"
    and "\<And>ms m. v = VObject ms \<Longrightarrow> m \<in> set ms \<Longrightarrow> run_ok X ctx (snd m)"
    and "\<And>vs w. v = VArray vs \<Longrightarrow> w \<in> set vs \<Longrightarrow> run_ok X ctx w"
  shows "outcome ctx b (kind_run X ctx s v b) (accepts X s v) (eval_steps s v - 1) (eval_scan s v)"
proof -
  note defs = kind_run_def accepts.simps [of X s v] eval_steps.simps [of s v] eval_scan.simps [of s v] facets_ok_def
  show ?thesis
  proof (cases v)
    case (VObject ms)
    have "outcome ctx b (validateObject X ctx s ms b)
      (at_least (int (length ms)) (cs_minProperties (cs_facets s)) \<and> at_most (int (length ms)) (cs_maxProperties (cs_facets s))
        \<and> list_all (member_ok X s) ms \<and> list_all (\<lambda>k. k \<in> fst ` set ms) (cs_required (cs_facets s)))
      (sum_list (map (member_steps s) ms)) (sum_list (map (member_scan s) ms))"
      by (rule outcome_object) (use assms(2,6) VObject in blast)+
    with assms(3-5) VObject show ?thesis unfolding defs by (simp, elim outcome_eq) auto
  next
    case (VArray vs)
    have "outcome ctx b (validateArray X ctx s vs b)
      (at_least (int (length vs)) (cs_minItems (cs_facets s)) \<and> at_most (int (length vs)) (cs_maxItems (cs_facets s))
        \<and> (case cs_items s of Some child \<Rightarrow> list_all (accepts X child) vs | None \<Rightarrow> True))
      (case cs_items s of Some child \<Rightarrow> sum_list (map (eval_steps child) vs) | None \<Rightarrow> 0)
      (case cs_items s of Some child \<Rightarrow> sum_list (map (eval_scan child) vs) | None \<Rightarrow> 0)"
      by (rule outcome_array) (use assms(2,7) VArray in blast)+
    with assms(3-5) VArray show ?thesis unfolding defs by simp
  next
    case (VNumber n)
    with assms(1) obtain r where "ratFromLexeme n = Some r" by auto
    with outcome_number [OF assms(2) this] assms(3-5) VNumber show ?thesis unfolding defs by simp
  next
    case (VString t)
    with outcome_string [OF assms(2), of ctx X "cs_facets s" t] assms(3-5) show ?thesis unfolding defs by simp
  qed (use outcome_ok [OF assms(2), of ctx] assms(3-5) in \<open>simp_all add: kind_run_def accepts.simps [of X s] eval_steps.simps [of s]
    eval_scan.simps [of s] facets_ok_def\<close>)
qed

lemma steps_after_first: "0 \<le> eval_steps s v - 1"
  by (subst eval_steps.simps)
    (auto intro!: sum_list_nonneg number_steps_pos simp: eval_steps_nonneg split: "value.splits" option.splits)

lemma validate_outcome: "rational v \<Longrightarrow> run_ok X ctx v"
proof (induction v rule: measure_induct_rule [of size])
  case (less v)
  have ms: "run_ok X ctx (snd m)" if "v = VObject ms" "m \<in> set ms" for ms m
    using less member_size [of "fst m" "snd m" ms] rational_member [of ms m] that by simp
  have vs: "run_ok X ctx w" if "v = VArray vs" "w \<in> set vs" for vs w
    using less that by (auto simp: list_all_iff less_Suc_eq_le size_list_estimation')
  show ?case
    unfolding run_ok_def
  proof (intro allI impI)
    fix s b assume b: "budget_ok b"
    let ?f = "cs_facets s"
    have rest: "outcome ctx b' (if cs_acceptAll ?f then Inr b'
       else if cs_rejectAll ?f then Inl (Mismatch ''false'')
       else if cs_typ ?f \<noteq> [] \<and> \<not> checkType (cs_typ ?f) v then Inl (Mismatch ''type'')
       else if \<not> const_ok ?f v then Inl (Mismatch ''const'')
       else if \<not> enum_ok ?f v then Inl (Mismatch ''enum'')
       else kind_run X ctx s v b') (accepts X s v) (eval_steps s v - 1) (eval_scan s v)" if b': "budget_ok b'" for b'
    proof -
      consider "cs_acceptAll ?f \<or> cs_rejectAll ?f" | "\<not> cs_acceptAll ?f" "\<not> cs_rejectAll ?f" "\<not> plain_ok ?f v"
        | "\<not> cs_acceptAll ?f" "\<not> cs_rejectAll ?f" "plain_ok ?f v" by blast
      then show ?thesis
      proof cases
        case 1
        then show ?thesis using b'
          by (auto simp: accepts.simps [of X s v] eval_steps.simps [of s v] eval_scan.simps [of s v] outcome_ok outcome_mismatch)
      next
        case 2
        then have "\<not> accepts X s v" by (auto simp: accepts.simps [of X s v] facets_ok_def)
        then show ?thesis using 2 steps_after_first [of s v] eval_scan_nonneg [of s v] by (auto simp: outcome_mismatch)
      next
        case 3
        have "outcome ctx b' (kind_run X ctx s v b') (accepts X s v) (eval_steps s v - 1) (eval_scan s v)"
          by (rule outcome_kind [OF less.prems b' 3]) (fact ms, fact vs)
        with 3 show ?thesis by auto
      qed
    qed
    have "outcome ctx b (validate X ctx s v b) (True \<and> (True \<and> accepts X s v)) (0 + (1 + (eval_steps s v - 1)))
        (0 + (0 + eval_scan s v))"
      unfolding validate.simps Let_def kind_run_def [symmetric]
      by (intro outcome_bind outcome_poll outcome_step rest b)
        (use steps_after_first [of s v] eval_scan_nonneg [of s v] in simp_all)
    then show "outcome ctx b (validate X ctx s v b) (accepts X s v) (eval_steps s v) (eval_scan s v)" by simp
  qed
qed

end
