(* ===== verification/Schema_Semantics.thy ===== *)
theory Schema_Semantics
  imports Schema_Verdict
begin

text \<open>
  The meaning of a schema document, independent of its compiled form: \<open>conforms X schema instance\<close> reads the keywords of the
  document one by one, as JSON Schema 2020-12 does for the supported subset. Compiling preserves it.
\<close>

section \<open>Meaning of the keywords\<close>

definition bound_of :: "value \<Rightarrow> rat option" where
  "bound_of w = (case w of VNumber n \<Rightarrow> ratFromLexeme n | _ \<Rightarrow> None)"

definition number_keyword :: "(rat \<Rightarrow> rat \<Rightarrow> bool) \<Rightarrow> value \<Rightarrow> value \<Rightarrow> bool" where
  "number_keyword R w x = (case (bound_of w, bound_of x) of (Some m, Some r) \<Rightarrow> R r m | _ \<Rightarrow> True)"

definition size_keyword :: "(rat \<Rightarrow> rat \<Rightarrow> bool) \<Rightarrow> value \<Rightarrow> int option \<Rightarrow> bool" where
  "size_keyword R w n = (case (bound_of w, n) of (Some m, Some k) \<Rightarrow> R (of_int k) m | _ \<Rightarrow> True)"

definition property_count :: "value \<Rightarrow> int option" where
  "property_count x = (case x of VObject ms \<Rightarrow> Some (int (length ms)) | _ \<Rightarrow> None)"

definition item_count :: "value \<Rightarrow> int option" where
  "item_count x = (case x of VArray vs \<Rightarrow> Some (int (length vs)) | _ \<Rightarrow> None)"

definition char_count :: "value \<Rightarrow> int option" where
  "char_count x = (case x of VString s \<Rightarrow> Some (rune_count s) | _ \<Rightarrow> None)"

definition keyword_holds :: "regexps \<Rightarrow> string \<Rightarrow> value \<Rightarrow> value \<Rightarrow> bool" where
  "keyword_holds X k w x =
     (if k = ''type'' then (case w of VString t \<Rightarrow> checkType t x | _ \<Rightarrow> True)
      else if k = ''enum'' then (case w of VArray vs \<Rightarrow> list_ex (\<lambda>v. instanceEqual v x) vs | _ \<Rightarrow> True)
      else if k = ''const'' then instanceEqual w x
      else if k = ''required'' then
        (case (w, x) of (VArray ks, VObject ms) \<Rightarrow> list_all (\<lambda>v. \<forall>s. v = VString s \<longrightarrow> s \<in> fst ` set ms) ks | _ \<Rightarrow> True)
      else if k = ''minProperties'' then size_keyword (\<ge>) w (property_count x)
      else if k = ''maxProperties'' then size_keyword (\<le>) w (property_count x)
      else if k = ''minItems'' then size_keyword (\<ge>) w (item_count x)
      else if k = ''maxItems'' then size_keyword (\<le>) w (item_count x)
      else if k = ''minLength'' then size_keyword (\<ge>) w (char_count x)
      else if k = ''maxLength'' then size_keyword (\<le>) w (char_count x)
      else if k = ''pattern'' then (case (w, x) of (VString p, VString s) \<Rightarrow> rx_matches X p s | _ \<Rightarrow> True)
      else if k = ''minimum'' then number_keyword (\<ge>) w x
      else if k = ''maximum'' then number_keyword (\<le>) w x
      else if k = ''exclusiveMinimum'' then number_keyword (>) w x
      else if k = ''exclusiveMaximum'' then number_keyword (<) w x
      else if k = ''multipleOf'' then number_keyword (\<lambda>r m. rat_is_int (r / m)) w x
      else True)"

definition applicators :: "string list" where
  "applicators = [''properties'', ''additionalProperties'', ''items'']"

text \<open>The property names a schema declares.\<close>

definition declared_names :: "(string \<times> value) list \<Rightarrow> string list" where
  "declared_names ms = (case map_of ms ''properties'' of Some (VObject ps) \<Rightarrow> map fst ps | _ \<Rightarrow> [])"

function (sequential) conforms :: "regexps \<Rightarrow> value \<Rightarrow> value \<Rightarrow> bool" where
  "conforms X s x = (case s of
       VBool b \<Rightarrow> b
     | VObject ms \<Rightarrow> list_all (\<lambda>m.
         if fst m = ''properties'' then
           (case snd m of VObject ps \<Rightarrow>
              (case x of VObject xs \<Rightarrow> list_all (\<lambda>p. list_all (\<lambda>y. fst y = fst p \<longrightarrow> conforms X (snd p) (snd y)) xs) ps | _ \<Rightarrow> True)
            | _ \<Rightarrow> True)
         else if fst m = ''additionalProperties'' then
           (case x of VObject xs \<Rightarrow> list_all (\<lambda>y. fst y \<in> set (declared_names ms) \<or> conforms X (snd m) (snd y)) xs | _ \<Rightarrow> True)
         else if fst m = ''items'' then
           (case x of VArray ys \<Rightarrow> list_all (\<lambda>y. conforms X (snd m) y) ys | _ \<Rightarrow> True)
         else keyword_holds X (fst m) (snd m) x) ms
     | _ \<Rightarrow> False)"
  by pat_completeness auto
termination
proof (relation "measure (\<lambda>(X, s, x). size s)", goal_cases)
  case (2 X s x ms m ps xs p y)
  then show ?case using member_size [of "fst m" "snd m" ms] member_size [of "fst p" "snd p" ps] by (cases m; cases p) auto
next
  case (3 X s x ms m xs y)
  then show ?case using member_size [of "fst m" "snd m" ms] by (cases m) auto
next
  case (4 X s x ms m ys y)
  then show ?case using member_size [of "fst m" "snd m" ms] by (cases m) auto
qed simp

declare conforms.simps [simp del]

section \<open>Facets\<close>

lemma rat_is_int_num: "rat_is_int r \<Longrightarrow> of_int (rat_num r) = r"
proof -
  assume "rat_is_int r"
  then have "quotient_of r = (rat_num r, 1)" by (simp add: rat_is_int_def rat_num_def rat_den_def prod_eq_iff)
  from quotient_of_div [OF this] show ?thesis by simp
qed

lemma requireNumber_Inr: "requireNumber name w = Inr r \<longleftrightarrow> bound_of w = Some r"
  by (cases w) (auto simp: requireNumber_def bound_of_def split: option.splits)

lemma requireNonNegInt_Inr: "requireNonNegInt name w = Inr n \<Longrightarrow> bound_of w = Some (of_int n) \<and> 0 \<le> n \<and> n \<le> max_int64"
proof -
  assume "requireNonNegInt name w = Inr n"
  then obtain r where "bound_of w = Some r" "rat_is_int r" "\<not> r < 0" "n = rat_num r" "n \<le> max_int64"
    by (auto simp: requireNonNegInt_def result_simps requireNumber_Inr split: if_splits)
  with rat_is_int_num [of r] show ?thesis by (metis linorder_not_less of_int_0_le_iff)
qed

lemma enum_items_Inr: "enum_items seen vs = Inr items \<Longrightarrow> items = vs \<and> list_all isScalar vs"
  by (induction vs arbitrary: seen items) (auto simp: result_simps split: if_splits)

lemma required_items_Inr: "required_items seen n vs = Inr (items, n') \<Longrightarrow> vs = map VString items"
  by (induction vs arbitrary: seen n items n') (auto simp: result_simps split: if_splits "value.splits")

text \<open>The facet of a keyword that has not been applied yet.\<close>

definition untouched :: "string \<Rightarrow> schema_facets \<Rightarrow> bool" where
  "untouched k f \<longleftrightarrow> (k = ''type'' \<longrightarrow> cs_typ f = []) \<and> (k = ''enum'' \<longrightarrow> cs_enum f = []) \<and> (k = ''const'' \<longrightarrow> cs_const f = None)
     \<and> (k = ''required'' \<longrightarrow> cs_required f = [])
     \<and> (k = ''minProperties'' \<longrightarrow> cs_minProperties f = None) \<and> (k = ''maxProperties'' \<longrightarrow> cs_maxProperties f = None)
     \<and> (k = ''minItems'' \<longrightarrow> cs_minItems f = None) \<and> (k = ''maxItems'' \<longrightarrow> cs_maxItems f = None)
     \<and> (k = ''minLength'' \<longrightarrow> cs_minLength f = None) \<and> (k = ''maxLength'' \<longrightarrow> cs_maxLength f = None)
     \<and> (k = ''pattern'' \<longrightarrow> cs_pattern f = None)
     \<and> (k = ''minimum'' \<longrightarrow> cs_minimum f = None) \<and> (k = ''maximum'' \<longrightarrow> cs_maximum f = None)
     \<and> (k = ''exclusiveMinimum'' \<longrightarrow> cs_exclusiveMinimum f = None) \<and> (k = ''exclusiveMaximum'' \<longrightarrow> cs_exclusiveMaximum f = None)
     \<and> (k = ''multipleOf'' \<longrightarrow> cs_multipleOf f = None)"

text \<open>What one facet keyword does.\<close>

definition silent_keywords :: "string list" where
  "silent_keywords = ''$schema'' # annotation_strings @ annotation_bools @ [''examples'', ''default'', ''contentSchema'', ''$defs'']"

inductive facet_effect :: "schema_facets \<Rightarrow> string \<Rightarrow> value \<Rightarrow> schema_facets \<Rightarrow> bool" for f where
  e_silent: "k \<in> set silent_keywords \<Longrightarrow> facet_effect f k w f"
| e_typ: "t \<noteq> [] \<Longrightarrow> facet_effect f ''type'' (VString t) (f\<lparr>cs_typ := t\<rparr>)"
| e_enum: "vs \<noteq> [] \<Longrightarrow> facet_effect f ''enum'' (VArray vs) (f\<lparr>cs_enum := cs_enum f @ vs\<rparr>)"
| e_const: "facet_effect f ''const'' w (f\<lparr>cs_const := Some w\<rparr>)"
| e_required: "facet_effect f ''required'' (VArray (map VString ks)) (f\<lparr>cs_required := cs_required f @ ks\<rparr>)"
| e_pattern: "facet_effect f ''pattern'' (VString p) (f\<lparr>cs_pattern := Some p\<rparr>)"
| e_minProperties: "bound_of w = Some (of_int n) \<Longrightarrow> facet_effect f ''minProperties'' w (f\<lparr>cs_minProperties := Some n\<rparr>)"
| e_maxProperties: "bound_of w = Some (of_int n) \<Longrightarrow> facet_effect f ''maxProperties'' w (f\<lparr>cs_maxProperties := Some n\<rparr>)"
| e_minItems: "bound_of w = Some (of_int n) \<Longrightarrow> facet_effect f ''minItems'' w (f\<lparr>cs_minItems := Some n\<rparr>)"
| e_maxItems: "bound_of w = Some (of_int n) \<Longrightarrow> facet_effect f ''maxItems'' w (f\<lparr>cs_maxItems := Some n\<rparr>)"
| e_minLength: "bound_of w = Some (of_int n) \<Longrightarrow> facet_effect f ''minLength'' w (f\<lparr>cs_minLength := Some n\<rparr>)"
| e_maxLength: "bound_of w = Some (of_int n) \<Longrightarrow> facet_effect f ''maxLength'' w (f\<lparr>cs_maxLength := Some n\<rparr>)"
| e_minimum: "bound_of w = Some r \<Longrightarrow> facet_effect f ''minimum'' w (f\<lparr>cs_minimum := Some r\<rparr>)"
| e_maximum: "bound_of w = Some r \<Longrightarrow> facet_effect f ''maximum'' w (f\<lparr>cs_maximum := Some r\<rparr>)"
| e_exclusiveMinimum: "bound_of w = Some r \<Longrightarrow> facet_effect f ''exclusiveMinimum'' w (f\<lparr>cs_exclusiveMinimum := Some r\<rparr>)"
| e_exclusiveMaximum: "bound_of w = Some r \<Longrightarrow> facet_effect f ''exclusiveMaximum'' w (f\<lparr>cs_exclusiveMaximum := Some r\<rparr>)"
| e_multipleOf: "bound_of w = Some r \<Longrightarrow> facet_effect f ''multipleOf'' w (f\<lparr>cs_multipleOf := Some r\<rparr>)"

lemmas keyword_lists = annotation_strings_def annotation_bools_def

lemma facet_keyword_simps:
  "facetKeyword X f ''minProperties'' w c = rbind (requireNonNegInt ''minProperties'' w) (\<lambda>n. Inr (f\<lparr>cs_minProperties := Some n\<rparr>, c))"
  "facetKeyword X f ''maxProperties'' w c = rbind (requireNonNegInt ''maxProperties'' w) (\<lambda>n. Inr (f\<lparr>cs_maxProperties := Some n\<rparr>, c))"
  "facetKeyword X f ''minItems'' w c = rbind (requireNonNegInt ''minItems'' w) (\<lambda>n. Inr (f\<lparr>cs_minItems := Some n\<rparr>, c))"
  "facetKeyword X f ''maxItems'' w c = rbind (requireNonNegInt ''maxItems'' w) (\<lambda>n. Inr (f\<lparr>cs_maxItems := Some n\<rparr>, c))"
  "facetKeyword X f ''minLength'' w c = rbind (requireNonNegInt ''minLength'' w) (\<lambda>n. Inr (f\<lparr>cs_minLength := Some n\<rparr>, c))"
  "facetKeyword X f ''maxLength'' w c = rbind (requireNonNegInt ''maxLength'' w) (\<lambda>n. Inr (f\<lparr>cs_maxLength := Some n\<rparr>, c))"
  "facetKeyword X f ''minimum'' w c = rbind (requireNumber ''minimum'' w) (\<lambda>n. Inr (f\<lparr>cs_minimum := Some n\<rparr>, c))"
  "facetKeyword X f ''maximum'' w c = rbind (requireNumber ''maximum'' w) (\<lambda>n. Inr (f\<lparr>cs_maximum := Some n\<rparr>, c))"
  "facetKeyword X f ''exclusiveMinimum'' w c = rbind (requireNumber ''exclusiveMinimum'' w) (\<lambda>n. Inr (f\<lparr>cs_exclusiveMinimum := Some n\<rparr>, c))"
  "facetKeyword X f ''exclusiveMaximum'' w c = rbind (requireNumber ''exclusiveMaximum'' w) (\<lambda>n. Inr (f\<lparr>cs_exclusiveMaximum := Some n\<rparr>, c))"
  "facetKeyword X f ''multipleOf'' w c = rbind (requireNumber ''multipleOf'' w) (\<lambda>n. if n \<le> 0 then Inl MultiplePositive else Inr (f\<lparr>cs_multipleOf := Some n\<rparr>, c))"
  "facetKeyword X f ''pattern'' w c = patternKeyword X f w c"
  "facetKeyword X f ''const'' w c = (if \<not> isScalar w then Inl ConstScalar else Inr (f\<lparr>cs_const := Some w\<rparr>, c))"
  "facetKeyword X f ''type'' w c = (case w of
     VString t \<Rightarrow> if t \<in> set known_types then Inr (f\<lparr>cs_typ := t\<rparr>, c) else Inl (UnknownType t) | _ \<Rightarrow> Inl TypeString)"
  "facetKeyword X f ''enum'' w c = (case w of
     VArray vs \<Rightarrow> if vs = [] \<or> length vs > 128 then Inl EnumScalars
       else rbind (enum_items [] vs) (\<lambda>items. Inr (f\<lparr>cs_enum := cs_enum f @ items\<rparr>, c)) | _ \<Rightarrow> Inl EnumScalars)"
  "facetKeyword X f ''required'' w c = (case w of
     VArray vs \<Rightarrow> rbind (required_items [] (sc_members c) vs) (\<lambda>(items, n).
       Inr (f\<lparr>cs_required := cs_required f @ items\<rparr>, c\<lparr>sc_members := n\<rparr>)) | _ \<Rightarrow> Inl RequiredArray)"
  by (simp_all add: facetKeyword_def keyword_lists)

lemma facet_silent: "k \<in> set silent_keywords \<Longrightarrow> facetKeyword X f k w c = Inr (f', c') \<Longrightarrow> f' = f \<and> c' = c"
  by (auto simp: facetKeyword_def silent_keywords_def split: if_splits "value.splits")

definition facet_keywords :: "string list" where
  "facet_keywords = [''type'', ''enum'', ''const'', ''required'', ''pattern'', ''minProperties'', ''maxProperties'', ''minItems'',
     ''maxItems'', ''minLength'', ''maxLength'', ''minimum'', ''maximum'', ''exclusiveMinimum'', ''exclusiveMaximum'', ''multipleOf'']"

lemma facet_unknown:
  "k \<notin> set silent_keywords \<Longrightarrow> k \<notin> set facet_keywords \<Longrightarrow> facetKeyword X f k w c = Inl (UnsupportedKeyword k)"
  by (simp add: facetKeyword_def silent_keywords_def facet_keywords_def)

lemma facetKeyword_effect:
  assumes "facetKeyword X f k w c = Inr (f', c')"
  shows "facet_effect f k w f'"
proof (cases "k \<in> set silent_keywords")
  case True
  with facet_silent [OF True assms] show ?thesis by (auto intro: facet_effect.e_silent)
next
  case False
  with assms facet_unknown have "k \<in> set facet_keywords" by fastforce
  moreover have known: "t \<in> set known_types \<Longrightarrow> t \<noteq> []" for t by (auto simp: known_types_def)
  ultimately show ?thesis using assms unfolding facet_keywords_def list.set insert_iff empty_iff
  proof (elim disjE)
    assume k: "k = ''type''"
    show ?thesis using assms known unfolding k facet_keyword_simps
      by (auto intro: facet_effect.e_typ split: "value.splits" if_splits)
  next
    assume k: "k = ''enum''"
    show ?thesis using assms unfolding k facet_keyword_simps
      by (auto simp: result_simps intro: facet_effect.e_enum split: "value.splits" if_splits dest!: enum_items_Inr)
  next
    assume k: "k = ''const''"
    show ?thesis using assms unfolding k facet_keyword_simps by (auto intro: facet_effect.e_const split: if_splits)
  next
    assume k: "k = ''required''"
    show ?thesis using assms unfolding k facet_keyword_simps
      by (auto simp: result_simps intro: facet_effect.e_required split: "value.splits" dest!: required_items_Inr)
  next
    assume k: "k = ''pattern''"
    show ?thesis using assms unfolding k facet_keyword_simps patternKeyword_def
      by (auto intro: facet_effect.e_pattern split: "value.splits" if_splits sum.splits)
  next
    assume k: "k = ''minProperties''"
    show ?thesis using assms unfolding k facet_keyword_simps
      by (auto simp: result_simps intro: facet_effect.e_minProperties split: if_splits dest!: requireNonNegInt_Inr)
  next
    assume k: "k = ''maxProperties''"
    show ?thesis using assms unfolding k facet_keyword_simps
      by (auto simp: result_simps intro: facet_effect.e_maxProperties split: if_splits dest!: requireNonNegInt_Inr)
  next
    assume k: "k = ''minItems''"
    show ?thesis using assms unfolding k facet_keyword_simps
      by (auto simp: result_simps intro: facet_effect.e_minItems split: if_splits dest!: requireNonNegInt_Inr)
  next
    assume k: "k = ''maxItems''"
    show ?thesis using assms unfolding k facet_keyword_simps
      by (auto simp: result_simps intro: facet_effect.e_maxItems split: if_splits dest!: requireNonNegInt_Inr)
  next
    assume k: "k = ''minLength''"
    show ?thesis using assms unfolding k facet_keyword_simps
      by (auto simp: result_simps intro: facet_effect.e_minLength split: if_splits dest!: requireNonNegInt_Inr)
  next
    assume k: "k = ''maxLength''"
    show ?thesis using assms unfolding k facet_keyword_simps
      by (auto simp: result_simps intro: facet_effect.e_maxLength split: if_splits dest!: requireNonNegInt_Inr)
  next
    assume k: "k = ''minimum''"
    show ?thesis using assms unfolding k facet_keyword_simps
      by (auto simp: result_simps requireNumber_Inr intro: facet_effect.e_minimum split: if_splits )
  next
    assume k: "k = ''maximum''"
    show ?thesis using assms unfolding k facet_keyword_simps
      by (auto simp: result_simps requireNumber_Inr intro: facet_effect.e_maximum split: if_splits )
  next
    assume k: "k = ''exclusiveMinimum''"
    show ?thesis using assms unfolding k facet_keyword_simps
      by (auto simp: result_simps requireNumber_Inr intro: facet_effect.e_exclusiveMinimum split: if_splits )
  next
    assume k: "k = ''exclusiveMaximum''"
    show ?thesis using assms unfolding k facet_keyword_simps
      by (auto simp: result_simps requireNumber_Inr intro: facet_effect.e_exclusiveMaximum split: if_splits )
  next
    assume k: "k = ''multipleOf''"
    show ?thesis using assms unfolding k facet_keyword_simps
      by (auto simp: result_simps requireNumber_Inr intro: facet_effect.e_multipleOf split: if_splits )
  qed simp
qed

end
