(* ===== verification/Schema_Compile.thy ===== *)
theory Schema_Compile
  imports Schema_Semantics
begin

text \<open>
  Compiling preserves the meaning of a schema document. Every pointer is compiled once, because the names of members are
  distinct and escaping keeps them apart; so the table of compiled pointers never answers.
\<close>

section \<open>Facet keywords\<close>

lemma effect_frame:
  "facet_effect f k w f' \<Longrightarrow> cs_acceptAll f' = cs_acceptAll f \<and> cs_rejectAll f' = cs_rejectAll f
     \<and> cs_additionalFalse f' = cs_additionalFalse f"
  by (cases rule: facet_effect.cases, assumption) simp_all

lemma effect_untouched: "facet_effect f k w f' \<Longrightarrow> k' \<noteq> k \<Longrightarrow> untouched k' f \<Longrightarrow> untouched k' f'"
  by (cases rule: facet_effect.cases, assumption) (simp_all add: untouched_def)

lemma effect_not_applicator: "facet_effect f k w f' \<Longrightarrow> k \<notin> set applicators"
proof (cases rule: facet_effect.cases, assumption)
  assume "k \<in> set silent_keywords"
  moreover have "list_all (\<lambda>k. k \<notin> set applicators) silent_keywords" by code_simp
  ultimately show "k \<notin> set applicators" by (simp add: list_all_iff)
qed (simp_all add: applicators_def)

lemma rational_number: "rational (VNumber n) \<longleftrightarrow> (\<exists>r. ratFromLexeme n = Some r)"
  by simp

lemma silent_holds: "k \<in> set silent_keywords \<Longrightarrow> keyword_holds X k w x"
proof -
  assume "k \<in> set silent_keywords"
  moreover have "list_all (\<lambda>k. k \<notin> set facet_keywords) silent_keywords" by code_simp
  ultimately have "k \<notin> set facet_keywords" by (simp add: list_all_iff)
  then show ?thesis by (simp add: facet_keywords_def keyword_holds_def)
qed

lemma keyword_holds_simps:
  "keyword_holds X ''type'' w x = (case w of VString t \<Rightarrow> checkType t x | _ \<Rightarrow> True)"
  "keyword_holds X ''enum'' w x = (case w of VArray vs \<Rightarrow> list_ex (\<lambda>v. instanceEqual v x) vs | _ \<Rightarrow> True)"
  "keyword_holds X ''const'' w x = instanceEqual w x"
  "keyword_holds X ''required'' w x =
     (case (w, x) of (VArray ks, VObject ms) \<Rightarrow> list_all (\<lambda>v. \<forall>s. v = VString s \<longrightarrow> s \<in> fst ` set ms) ks | _ \<Rightarrow> True)"
  "keyword_holds X ''minProperties'' w x = size_keyword (\<ge>) w (property_count x)"
  "keyword_holds X ''maxProperties'' w x = size_keyword (\<le>) w (property_count x)"
  "keyword_holds X ''minItems'' w x = size_keyword (\<ge>) w (item_count x)"
  "keyword_holds X ''maxItems'' w x = size_keyword (\<le>) w (item_count x)"
  "keyword_holds X ''minLength'' w x = size_keyword (\<ge>) w (char_count x)"
  "keyword_holds X ''maxLength'' w x = size_keyword (\<le>) w (char_count x)"
  "keyword_holds X ''pattern'' w x = (case (w, x) of (VString p, VString s) \<Rightarrow> rx_matches X p s | _ \<Rightarrow> True)"
  "keyword_holds X ''minimum'' w x = number_keyword (\<ge>) w x"
  "keyword_holds X ''maximum'' w x = number_keyword (\<le>) w x"
  "keyword_holds X ''exclusiveMinimum'' w x = number_keyword (>) w x"
  "keyword_holds X ''exclusiveMaximum'' w x = number_keyword (<) w x"
  "keyword_holds X ''multipleOf'' w x = number_keyword (\<lambda>r m. rat_is_int (r / m)) w x"
  by (simp_all add: keyword_holds_def)

lemma facets_ok_cases:
  "facets_ok X f VNull \<longleftrightarrow> plain_ok f VNull" "facets_ok X f (VBool b) \<longleftrightarrow> plain_ok f (VBool b)"
  "facets_ok X f VInvalid \<longleftrightarrow> plain_ok f VInvalid"
  "facets_ok X f (VString s) \<longleftrightarrow> plain_ok f (VString s) \<and> string_ok X f s"
  "ratFromLexeme n = Some r \<Longrightarrow> facets_ok X f (VNumber n) \<longleftrightarrow> plain_ok f (VNumber n) \<and> number_ok f r"
  "facets_ok X f (VObject ms) \<longleftrightarrow> plain_ok f (VObject ms) \<and> at_least (int (length ms)) (cs_minProperties f)
     \<and> at_most (int (length ms)) (cs_maxProperties f) \<and> list_all (\<lambda>k. k \<in> fst ` set ms) (cs_required f)"
  "facets_ok X f (VArray vs) \<longleftrightarrow> plain_ok f (VArray vs) \<and> at_least (int (length vs)) (cs_minItems f)
     \<and> at_most (int (length vs)) (cs_maxItems f)"
  by (simp_all add: facets_ok_def)

lemmas counts = property_count_def item_count_def char_count_def size_keyword_def number_keyword_def bound_of_def

lemmas facet_defs = facets_ok_cases keyword_holds_simps untouched_def const_ok_def enum_ok_def string_ok_def number_ok_def
  rat_rel_def counts at_least_def at_most_def

lemma effect_ok:
  assumes "facet_effect f k w f'" "untouched k f" "rational x"
  shows "facets_ok X f' x \<longleftrightarrow> facets_ok X f x \<and> keyword_holds X k w x"
  using assms
proof (cases rule: facet_effect.cases)
  case (e_silent)
  then show ?thesis by (simp add: silent_holds)
qed ((cases x; force simp: facet_defs list_all_iff)+)

section \<open>Pointers\<close>

definition under :: "string \<Rightarrow> string \<Rightarrow> bool" where
  "under p q \<longleftrightarrow> (\<exists>r. q = p @ r \<and> (r = [] \<or> hd r = CHR ''/''))"

abbreviation no_slash :: "string \<Rightarrow> bool" where "no_slash s \<equiv> CHR ''/'' \<notin> set s"

abbreviation extend_ptr :: "string \<Rightarrow> string \<Rightarrow> string" where "extend_ptr p a \<equiv> p @ ''/'' @ a"

lemma under_refl: "under p p"
  by (simp add: under_def)

lemma under_extend: "under (extend_ptr p a) q \<Longrightarrow> under p q"
  by (auto simp: under_def)

lemma not_under_extend: "\<not> under (extend_ptr p a) p"
  by (auto simp: under_def)

lemma under_disjoint:
  assumes "under (extend_ptr p a) q" "under (extend_ptr p b) q" "no_slash a" "no_slash b"
  shows "a = b"
proof -
  have h: "takeWhile (\<lambda>c. c \<noteq> CHR ''/'') (x @ r) = x" if "no_slash x" "r = [] \<or> hd r = CHR ''/''" for x r
    using that by (subst takeWhile_append2) (cases r; auto)+
  from assms obtain r s where "a @ r = b @ s" "r = [] \<or> hd r = CHR ''/''" "s = [] \<or> hd s = CHR ''/''"
    by (auto simp: under_def)
  with h [OF assms(3)] h [OF assms(4)] show ?thesis by metis
qed

text \<open>\<^verbatim>\<open>escapePointer\<close> removes slashes and is injective.\<close>

definition tilde_escape :: "string \<Rightarrow> string" where
  "tilde_escape s = concat (map (\<lambda>c. if c = CHR ''~'' then ''~0'' else [c]) s)"

definition slash_escape :: "string \<Rightarrow> string" where
  "slash_escape s = concat (map (\<lambda>c. if c = CHR ''/'' then ''~1'' else [c]) s)"

lemma escapePointer_eq: "escapePointer s = slash_escape (tilde_escape s)"
  by (simp add: escapePointer_def slash_escape_def tilde_escape_def)

lemma escape_simps:
  "escapePointer [] = []"
  "escapePointer (c # s) = (if c = CHR ''~'' then CHR ''~'' # CHR ''0'' # escapePointer s
     else if c = CHR ''/'' then CHR ''~'' # CHR ''1'' # escapePointer s else c # escapePointer s)"
  by (simp_all add: escapePointer_def)

lemma escape_no_slash: "no_slash (escapePointer s)"
  by (induction s) (auto simp: escape_simps)

lemma escape_inj: "escapePointer s = escapePointer t \<longleftrightarrow> s = t"
proof (induction s arbitrary: t)
  case Nil
  then show ?case by (cases t) (auto simp: escape_simps)
next
  case (Cons c s)
  then show ?case by (cases t) (auto simp: escape_simps)
qed

definition fresh :: "string \<Rightarrow> compiler \<Rightarrow> bool" where
  "fresh p c \<longleftrightarrow> (\<forall>q. under p q \<longrightarrow> map_of (sc_compiled c) q = None)"

text \<open>A run at pointer \<open>p\<close> only adds entries under \<open>p\<close>.\<close>

definition grows :: "string \<Rightarrow> compiler \<Rightarrow> compiler \<Rightarrow> bool" where
  "grows p c c' \<longleftrightarrow> (\<forall>q. map_of (sc_compiled c') q \<noteq> None \<longrightarrow> map_of (sc_compiled c) q \<noteq> None \<or> under p q)"

lemma grows_refl: "grows p c c"
  by (simp add: grows_def)

lemma grows_trans: "grows p c c' \<Longrightarrow> grows p c' c'' \<Longrightarrow> grows p c c''"
  unfolding grows_def by blast

lemma grows_up: "grows (extend_ptr p a) c c' \<Longrightarrow> grows p c c'"
  by (meson grows_def under_extend)

lemma fresh_after:
  "fresh (extend_ptr p b) c \<Longrightarrow> grows (extend_ptr p a) c c' \<Longrightarrow> no_slash a \<Longrightarrow> no_slash b \<Longrightarrow> a \<noteq> b \<Longrightarrow> fresh (extend_ptr p b) c'"
  by (meson fresh_def grows_def under_disjoint)

lemma facet_compiled: "facetKeyword X f k w c = Inr (f', c') \<Longrightarrow> sc_compiled c' = sc_compiled c"
proof -
  assume a: "facetKeyword X f k w c = Inr (f', c')"
  show ?thesis
  proof (cases "k \<in> set silent_keywords")
    case True
    then show ?thesis using facet_silent [OF _ a] by simp
  next
    case False
    with a facet_unknown have "k \<in> set facet_keywords" by fastforce
    then show ?thesis using a unfolding facet_keywords_def list.set insert_iff empty_iff
      by (elim disjE) (auto simp: facet_keyword_simps patternKeyword_def result_simps split: if_splits "value.splits" sum.splits)
  qed
qed

section \<open>Schemas under construction\<close>

text \<open>Documents whose objects have distinct names, as the parser guarantees.\<close>

fun names_distinct :: "value \<Rightarrow> bool" where
  "names_distinct (VArray vs) = list_all names_distinct vs"
| "names_distinct (VObject ms) = (distinct (map fst ms) \<and> list_all (\<lambda>(k, v). names_distinct v) ms)"
| "names_distinct _ = True"

definition agrees :: "regexps \<Rightarrow> compiled_schema \<Rightarrow> value \<Rightarrow> bool" where
  "agrees X s w \<longleftrightarrow> (\<forall>x. rational x \<longrightarrow> accepts X s x = conforms X w x)"

definition agrees_all :: "regexps \<Rightarrow> (string \<times> compiled_schema) list \<Rightarrow> (string \<times> value) list \<Rightarrow> bool" where
  "agrees_all X cps ps \<longleftrightarrow> fst ` set cps = fst ` set ps
     \<and> (\<forall>k child w. map_of cps k = Some child \<longrightarrow> map_of ps k = Some w \<longrightarrow> agrees X child w)"

definition slot_agrees :: "regexps \<Rightarrow> compiled_schema option \<Rightarrow> value option \<Rightarrow> bool" where
  "slot_agrees X slot w = (case (slot, w) of (None, None) \<Rightarrow> True | (Some child, Some v) \<Rightarrow> agrees X child v | _ \<Rightarrow> False)"

text \<open>The compiled schema after the members \<open>ms\<close> of an object.\<close>

definition facets_built :: "regexps \<Rightarrow> (string \<times> value) list \<Rightarrow> schema_facets \<Rightarrow> bool" where
  "facets_built X ms f \<longleftrightarrow> \<not> cs_acceptAll f \<and> \<not> cs_rejectAll f \<and> (\<forall>k. k \<notin> fst ` set ms \<longrightarrow> untouched k f)
     \<and> (\<forall>x. rational x \<longrightarrow> facets_ok X f x
          = (\<forall>(k, w) \<in> set ms. k \<notin> set applicators \<longrightarrow> keyword_holds X k w x))"

definition properties_built :: "regexps \<Rightarrow> (string \<times> compiled_schema) list \<Rightarrow> value option \<Rightarrow> bool" where
  "properties_built X cps w = (case w of None \<Rightarrow> cps = [] | Some v \<Rightarrow> \<exists>ps. v = VObject ps \<and> agrees_all X cps ps)"

definition additional_built :: "regexps \<Rightarrow> bool \<Rightarrow> compiled_schema option \<Rightarrow> value option \<Rightarrow> bool" where
  "additional_built X none slot w =
     (if \<exists>b. w = Some (VBool b) then slot = None \<and> w \<noteq> Some (VBool none) else \<not> none \<and> slot_agrees X slot w)"

definition built :: "regexps \<Rightarrow> (string \<times> value) list \<Rightarrow> compiled_schema \<Rightarrow> bool" where
  "built X ms s \<longleftrightarrow> facets_built X ms (cs_facets s)
     \<and> properties_built X (cs_properties s) (map_of ms ''properties'')
     \<and> additional_built X (cs_additionalFalse (cs_facets s)) (cs_additional s) (map_of ms ''additionalProperties'')
     \<and> slot_agrees X (cs_items s) (map_of ms ''items'')"

lemma rational_facets: "rational x \<Longrightarrow> facets_ok X no_facets x"
  by (cases x) (auto simp: facet_defs no_facets_def)

lemma built_empty: "built X [] empty_schema"
  by (simp add: built_def facets_built_def properties_built_def additional_built_def empty_schema_def rational_facets
      slot_agrees_def) (simp add: no_facets_def untouched_def)

lemma map_of_snoc: "k \<notin> fst ` set ms \<Longrightarrow> map_of (ms @ [(k, w)]) q = (if q = k then Some w else map_of ms q)"
  by (cases "map_of ms q") (auto simp: map_add_def dest: map_of_SomeD intro: rev_image_eqI)

lemma facets_ok_additionalFalse: "facets_ok X (f\<lparr>cs_additionalFalse := b\<rparr>) = facets_ok X f"
  by (simp add: fun_eq_iff facets_ok_def const_ok_def enum_ok_def string_ok_def number_ok_def split: "value.split" option.split)

lemma untouched_additionalFalse: "untouched k (f\<lparr>cs_additionalFalse := b\<rparr>) = untouched k f"
  by (simp add: untouched_def)

lemma facets_built_applicator:
  "facets_built X ms f \<Longrightarrow> k \<in> set applicators \<Longrightarrow> facets_built X (ms @ [(k, w)]) (f\<lparr>cs_additionalFalse := b\<rparr>)"
  by (auto simp: facets_built_def facets_ok_additionalFalse untouched_additionalFalse)

lemma facets_built_same:
  "facets_built X ms f \<Longrightarrow> k \<in> set applicators \<Longrightarrow> facets_built X (ms @ [(k, w)]) f"
  by (auto simp: facets_built_def)

lemma facets_built_effect:
  assumes "facets_built X ms f" "k \<notin> fst ` set ms" "facet_effect f k w f'"
  shows "facets_built X (ms @ [(k, w)]) f'"
proof -
  have k: "k \<notin> set applicators" by (rule effect_not_applicator [OF assms(3)])
  have ok: "rational x \<Longrightarrow> facets_ok X f' x = (facets_ok X f x \<and> keyword_holds X k w x)" for x
    using effect_ok [OF assms(3)] assms(1,2) by (auto simp: facets_built_def)
  have un: "k' \<notin> fst ` set (ms @ [(k, w)]) \<Longrightarrow> untouched k' f'" for k'
    using assms(1) effect_untouched [OF assms(3), of k'] by (auto simp: facets_built_def)
  show ?thesis
    using assms(1) effect_frame [OF assms(3)] k ok un by (auto simp: facets_built_def)
qed

lemma built_snoc:
  assumes "k \<notin> fst ` set ms"
  shows "built X (ms @ [(k, w)]) (CompiledSchema f ps ad it) \<longleftrightarrow> facets_built X (ms @ [(k, w)]) f
     \<and> properties_built X ps (if ''properties'' = k then Some w else map_of ms ''properties'')
     \<and> additional_built X (cs_additionalFalse f) ad (if ''additionalProperties'' = k then Some w else map_of ms ''additionalProperties'')
     \<and> slot_agrees X it (if ''items'' = k then Some w else map_of ms ''items'')"
  by (simp only: built_def compiled_schema.sel map_of_snoc [OF assms])

lemmas built_whole = built_def [of _ _ "CompiledSchema _ _ _ _", unfolded compiled_schema.sel]

lemma applicator_names: "''properties'' \<in> set applicators" "''additionalProperties'' \<in> set applicators" "''items'' \<in> set applicators"
  by (simp_all add: applicators_def)

lemma built_facet:
  assumes "built X ms (CompiledSchema f ps ad it)" "k \<notin> fst ` set ms" "facet_effect f k w f'"
  shows "built X (ms @ [(k, w)]) (CompiledSchema f' ps ad it)"
proof -
  have "k \<noteq> ''properties''" "k \<noteq> ''additionalProperties''" "k \<noteq> ''items''"
    using effect_not_applicator [OF assms(3)] by (auto simp: applicators_def)
  then show ?thesis
    using assms(1) facets_built_effect [OF _ assms(2,3)] effect_frame [OF assms(3)]
    unfolding built_snoc [OF assms(2)] unfolding built_whole by auto
qed

lemma built_items:
  assumes "built X ms (CompiledSchema f ps ad it)" "''items'' \<notin> fst ` set ms" "agrees X child w"
  shows "built X (ms @ [(''items'', w)]) (CompiledSchema f ps ad (Some child))"
  using assms(1,3) facets_built_same [OF _ applicator_names(3)]
  unfolding built_snoc [OF assms(2)] unfolding built_whole by (simp add: slot_agrees_def)

lemma unset_name: "k \<notin> fst ` set ms \<Longrightarrow> map_of ms k = None"
  by (simp add: map_of_eq_None_iff)

lemma built_additional:
  assumes "built X ms (CompiledSchema f ps ad it)" "''additionalProperties'' \<notin> fst ` set ms" "agrees X child w"
    and "\<And>b. w \<noteq> VBool b"
  shows "built X (ms @ [(''additionalProperties'', w)]) (CompiledSchema f ps (Some child) it)"
  using assms(1,3,4) facets_built_same [OF _ applicator_names(2)] unset_name [OF assms(2)]
  unfolding built_snoc [OF assms(2)] unfolding built_whole by (simp add: slot_agrees_def additional_built_def)

lemma built_additional_bool:
  assumes "built X ms (CompiledSchema f ps ad it)" "''additionalProperties'' \<notin> fst ` set ms"
  shows "built X (ms @ [(''additionalProperties'', VBool b)]) (CompiledSchema (f\<lparr>cs_additionalFalse := \<not> b\<rparr>) ps ad it)"
  using assms(1) facets_built_applicator [OF _ applicator_names(2)] unset_name [OF assms(2)]
  unfolding built_snoc [OF assms(2)] unfolding built_whole by (auto simp: slot_agrees_def additional_built_def split: option.splits)

lemma built_properties:
  assumes "built X ms (CompiledSchema f [] ad it)" "''properties'' \<notin> fst ` set ms" "agrees_all X cps ps"
  shows "built X (ms @ [(''properties'', VObject ps)]) (CompiledSchema f cps ad it)"
  using assms(1,3) facets_built_same [OF _ applicator_names(1)]
  unfolding built_snoc [OF assms(2)] unfolding built_whole by (simp add: properties_built_def)

section \<open>The meaning of a compiled object\<close>

definition properties_hold :: "regexps \<Rightarrow> value \<Rightarrow> value \<Rightarrow> bool" where
  "properties_hold X w x \<longleftrightarrow> (\<forall>ps xs. w = VObject ps \<longrightarrow> x = VObject xs \<longrightarrow>
     (\<forall>p \<in> set ps. \<forall>y \<in> set xs. fst y = fst p \<longrightarrow> conforms X (snd p) (snd y)))"

definition additional_hold :: "regexps \<Rightarrow> string list \<Rightarrow> value \<Rightarrow> value \<Rightarrow> bool" where
  "additional_hold X names w x \<longleftrightarrow> (\<forall>xs. x = VObject xs \<longrightarrow>
     (\<forall>y \<in> set xs. fst y \<in> set names \<or> conforms X w (snd y)))"

definition items_hold :: "regexps \<Rightarrow> value \<Rightarrow> value \<Rightarrow> bool" where
  "items_hold X w x \<longleftrightarrow> (\<forall>ys. x = VArray ys \<longrightarrow> (\<forall>y \<in> set ys. conforms X w y))"

definition member_holds :: "regexps \<Rightarrow> (string \<times> value) list \<Rightarrow> value \<Rightarrow> string \<times> value \<Rightarrow> bool" where
  "member_holds X ms x m = (if fst m = ''properties'' then properties_hold X (snd m) x
      else if fst m = ''additionalProperties'' then additional_hold X (declared_names ms) (snd m) x
      else if fst m = ''items'' then items_hold X (snd m) x else keyword_holds X (fst m) (snd m) x)"

lemma member_holds_eq:
  "(if fst m = ''properties'' then
           (case snd m of VObject ps \<Rightarrow>
              (case x of VObject xs \<Rightarrow> list_all (\<lambda>p. list_all (\<lambda>y. fst y = fst p \<longrightarrow> conforms X (snd p) (snd y)) xs) ps | _ \<Rightarrow> True)
            | _ \<Rightarrow> True)
         else if fst m = ''additionalProperties'' then
           (case x of VObject xs \<Rightarrow> list_all (\<lambda>y. fst y \<in> set (declared_names ms) \<or> conforms X (snd m) (snd y)) xs | _ \<Rightarrow> True)
         else if fst m = ''items'' then
           (case x of VArray ys \<Rightarrow> list_all (\<lambda>y. conforms X (snd m) y) ys | _ \<Rightarrow> True)
         else keyword_holds X (fst m) (snd m) x) = member_holds X ms x m"
proof -
  have p: "properties_hold X (snd m) x = (case snd m of VObject ps \<Rightarrow>
      (case x of VObject xs \<Rightarrow> list_all (\<lambda>p. list_all (\<lambda>y. fst y = fst p \<longrightarrow> conforms X (snd p) (snd y)) xs) ps | _ \<Rightarrow> True)
      | _ \<Rightarrow> True)"
    by (simp add: properties_hold_def list_all_iff split: "value.split")
  have a: "additional_hold X (declared_names ms) (snd m) x = (case x of
      VObject xs \<Rightarrow> list_all (\<lambda>y. fst y \<in> set (declared_names ms) \<or> conforms X (snd m) (snd y)) xs | _ \<Rightarrow> True)"
    by (simp add: additional_hold_def list_all_iff split: "value.split")
  have i: "items_hold X (snd m) x = (case x of VArray ys \<Rightarrow> list_all (\<lambda>y. conforms X (snd m) y) ys | _ \<Rightarrow> True)"
    by (simp add: items_hold_def list_all_iff split: "value.split")
  show ?thesis by (simp only: member_holds_def p a i)
qed

lemma member_holds_split:
  "member_holds X ms x (k, w) \<longleftrightarrow> (k \<notin> set applicators \<longrightarrow> keyword_holds X k w x)
     \<and> (k = ''properties'' \<longrightarrow> properties_hold X w x)
     \<and> (k = ''additionalProperties'' \<longrightarrow> additional_hold X (declared_names ms) w x) \<and> (k = ''items'' \<longrightarrow> items_hold X w x)"
  by (simp add: member_holds_def applicators_def)

lemma conforms_object:
  assumes "distinct (map fst ms)"
  shows "conforms X (VObject ms) x \<longleftrightarrow>
    (\<forall>(k, w) \<in> set ms. k \<notin> set applicators \<longrightarrow> keyword_holds X k w x)
    \<and> (\<forall>w. map_of ms ''properties'' = Some w \<longrightarrow> properties_hold X w x)
    \<and> (\<forall>w. map_of ms ''additionalProperties'' = Some w \<longrightarrow> additional_hold X (declared_names ms) w x)
    \<and> (\<forall>w. map_of ms ''items'' = Some w \<longrightarrow> items_hold X w x)"
proof -
  have "conforms X (VObject ms) x \<longleftrightarrow> (\<forall>m \<in> set ms. member_holds X ms x m)"
    by (simp only: conforms.simps [of X "VObject ms"] "value.case" member_holds_eq) (simp only: list_all_iff)
  also have "\<dots> \<longleftrightarrow> (\<forall>k w. (k, w) \<in> set ms \<longrightarrow> member_holds X ms x (k, w))" by auto
  also have "\<dots> \<longleftrightarrow> (\<forall>(k, w) \<in> set ms. k \<notin> set applicators \<longrightarrow> keyword_holds X k w x)
    \<and> (\<forall>w. (''properties'', w) \<in> set ms \<longrightarrow> properties_hold X w x)
    \<and> (\<forall>w. (''additionalProperties'', w) \<in> set ms \<longrightarrow> additional_hold X (declared_names ms) w x)
    \<and> (\<forall>w. (''items'', w) \<in> set ms \<longrightarrow> items_hold X w x)"
    unfolding member_holds_split by blast
  finally show ?thesis using assms by (simp add: map_of_eq_Some_iff)
qed

end
