(* ===== verification/Schema_Sound.thy ===== *)
theory Schema_Sound
  imports Schema_Compile
begin

text \<open>
  The compiled form of a document accepts exactly the instances that conform to the document: by induction on its size, with
  the invariant \<open>built\<close> over the members of an object.
\<close>

section \<open>Objects\<close>

lemma agreesD: "agrees X s w \<Longrightarrow> rational x \<Longrightarrow> accepts X s x = conforms X w x"
  by (simp add: agrees_def)

lemma conforms_bool: "conforms X (VBool b) x = b"
  by (simp add: conforms.simps [of X "VBool b"])

definition member_meaning :: "regexps \<Rightarrow> (string \<times> value) list \<Rightarrow> string \<Rightarrow> value \<Rightarrow> bool" where
  "member_meaning X ms k v \<longleftrightarrow>
     (\<forall>ps w. map_of ms ''properties'' = Some (VObject ps) \<longrightarrow> map_of ps k = Some w \<longrightarrow> conforms X w v)
     \<and> (\<forall>w. map_of ms ''additionalProperties'' = Some w \<longrightarrow> k \<in> set (declared_names ms) \<or> conforms X w v)"

lemma built_declared:
  assumes "built X ms s"
  shows "set (declared_names ms) = fst ` set (cs_properties s)"
proof (cases "map_of ms ''properties''")
  case None
  with assms show ?thesis by (simp add: built_def properties_built_def declared_names_def)
next
  case (Some w)
  with assms obtain ps where "w = VObject ps" "agrees_all X (cs_properties s) ps"
    by (auto simp: built_def properties_built_def)
  then show ?thesis by (simp add: Some declared_names_def agrees_all_def)
qed

lemma built_member:
  assumes "built X ms s" "rational v"
  shows "(member_allowed s k \<and> (case member_schema s k of Some child \<Rightarrow> accepts X child v | None \<Rightarrow> True))
    \<longleftrightarrow> member_meaning X ms k v"
proof (cases "k \<in> set (declared_names ms)")
  case True
  then obtain ps where ps: "map_of ms ''properties'' = Some (VObject ps)" "k \<in> fst ` set ps"
    by (cases "map_of ms ''properties''") (auto simp: declared_names_def split: "value.splits")
  with assms(1) have a: "agrees_all X (cs_properties s) ps" by (simp add: built_def properties_built_def)
  then obtain child w where cw: "map_of (cs_properties s) k = Some child" "map_of ps k = Some w"
    using ps(2) by (metis agrees_all_def map_of_eq_None_iff option.exhaust)
  with a have "agrees X child w" by (auto simp: agrees_all_def)
  with cw ps(1) True agreesD [OF _ assms(2)] show ?thesis
    by (auto simp: member_allowed_def member_schema_def member_meaning_def)
next
  case False
  then have n: "map_of (cs_properties s) k = None"
    using built_declared [OF assms(1)] by (simp add: map_of_eq_None_iff)
  have np: "map_of ms ''properties'' = Some (VObject ps) \<Longrightarrow> map_of ps k = None" for ps
    using False by (simp add: declared_names_def map_of_eq_None_iff)
  have ad: "additional_built X (cs_additionalFalse (cs_facets s)) (cs_additional s) (map_of ms ''additionalProperties'')"
    using assms(1) by (simp add: built_def)
  show ?thesis
  proof (cases "\<exists>b. map_of ms ''additionalProperties'' = Some (VBool b)")
    case True
    with ad n np False show ?thesis
      by (auto simp: additional_built_def member_allowed_def member_schema_def member_meaning_def conforms_bool)
  next
    case nb: False
    with ad have ad': "\<not> cs_additionalFalse (cs_facets s)" "slot_agrees X (cs_additional s) (map_of ms ''additionalProperties'')"
      by (simp_all add: additional_built_def)
    show ?thesis
    proof (cases "map_of ms ''additionalProperties''")
      case None
      with ad' n np False show ?thesis
        by (auto simp: member_allowed_def member_schema_def member_meaning_def slot_agrees_def split: option.splits)
    next
      case (Some w)
      with ad'(2) obtain child where "cs_additional s = Some child" "agrees X child w"
        by (auto simp: slot_agrees_def split: option.splits)
      with Some ad'(1) n np False agreesD [OF _ assms(2)] show ?thesis
        by (auto simp: member_allowed_def member_schema_def member_meaning_def)
    qed
  qed
qed

lemma object_meaning:
  assumes "names_distinct (VObject ms)"
  shows "(\<forall>w. map_of ms ''properties'' = Some w \<longrightarrow> properties_hold X w (VObject xs))
      \<and> (\<forall>w. map_of ms ''additionalProperties'' = Some w \<longrightarrow> additional_hold X (declared_names ms) w (VObject xs))
    \<longleftrightarrow> (\<forall>y \<in> set xs. member_meaning X ms (fst y) (snd y))"
proof -
  have d: "map_of ms ''properties'' = Some (VObject ps) \<Longrightarrow> distinct (map fst ps)" for ps
    using assms map_of_SomeD [of ms "''properties''" "VObject ps"] by (auto simp: list_all_iff)
  have "properties_hold X (VObject ps) (VObject xs) \<longleftrightarrow>
      (\<forall>y \<in> set xs. \<forall>w. map_of ps (fst y) = Some w \<longrightarrow> conforms X w (snd y))"
    if "map_of ms ''properties'' = Some (VObject ps)" for ps
    unfolding map_of_eq_Some_iff [OF d [OF that]] by (force simp: properties_hold_def)
  moreover have "properties_hold X w (VObject xs)" if "\<nexists>ps. w = VObject ps" for w
    using that by (simp add: properties_hold_def)
  ultimately have p: "(\<forall>w. map_of ms ''properties'' = Some w \<longrightarrow> properties_hold X w (VObject xs)) \<longleftrightarrow>
      (\<forall>y \<in> set xs. \<forall>ps w. map_of ms ''properties'' = Some (VObject ps) \<longrightarrow> map_of ps (fst y) = Some w \<longrightarrow> conforms X w (snd y))"
    by metis
  show ?thesis unfolding p by (auto simp: member_meaning_def additional_hold_def)
qed

lemma rational_parts:
  "rational (VObject xs) \<Longrightarrow> y \<in> set xs \<Longrightarrow> rational (snd y)"
  "rational (VArray ys) \<Longrightarrow> y' \<in> set ys \<Longrightarrow> rational y'"
  by (auto simp: list_all_iff)

lemma built_agrees:
  assumes "built X ms s" "names_distinct (VObject ms)"
  shows "agrees X s (VObject ms)"
  unfolding agrees_def
proof (intro allI impI)
  fix x assume x: "rational x"
  have dm: "distinct (map fst ms)" using assms(2) by simp
  have f: "\<not> cs_acceptAll (cs_facets s)" "\<not> cs_rejectAll (cs_facets s)"
    "facets_ok X (cs_facets s) x \<longleftrightarrow> (\<forall>(k, w) \<in> set ms. k \<notin> set applicators \<longrightarrow> keyword_holds X k w x)"
    using assms(1) x by (simp_all add: built_def facets_built_def)
  consider (obj) xs where "x = VObject xs" | (arr) ys where "x = VArray ys" | (other) "\<And>xs. x \<noteq> VObject xs" "\<And>ys. x \<noteq> VArray ys"
    by blast
  then show "accepts X s x = conforms X (VObject ms) x"
  proof cases
    case obj
    have "list_all (\<lambda>m. member_allowed s (fst m)
        \<and> (case member_schema s (fst m) of Some child \<Rightarrow> accepts X child (snd m) | None \<Rightarrow> True)) xs
      \<longleftrightarrow> (\<forall>y \<in> set xs. member_meaning X ms (fst y) (snd y))"
      using built_member [OF assms(1)] rational_parts(1) [OF x [unfolded obj]] by (simp add: list_all_iff)
    also note object_meaning [OF assms(2), symmetric]
    finally show ?thesis
      using f(1,2)
      unfolding accepts.simps [of X s x] conforms_object [OF dm] f(3) unfolding obj by (auto simp: items_hold_def)
  next
    case arr
    have i: "slot_agrees X (cs_items s) (map_of ms ''items'')" using assms(1) by (simp add: built_def)
    have "(case cs_items s of Some child \<Rightarrow> list_all (accepts X child) ys | None \<Rightarrow> True)
      \<longleftrightarrow> (\<forall>w. map_of ms ''items'' = Some w \<longrightarrow> items_hold X w (VArray ys))"
      using i rational_parts(2) [OF x [unfolded arr]]
      by (auto simp: slot_agrees_def items_hold_def list_all_iff agrees_def split: option.splits)
    then show ?thesis
      using f(1,2)
      unfolding accepts.simps [of X s x] conforms_object [OF dm] f(3) unfolding arr
      by (auto simp: properties_hold_def additional_hold_def)
  next
    case other
    then have "(case x of VObject ms \<Rightarrow> P ms | VArray vs \<Rightarrow> Q vs | _ \<Rightarrow> True) \<longleftrightarrow> True" for P Q
      by (cases x) auto
    moreover have "properties_hold X w x" "additional_hold X ns w x" "items_hold X w x" for w ns
      using other by (auto simp: properties_hold_def additional_hold_def items_hold_def)
    ultimately show ?thesis using f(1,2) unfolding accepts.simps [of X s x] conforms_object [OF dm] f(3) by simp
  qed
qed

section \<open>Compiling\<close>

definition compiles_well :: "regexps \<Rightarrow> value \<Rightarrow> bool" where
  "compiles_well X v \<longleftrightarrow> (\<forall>ptr depth c s c'. compile X ptr v depth c = Inr (s, c') \<longrightarrow> names_distinct v \<longrightarrow> fresh ptr c
     \<longrightarrow> agrees X s v \<and> grows ptr c c')"

lemma compiles_wellD:
  "compiles_well X v \<Longrightarrow> compile X ptr v depth c = Inr (s, c') \<Longrightarrow> names_distinct v \<Longrightarrow> fresh ptr c \<Longrightarrow> agrees X s v \<and> grows ptr c c'"
  by (simp add: compiles_well_def)

lemma agrees_all_snoc:
  assumes "agrees_all X cps ps" "k \<notin> fst ` set ps" "agrees X child w"
  shows "agrees_all X (gput k child cps) (ps @ [(k, w)])"
proof -
  have "fst ` set (gput k child cps) = fst ` set (ps @ [(k, w)])"
    using assms(1) by (auto simp: keys_gput agrees_all_def)
  moreover have "map_of (gput k child cps) q = Some d \<Longrightarrow> map_of (ps @ [(k, w)]) q = Some u \<Longrightarrow> agrees X d u" for q d u
    using assms(1,3) unfolding map_of_snoc [OF assms(2)] by (auto simp: agrees_all_def split: if_splits)
  ultimately show ?thesis by (auto simp: agrees_all_def)
qed

lemma compile_properties:
  assumes "\<And>m. m \<in> set rest \<Longrightarrow> compiles_well X (snd m) \<and> names_distinct (snd m)"
    and "distinct (map fst (pre @ rest))" "agrees_all X cps pre"
    and "\<And>k. k \<in> fst ` set rest \<Longrightarrow> fresh (extend_ptr p (escapePointer k)) c"
    and "rfold (\<lambda>st m. rbind (compile X (extend_ptr p (escapePointer (fst m))) (snd m) (depth + 1) (snd st)) (\<lambda>(child, c1).
           Inr (put_property (fst m) child (fst st), c1))) (CompiledSchema f cps ad it, c) rest = Inr (s', c')"
  shows "\<exists>cps'. s' = CompiledSchema f cps' ad it \<and> agrees_all X cps' (pre @ rest) \<and> grows p c c'"
  using assms
proof (induction rest arbitrary: pre cps c)
  case Nil
  then show ?case by (auto simp: grows_refl)
next
  case (Cons m rest)
  obtain k w where m: "m = (k, w)" by (cases m)
  from Cons.prems(5) obtain child c1 where run: "compile X (extend_ptr p (escapePointer k)) w (depth + 1) c = Inr (child, c1)"
    and tail: "rfold (\<lambda>st m. rbind (compile X (extend_ptr p (escapePointer (fst m))) (snd m) (depth + 1) (snd st)) (\<lambda>(child, c1).
           Inr (put_property (fst m) child (fst st), c1))) (CompiledSchema f (gput k child cps) ad it, c1) rest = Inr (s', c')"
    by (auto simp: m result_simps put_property_def)
  have w: "compiles_well X w" "names_distinct w" using Cons.prems(1) [of m] by (auto simp: m)
  have g: "agrees X child w" "grows (extend_ptr p (escapePointer k)) c c1"
    using compiles_wellD [OF w(1) run w(2)] Cons.prems(4) [of k] by (auto simp: m)
  have d: "distinct (map fst ((pre @ [m]) @ rest))" using Cons.prems(2) by simp
  have a: "agrees_all X (gput k child cps) (pre @ [m])"
    unfolding m by (rule agrees_all_snoc [OF Cons.prems(3)]) (use Cons.prems(2) g(1) in \<open>auto simp: m\<close>)
  have fr: "fresh (extend_ptr p (escapePointer q)) c1" if "q \<in> fst ` set rest" for q
  proof (rule fresh_after [OF _ g(2) escape_no_slash escape_no_slash])
    show "fresh (extend_ptr p (escapePointer q)) c" using Cons.prems(4) [of q] that by (auto simp: m)
    show "escapePointer k \<noteq> escapePointer q" using Cons.prems(2) that by (auto simp: m escape_inj)
  qed
  obtain cps' where "s' = CompiledSchema f cps' ad it" "agrees_all X cps' ((pre @ [m]) @ rest)" "grows p c1 c'"
    using Cons.IH [OF _ d a fr tail] Cons.prems(1) by auto
  with grows_trans [OF grows_up [OF g(2)]] show ?case by auto
qed

lemma fresh_up: "fresh p c \<Longrightarrow> fresh (extend_ptr p a) c"
  by (meson fresh_def under_extend)

lemma applicator_no_slash: "k \<in> set applicators \<Longrightarrow> no_slash k"
  by (auto simp: applicators_def)

lemma apply_keyword:
  assumes run: "applyKeyword X p depth (s, c) (k, w) = Inr (s', c')"
    and "built X ms s" "k \<notin> fst ` set ms" "names_distinct w"
    and fr: "k \<in> set applicators \<Longrightarrow> fresh (extend_ptr p k) c"
    and well: "compiles_well X w" "\<And>ps m. w = VObject ps \<Longrightarrow> m \<in> set ps \<Longrightarrow> compiles_well X (snd m)"
  shows "built X (ms @ [(k, w)]) s' \<and> (if k \<in> set applicators then grows (extend_ptr p k) c c' else sc_compiled c' = sc_compiled c)"
proof -
  obtain f ps ad it where s: "s = CompiledSchema f ps ad it" by (cases s)
  note b = assms(2) [unfolded s]
  consider "k = ''properties''" | "k = ''additionalProperties''" | "k = ''items''" | "k \<notin> set applicators"
    by (auto simp: applicators_def)
  then show ?thesis
  proof cases
    case 1
    from b assms(3) have ps: "ps = []" by (auto simp: built_whole properties_built_def 1 unset_name)
    from run obtain us where w: "w = VObject us"
      by (auto simp: s 1 applyKeyword.simps split: "value.splits")
    have "\<exists>cps'. s' = CompiledSchema f cps' ad it \<and> agrees_all X cps' ([] @ us) \<and> grows (extend_ptr p k) c c'"
    proof (rule compile_properties [where depth = depth])
      show "compiles_well X (snd m) \<and> names_distinct (snd m)" if "m \<in> set us" for m
        using well(2) [OF w that] assms(4) that by (auto simp: w list_all_iff)
      show "distinct (map fst ([] @ us))" using assms(4) by (simp add: w)
      show "agrees_all X [] []" by (simp add: agrees_all_def)
      show "fresh (extend_ptr (extend_ptr p k) (escapePointer q)) c" for q
        using fresh_up [OF fr] by (simp add: 1 applicators_def)
      show "rfold (\<lambda>st m. rbind (compile X (extend_ptr (extend_ptr p k) (escapePointer (fst m))) (snd m) (depth + 1) (snd st))
          (\<lambda>(child, c1). Inr (put_property (fst m) child (fst st), c1))) (CompiledSchema f [] ad it, c) us = Inr (s', c')"
        using run by (simp add: s 1 w ps applyKeyword.simps)
    qed
    with built_properties [OF b [unfolded ps]] assms(3) show ?thesis by (auto simp: 1 w applicators_def)
  next
    case 2
    show ?thesis
    proof (cases "\<exists>v. w = VBool v")
      case True
      with run built_additional_bool [OF b] assms(3) show ?thesis by (auto simp: s 2 applyKeyword.simps grows_refl)
    next
      case False
      with run obtain child where "compile X (extend_ptr p k) w (depth + 1) c = Inr (child, c')" "s' = CompiledSchema f ps (Some child) it"
        by (auto simp: s 2 applyKeyword.simps result_simps split: "value.splits")
      with compiles_wellD [OF well(1) _ assms(4)] fr built_additional [OF b] assms(3) False show ?thesis
        by (auto simp: 2 applicators_def)
    qed
  next
    case 3
    from run obtain child where "compile X (extend_ptr p k) w (depth + 1) c = Inr (child, c')" "s' = CompiledSchema f ps ad (Some child)"
      by (auto simp: s 3 applyKeyword.simps result_simps split: "value.splits")
    with compiles_wellD [OF well(1) _ assms(4)] fr built_items [OF b] assms(3) show ?thesis
      by (auto simp: 3 applicators_def)
  next
    case 4
    then have "k \<noteq> ''properties''" "k \<noteq> ''additionalProperties''" "k \<noteq> ''items''" by (auto simp: applicators_def)
    with run obtain f' where f': "facetKeyword X f k w c = Inr (f', c')" "s' = CompiledSchema f' ps ad it"
      by (auto simp: s applyKeyword.simps result_simps)
    with built_facet [OF b assms(3) facetKeyword_effect] facet_compiled [OF f'(1)] 4 show ?thesis by simp
  qed
qed

lemma compile_members:
  assumes "\<And>m. m \<in> set rest \<Longrightarrow> names_distinct (snd m) \<and> compiles_well X (snd m)
      \<and> (\<forall>ps m'. snd m = VObject ps \<longrightarrow> m' \<in> set ps \<longrightarrow> compiles_well X (snd m'))"
    and "distinct (map fst (pre @ rest))" "built X pre s"
    and "\<And>k. k \<in> set applicators \<Longrightarrow> k \<in> fst ` set rest \<Longrightarrow> fresh (extend_ptr p k) c"
    and "rfold (\<lambda>st m. applyKeyword X p depth st m) (s, c) rest = Inr (s', c')"
  shows "built X (pre @ rest) s' \<and> grows p c c'"
  using assms
proof (induction rest arbitrary: pre s c)
  case Nil
  then show ?case by (simp add: grows_refl)
next
  case (Cons m rest)
  obtain k w where m: "m = (k, w)" by (cases m)
  from Cons.prems(5) obtain s1 c1 where run: "applyKeyword X p depth (s, c) (k, w) = Inr (s1, c1)"
    and tail: "rfold (\<lambda>st m. applyKeyword X p depth st m) (s1, c1) rest = Inr (s', c')"
    by (auto simp: m result_simps)
  have one: "built X (pre @ [(k, w)]) s1 \<and> (if k \<in> set applicators then grows (extend_ptr p k) c c1 else sc_compiled c1 = sc_compiled c)"
    by (rule apply_keyword [OF run Cons.prems(3)])
      (use Cons.prems(1) [of m] Cons.prems(2) Cons.prems(4) [of k] in \<open>auto simp: m\<close>)
  have fr: "fresh (extend_ptr p q) c1" if q: "q \<in> set applicators" "q \<in> fst ` set rest" for q
  proof (cases "k \<in> set applicators")
    case True
    have "k \<noteq> q" using Cons.prems(2) q(2) by (auto simp: m)
    with one True Cons.prems(4) [OF q(1)] q(2) show ?thesis
      using fresh_after [of p q c k c1] applicator_no_slash [OF q(1)] applicator_no_slash [OF True] by auto
  next
    case False
    with one Cons.prems(4) [OF q(1)] q(2) show ?thesis by (simp add: fresh_def)
  qed
  have "built X ((pre @ [m]) @ rest) s' \<and> grows p c1 c'"
  proof (rule Cons.IH [OF _ _ _ fr tail])
    show "names_distinct (snd q) \<and> compiles_well X (snd q)
      \<and> (\<forall>ps m'. snd q = VObject ps \<longrightarrow> m' \<in> set ps \<longrightarrow> compiles_well X (snd m'))" if "q \<in> set rest" for q
      using Cons.prems(1) [of q] that by simp
  qed (use Cons.prems(2) one in \<open>auto simp: m\<close>)
  moreover have "grows p c c1" using one grows_up [of p k c c1] by (auto simp: grows_def split: if_splits)
  ultimately show ?case using grows_trans by auto
qed

theorem compile_meaning: "compiles_well X v"
proof (induction v rule: measure_induct_rule [where f = size])
  case (less v)
  show ?case
    unfolding compiles_well_def
  proof (intro allI impI)
    fix ptr depth c s c'
    assume run: "compile X ptr v depth c = Inr (s, c')" and n: "names_distinct v" and fr: "fresh ptr c"
    let ?c0 = "c\<lparr>sc_compiled := gput ptr None (sc_compiled c)\<rparr>"
    have "map_of (sc_compiled c) ptr = None" using fr under_refl by (simp add: fresh_def)
    with run obtain c1 where body: "compileBody X ptr v depth ?c0 = Inr (s, c1)"
      and c': "c' = c1\<lparr>sc_compiled := gput ptr (Some s) (sc_compiled c1)\<rparr>"
      by (auto simp: compile.simps result_simps split: if_splits)
    have g0: "grows ptr c ?c0" by (simp add: grows_def under_refl)
    have g2: "grows ptr c1 c'" by (simp add: c' grows_def under_refl)
    have main: "agrees X s v \<and> grows ptr ?c0 c1"
    proof (cases v)
      case (VBool b)
      with body have "s = upd_facets (if b then cs_acceptAll_update (\<lambda>_. True) else cs_rejectAll_update (\<lambda>_. True)) empty_schema" "c1 = ?c0"
        by (auto simp: compileBody.simps)
      then show ?thesis
        by (simp add: VBool agrees_def conforms_bool grows_refl upd_facets_def empty_schema_def no_facets_def
            accepts.simps [of X "CompiledSchema _ _ _ _"])
    next
      case (VObject ms)
      with body have fold: "rfold (\<lambda>st m. applyKeyword X ptr depth st m) (empty_schema, ?c0) ms = Inr (s, c1)"
        by (auto simp: compileBody.simps result_simps split: if_splits)
      have "built X ([] @ ms) s \<and> grows ptr ?c0 c1"
      proof (rule compile_members [OF _ _ built_empty _ fold])
        fix m assume m: "m \<in> set ms"
        then have sz: "size (snd m) < size v" using member_size [of "fst m" "snd m" ms] by (simp add: VObject)
        have "compiles_well X (snd m')" if "snd m = VObject ps" "m' \<in> set ps" for ps m'
          using less.IH [of "snd m'"] sz member_size [of "fst m'" "snd m'" ps] that by simp
        then show "names_distinct (snd m) \<and> compiles_well X (snd m)
            \<and> (\<forall>ps m'. snd m = VObject ps \<longrightarrow> m' \<in> set ps \<longrightarrow> compiles_well X (snd m'))"
          using less.IH [OF sz] n m by (auto simp: VObject list_all_iff)
      next
        show "distinct (map fst ([] @ ms))" using n by (simp add: VObject)
      next
        fix k
        show "fresh (extend_ptr ptr k) ?c0"
          using fresh_up [OF fr, of k] not_under_extend [of ptr k] by (auto simp: fresh_def)
      qed
      then show ?thesis using built_agrees n by (simp add: VObject)
    qed (use body in \<open>simp_all add: compileBody.simps\<close>)
    then show "agrees X s v \<and> grows ptr c c'" using g0 g2 grows_trans by blast
  qed
qed

end
