(* ===== verification/Schema_Props.thy ===== *)
theory Schema_Props
  imports Schema_Sound
begin

text \<open>
  What the schema compiler and the validator promise together: validation decides conformance to the raw document, within
  its budget; every compiled schema is well formed.
\<close>

section \<open>Parsed documents\<close>

lemma scan_sign_append: "scan_sign s = (sg, s1) \<Longrightarrow> s = sg @ s1"
  by (auto simp: scan_sign_def split: list.splits if_splits)

lemma number_rational:
  assumes "parseNumber L n = Inr (n, [])"
  shows "\<exists>r. ratFromLexeme n = Some r"
proof -
  obtain sg s1 where sg: "scan_sign n = (sg, s1)" by (cases "scan_sign n")
  from assms obtain ip s2 fr s3 ex e where "scan_int s1 = Inr (ip, s2)" "scan_frac s2 = Inr (fr, s3)" "scan_exp s3 = Inr (ex, e, [])"
    by (auto simp: parseNumber_def sg result_simps Let_def split: if_splits)
  then show ?thesis by (simp add: ratFromLexeme_def sg Let_def)
qed

lemma wf_rational: "wf_value L v \<Longrightarrow> rational v"
  by (induction v) (auto simp: list_all_iff dest: number_rational)

lemma wf_names_distinct: "wf_value L v \<Longrightarrow> names_distinct v"
  by (induction v) (auto simp: list_all_iff)

lemma parsed_shape: "Parse raw L = Inr v \<Longrightarrow> rational v \<and> names_distinct v"
  using Parse_admitted [of raw L v] wf_rational wf_names_distinct by (auto simp: admitted_def)

section \<open>The compiled document\<close>

lemma accepts_regexCost: "accepts X (upd_facets (cs_regexCost_update g) s) x = accepts X s x"
proof -
  have "facets_ok X (cs_regexCost_update g (cs_facets s)) x = facets_ok X (cs_facets s) x"
    by (simp add: facets_ok_def const_ok_def enum_ok_def string_ok_def number_ok_def split: "value.split" option.split)
  moreover have "member_allowed (upd_facets (cs_regexCost_update g) s) = member_allowed s"
    "member_schema (upd_facets (cs_regexCost_update g) s) = member_schema s"
    by (rule ext, simp add: member_allowed_def member_schema_def upd_facets_def split: option.split)+
  ultimately show ?thesis
    unfolding accepts.simps [of X "upd_facets (cs_regexCost_update g) s" x] accepts.simps [of X s x]
    by (cases x) (simp_all add: upd_facets_def)
qed

text \<open>Marking only counts.\<close>

definition only_counts :: "compiler \<Rightarrow> schema_error + compiler \<Rightarrow> bool" where
  "only_counts c r \<longleftrightarrow> (case r of Inl _ \<Rightarrow> True | Inr c' \<Rightarrow> sc_compiled c' = sc_compiled c \<and> sc_regex c' = sc_regex c
     \<and> (sc_members c \<le> maxSchemaMembers \<longrightarrow> sc_members c' \<le> maxSchemaMembers))"

lemma only_counts_trans: "only_counts c (Inr d) \<Longrightarrow> only_counts d r \<Longrightarrow> only_counts c r"
  by (cases r) (auto simp: only_counts_def)

lemma only_counts_fold:
  "(\<And>t m. m \<in> set ms \<Longrightarrow> only_counts t (g t m)) \<Longrightarrow> only_counts c (rfold g c ms)"
proof (induction ms arbitrary: c)
  case (Cons m ms)
  show ?case
  proof (cases "g c m")
    case (Inr d)
    then show ?thesis using Cons only_counts_trans [of c d] by (metis list.set_intros rbind_Inr rfold.simps(2))
  qed (simp add: only_counts_def)
qed (simp add: only_counts_def)

lemma only_counts_Inl [simp]: "only_counts c (Inl e)"
  by (simp add: only_counts_def)

lemma only_counts_Inr [simp]: "only_counts c (Inr c)"
  by (simp add: only_counts_def)

lemma only_counts_graph: "only_counts (c\<lparr>sc_graph := n\<rparr>) r \<longleftrightarrow> only_counts c r"
  by (cases r) (simp_all add: only_counts_def)

lemma only_counts_member:
  "only_counts (c\<lparr>sc_members := sc_members c + 1\<rparr>) r \<Longrightarrow> sc_members c + 1 \<le> maxSchemaMembers \<Longrightarrow> only_counts c r"
  by (cases r) (simp_all add: only_counts_def)

lemma mark_counts: "only_counts c (mark ptr val depth c)"
  and walk_counts: "only_counts c (walkKeyword parent depth c m)"
proof (induction ptr val depth c and parent depth c m rule: mark_walkKeyword.induct)
  case (1 ptr val depth c)
  show ?case
  proof (cases val)
    case (VObject ms)
    have "only_counts (c\<lparr>sc_graph := sc_graph c + 1\<rparr>)
        (rfold (\<lambda>c m. walkKeyword ptr (depth + 1) c m) (c\<lparr>sc_graph := sc_graph c + 1\<rparr>) ms)"
      if "\<not> depth > maxSchemaGraphDepth" "\<not> sc_graph c \<ge> maxSchemaGraphNodes"
      by (rule only_counts_fold) (use 1 that VObject in blast)
    then show ?thesis unfolding mark.simps VObject Let_def only_counts_graph by simp
  qed (simp_all add: mark.simps Let_def only_counts_def)
next
  case (2 parent depth c key val)
  have fold: "only_counts c (rfold (\<lambda>c m.
      if sc_members c + 1 > maxSchemaMembers then Inl MemberBudget
      else mark (parent @ ''/'' @ escapePointer key @ ''/'' @ escapePointer (fst m)) (snd m) depth
        (c\<lparr>sc_members := sc_members c + 1\<rparr>)) c ms)"
    if "val = VObject ms" "key = ''$defs'' \<or> key = ''properties''" for ms
  proof (rule only_counts_fold)
    fix t m assume m: "m \<in> set ms"
    show "only_counts t (if sc_members t + 1 > maxSchemaMembers then Inl MemberBudget
      else mark (parent @ ''/'' @ escapePointer key @ ''/'' @ escapePointer (fst m)) (snd m) depth
        (t\<lparr>sc_members := sc_members t + 1\<rparr>))"
      using only_counts_member [of t] 2(1) [of ms m t] that m by auto
  qed
  have bool: "only_counts c (mark (parent @ ''/'' @ escapePointer key) val depth c)"
    if "key = ''items'' \<or> key = ''additionalProperties'' \<or> key = ''contentSchema''" "val = VBool v" "key \<noteq> ''additionalProperties''" for v
    by (rule 2(2) [of v]; insert that; elim disjE; simp)
  have obj: "only_counts c (mark (parent @ ''/'' @ escapePointer key) val depth c)"
    if "key = ''items'' \<or> key = ''additionalProperties'' \<or> key = ''contentSchema''" "val = VObject ms" for ms
    by (rule 2(3) [of ms]; insert that; elim disjE; simp)
  show ?case
  proof (cases "key = ''$defs'' \<or> key = ''properties''")
    case True
    then show ?thesis using fold by (cases val) (auto simp: walkKeyword.simps)
  next
    case d: False
    show ?thesis
    proof (cases "key = ''items'' \<or> key = ''additionalProperties'' \<or> key = ''contentSchema''")
      case True
      have w: "walkKeyword parent depth c (key, val) = (case val of
          VBool b \<Rightarrow> if key = ''additionalProperties'' then Inr c else mark (parent @ ''/'' @ escapePointer key) val depth c
        | VObject ms \<Rightarrow> mark (parent @ ''/'' @ escapePointer key) val depth c | _ \<Rightarrow> Inl (KeywordSchema key))"
        using True by (cases val; elim disjE; simp add: walkKeyword.simps)
      show ?thesis
      proof (cases val)
        case (VBool v)
        then show ?thesis unfolding w using bool [OF True VBool] by simp
      next
        case (VObject ms)
        then show ?thesis unfolding w using obj [OF True VObject] by simp
      qed (unfold w, simp_all)
    next
      case False
      with d show ?thesis by (simp add: walkKeyword.simps)
    qed
  qed
qed

lemma compileSchema_agrees:
  assumes "compileSchema X raw = Inr s" "Parse raw schemaLimits = Inr doc"
  shows "agrees X s doc"
proof -
  from assms obtain c out c1 where m: "mark ''#'' doc 0 new_compiler = Inr c" and run: "compile X ''#'' doc 0 c = Inr (out, c1)"
    and s: "s = upd_facets (cs_regexCost_update (\<lambda>_. sc_regex c1)) out"
    by (auto simp: compileSchema_def result_simps)
  have "fresh ''#'' c" using mark_counts [of new_compiler "''#''" doc 0] m by (simp add: only_counts_def fresh_def new_compiler_def)
  with compiles_wellD [OF compile_meaning run] parsed_shape [OF assms(2)] have "agrees X out doc" by blast
  then show ?thesis by (simp add: s agrees_def accepts_regexCost)
qed

definition fresh_eval :: eval_budget where "fresh_eval = \<lparr>eb_steps = 0, eb_scan = 0, eb_polls = 0\<rparr>"

lemma schema_run:
  assumes "compileSchema X raw = Inr s" "Parse raw schemaLimits = Inr doc" "Parse args L = Inr v"
  shows "outcome ctx fresh_eval (validate X ctx s v fresh_eval) (conforms X doc v) (eval_steps s v) (eval_scan s v)"
proof -
  have v: "rational v" using parsed_shape [OF assms(3)] by simp
  have "budget_ok fresh_eval" by (simp add: budget_ok_def fresh_eval_def maxEvalSteps_def maxEvalScanBytes_def)
  from run_okD [OF validate_outcome [where ctx = ctx and X = X, OF v] this, of s]
  show ?thesis unfolding agreesD [OF compileSchema_agrees [OF assms(1,2)] v] .
qed

text \<open>C16 (equivalence). With a context that stays alive and a budget that covers the instance, validating parsed arguments
  against the compiled schema succeeds exactly when they conform to the schema document, read keyword by keyword: compiling
  loses nothing.\<close>

theorem validation_decides_conformance:
  assumes "compileSchema X raw = Inr s" "Parse raw schemaLimits = Inr doc" "Parse args L = Inr v"
    and "\<And>n. \<not> ctx n" "eval_steps s v \<le> maxEvalSteps" "eval_scan s v \<le> maxEvalScanBytes"
  shows "(\<exists>b. validate X ctx s v fresh_eval = Inr b) \<longleftrightarrow> conforms X doc v"
  using schema_run [OF assms(1-3), of ctx] assms(4-6)
  by (auto simp: outcome_def fresh_eval_def split: sum.splits eval_error.splits)

text \<open>C17 (safety). Under any cancellation and any cost, a success means the arguments conform and the budget was kept, a
  mismatch means they do not, and the other errors have their stated cause; numbers of parsed arguments are always read.\<close>

theorem validation_verdict_sound:
  assumes "compileSchema X raw = Inr s" "Parse raw schemaLimits = Inr doc" "Parse args L = Inr v"
  shows "case validate X ctx s v fresh_eval of
      Inr b \<Rightarrow> conforms X doc v \<and> eb_steps b \<le> maxEvalSteps \<and> eb_scan b \<le> maxEvalScanBytes
    | Inl (Mismatch m) \<Rightarrow> \<not> conforms X doc v
    | Inl EvalContext \<Rightarrow> \<exists>n. ctx n
    | Inl EvalBudget \<Rightarrow> conforms X doc v \<longrightarrow> eval_steps s v > maxEvalSteps \<or> eval_scan s v > maxEvalScanBytes
    | Inl (EvalNumber n) \<Rightarrow> False"
  using schema_run [OF assms, of ctx]
  by (auto simp: outcome_def fresh_eval_def budget_ok_def split: sum.splits eval_error.splits)

section \<open>Well-formed schemas\<close>

text \<open>What every compiled schema satisfies, at every level: the bounds it checks are consistent, its patterns are portable,
  its type is known.\<close>

definition size_bound :: "int option \<Rightarrow> bool" where
  "size_bound m = (case m of None \<Rightarrow> True | Some n \<Rightarrow> 0 \<le> n \<and> n \<le> max_int64)"

definition facets_typed :: "schema_facets \<Rightarrow> bool" where
  "facets_typed f \<longleftrightarrow> (cs_typ f = [] \<or> cs_typ f \<in> set known_types) \<and> list_all isScalar (cs_enum f)
     \<and> (case cs_const f of None \<Rightarrow> True | Some v \<Rightarrow> isScalar v)
     \<and> size_bound (cs_minProperties f) \<and> size_bound (cs_maxProperties f) \<and> size_bound (cs_minItems f)
     \<and> size_bound (cs_maxItems f) \<and> size_bound (cs_minLength f) \<and> size_bound (cs_maxLength f)
     \<and> (case cs_multipleOf f of None \<Rightarrow> True | Some r \<Rightarrow> 0 < r)
     \<and> (case cs_pattern f of None \<Rightarrow> True
        | Some p \<Rightarrow> int (length p) \<le> maxRegexBytes \<and> (\<exists>cost. validatePortablePattern p = Inr cost))"

definition bounds_consistent :: "schema_facets \<Rightarrow> bool" where
  "bounds_consistent f \<longleftrightarrow> \<not> above (cs_minProperties f) (cs_maxProperties f) \<and> \<not> above (cs_minItems f) (cs_maxItems f)
     \<and> \<not> above (cs_minLength f) (cs_maxLength f)
     \<and> (\<forall>lo up. cs_minimum f = Some lo \<longrightarrow> cs_maximum f = Some up \<longrightarrow> lo \<le> up)
     \<and> (\<forall>lo up. cs_minimum f = Some lo \<longrightarrow> cs_exclusiveMaximum f = Some up \<longrightarrow> lo < up)
     \<and> (\<forall>lo up. cs_exclusiveMinimum f = Some lo \<longrightarrow> cs_maximum f = Some up \<longrightarrow> lo < up)
     \<and> (\<forall>lo up. cs_exclusiveMinimum f = Some lo \<longrightarrow> cs_exclusiveMaximum f = Some up \<longrightarrow> lo < up)"

fun wf_schema :: "compiled_schema \<Rightarrow> bool" where
  "wf_schema (CompiledSchema f ps ad it) \<longleftrightarrow> facets_typed f \<and> bounds_consistent f \<and> list_all (\<lambda>(k, s). wf_schema s) ps
     \<and> (case ad of None \<Rightarrow> True | Some s \<Rightarrow> wf_schema s) \<and> (case it of None \<Rightarrow> True | Some s \<Rightarrow> wf_schema s)"

definition wf_children :: "compiled_schema \<Rightarrow> bool" where
  "wf_children s \<longleftrightarrow> facets_typed (cs_facets s) \<and> list_all (\<lambda>(k, s). wf_schema s) (cs_properties s)
     \<and> (case cs_additional s of None \<Rightarrow> True | Some s \<Rightarrow> wf_schema s) \<and> (case cs_items s of None \<Rightarrow> True | Some s \<Rightarrow> wf_schema s)"

lemma wf_schema_iff: "wf_schema s \<longleftrightarrow> wf_children s \<and> bounds_consistent (cs_facets s)"
  by (cases s) (auto simp: wf_children_def)

lemma check_facets_consistent: "check_facets f = Inr () \<Longrightarrow> bounds_consistent f"
  unfolding check_facets_def bounds_consistent_def validateNumericBounds_def guard_def lower_bounds_def upper_bounds_def
  by (auto split: if_splits option.splits)

lemma required_items_members: "required_items seen n vs = Inr (items, n') \<Longrightarrow> n \<le> maxSchemaMembers \<Longrightarrow> n' \<le> maxSchemaMembers"
  by (induction vs arbitrary: seen n items n') (fastforce simp: result_simps split: if_splits "value.splits")+

definition wf_compiler :: "compiler \<Rightarrow> bool" where
  "wf_compiler c \<longleftrightarrow> sc_regex c \<le> maxRegexTotal \<and> sc_members c \<le> maxSchemaMembers
     \<and> (\<forall>p s. map_of (sc_compiled c) p = Some (Some s) \<longrightarrow> wf_schema s)"

lemma facet_typed:
  assumes "facetKeyword X f k w c = Inr (f', c')" "facets_typed f" "wf_compiler c"
  shows "facets_typed f' \<and> wf_compiler c'"
proof (cases "k \<in> set silent_keywords")
  case True
  then show ?thesis using facet_silent [OF True assms(1)] assms by simp
next
  case False
  with assms(1) facet_unknown have "k \<in> set facet_keywords" by fastforce
  then show ?thesis unfolding facet_keywords_def list.set insert_iff empty_iff
  proof (elim disjE)
    assume k: "k = ''type''"
    show ?thesis using assms unfolding k facet_keyword_simps facets_typed_def by (auto simp: result_simps size_bound_def wf_compiler_def split: if_splits "value.splits")
  next
    assume k: "k = ''enum''"
    show ?thesis using assms unfolding k facet_keyword_simps facets_typed_def by (auto simp: result_simps size_bound_def wf_compiler_def split: if_splits "value.splits" dest!: enum_items_Inr)
  next
    assume k: "k = ''const''"
    show ?thesis using assms unfolding k facet_keyword_simps facets_typed_def by (auto simp: result_simps size_bound_def wf_compiler_def split: if_splits)
  next
    assume k: "k = ''required''"
    show ?thesis using assms unfolding k facet_keyword_simps facets_typed_def by (auto simp: result_simps size_bound_def wf_compiler_def split: if_splits "value.splits" dest!: required_items_members)
  next
    assume k: "k = ''pattern''"
    show ?thesis using assms unfolding k facet_keyword_simps patternKeyword_def facets_typed_def by (auto simp: result_simps size_bound_def wf_compiler_def split: if_splits "value.splits" sum.splits)
  next
    assume k: "k = ''minProperties''"
    show ?thesis using assms unfolding k facet_keyword_simps facets_typed_def by (auto simp: result_simps size_bound_def wf_compiler_def split: if_splits dest!: requireNonNegInt_Inr)
  next
    assume k: "k = ''maxProperties''"
    show ?thesis using assms unfolding k facet_keyword_simps facets_typed_def by (auto simp: result_simps size_bound_def wf_compiler_def split: if_splits dest!: requireNonNegInt_Inr)
  next
    assume k: "k = ''minItems''"
    show ?thesis using assms unfolding k facet_keyword_simps facets_typed_def by (auto simp: result_simps size_bound_def wf_compiler_def split: if_splits dest!: requireNonNegInt_Inr)
  next
    assume k: "k = ''maxItems''"
    show ?thesis using assms unfolding k facet_keyword_simps facets_typed_def by (auto simp: result_simps size_bound_def wf_compiler_def split: if_splits dest!: requireNonNegInt_Inr)
  next
    assume k: "k = ''minLength''"
    show ?thesis using assms unfolding k facet_keyword_simps facets_typed_def by (auto simp: result_simps size_bound_def wf_compiler_def split: if_splits dest!: requireNonNegInt_Inr)
  next
    assume k: "k = ''maxLength''"
    show ?thesis using assms unfolding k facet_keyword_simps facets_typed_def by (auto simp: result_simps size_bound_def wf_compiler_def split: if_splits dest!: requireNonNegInt_Inr)
  next
    assume k: "k = ''minimum''"
    show ?thesis using assms unfolding k facet_keyword_simps facets_typed_def by (auto simp: result_simps size_bound_def wf_compiler_def split: if_splits)
  next
    assume k: "k = ''maximum''"
    show ?thesis using assms unfolding k facet_keyword_simps facets_typed_def by (auto simp: result_simps size_bound_def wf_compiler_def split: if_splits)
  next
    assume k: "k = ''exclusiveMinimum''"
    show ?thesis using assms unfolding k facet_keyword_simps facets_typed_def by (auto simp: result_simps size_bound_def wf_compiler_def split: if_splits)
  next
    assume k: "k = ''exclusiveMaximum''"
    show ?thesis using assms unfolding k facet_keyword_simps facets_typed_def by (auto simp: result_simps size_bound_def wf_compiler_def split: if_splits)
  next
    assume k: "k = ''multipleOf''"
    show ?thesis using assms unfolding k facet_keyword_simps facets_typed_def by (auto simp: result_simps size_bound_def wf_compiler_def split: if_splits)
  qed simp
qed

text \<open>A step of the compiler on a schema under construction, and on a finished one.\<close>

definition keeps_wf :: "compiler \<Rightarrow> (compiled_schema \<Rightarrow> bool) \<Rightarrow> schema_error + compiled_schema \<times> compiler \<Rightarrow> bool" where
  "keeps_wf c P r \<longleftrightarrow> (wf_compiler c \<longrightarrow> (case r of Inl _ \<Rightarrow> True | Inr (s, c') \<Rightarrow> P s \<and> wf_compiler c'))"

lemma keeps_wfD: "keeps_wf c P r \<Longrightarrow> wf_compiler c \<Longrightarrow> r = Inr (s, c') \<Longrightarrow> P s \<and> wf_compiler c'"
  by (simp add: keeps_wf_def)

lemma keeps_wfI: "(\<And>s c'. wf_compiler c \<Longrightarrow> r = Inr (s, c') \<Longrightarrow> P s \<and> wf_compiler c') \<Longrightarrow> keeps_wf c P r"
  by (cases r) (auto simp: keeps_wf_def)

lemma keeps_wf_fold:
  assumes "\<And>st m. m \<in> set ms \<Longrightarrow> P (fst st) \<Longrightarrow> keeps_wf (snd st) P (g st m)" "P s"
  shows "keeps_wf c P (rfold g (s, c) ms)"
proof (rule keeps_wfI)
  fix s' c' assume c: "wf_compiler c" and run: "rfold g (s, c) ms = Inr (s', c')"
  have "P (fst (s', c')) \<and> wf_compiler (snd (s', c'))"
  proof (rule rfold_invariant [where I = "\<lambda>st. P (fst st) \<and> wf_compiler (snd st)", OF _ run])
    fix st m st' assume st: "P (fst st) \<and> wf_compiler (snd st)" and m: "m \<in> set ms" and g: "g st m = Inr st'"
    then show "P (fst st') \<and> wf_compiler (snd st')"
      using keeps_wfD [OF assms(1) [OF m], of st "fst st'" "snd st'"] by simp
  qed (simp add: assms(2) c)
  then show "P s' \<and> wf_compiler c'" by simp
qed

lemma wf_compiler_mark: "wf_compiler c \<Longrightarrow> wf_compiler (c\<lparr>sc_compiled := gput p None (sc_compiled c)\<rparr>)"
  by (auto simp: wf_compiler_def)

lemma wf_compiler_put: "wf_compiler c \<Longrightarrow> wf_schema s \<Longrightarrow> wf_compiler (c\<lparr>sc_compiled := gput p (Some s) (sc_compiled c)\<rparr>)"
  by (auto simp: wf_compiler_def)

lemma empty_typed: "facets_typed (cs_facets empty_schema)" "wf_children empty_schema" "wf_schema empty_schema"
  by (simp_all add: facets_typed_def wf_children_def empty_schema_def no_facets_def size_bound_def bounds_consistent_def above_def)

lemma list_all_gput: "list_all (\<lambda>(k, s). P s) al \<Longrightarrow> P v \<Longrightarrow> list_all (\<lambda>(k, s). P s) (gput k v al)"
  by (induction al) (auto simp: gput_def)

lemma put_property_wf: "wf_children s \<Longrightarrow> wf_schema child \<Longrightarrow> wf_children (put_property k child s)"
  by (simp add: wf_children_def put_property_def list_all_gput)

definition compiles_wf :: "regexps \<Rightarrow> value \<Rightarrow> bool" where
  "compiles_wf X v \<longleftrightarrow> (\<forall>ptr depth c. keeps_wf c wf_schema (compile X ptr v depth c))"

lemma compiles_wfD: "compiles_wf X v \<Longrightarrow> wf_compiler c \<Longrightarrow> compile X ptr v depth c = Inr (s, c') \<Longrightarrow> wf_schema s \<and> wf_compiler c'"
  unfolding compiles_wf_def using keeps_wfD by blast

lemma properties_wf:
  assumes "\<And>m. m \<in> set ms \<Longrightarrow> compiles_wf X (snd m)" "wf_children s"
  shows "keeps_wf c wf_children (rfold (\<lambda>st m.
     rbind (compile X (ptr @ ''/properties/'' @ escapePointer (fst m)) (snd m) (depth + 1) (snd st)) (\<lambda>(child, c1).
       Inr (put_property (fst m) child (fst st), c1))) (s, c) ms)"
proof (rule keeps_wf_fold [where P = wf_children, OF _ assms(2)])
  fix st :: "compiled_schema \<times> compiler" and m assume m: "m \<in> set ms" and st: "wf_children (fst st)"
  show "keeps_wf (snd st) wf_children (rbind (compile X (ptr @ ''/properties/'' @ escapePointer (fst m)) (snd m) (depth + 1) (snd st))
      (\<lambda>(child, c1). Inr (put_property (fst m) child (fst st), c1)))"
  proof (rule keeps_wfI)
    fix s' c' assume c: "wf_compiler (snd st)"
      and run: "rbind (compile X (ptr @ ''/properties/'' @ escapePointer (fst m)) (snd m) (depth + 1) (snd st))
        (\<lambda>(child, c1). Inr (put_property (fst m) child (fst st), c1)) = Inr (s', c')"
    then obtain child where "compile X (ptr @ ''/properties/'' @ escapePointer (fst m)) (snd m) (depth + 1) (snd st) = Inr (child, c')"
      and s': "s' = put_property (fst m) child (fst st)" by (auto simp: result_simps)
    from compiles_wfD [OF assms(1) [OF m] c this(1)] show "wf_children s' \<and> wf_compiler c'"
      by (simp add: s' put_property_wf [OF st])
  qed
qed

lemma apply_wf:
  assumes "compiles_wf X w" "\<And>ms m. w = VObject ms \<Longrightarrow> m \<in> set ms \<Longrightarrow> compiles_wf X (snd m)" "wf_children s"
  shows "keeps_wf c wf_children (applyKeyword X ptr depth (s, c) (k, w))"
proof (rule keeps_wfI)
  fix s' c' assume c: "wf_compiler c" and run: "applyKeyword X ptr depth (s, c) (k, w) = Inr (s', c')"
  obtain f ps ad it where s: "s = CompiledSchema f ps ad it" by (cases s)
  show "wf_children s' \<and> wf_compiler c'"
  proof (cases "k \<in> set applicators")
    case False
    then have "k \<noteq> ''properties''" "k \<noteq> ''additionalProperties''" "k \<noteq> ''items''" by (auto simp: applicators_def)
    with run obtain f' where "facetKeyword X f k w c = Inr (f', c')" "s' = CompiledSchema f' ps ad it"
      by (auto simp: s applyKeyword.simps result_simps)
    with facet_typed [of X f k w c f' c'] c assms(3) show ?thesis by (simp add: wf_children_def s)
  next
    case True
    then consider "k = ''properties''" | "k = ''additionalProperties''" | "k = ''items''" by (auto simp: applicators_def)
    then show ?thesis
    proof cases
      case 1
      with run obtain ms where w: "w = VObject ms" by (auto simp: s applyKeyword.simps split: "value.splits")
      show ?thesis
        using keeps_wfD [OF properties_wf [OF assms(2) [OF w] assms(3)] c] run by (simp add: 1 w s applyKeyword.simps)
    next
      case 2
      show ?thesis
      proof (cases "\<exists>b. w = VBool b")
        case True
        with run c assms(3) show ?thesis
          by (auto simp: 2 s applyKeyword.simps wf_children_def facets_typed_def)
      next
        case False
        with run obtain child where "compile X (ptr @ ''/additionalProperties'') w (depth + 1) c = Inr (child, c')"
          "s' = CompiledSchema f ps (Some child) it"
          by (auto simp: s 2 applyKeyword.simps result_simps split: "value.splits")
        with compiles_wfD [OF assms(1) c] assms(3) show ?thesis by (auto simp: wf_children_def s)
      qed
    next
      case 3
      with run obtain child where "compile X (ptr @ ''/items'') w (depth + 1) c = Inr (child, c')"
        "s' = CompiledSchema f ps ad (Some child)"
        by (auto simp: s applyKeyword.simps result_simps split: "value.splits")
      with compiles_wfD [OF assms(1) c] assms(3) show ?thesis by (auto simp: wf_children_def s)
    qed
  qed
qed

lemma body_wf:
  assumes "\<And>w. size w < size v \<Longrightarrow> compiles_wf X w" "wf_compiler c" "compileBody X ptr v depth c = Inr (s, c')"
  shows "wf_schema s \<and> wf_compiler c'"
proof (cases v)
  case (VBool b)
  with assms empty_typed(3) show ?thesis
    by (auto simp: compileBody.simps upd_facets_def empty_schema_def facets_typed_def bounds_consistent_def)
next
  case (VObject ms)
  with assms(3) have fold: "rfold (\<lambda>st m. applyKeyword X ptr depth st m) (empty_schema, c) ms = Inr (s, c')"
    and chk: "check_facets (cs_facets s) = Inr ()"
    by (auto simp: compileBody.simps result_simps split: if_splits)
  have "keeps_wf c wf_children (rfold (\<lambda>st m. applyKeyword X ptr depth st m) (empty_schema, c) ms)"
  proof (rule keeps_wf_fold)
    fix st :: "compiled_schema \<times> compiler" and m assume m: "m \<in> set ms" and st: "wf_children (fst st)"
    have sz: "size (snd m) < size v" using member_size [of "fst m" "snd m" ms] m by (simp add: VObject)
    have "keeps_wf (snd st) wf_children (applyKeyword X ptr depth (fst st, snd st) (fst m, snd m))"
    proof (rule apply_wf [OF assms(1) [OF sz] _ st])
      fix us u assume "snd m = VObject us" "u \<in> set us"
      then show "compiles_wf X (snd u)" using assms(1) [of "snd u"] sz member_size [of "fst u" "snd u" us] by simp
    qed
    then show "keeps_wf (snd st) wf_children (applyKeyword X ptr depth st m)" by simp
  qed (rule empty_typed)
  from keeps_wfD [OF this assms(2) fold] check_facets_consistent [OF chk] show ?thesis by (simp add: wf_schema_iff)
qed (use assms(3) in \<open>simp_all add: compileBody.simps\<close>)

lemma compile_wf: "compiles_wf X v"
proof (induction v rule: measure_induct_rule [where f = size])
  case (less v)
  show ?case
    unfolding compiles_wf_def
  proof (intro allI keeps_wfI)
    fix ptr depth c s c' assume c: "wf_compiler c" and run: "compile X ptr v depth c = Inr (s, c')"
    show "wf_schema s \<and> wf_compiler c'"
    proof (cases "map_of (sc_compiled c) ptr")
      case None
      with run obtain c1 where body: "compileBody X ptr v depth (c\<lparr>sc_compiled := gput ptr None (sc_compiled c)\<rparr>) = Inr (s, c1)"
        and c': "c' = c1\<lparr>sc_compiled := gput ptr (Some s) (sc_compiled c1)\<rparr>"
        by (auto simp: compile.simps result_simps split: if_splits)
      show ?thesis
        using body_wf [OF less.IH wf_compiler_mark [OF c] body] wf_compiler_put by (simp add: c')
    next
      case (Some slot)
      with run c show ?thesis
        by (cases slot) (auto simp: compile.simps wf_compiler_def split: if_splits)
    qed
  qed
qed

lemma wf_regexCost: "wf_schema (upd_facets (cs_regexCost_update g) s) = wf_schema s"
  by (cases s) (simp add: upd_facets_def facets_typed_def bounds_consistent_def)

lemma schema_wf:
  assumes "compileSchema X raw = Inr s"
  shows "wf_schema s \<and> cs_regexCost (cs_facets s) \<le> maxRegexTotal"
proof -
  from assms obtain doc c out c1 where m: "mark ''#'' doc 0 new_compiler = Inr c" and run: "compile X ''#'' doc 0 c = Inr (out, c1)"
    and s: "s = upd_facets (cs_regexCost_update (\<lambda>_. sc_regex c1)) out"
    by (auto simp: compileSchema_def result_simps split: sum.splits)
  have "wf_compiler c"
    using mark_counts [of new_compiler "''#''" doc 0] m
    by (simp add: only_counts_def wf_compiler_def new_compiler_def maxSchemaMembers_def maxRegexTotal_def)
  from compiles_wfD [OF compile_wf this run] have "wf_schema s" "sc_regex c1 \<le> maxRegexTotal"
    unfolding s wf_regexCost by (simp_all add: wf_compiler_def)
  then show ?thesis by (simp add: s upd_facets_def)
qed


section \<open>An example\<close>

definition sample_regexps :: regexps where "sample_regexps = \<lparr>rx_compiles = (\<lambda>_. True), rx_matches = (=)\<rparr>"

definition sample_schema :: string where
  "sample_schema = ''{\"type\":\"object\",\"properties\":{\"a\":{\"enum\":[\"x\",\"y\"]}},\"required\":[\"a\"]}''"

definition sample_arguments :: string where
  "sample_arguments = ''{\"a\":\"y\"}''"

definition sample_document :: "value" where
  "sample_document = (case Parse sample_schema schemaLimits of Inr v \<Rightarrow> v | _ \<Rightarrow> VNull)"

definition sample_compiled :: compiled_schema where
  "sample_compiled = (case compileSchema sample_regexps sample_schema of Inr s \<Rightarrow> s | _ \<Rightarrow> empty_schema)"

definition sample_instance :: "value" where
  "sample_instance = VObject [(''a'', VString ''y'')]"

lemma sample_facts:
  "compileSchema sample_regexps sample_schema = Inr sample_compiled"
  "Parse sample_schema schemaLimits = Inr sample_document"
  "Parse sample_arguments canonicalLimits = Inr sample_instance"
  "eval_steps sample_compiled sample_instance \<le> maxEvalSteps" "eval_scan sample_compiled sample_instance \<le> maxEvalScanBytes"
  by (code_simp, code_simp, code_simp, code_simp, code_simp)

theorem validation_decides_conformance_witness:
  "(\<exists>b. validate sample_regexps (\<lambda>_. False) sample_compiled sample_instance fresh_eval = Inr b)
     \<longleftrightarrow> conforms sample_regexps sample_document sample_instance"
  using validation_decides_conformance [OF sample_facts(1-3) _ sample_facts(4,5)] by simp

theorem validation_verdict_sound_witness:
  "case validate sample_regexps (\<lambda>_. False) sample_compiled sample_instance fresh_eval of
      Inr b \<Rightarrow> conforms sample_regexps sample_document sample_instance \<and> eb_steps b \<le> maxEvalSteps \<and> eb_scan b \<le> maxEvalScanBytes
    | Inl (Mismatch m) \<Rightarrow> \<not> conforms sample_regexps sample_document sample_instance
    | Inl EvalContext \<Rightarrow> \<exists>n::nat. False
    | Inl EvalBudget \<Rightarrow> conforms sample_regexps sample_document sample_instance
        \<longrightarrow> eval_steps sample_compiled sample_instance > maxEvalSteps \<or> eval_scan sample_compiled sample_instance > maxEvalScanBytes
    | Inl (EvalNumber n) \<Rightarrow> False"
  using validation_verdict_sound [OF sample_facts(1-3), of "\<lambda>_. False"] .


end
