(* ===== verification/Schema_Keys.thy ===== *)
theory Schema_Keys
  imports Schema_Props
begin

text \<open>
  The keys that \<^verbatim>\<open>enum\<close> uses to reject repeated items: two scalars have the same key exactly when the validator takes them
  for equal, so numbers that are written differently but are equal collide and nothing else does.
\<close>

section \<open>Decimal strings\<close>

lemma nat_string_nonempty: "nat_string n \<noteq> []"
  by (subst nat_string.simps) simp

lemma digit_inj: "c < 10 \<Longrightarrow> d < 10 \<Longrightarrow> char_of (48 + c) = (char_of (48 + d) :: char) \<longleftrightarrow> c = (d::nat)"
  by (simp add: char_of_eq_iff take_bit_nat_eq_self)

lemma nat_string_inj: "nat_string m = nat_string n \<longleftrightarrow> m = n"
proof (induction m arbitrary: n rule: nat_string.induct)
  case (1 m)
  have len: "k \<ge> 10 \<Longrightarrow> length (nat_string k) \<ge> 2" for k
    using nat_string_nonempty [of "k div 10"] by (subst nat_string.simps) (simp add: Suc_le_eq)
  have one: "k < 10 \<Longrightarrow> nat_string k = [char_of (48 + k)]" for k by (subst nat_string.simps) simp
  have two: "k \<ge> 10 \<Longrightarrow> nat_string k = nat_string (k div 10) @ [char_of (48 + k mod 10)]" for k
    by (subst nat_string.simps) simp
  show ?case
  proof (cases "m < 10 \<longleftrightarrow> n < 10")
    case False
    then have "length (nat_string m) \<noteq> length (nat_string n)"
      using len [of m] len [of n] one [of m] one [of n] by (cases "m < 10") auto
    with False show ?thesis by auto
  next
    case same: True
    show ?thesis
    proof (cases "m < 10")
      case True
      with same show ?thesis by (simp add: one digit_inj)
    next
      case False
      with same have "nat_string m = nat_string n \<longleftrightarrow> m div 10 = n div 10 \<and> m mod 10 = n mod 10"
        using 1 [of "n div 10"] by (simp add: two digit_inj)
      then show ?thesis by (metis div_mult_mod_eq)
    qed
  qed
qed

lemma nat_string_digits: "set (nat_string n) \<subseteq> {c. 48 \<le> byte c \<and> byte c < 58}"
proof (induction n rule: nat_string.induct)
  case (1 n)
  have d: "48 \<le> byte (char_of (48 + k)) \<and> byte (char_of (48 + k)) < 58" if "k < 10" for k :: nat
    using that by (simp add: take_bit_nat_eq_self)
  show ?case
  proof (cases "n < 10")
    case True
    with d [of n] show ?thesis by (subst nat_string.simps) simp
  next
    case False
    with 1 d [of "n mod 10"] show ?thesis by (subst nat_string.simps) simp
  qed
qed

lemma nat_string_no: "byte c < 48 \<Longrightarrow> c \<notin> set (nat_string n)"
  using nat_string_digits [of n] by auto

lemma int_string_inj: "int_string m = int_string n \<longleftrightarrow> m = n"
proof -
  have "CHR ''-'' # a \<noteq> nat_string k" for a k
    using nat_string_no [of "CHR ''-''" k] by (cases "nat_string k") auto
  then have "CHR ''-'' # a \<noteq> nat_string k" "nat_string k \<noteq> CHR ''-'' # a" for a k by metis+
  then show ?thesis by (cases "m < 0"; cases "n < 0") (auto simp add: int_string_def nat_string_inj)
qed

lemma int_string_no_slash: "CHR ''/'' \<notin> set (int_string n)"
  using nat_string_no [of "CHR ''/''"] by (simp add: int_string_def)

lemma rat_string_inj: "rat_string r = rat_string s \<longleftrightarrow> r = s"
proof
  assume eq: "rat_string r = rat_string s"
  define tail where "tail u = (if rat_is_int u then [] else CHR ''/'' # int_string (rat_den u))" for u
  have t: "takeWhile (\<lambda>c. c \<noteq> CHR ''/'') (int_string n @ tail u) = int_string n" for n u
    using int_string_no_slash [of n] by (subst takeWhile_append2) (auto simp: tail_def)
  have e: "int_string (rat_num r) @ tail r = int_string (rat_num s) @ tail s"
    using eq by (simp add: rat_string_def tail_def)
  then have n: "int_string (rat_num r) = int_string (rat_num s)" using t by metis
  with e have "tail r = tail s" by simp
  with n have "rat_num r = rat_num s" "rat_den r = rat_den s"
    by (auto simp: tail_def int_string_inj rat_is_int_def split: if_splits)
  then have "quotient_of r = quotient_of s" by (simp add: rat_num_def rat_den_def prod_eq_iff)
  then show "r = s" by (simp add: quotient_of_inject_eq)
qed simp

section \<open>Keys\<close>

lemma string_key_inj:
  assumes "utf8_valid s" "utf8_valid t" "CanonicalValue (VString s) = Inr a" "CanonicalValue (VString t) = Inr b"
  shows "a = b \<longleftrightarrow> s = t"
proof -
  have "admitted canonicalLimits (VString u)" if "utf8_valid u" for u
    using that by (simp add: admitted_def canonicalLimits_def)
  with canonical_admitted [OF positive_canonical] assms
  have "Parse a canonicalLimits = Inr (VString s)" "Parse b canonicalLimits = Inr (VString t)" by fastforce+
  then show ?thesis using assms by auto
qed

lemma kind_strings: "nat_string (Suc 0) = ''1''" "nat_string 2 = ''2''" "nat_string 4 = ''4''"
  by (code_simp, code_simp, code_simp)

lemma key_number: "scalarEqualityKey (VNumber n) = Inr k \<longleftrightarrow> (\<exists>r. ratFromLexeme n = Some r \<and> k = ''number:'' @ rat_string r)"
  by (auto simp: scalarEqualityKey_def split: option.splits)

lemma key_plain:
  "scalarEqualityKey VNull = Inr k \<longleftrightarrow> k = ''1:null''"
  "scalarEqualityKey (VBool b) = Inr k \<longleftrightarrow> k = (if b then ''2:true'' else ''2:false'')"
  "scalarEqualityKey (VString s) = Inr k \<longleftrightarrow> (\<exists>raw. CanonicalValue (VString s) = Inr raw \<and> k = ''4:'' @ raw)"
  by (auto simp: scalarEqualityKey_def kind_strings CanonicalValue_def split: sum.splits)

text \<open>C33 (functional). Two scalars of parsed documents have the same uniqueness key exactly when the validator takes them
  for equal.\<close>

theorem enum_key_iff_equal:
  assumes "wf_value L v" "wf_value M w" "isScalar v" "isScalar w" "scalarEqualityKey v = Inr a" "scalarEqualityKey w = Inr b"
  shows "a = b \<longleftrightarrow> instanceEqual v w"
proof -
  have n: "\<exists>r. ratFromLexeme n = Some r" if "scalarEqualityKey (VNumber n) = Inr k" for n k
    using that by (auto simp: key_number)
  show ?thesis
  proof (cases v)
    case (VNumber m)
    then show ?thesis using assms by (cases w) (auto simp: key_number key_plain rat_string_inj)
  next
    case (VString s)
    then show ?thesis using assms string_key_inj [of s] by (cases w) (auto simp: key_number key_plain)
  qed (use assms in \<open>cases w; auto simp: key_number key_plain split: if_splits\<close>)+
qed

theorem enum_key_iff_equal_witness: "''number:10'' = ''number:10'' \<longleftrightarrow> instanceEqual (VNumber ''1e1'') (VNumber ''10.0'')"
  by (rule enum_key_iff_equal [of canonicalLimits "VNumber ''1e1''" canonicalLimits "VNumber ''10.0''"]) code_simp+

end
