(* ===== verification/Image_Check.thy ===== *)
theory Image_Check
  imports Utf8 "HOL-Library.Word"
begin

text \<open>
  Structure of inline images: \<^verbatim>\<open>src/internal/imagecheck/image.go\<close>. PNG, JPEG, GIF and WebP containers are walked
  without decoding pixels.

  A position in the data is the unread suffix, so \<^verbatim>\<open>len(data)-pos\<close> is its length. Every index and slice expression
  of the source goes through \<open>byte_at\<close> or \<open>slice\<close>, which yield \<open>Panic\<close> where Go would panic. The four walkers are
  one loop, \<open>image_loop\<close>, over a step function per format; a step that would not advance yields \<open>Stuck\<close>. Both are
  proved impossible.

  The CRC-32 of \<^verbatim>\<open>hash/crc32\<close> (IEEE) is written out on 32-bit words.
\<close>

unbundle bit_operations_syntax

section \<open>Bytes\<close>

datatype image_error = ErrInvalid string | ErrLimit string | Panic | Stuck

definition byte_at :: "nat \<Rightarrow> string \<Rightarrow> image_error + nat" where
  "byte_at i s = (if i < length s then Inr (byte (s ! i)) else Inl Panic)"

definition slice :: "nat \<Rightarrow> nat \<Rightarrow> string \<Rightarrow> image_error + string" where
  "slice i j s = (if i \<le> j \<and> j \<le> length s then Inr (take (j - i) (drop i s)) else Inl Panic)"

definition big_endian :: "string \<Rightarrow> nat" where
  "big_endian s = foldl (\<lambda>n c. n * 256 + byte c) 0 s"

definition little_endian :: "string \<Rightarrow> nat" where
  "little_endian s = big_endian (rev s)"

text \<open>\<^verbatim>\<open>binary.BigEndian.Uint32\<close> and its relatives read a slice of the exact width.\<close>

definition read_be :: "nat \<Rightarrow> nat \<Rightarrow> string \<Rightarrow> image_error + nat" where
  "read_be i j s = rbind (slice i j s) (\<lambda>x. Inr (big_endian x))"

definition read_le :: "nat \<Rightarrow> nat \<Rightarrow> string \<Rightarrow> image_error + nat" where
  "read_le i j s = rbind (slice i j s) (\<lambda>x. Inr (little_endian x))"

definition crc_shift :: "32 word \<Rightarrow> 32 word" where
  "crc_shift c = (if bit c 0 then drop_bit 1 c XOR 0xEDB88320 else drop_bit 1 c)"

definition crc_byte :: "32 word \<Rightarrow> char \<Rightarrow> 32 word" where
  "crc_byte c b = (crc_shift ^^ 8) (c XOR of_nat (byte b))"

definition crc32 :: "string \<Rightarrow> nat" where
  "crc32 s = unat (NOT (foldl crc_byte (NOT 0) s))"

section \<open>The walking loop\<close>

datatype 's progress = Return int int | Continue 's string

function image_loop :: "('s \<Rightarrow> string \<Rightarrow> image_error + 's progress) \<Rightarrow> ('s \<Rightarrow> image_error + int \<times> int) \<Rightarrow> 's \<Rightarrow> string
    \<Rightarrow> image_error + int \<times> int" where
  "image_loop step finish st rest =
     (if rest = [] then finish st
      else rbind (step st rest) (\<lambda>p. case p of
          Return w h \<Rightarrow> Inr (w, h)
        | Continue st' rest' \<Rightarrow>
            if length rest' < length rest then image_loop step finish st' rest' else Inl Stuck))"
  by pat_completeness auto
termination
  by (relation "measure (\<lambda>(step, finish, st, rest). length rest)") auto

declare image_loop.simps [simp del]

section \<open>PNG\<close>

definition png_magic :: string where
  "png_magic = [CHR 0x89, CHR ''P'', CHR ''N'', CHR ''G'', CHR 0x0D, CHR 0x0A, CHR 0x1A, CHR 0x0A]"

record png_state =
  png_records :: int
  png_width :: int
  png_height :: int
  png_sawIDAT :: bool

definition png_chunk :: "png_state \<Rightarrow> string \<Rightarrow> string \<Rightarrow> string \<Rightarrow> image_error + png_state progress" where
  "png_chunk st name body rest' =
     (if name = ''IHDR'' then
        (if png_records st \<noteq> 1 \<or> length body \<noteq> 13 \<or> png_width st \<noteq> 0 then Inl (ErrInvalid ''invalid PNG IHDR'')
         else rbind (read_be 0 4 body) (\<lambda>w. rbind (read_be 4 8 body) (\<lambda>h.
           if int w > max_int64 \<or> int h > max_int64 then Inl (ErrLimit ''PNG canvas is too large'')
           else Inr (Continue (st\<lparr>png_width := int w, png_height := int h\<rparr>) rest'))))
      else if name = ''IDAT'' then
        (if png_width st = 0 then Inl (ErrInvalid ''PNG IDAT is out of order'')
         else Inr (Continue (st\<lparr>png_sawIDAT := True\<rparr>) rest'))
      else if name = ''acTL'' \<or> name = ''fcTL'' \<or> name = ''fdAT'' then Inl (ErrInvalid ''animated PNG is not allowed'')
      else if name = ''IEND'' then
        (if body \<noteq> [] \<or> \<not> png_sawIDAT st then Inl (ErrInvalid ''invalid PNG IEND'')
         else if rest' \<noteq> [] then Inl (ErrInvalid ''PNG has trailing data'')
         else Inr (Return (png_width st) (png_height st)))
      else Inr (Continue st rest'))"

definition png_step :: "int \<Rightarrow> png_state \<Rightarrow> string \<Rightarrow> image_error + png_state progress" where
  "png_step maxRecords st rest =
     (if length rest < 12 then Inl (ErrInvalid ''truncated PNG chunk'')
      else let st1 = st\<lparr>png_records := png_records st + 1\<rparr> in
        if png_records st1 > maxRecords then Inl (ErrLimit ''PNG record budget exceeded'')
        else rbind (read_be 0 4 rest) (\<lambda>n.
          if n > length rest - 12 then Inl (ErrInvalid ''truncated PNG chunk'')
          else rbind (slice 4 8 rest) (\<lambda>typ.
            rbind (slice 8 (8 + n) rest) (\<lambda>body.
            rbind (read_be (8 + n) (8 + n + 4) rest) (\<lambda>wantCRC.
            if crc32 (typ @ body) \<noteq> wantCRC then Inl (ErrInvalid ''PNG chunk checksum mismatch'')
            else png_chunk st1 typ body (drop (8 + n + 4) rest))))))"

definition inspectPNG :: "string \<Rightarrow> int \<Rightarrow> image_error + int \<times> int" where
  "inspectPNG data maxRecords =
     (if length data < 8 \<or> take 8 data \<noteq> png_magic then Inl (ErrInvalid ''image is not PNG'')
      else image_loop (png_step maxRecords) (\<lambda>st. Inl (ErrInvalid ''PNG is missing IEND''))
        \<lparr>png_records = 0, png_width = 0, png_height = 0, png_sawIDAT = False\<rparr> (drop 8 data))"

section \<open>JPEG\<close>

record jpeg_state =
  jpg_records :: int
  jpg_width :: int
  jpg_height :: int
  jpg_inScan :: bool
  jpg_sawScan :: bool

definition isSOF :: "nat \<Rightarrow> bool" where
  "isSOF marker \<longleftrightarrow> (0xC0 \<le> marker \<and> marker \<le> 0xC3) \<or> (0xC5 \<le> marker \<and> marker \<le> 0xC7)
     \<or> (0xC9 \<le> marker \<and> marker \<le> 0xCB) \<or> (0xCD \<le> marker \<and> marker \<le> 0xCF)"

definition is_restart :: "nat \<Rightarrow> bool" where
  "is_restart marker \<longleftrightarrow> 0xD0 \<le> marker \<and> marker \<le> 0xD7"

definition jpeg_segment :: "jpeg_state \<Rightarrow> nat \<Rightarrow> string \<Rightarrow> image_error + jpeg_state progress" where
  "jpeg_segment st marker r =
     (if length r < 2 then Inl (ErrInvalid ''truncated JPEG segment'')
      else rbind (read_be 0 2 r) (\<lambda>n.
        if n < 2 \<or> n > length r then Inl (ErrInvalid ''truncated JPEG segment'')
        else rbind (slice 2 n r) (\<lambda>segment.
        rbind (if isSOF marker then
                 (if length segment < 6 then Inl (ErrInvalid ''invalid JPEG SOF'')
                  else rbind (read_be 1 3 segment) (\<lambda>h. rbind (read_be 3 5 segment) (\<lambda>w.
                    Inr (st\<lparr>jpg_height := int h, jpg_width := int w\<rparr>))))
               else Inr st) (\<lambda>st1.
        Inr (Continue (if marker = 0xDA then st1\<lparr>jpg_sawScan := True, jpg_inScan := True\<rparr> else st1) (drop n r))))))"

definition jpeg_step :: "int \<Rightarrow> jpeg_state \<Rightarrow> string \<Rightarrow> image_error + jpeg_state progress" where
  "jpeg_step maxRecords st rest =
     rbind (byte_at 0 rest) (\<lambda>b.
     if jpg_inScan st \<and> b \<noteq> 0xFF then Inr (Continue st (tl rest))
     else if b \<noteq> 0xFF then Inl (ErrInvalid ''invalid JPEG marker'')
     else let r = dropWhile (\<lambda>c. byte c = 0xFF) rest in
       if r = [] then Inl (ErrInvalid ''truncated JPEG marker'')
       else rbind (byte_at 0 r) (\<lambda>marker.
         if jpg_inScan st \<and> marker = 0 then Inr (Continue st (tl r))
         else if jpg_inScan st \<and> is_restart marker then Inr (Continue st (tl r))
         else let st1 = st\<lparr>jpg_inScan := False, jpg_records := jpg_records st + 1\<rparr> in
           if jpg_records st1 > maxRecords then Inl (ErrLimit ''JPEG record budget exceeded'')
           else if marker = 0xD9 then
             (if jpg_width st1 = 0 \<or> \<not> jpg_sawScan st1 \<or> tl r \<noteq> [] then Inl (ErrInvalid ''invalid JPEG end marker'')
              else Inr (Return (jpg_width st1) (jpg_height st1)))
           else if marker = 0xD8 \<or> marker = 0x01 then Inr (Continue st1 (tl r))
           else if is_restart marker then Inr (Continue st1 (tl r))
           else jpeg_segment st1 marker (tl r)))"

definition inspectJPEG :: "string \<Rightarrow> int \<Rightarrow> image_error + int \<times> int" where
  "inspectJPEG data maxRecords =
     (if length data < 4 then Inl (ErrInvalid ''image is not JPEG'')
      else rbind (byte_at 0 data) (\<lambda>a. rbind (byte_at 1 data) (\<lambda>b.
        if a \<noteq> 0xFF \<or> b \<noteq> 0xD8 then Inl (ErrInvalid ''image is not JPEG'')
        else image_loop (jpeg_step maxRecords) (\<lambda>st. Inl (ErrInvalid ''JPEG is missing EOI''))
          \<lparr>jpg_records = 0, jpg_width = 0, jpg_height = 0, jpg_inScan = False, jpg_sawScan = False\<rparr> (drop 2 data))))"

section \<open>GIF\<close>

record gif_state =
  gif_records :: int
  gif_frames :: int

text \<open>The size of a color table from its packed byte, and the skipping of a table that is present.\<close>

definition color_table :: "nat \<Rightarrow> nat" where
  "color_table packed = 3 * 2 ^ (1 + packed mod 8)"

definition skip_table :: "string \<Rightarrow> nat \<Rightarrow> string \<Rightarrow> image_error + string" where
  "skip_table what packed rest =
     (if packed \<ge> 0x80 then
        (if color_table packed > length rest then Inl (ErrInvalid what) else Inr (drop (color_table packed) rest))
      else Inr rest)"

function skipGIFBlocks :: "int \<Rightarrow> int \<Rightarrow> string \<Rightarrow> image_error + int \<times> string" where
  "skipGIFBlocks maxRecords records [] = Inl (ErrInvalid ''truncated GIF data blocks'')"
| "skipGIFBlocks maxRecords records (c # rest) =
     (if records + 1 > maxRecords then Inl (ErrLimit ''GIF record budget exceeded'')
      else if byte c = 0 then Inr (records + 1, rest)
      else if byte c > length rest then Inl (ErrInvalid ''truncated GIF data block'')
      else skipGIFBlocks maxRecords (records + 1) (drop (byte c) rest))"
  by pat_completeness auto
termination
  by (relation "measure (\<lambda>(m, r, s). length s)") auto

definition gif_blocks :: "int \<Rightarrow> gif_state \<Rightarrow> string \<Rightarrow> image_error + gif_state progress" where
  "gif_blocks maxRecords st rest =
     rbind (skipGIFBlocks maxRecords (gif_records st) rest) (\<lambda>(records, rest').
       Inr (Continue (st\<lparr>gif_records := records\<rparr>) rest'))"

definition gif_step :: "int \<Rightarrow> int \<Rightarrow> int \<Rightarrow> gif_state \<Rightarrow> string \<Rightarrow> image_error + gif_state progress" where
  "gif_step maxRecords width height st rest =
     (let st1 = st\<lparr>gif_records := gif_records st + 1\<rparr> in
      if gif_records st1 > maxRecords then Inl (ErrLimit ''GIF record budget exceeded'')
      else rbind (byte_at 0 rest) (\<lambda>b.
        if b = 0x2C then
          (let st2 = st1\<lparr>gif_frames := gif_frames st1 + 1\<rparr> in
           if gif_frames st2 > 1 then Inl (ErrInvalid ''animated GIF is not allowed'')
           else if length rest < 10 then Inl (ErrInvalid ''truncated GIF image descriptor'')
           else rbind (byte_at 9 rest) (\<lambda>packed.
             rbind (skip_table ''truncated GIF local color table'' packed (drop 10 rest)) (\<lambda>r.
             if r = [] then Inl (ErrInvalid ''truncated GIF image data'')
             else gif_blocks maxRecords st2 (tl r))))
        else if b = 0x21 then
          (if length rest < 2 then Inl (ErrInvalid ''truncated GIF extension'')
           else gif_blocks maxRecords st1 (drop 2 rest))
        else if b = 0x3B then
          (if gif_frames st1 \<noteq> 1 \<or> tl rest \<noteq> [] then
             Inl (ErrInvalid ''GIF must contain exactly one frame and no trailing data'')
           else Inr (Return width height))
        else Inl (ErrInvalid ''invalid GIF block'')))"

definition inspectGIF :: "string \<Rightarrow> int \<Rightarrow> image_error + int \<times> int" where
  "inspectGIF data maxRecords =
     (if length data < 13 \<or> (take 6 data \<noteq> ''GIF87a'' \<and> take 6 data \<noteq> ''GIF89a'') then Inl (ErrInvalid ''image is not GIF'')
      else rbind (read_le 6 8 data) (\<lambda>width. rbind (read_le 8 10 data) (\<lambda>height.
        rbind (byte_at 10 data) (\<lambda>packed.
        rbind (skip_table ''truncated GIF color table'' packed (drop 13 data)) (\<lambda>rest.
        image_loop (gif_step maxRecords (int width) (int height)) (\<lambda>st. Inl (ErrInvalid ''GIF is missing trailer''))
          \<lparr>gif_records = 0, gif_frames = 0\<rparr> rest)))))"

section \<open>WebP\<close>

record webp_state =
  wp_records :: int
  wp_width :: int
  wp_height :: int
  wp_sawImage :: bool

definition vp8Size :: "string \<Rightarrow> image_error + int \<times> int" where
  "vp8Size body =
     (if length body < 10 then Inl (ErrInvalid ''invalid VP8 start code'')
      else rbind (byte_at 3 body) (\<lambda>a. rbind (byte_at 4 body) (\<lambda>b. rbind (byte_at 5 body) (\<lambda>c.
        if a \<noteq> 0x9D \<or> b \<noteq> 0x01 \<or> c \<noteq> 0x2A then Inl (ErrInvalid ''invalid VP8 start code'')
        else rbind (read_le 6 8 body) (\<lambda>w. rbind (read_le 8 10 body) (\<lambda>h.
          Inr (int (w mod 0x4000), int (h mod 0x4000))))))))"

definition vp8lSize :: "string \<Rightarrow> image_error + int \<times> int" where
  "vp8lSize body =
     (if length body < 5 then Inl (ErrInvalid ''invalid VP8L header'')
      else rbind (byte_at 0 body) (\<lambda>a.
        if a \<noteq> 0x2F then Inl (ErrInvalid ''invalid VP8L header'')
        else rbind (read_le 1 5 body) (\<lambda>bits.
          Inr (int (bits mod 0x4000) + 1, int (bits div 0x4000 mod 0x4000) + 1))))"

definition set_size :: "webp_state \<Rightarrow> int \<times> int \<Rightarrow> webp_state" where
  "set_size st wh = (if wp_width st = 0 then st\<lparr>wp_width := fst wh, wp_height := snd wh, wp_sawImage := True\<rparr>
     else st\<lparr>wp_sawImage := True\<rparr>)"

definition webp_chunk :: "webp_state \<Rightarrow> string \<Rightarrow> string \<Rightarrow> image_error + webp_state" where
  "webp_chunk st kind body =
     (if kind = ''VP8X'' then
        (if length body \<noteq> 10 then Inl (ErrInvalid ''invalid or animated VP8X'')
         else rbind (byte_at 0 body) (\<lambda>flags.
           if flags div 2 mod 2 \<noteq> 0 then Inl (ErrInvalid ''invalid or animated VP8X'')
           else rbind (read_le 4 7 body) (\<lambda>w. rbind (read_le 7 10 body) (\<lambda>h.
             Inr (st\<lparr>wp_width := 1 + int w, wp_height := 1 + int h\<rparr>)))))
      else if kind = ''ANIM'' \<or> kind = ''ANMF'' then Inl (ErrInvalid ''animated WebP is not allowed'')
      else if kind = ''VP8 '' then rbind (vp8Size body) (\<lambda>wh. Inr (set_size st wh))
      else if kind = ''VP8L'' then rbind (vp8lSize body) (\<lambda>wh. Inr (set_size st wh))
      else Inr st)"

definition webp_step :: "int \<Rightarrow> webp_state \<Rightarrow> string \<Rightarrow> image_error + webp_state progress" where
  "webp_step maxRecords st rest =
     (if length rest < 8 then Inl (ErrInvalid ''truncated WebP chunk'')
      else let st1 = st\<lparr>wp_records := wp_records st + 1\<rparr> in
        if wp_records st1 > maxRecords then Inl (ErrLimit ''WebP record budget exceeded'')
        else rbind (slice 0 4 rest) (\<lambda>kind. rbind (read_le 4 8 rest) (\<lambda>n.
          if n > length rest - 8 then Inl (ErrInvalid ''truncated WebP chunk'')
          else rbind (slice 8 (8 + n) rest) (\<lambda>body.
            let r = drop (8 + n) rest in
            if odd n \<and> r = [] then Inl (ErrInvalid ''WebP chunk is missing padding'')
            else rbind (webp_chunk st1 kind body) (\<lambda>st2. Inr (Continue st2 (if odd n then tl r else r)))))))"

definition webp_finish :: "webp_state \<Rightarrow> image_error + int \<times> int" where
  "webp_finish st = (if \<not> wp_sawImage st \<or> wp_width st = 0 then Inl (ErrInvalid ''WebP is missing an image bitstream'')
     else Inr (wp_width st, wp_height st))"

definition inspectWebP :: "string \<Rightarrow> int \<Rightarrow> image_error + int \<times> int" where
  "inspectWebP data maxRecords =
     (if length data < 16 \<or> take 4 data \<noteq> ''RIFF'' \<or> take 4 (drop 8 data) \<noteq> ''WEBP'' then Inl (ErrInvalid ''image is not WebP'')
      else rbind (read_le 4 8 data) (\<lambda>n.
        if n + 8 \<noteq> length data then Inl (ErrInvalid ''WebP RIFF length mismatch'')
        else image_loop (webp_step maxRecords) webp_finish
          \<lparr>wp_records = 0, wp_width = 0, wp_height = 0, wp_sawImage = False\<rparr> (drop 12 data)))"

section \<open>Inspection\<close>

abbreviation "MIMEPNG \<equiv> ''image/png''"
abbreviation "MIMEJPEG \<equiv> ''image/jpeg''"
abbreviation "MIMEGIF \<equiv> ''image/gif''"
abbreviation "MIMEWebP \<equiv> ''image/webp''"

record image_limits =
  im_MaxBytes :: int
  im_MaxWidth :: int
  im_MaxHeight :: int
  im_MaxPixels :: int
  im_MaxRecords :: int

record image_info =
  info_MIMEType :: string
  info_Width :: int
  info_Height :: int

definition DefaultLimits :: image_limits where
  "DefaultLimits = \<lparr>im_MaxBytes = 7340032, im_MaxWidth = 8192, im_MaxHeight = 8192, im_MaxPixels = 40000000,
     im_MaxRecords = 0\<rparr>"

definition Detect :: "string \<Rightarrow> string option" where
  "Detect data =
     (if 8 \<le> length data \<and> take 8 data = png_magic then Some MIMEPNG
      else if 3 \<le> length data \<and> map byte (take 3 data) = [0xFF, 0xD8, 0xFF] then Some MIMEJPEG
      else if 6 \<le> length data \<and> (take 6 data = ''GIF87a'' \<or> take 6 data = ''GIF89a'') then Some MIMEGIF
      else if 12 \<le> length data \<and> take 4 data = ''RIFF'' \<and> take 4 (drop 8 data) = ''WEBP'' then Some MIMEWebP
      else None)"

definition Inspect :: "string \<Rightarrow> string \<Rightarrow> image_limits \<Rightarrow> image_error + image_info" where
  "Inspect mime data L =
     (if data = [] then Inl (ErrInvalid ''image is empty'')
      else if im_MaxBytes L > 0 \<and> int (length data) > im_MaxBytes L then Inl (ErrLimit ''image bytes exceed limit'')
      else let records = (if im_MaxRecords L \<le> 0 then 65536 else im_MaxRecords L) in
        rbind (if mime = MIMEPNG then inspectPNG data records
               else if mime = MIMEJPEG then inspectJPEG data records
               else if mime = MIMEGIF then inspectGIF data records
               else if mime = MIMEWebP then inspectWebP data records
               else Inl (ErrInvalid ''unsupported image MIME'')) (\<lambda>(width, height).
        if Detect data \<noteq> Some mime then Inl (ErrInvalid ''declared MIME does not match image container'')
        else if width \<le> 0 \<or> height \<le> 0 then Inl (ErrInvalid ''image dimensions must be positive'')
        else if im_MaxWidth L > 0 \<and> width > im_MaxWidth L then Inl (ErrLimit ''image width exceeds limit'')
        else if im_MaxHeight L > 0 \<and> height > im_MaxHeight L then Inl (ErrLimit ''image height exceeds limit'')
        else if width > go_div max_int64 height then Inl (ErrLimit ''image pixel count overflows'')
        else if im_MaxPixels L > 0 \<and> wrap64 (width * height) > im_MaxPixels L
          then Inl (ErrLimit ''image pixel count exceeds limit'')
        else Inr \<lparr>info_MIMEType = mime, info_Width = width, info_Height = height\<rparr>))"

end
