(* ===== verification/Image_Check_Props.thy ===== *)
theory Image_Check_Props
  imports Image_Check
begin

text \<open>
  Inspection of images is safe on every byte string: no index or slice is out of range and every loop advances. What
  is accepted matches its declared type, has a positive canvas within the limits, and an accepted PNG is a chain of
  checksummed chunks from \<^verbatim>\<open>IHDR\<close> to \<^verbatim>\<open>IEND\<close>.
\<close>

section \<open>Safety of the walkers\<close>

definition safe :: "image_error + 'a \<Rightarrow> bool" where
  "safe r \<longleftrightarrow> r \<noteq> Inl Panic \<and> r \<noteq> Inl Stuck"

named_theorems safe_intros \<open>safety of checked reads\<close>

lemma safe_rbind [safe_intros]: "safe r \<Longrightarrow> (\<And>x. r = Inr x \<Longrightarrow> safe (f x)) \<Longrightarrow> safe (rbind r f)"
  by (cases r) (auto simp: safe_def)

lemma safe_if [safe_intros]: "(b \<Longrightarrow> safe x) \<Longrightarrow> (\<not> b \<Longrightarrow> safe y) \<Longrightarrow> safe (if b then x else y)"
  by simp

lemma safe_results [simp]: "safe (Inr x)" "safe (Inl (ErrInvalid e))" "safe (Inl (ErrLimit e))"
  by (simp_all add: safe_def)

lemma safe_byte_at [simp]: "safe (byte_at i s) \<longleftrightarrow> i < length s"
  by (simp add: byte_at_def safe_def)

lemma safe_slice [simp]: "safe (slice i j s) \<longleftrightarrow> i \<le> j \<and> j \<le> length s"
  by (simp add: slice_def safe_def)

lemma safe_read [simp]: "safe (read_be i j s) \<longleftrightarrow> i \<le> j \<and> j \<le> length s" "safe (read_le i j s) \<longleftrightarrow> i \<le> j \<and> j \<le> length s"
  by (simp_all add: read_be_def read_le_def slice_def safe_def)

lemma slice_Inr: "slice i j s = Inr x \<longleftrightarrow> i \<le> j \<and> j \<le> length s \<and> x = take (j - i) (drop i s)"
  by (auto simp: slice_def)

lemma read_be_Inr: "read_be i j s = Inr n \<longleftrightarrow> i \<le> j \<and> j \<le> length s \<and> n = big_endian (take (j - i) (drop i s))"
  by (auto simp: read_be_def result_simps slice_Inr)

locale container_format =
  fixes step :: "'s \<Rightarrow> string \<Rightarrow> image_error + 's progress" and finish :: "'s \<Rightarrow> image_error + int \<times> int"
  assumes step_safe: "rest \<noteq> [] \<Longrightarrow> safe (step st rest)"
    and advances: "rest \<noteq> [] \<Longrightarrow> step st rest = Inr (Continue st' rest') \<Longrightarrow> length rest' < length rest"
    and finish_safe: "safe (finish st)"
begin

lemma loop_unfold: "rest \<noteq> [] \<Longrightarrow> image_loop step finish st rest = rbind (step st rest) (\<lambda>p. case p of
    Return w h \<Rightarrow> Inr (w, h) | Continue st' rest' \<Rightarrow> image_loop step finish st' rest')"
proof -
  assume r: "rest \<noteq> []"
  show ?thesis
  proof (cases "step st rest")
    case (Inr p)
    then show ?thesis using r advances [OF r] by (subst image_loop.simps) (auto split: progress.splits)
  qed (use r in \<open>simp add: image_loop.simps\<close>)
qed

lemma loop_safe: "safe (image_loop step finish st rest)"
proof (induction "length rest" arbitrary: st rest rule: less_induct)
  case less
  show ?case
  proof (cases "rest = []")
    case True
    then show ?thesis by (simp add: image_loop.simps finish_safe)
  next
    case False
    show ?thesis unfolding loop_unfold [OF False]
      by (rule safe_rbind [OF step_safe [OF False]])
        (use less advances [OF False] in \<open>auto split: progress.splits\<close>)
  qed
qed

text \<open>Induction along the walk: a property of every state, and what the walk returns.\<close>

lemma loop_result:
  assumes "image_loop step finish st rest = Inr (w, h)"
    and "\<And>st. finish st = Inr (w, h) \<Longrightarrow> Q st []"
    and "\<And>st rest. rest \<noteq> [] \<Longrightarrow> step st rest = Inr (Return w h) \<Longrightarrow> Q st rest"
    and "\<And>st rest st' rest'. rest \<noteq> [] \<Longrightarrow> step st rest = Inr (Continue st' rest') \<Longrightarrow> Q st' rest' \<Longrightarrow> Q st rest"
  shows "Q st rest"
  using assms(1)
proof (induction "length rest" arbitrary: st rest rule: less_induct)
  case less
  show ?case
  proof (cases "rest = []")
    case True
    with less(2) assms(2) show ?thesis by (simp add: image_loop.simps)
  next
    case False
    with less(2) obtain p where p: "step st rest = Inr p"
      "(case p of Return w h \<Rightarrow> Inr (w, h) | Continue st' rest' \<Rightarrow> image_loop step finish st' rest') = Inr (w, h)"
      by (auto simp: loop_unfold result_simps)
    show ?thesis
    proof (cases p)
      case (Return w' h')
      with p assms(3) [OF False] show ?thesis by auto
    next
      case (Continue st' rest')
      with p less(1) [OF advances [OF False]] assms(4) [OF False] show ?thesis by auto
    qed
  qed
qed


end

lemma png_chunk_safe: "safe (png_chunk st name body rest')"
  unfolding png_chunk_def by (intro safe_intros) simp_all

lemma png_chunk_rest: "png_chunk st name body rest' = Inr (Continue st' r) \<Longrightarrow> r = rest'"
  by (auto simp: png_chunk_def result_simps split: if_splits)

interpretation png: container_format "png_step m" "\<lambda>st. Inl (ErrInvalid e)"
proof
  fix st st' and rest rest' :: string
  assume r: "rest \<noteq> []"
  show "safe (png_step m st rest)"
    unfolding png_step_def Let_def by (intro safe_intros png_chunk_safe) (auto simp: not_less)
  show "png_step m st rest = Inr (Continue st' rest') \<Longrightarrow> length rest' < length rest"
    by (auto simp: png_step_def Let_def result_simps split: if_splits dest!: png_chunk_rest)
qed simp

lemma jpeg_segment_safe: "safe (jpeg_segment st marker r)"
  unfolding jpeg_segment_def by (intro safe_intros) (auto simp: not_less)

lemma jpeg_segment_rest: "jpeg_segment st marker r = Inr (Continue st' r') \<Longrightarrow> length r' < length r"
  by (auto simp: jpeg_segment_def result_simps split: if_splits)

interpretation jpeg: container_format "jpeg_step m" "\<lambda>st. Inl (ErrInvalid e)"
proof
  fix st st' and rest rest' :: string
  assume r: "rest \<noteq> []"
  have d: "length (dropWhile (\<lambda>c. byte c = 0xFF) rest) \<le> length rest" by (rule length_dropWhile_le)
  show "safe (jpeg_step m st rest)"
    unfolding jpeg_step_def Let_def using r by (intro safe_intros jpeg_segment_safe) auto
  show "length rest' < length rest" if "jpeg_step m st rest = Inr (Continue st' rest')"
    using that r d
    by (cases "dropWhile (\<lambda>c. byte c = 0xFF) rest"; cases rest)
      (auto simp: jpeg_step_def Let_def result_simps split: if_splits dest!: jpeg_segment_rest)
qed simp

lemma skip_blocks_safe: "safe (skipGIFBlocks m n s)"
  by (induction m n s rule: skipGIFBlocks.induct) auto

lemma skip_blocks_rest: "skipGIFBlocks m n s = Inr (k, r) \<Longrightarrow> length r < length s"
  by (induction m n s rule: skipGIFBlocks.induct) (auto split: if_splits)

lemma gif_blocks_props:
  "safe (gif_blocks m st r)" "gif_blocks m st r = Inr (Continue st' r') \<Longrightarrow> length r' < length r"
  unfolding gif_blocks_def
  by (rule safe_rbind) (auto simp: result_simps intro: skip_blocks_safe dest: skip_blocks_rest)

lemma skip_table_props:
  "safe (skip_table w p r)" "skip_table w p r = Inr r' \<Longrightarrow> length r' \<le> length r"
  by (auto simp: skip_table_def split: if_splits)

interpretation gif: container_format "gif_step m w h" "\<lambda>st. Inl (ErrInvalid e)"
proof
  fix st st' and rest rest' :: string
  assume r: "rest \<noteq> []"
  show "safe (gif_step m w h st rest)"
    unfolding gif_step_def Let_def using r by (intro safe_intros gif_blocks_props skip_table_props) auto
  show "gif_step m w h st rest = Inr (Continue st' rest') \<Longrightarrow> length rest' < length rest"
    using r by (fastforce simp: gif_step_def Let_def result_simps split: if_splits
        dest!: gif_blocks_props(2) skip_table_props(2))
qed simp

lemma vp8_safe: "safe (vp8Size b)" "safe (vp8lSize b)"
  unfolding vp8Size_def vp8lSize_def by (intro safe_intros; auto)+

lemma webp_chunk_safe: "safe (webp_chunk st k b)"
  unfolding webp_chunk_def by (intro safe_intros vp8_safe) auto

interpretation webp: container_format "webp_step m" webp_finish
proof
  fix st st' and rest rest' :: string
  assume r: "rest \<noteq> []"
  show "safe (webp_step m st rest)"
    unfolding webp_step_def Let_def by (intro safe_intros webp_chunk_safe) auto
  show "webp_step m st rest = Inr (Continue st' rest') \<Longrightarrow> length rest' < length rest"
    by (auto simp: webp_step_def Let_def result_simps split: if_splits)
qed (simp add: webp_finish_def)

lemma inspect_safe:
  "safe (inspectPNG data m)" "safe (inspectJPEG data m)" "safe (inspectGIF data m)" "safe (inspectWebP data m)"
  unfolding inspectPNG_def inspectJPEG_def inspectGIF_def inspectWebP_def
  by (intro safe_intros png.loop_safe jpeg.loop_safe gif.loop_safe webp.loop_safe skip_table_props; auto)+

lemma Inspect_safe: "safe (Inspect mime data L)"
  unfolding Inspect_def Let_def by (intro safe_intros inspect_safe) (auto intro: safe_intros)

section \<open>Accepted PNG files\<close>

text \<open>One chunk as bytes: its length, name, body and checksum.\<close>

definition chunk_ok :: "string \<Rightarrow> string \<Rightarrow> string \<Rightarrow> bool" where
  "chunk_ok c name body \<longleftrightarrow> length c = 12 + length body \<and> big_endian (take 4 c) = length body
     \<and> take 4 (drop 4 c) = name \<and> take (length body) (drop 8 c) = body
     \<and> big_endian (drop (8 + length body) c) = crc32 (name @ body)"

definition animation_chunk :: "string \<Rightarrow> bool" where
  "animation_chunk name \<longleftrightarrow> name \<in> {''acTL'', ''fcTL'', ''fdAT''}"

text \<open>A chain of chunks that ends with \<^verbatim>\<open>IEND\<close>; the flag says whether image data has been seen.\<close>

inductive png_chain :: "bool \<Rightarrow> string \<Rightarrow> bool" where
  fin: "chunk_ok c ''IEND'' [] \<Longrightarrow> png_chain True c"
| data: "chunk_ok c ''IDAT'' body \<Longrightarrow> png_chain True s \<Longrightarrow> png_chain idat (c @ s)"
| other: "chunk_ok c name body \<Longrightarrow> name \<notin> {''IHDR'', ''IDAT'', ''IEND''} \<Longrightarrow> \<not> animation_chunk name \<Longrightarrow>
    png_chain idat s \<Longrightarrow> png_chain idat (c @ s)"

lemma png_step_chunk:
  assumes "png_step m st rest = Inr p"
  obtains c name body where "rest = c @ drop (length c) rest" "chunk_ok c name body" "png_records st + 1 \<le> m"
    "png_chunk (st\<lparr>png_records := png_records st + 1\<rparr>) name body (drop (length c) rest) = Inr p"
proof -
  from assms obtain n where n: "12 \<le> length rest" "n = big_endian (take 4 rest)" "n \<le> length rest - 12"
    "png_records st + 1 \<le> m"
    "crc32 (take 4 (drop 4 rest) @ take n (drop 8 rest)) = big_endian (take 4 (drop (8 + n) rest))"
    "png_chunk (st\<lparr>png_records := png_records st + 1\<rparr>) (take 4 (drop 4 rest)) (take n (drop 8 rest)) (drop (8 + n + 4) rest) = Inr p"
    by (auto simp: png_step_def Let_def result_simps read_be_Inr slice_Inr split: if_splits)
  let ?c = "take (12 + n) rest"
  have len: "length ?c = 12 + n" "length (take n (drop 8 rest)) = n" using n(1,3) by auto
  have "chunk_ok ?c (take 4 (drop 4 rest)) (take n (drop 8 rest))"
    using n(1,2,3,5) len by (simp add: chunk_ok_def drop_take min_def)
  moreover have "rest = ?c @ drop (length ?c) rest" using len by simp
  moreover have "png_chunk (st\<lparr>png_records := png_records st + 1\<rparr>) (take 4 (drop 4 rest)) (take n (drop 8 rest))
      (drop (length ?c) rest) = Inr p"
    using n(6) len(1) by (simp add: add.commute)
  ultimately show ?thesis using that n(4) by blast
qed

text \<open>After the first chunk: without a canvas nothing is accepted, and with one the rest is a chain.\<close>

definition png_rest :: "int \<Rightarrow> int \<Rightarrow> png_state \<Rightarrow> string \<Rightarrow> bool" where
  "png_rest w h st rest \<longleftrightarrow> (1 \<le> png_records st \<longrightarrow> png_width st = 0 \<longrightarrow> png_sawIDAT st)
     \<and> (1 \<le> png_records st \<longrightarrow> png_width st \<noteq> 0 \<longrightarrow>
          w = png_width st \<and> h = png_height st \<and> png_chain (png_sawIDAT st) rest)"

lemma png_rest_loop:
  assumes "image_loop (png_step m) (\<lambda>st. Inl (ErrInvalid e)) st rest = Inr (w, h)"
  shows "png_rest w h st rest"
  using assms
proof (rule png.loop_result, goal_cases)
  case (1 st)
  then show ?case by simp
next
  case (2 st rest)
  from 2(2) obtain c name body where c: "rest = c @ drop (length c) rest" "chunk_ok c name body"
    "png_chunk (st\<lparr>png_records := png_records st + 1\<rparr>) name body (drop (length c) rest) = Inr (Return w h)"
    by (rule png_step_chunk)
  then have f: "name = ''IEND''" "body = []" "png_sawIDAT st" "drop (length c) rest = []" "w = png_width st" "h = png_height st"
    by (auto simp: png_chunk_def result_simps split: if_splits)
  have "rest = c" using c(1) f(4) by simp
  then show ?case using f c(2) by (auto simp: png_rest_def intro: png_chain.fin)
next
  case (3 st rest st' rest')
  note ih = 3(3)
  from 3(2) obtain c name body where c: "rest = c @ drop (length c) rest" "chunk_ok c name body"
    "png_chunk (st\<lparr>png_records := png_records st + 1\<rparr>) name body (drop (length c) rest) = Inr (Continue st' rest')"
    by (rule png_step_chunk)
  have r: "rest' = drop (length c) rest" using png_chunk_rest [OF c(3)] .
  consider "name = ''IHDR''" | "name = ''IDAT''" | "name \<notin> {''IHDR'', ''IDAT'', ''IEND''}" "\<not> animation_chunk name"
    using c(3) by (auto simp: png_chunk_def animation_chunk_def split: if_splits)
  then show ?case
  proof cases
    case 1
    then have "png_records st = 0" using c(3) by (auto simp: png_chunk_def split: if_splits)
    then show ?thesis by (simp add: png_rest_def)
  next
    case 2
    then have "png_width st \<noteq> 0" "st' = st\<lparr>png_records := png_records st + 1, png_sawIDAT := True\<rparr>"
      using c(3) by (auto simp: png_chunk_def split: if_splits)
    with ih 2 c(2) r show ?thesis
      by (subst c(1)) (auto simp: png_rest_def intro: png_chain.data)
  next
    case 3
    then have "st' = st\<lparr>png_records := png_records st + 1\<rparr>"
      using c(3) by (auto simp: png_chunk_def animation_chunk_def split: if_splits)
    with ih 3 c(2) r show ?thesis
      by (subst c(1)) (auto simp: png_rest_def intro: png_chain.other)
  qed
qed

lemma inspectPNG_chain:
  assumes "inspectPNG data m = Inr (w, h)"
  shows "\<exists>c body s. data = png_magic @ c @ s \<and> chunk_ok c ''IHDR'' body \<and> length body = 13
    \<and> w = int (big_endian (take 4 body)) \<and> h = int (big_endian (take 4 (drop 4 body))) \<and> png_chain False s"
proof -
  let ?st = "\<lparr>png_records = 0, png_width = 0, png_height = 0, png_sawIDAT = False\<rparr> :: png_state"
  have "take 8 data = png_magic"
    and l: "image_loop (png_step m) (\<lambda>st. Inl (ErrInvalid ''PNG is missing IEND'')) ?st (drop 8 data) = Inr (w, h)"
    using assms by (simp_all add: inspectPNG_def split: if_splits)
  then have d: "data = png_magic @ drop 8 data" using append_take_drop_id [of 8 data] by metis
  have ne: "drop 8 data \<noteq> []" using l by (auto simp: image_loop.simps)
  from l obtain p where p: "png_step m ?st (drop 8 data) = Inr p"
    "(case p of Return w h \<Rightarrow> Inr (w, h) | Continue st' rest' \<Rightarrow>
      image_loop (png_step m) (\<lambda>st. Inl (ErrInvalid ''PNG is missing IEND'')) st' rest') = Inr (w, h)"
    by (auto simp: png.loop_unfold [OF ne] result_simps)
  from p(1) obtain c name body where c: "drop 8 data = c @ drop (length c) (drop 8 data)" "chunk_ok c name body"
    "png_chunk (?st\<lparr>png_records := png_records ?st + 1\<rparr>) name body (drop (length c) (drop 8 data)) = Inr p"
    by (rule png_step_chunk)
  then obtain st' where cont: "p = Continue st' (drop (length c) (drop 8 data))"
    and st': "name = ''IHDR'' \<and> length body = 13 \<and> st' = ?st\<lparr>png_records := 1,
        png_width := int (big_endian (take 4 body)), png_height := int (big_endian (take 4 (drop 4 body)))\<rparr>
      \<or> st' = ?st\<lparr>png_records := 1\<rparr>"
    by (auto simp: png_chunk_def result_simps read_be_Inr split: if_splits)
  from p(2) cont have "png_rest w h st' (drop (length c) (drop 8 data))" by (auto intro: png_rest_loop)
  then have "name = ''IHDR'' \<and> length body = 13 \<and> w = int (big_endian (take 4 body))
      \<and> h = int (big_endian (take 4 (drop 4 body))) \<and> png_chain False (drop (length c) (drop 8 data))"
    using st' by (elim disjE conjE) (simp_all add: png_rest_def split: if_splits)
  moreover have "data = png_magic @ c @ drop (length c) (drop 8 data)" using d c(1) by metis
  ultimately show ?thesis using c(2) by blast
qed

section \<open>Properties\<close>


text \<open>An accepted image is not empty, its container is of the declared type, and its canvas is positive,
  within the configured width and height, and with a pixel count that fits and respects its limit.\<close>

theorem accepted_image_bounds:
  assumes "Inspect mime data L = Inr info"
  shows "data \<noteq> [] \<and> Detect data = Some mime \<and> info_MIMEType info = mime
    \<and> 0 < info_Width info \<and> 0 < info_Height info
    \<and> (0 < im_MaxBytes L \<longrightarrow> int (length data) \<le> im_MaxBytes L)
    \<and> (0 < im_MaxWidth L \<longrightarrow> info_Width info \<le> im_MaxWidth L)
    \<and> (0 < im_MaxHeight L \<longrightarrow> info_Height info \<le> im_MaxHeight L)
    \<and> info_Width info * info_Height info \<le> max_int64
    \<and> (0 < im_MaxPixels L \<longrightarrow> info_Width info * info_Height info \<le> im_MaxPixels L)"
proof -
  from assms obtain w h where i: "info = \<lparr>info_MIMEType = mime, info_Width = w, info_Height = h\<rparr>"
    "data \<noteq> []" "Detect data = Some mime" "0 < w" "0 < h" "w \<le> go_div max_int64 h"
    "0 < im_MaxBytes L \<longrightarrow> int (length data) \<le> im_MaxBytes L" "0 < im_MaxWidth L \<longrightarrow> w \<le> im_MaxWidth L"
    "0 < im_MaxHeight L \<longrightarrow> h \<le> im_MaxHeight L" "0 < im_MaxPixels L \<longrightarrow> wrap64 (w * h) \<le> im_MaxPixels L"
    by (auto simp: Inspect_def Let_def result_simps split: if_splits)
  have "go_div max_int64 h = max_int64 div h" using i(5) by (intro go_div_nonneg) (auto simp: max_int64_def)
  then have "w * h \<le> max_int64" using i(5,6) int_le_div_iff by auto
  moreover from this have "wrap64 (w * h) = w * h"
    using mult_pos_pos [OF i(4,5)] by (intro wrap64_id) (simp add: in_int64_def min_int64_def)
  ultimately show ?thesis using i by auto
qed

text \<open>A GIF of one pixel.\<close>

definition tiny_gif :: string where
  "tiny_gif = ''GIF89a'' @ map char_of [1, 0, 1, 0, 0, 0, 0 :: nat] @ map char_of [0x2C, 0, 0, 0, 0, 1, 0, 1, 0, 0 :: nat]
     @ map char_of [2, 1, 0x44, 0, 0x3B :: nat]"

theorem accepted_image_bounds_witness: "Detect tiny_gif = Some MIMEGIF"
proof -
  have "Inspect MIMEGIF tiny_gif DefaultLimits = Inr (projr (Inspect MIMEGIF tiny_gif DefaultLimits))" by code_simp
  from accepted_image_bounds [OF this] show ?thesis by blast
qed

text \<open>An accepted PNG is the signature, an \<^verbatim>\<open>IHDR\<close> chunk that declares the reported canvas, and a chain of
  chunks with correct lengths and checksums, without animation chunks, that has image data and ends with \<^verbatim>\<open>IEND\<close> at
  the last byte.\<close>

theorem accepted_png_is_chunk_chain:
  assumes "Inspect MIMEPNG data L = Inr info"
  shows "\<exists>c body s. data = png_magic @ c @ s \<and> chunk_ok c ''IHDR'' body \<and> length body = 13
    \<and> info_Width info = int (big_endian (take 4 body)) \<and> info_Height info = int (big_endian (take 4 (drop 4 body)))
    \<and> png_chain False s"
proof -
  from assms obtain w h m where "inspectPNG data m = Inr (w, h)" "info_Width info = w" "info_Height info = h"
    by (auto simp: Inspect_def Let_def result_simps split: if_splits)
  with inspectPNG_chain [of data m w h] show ?thesis by simp
qed

text \<open>The smallest chunk chain: a one by one canvas with an empty data chunk.\<close>

definition be32 :: "nat \<Rightarrow> string" where
  "be32 n = map (\<lambda>k. char_of (n div 256 ^ k mod 256)) [3, 2, 1, 0]"

definition make_chunk :: "string \<Rightarrow> string \<Rightarrow> string" where
  "make_chunk name body = be32 (length body) @ name @ body @ be32 (crc32 (name @ body))"

definition tiny_png :: string where
  "tiny_png = png_magic @ make_chunk ''IHDR'' (be32 1 @ be32 1 @ map char_of [8, 0, 0, 0, 0 :: nat])
     @ make_chunk ''IDAT'' [] @ make_chunk ''IEND'' []"

lemma length_be32 [simp]: "length (be32 n) = 4"
  by (simp add: be32_def)

lemma big_endian_be32: "n < 2 ^ 32 \<Longrightarrow> big_endian (be32 n) = n"
proof -
  assume n: "n < 2 ^ 32"
  have "n = n div 256 * 256 + n mod 256" "n div 256 = n div 65536 * 256 + n div 256 mod 256"
    "n div 65536 = n div 16777216 * 256 + n div 65536 mod 256"
    using div_mult_mod_eq [of n 256] div_mult_mod_eq [of "n div 256" 256] div_mult_mod_eq [of "n div 65536" 256]
    by (simp_all add: div_mult2_eq [symmetric])
  moreover have "n div 16777216 mod 256 = n div 16777216" using n by simp
  ultimately show ?thesis by (simp add: big_endian_def be32_def)
qed

lemma crc32_bound: "crc32 s < 2 ^ 32"
  unfolding crc32_def using unsigned_less [of "NOT (foldl crc_byte (NOT 0) s)"] by simp

text \<open>An encoded chunk is read back as its name and body.\<close>

lemma png_step_chunk_bytes:
  assumes "length name = 4" "length body < 2 ^ 32"
  shows "png_step m st (make_chunk name body @ rest) =
    (if png_records st + 1 > m then Inl (ErrLimit ''PNG record budget exceeded'')
     else png_chunk (st\<lparr>png_records := png_records st + 1\<rparr>) name body rest)"
proof -
  have "read_be 0 4 (make_chunk name body @ rest) = Inr (length body)"
    using assms by (simp add: read_be_def slice_def make_chunk_def big_endian_be32)
  moreover have "slice 4 8 (make_chunk name body @ rest) = Inr name"
    "slice 8 (8 + length body) (make_chunk name body @ rest) = Inr body"
    using assms(1) by (simp_all add: slice_def make_chunk_def)
  moreover have "read_be (8 + length body) (8 + length body + 4) (make_chunk name body @ rest) = Inr (crc32 (name @ body))"
    using assms(1) crc32_bound by (simp add: read_be_def slice_def make_chunk_def big_endian_be32)
  moreover have "drop (8 + length body + 4) (make_chunk name body @ rest) = rest"
    using assms(1) by (simp add: make_chunk_def)
  ultimately show ?thesis using assms by (simp add: png_step_def Let_def make_chunk_def)
qed

lemma chunk_not_Nil [simp]: "make_chunk name body @ rest \<noteq> []"
  by (simp add: make_chunk_def be32_def)

lemmas last_chunk = png_step_chunk_bytes [where rest = "[]", unfolded append_Nil2]
  chunk_not_Nil [where rest = "[]", unfolded append_Nil2]

lemma tiny_png_inspected: "inspectPNG tiny_png 65536 = Inr (1, 1)"
proof -
  have "read_be 0 4 (be32 1 @ be32 1 @ map char_of [8, 0, 0, 0, 0 :: nat]) = Inr 1"
    "read_be 4 8 (be32 1 @ be32 1 @ map char_of [8, 0, 0, 0, 0 :: nat]) = Inr 1"
    by (simp_all add: read_be_def slice_def big_endian_be32)
  moreover have "length tiny_png \<ge> 8" "take 8 tiny_png = png_magic" "drop 8 tiny_png =
      make_chunk ''IHDR'' (be32 1 @ be32 1 @ map char_of [8, 0, 0, 0, 0 :: nat]) @ make_chunk ''IDAT'' [] @ make_chunk ''IEND'' [] @ []"
    by (simp_all add: tiny_png_def png_magic_def)
  ultimately show ?thesis
    by (simp only: inspectPNG_def png.loop_unfold chunk_not_Nil png_step_chunk_bytes)
      (simp add: png.loop_unfold [OF chunk_not_Nil] png.loop_unfold [OF last_chunk(2)] png_step_chunk_bytes
        last_chunk(1) png_chunk_def max_int64_def)
qed

theorem accepted_png_is_chunk_chain_witness: "\<exists>c body s. tiny_png = png_magic @ c @ s \<and> chunk_ok c ''IHDR'' body"
proof -
  have "length tiny_png \<le> 100" "Detect tiny_png = Some MIMEPNG" "tiny_png \<noteq> []"
    by (simp_all add: tiny_png_def Detect_def png_magic_def make_chunk_def)
  then have "Inspect MIMEPNG tiny_png DefaultLimits = Inr \<lparr>info_MIMEType = MIMEPNG, info_Width = 1, info_Height = 1\<rparr>"
    using tiny_png_inspected
    by (simp add: Inspect_def DefaultLimits_def go_div_def max_int64_def wrap64_def)
  from accepted_png_is_chunk_chain [OF this] show ?thesis by blast
qed

end
