(* ===== verification/Output.thy ===== *)
theory Output
  imports Request_Props Tool_Limits_Props Image_Check_Props
begin

text \<open>
  Tool outputs and how an executor finalises them: \<^verbatim>\<open>src/core/tools/output.go\<close>, \<^verbatim>\<open>image.go\<close> and the output types of
  \<^verbatim>\<open>tool.go\<close>.

  Content is framed into one byte string with length-prefixed fields; its size is bounded and its SHA-256 identifies
  it. Text that is too long is cut in the middle around a marker. \<open>sha\<close> is \<^verbatim>\<open>crypto/sha256\<close>, an argument of the
  definitions that hash: the theorems hold for every function, with its 32-byte result as a hypothesis where it
  matters. Byte counts are taken in \<open>int\<close>; the inspection ceiling of 256 MiB keeps them far from the 64-bit limits,
  and sums that the source guards go through \<open>add64\<close> and \<open>mul64\<close>.
\<close>

section \<open>Outputs\<close>

record output_stats =
  os_OriginalBytes :: int
  os_KeptBytes :: int
  os_SHA256 :: string
  os_Truncated :: bool

record output_seal =
  seal_executor :: nat
  seal_limits :: output_limits
  seal_isError :: bool
  seal_stats :: output_stats
  seal_retained :: string

record collector_receipt =
  rc_limits :: output_limits
  rc_originalBytes :: int
  rc_originalSHA :: string
  rc_keptBytes :: int
  rc_truncated :: bool
  rc_isError :: bool
  rc_retained :: string
  rc_sources :: "string list"
  rc_metadata :: string

record tool_output =
  out_Content :: "content list"
  out_IsError :: bool
  out_Stats :: output_stats
  out_receipt :: "collector_receipt option"
  out_seal :: "output_seal option"

definition zero_stats :: output_stats where
  "zero_stats = \<lparr>os_OriginalBytes = 0, os_KeptBytes = 0, os_SHA256 = [], os_Truncated = False\<rparr>"

definition text_output :: "string \<Rightarrow> tool_output" where
  "text_output s = \<lparr>out_Content = [Text s], out_IsError = False, out_Stats = zero_stats, out_receipt = None, out_seal = None\<rparr>"

definition error_output :: "string \<Rightarrow> tool_output" where
  "error_output s = \<lparr>out_Content = [Text s], out_IsError = True, out_Stats = zero_stats, out_receipt = None, out_seal = None\<rparr>"

definition cloneOutput :: "tool_output \<Rightarrow> tool_output" where
  "cloneOutput out = out\<lparr>out_Content := map Content_Clone (out_Content out)\<rparr>"

abbreviation execution :: "string \<Rightarrow> tools_error" where
  "execution msg \<equiv> ErrExecution (ToolFault msg)"

section \<open>Framing\<close>

record content_block =
  cb_kind :: string
  cb_text :: string
  cb_mime :: string
  cb_detail :: string
  cb_data :: string
  cb_imageOK :: bool

definition outputDomain :: string where "outputDomain = ''serpe.tools.output.v1''"
definition outputVersion :: nat where "outputVersion = 1"
definition frameChunk :: int where "frameChunk = 4096"
definition blockBoundary :: string where "blockBoundary = ''block''"
definition inspectionCeiling :: int where "inspectionCeiling = 268435456"

text \<open>\<^verbatim>\<open>frameHashEnc\<close>: the bytes given to the hash so far and their guarded count.\<close>

record frame_enc =
  fe_h :: string
  fe_n :: int

definition enc_write :: "string \<Rightarrow> frame_enc \<Rightarrow> frame_enc option" where
  "enc_write p e = (case add64 (fe_n e) (int (length p)) of
     None \<Rightarrow> None | Some n \<Rightarrow> Some (e\<lparr>fe_h := fe_h e @ p, fe_n := n\<rparr>))"

definition enc_u64 :: "nat \<Rightarrow> frame_enc \<Rightarrow> frame_enc option" where
  "enc_u64 v = enc_write (be64 v)"

definition enc_bytes :: "string \<Rightarrow> frame_enc \<Rightarrow> frame_enc option" where
  "enc_bytes p e = Option.bind (enc_u64 (length p) e) (enc_write p)"

text \<open>The payload in chunks of \<^verbatim>\<open>frameChunk\<close> bytes.\<close>

function chunks :: "string \<Rightarrow> string list" where
  "chunks p = (if p = [] then [] else take (nat frameChunk) p # chunks (drop (nat frameChunk) p))"
  by pat_completeness auto
termination
  by (relation "measure length") (auto simp: frameChunk_def)

declare chunks.simps [simp del]

fun enc_all :: "('a \<Rightarrow> frame_enc \<Rightarrow> frame_enc option) \<Rightarrow> 'a list \<Rightarrow> frame_enc \<Rightarrow> frame_enc option" where
  "enc_all f [] e = Some e"
| "enc_all f (x # xs) e = Option.bind (f x e) (enc_all f xs)"

definition block_payload :: "content_block \<Rightarrow> string" where
  "block_payload b = (if cb_kind b = ContentImage then cb_data b else cb_text b)"

definition enc_block :: "nat \<times> content_block \<Rightarrow> frame_enc \<Rightarrow> frame_enc option" where
  "enc_block x e = (case x of (i, b) \<Rightarrow>
     Option.bind (enc_u64 i e) (\<lambda>e.
     Option.bind (enc_bytes (cb_kind b) e) (\<lambda>e.
     Option.bind (enc_bytes (cb_mime b) e) (\<lambda>e.
     Option.bind (enc_bytes (cb_detail b) e) (\<lambda>e.
     Option.bind (enc_all enc_bytes (chunks (block_payload b)) e) (\<lambda>e.
     Option.bind (enc_u64 0 e) (\<lambda>e.
     Option.bind (enc_u64 (length (block_payload b)) e) (\<lambda>e.
     enc_bytes blockBoundary e))))))))"

definition hex_digits :: string where "hex_digits = ''0123456789abcdef''"

definition hex_encode :: "string \<Rightarrow> string" where
  "hex_encode s = concat (map (\<lambda>c. [hex_digits ! (byte c div 16), hex_digits ! (byte c mod 16)]) s)"

definition digestBlocks :: "(string \<Rightarrow> string) \<Rightarrow> content_block list \<Rightarrow> tools_error + int \<times> string" where
  "digestBlocks sha bs =
     (case Option.bind (enc_bytes outputDomain \<lparr>fe_h = [], fe_n = 0\<rparr>) (\<lambda>e.
        Option.bind (enc_u64 outputVersion e) (\<lambda>e.
        Option.bind (enc_u64 (length bs) e) (enc_all enc_block (enumerate 0 bs)))) of
        None \<Rightarrow> Inl ErrOutputLimit
      | Some e \<Rightarrow> Inr (fe_n e, hex_encode (sha (fe_h e))))"

text \<open>The size of one framed block, computed without encoding it.\<close>

fun add_all :: "int \<Rightarrow> int list \<Rightarrow> int option" where
  "add_all n [] = Some n"
| "add_all n (x # xs) = Option.bind (add64 n x) (\<lambda>m. add_all m xs)"

definition framedBlockSize :: "string \<Rightarrow> string \<Rightarrow> string \<Rightarrow> int \<Rightarrow> int option" where
  "framedBlockSize kind mime detail payload =
     (if payload < 0 then None
      else Option.bind (add_all 8 [8 + int (length kind), 8 + int (length mime), 8 + int (length detail)]) (\<lambda>n.
        let cs = payload div frameChunk + (if payload mod frameChunk \<noteq> 0 then 1 else 0) in
        Option.bind (mul64 cs 8) (\<lambda>overhead.
        add_all n [overhead, payload, 8, 8, 8 + int (length blockBoundary)])))"

definition frame_header :: int where
  "frame_header = 8 + int (length outputDomain) + 8 + 8"

fun frame_size_from :: "int \<Rightarrow> content_block list \<Rightarrow> int option" where
  "frame_size_from n [] = Some n"
| "frame_size_from n (b # bs) =
     Option.bind (framedBlockSize (cb_kind b) (cb_mime b) (cb_detail b) (int (length (block_payload b)))) (\<lambda>k.
     Option.bind (add64 n k) (\<lambda>m. frame_size_from m bs))"

definition blocksFrameSize :: "content_block list \<Rightarrow> int option" where
  "blocksFrameSize bs = frame_size_from frame_header bs"

section \<open>Inspection\<close>

text \<open>\<^verbatim>\<open>inspectImage\<close>; the last two errors of the container walk do not occur.\<close>

definition inspectImage :: "string \<Rightarrow> string \<Rightarrow> tools_error + int \<times> int" where
  "inspectImage mime data =
     (case Inspect mime data \<lparr>im_MaxBytes = 0, im_MaxWidth = 0, im_MaxHeight = 0, im_MaxPixels = 0, im_MaxRecords = 65536\<rparr> of
        Inl (ErrLimit _) \<Rightarrow> Inl ErrOutputLimit
      | Inl (ErrInvalid msg) \<Rightarrow> Inl (execution msg)
      | Inl _ \<Rightarrow> Inl (execution ''panic'')
      | Inr info \<Rightarrow> Inr (info_Width info, info_Height info))"

definition inspectUnion :: "content \<Rightarrow> tools_error + unit" where
  "inspectUnion c =
     (if unionCount c \<noteq> 1 then Inl (execution ''content is not a closed union'')
      else if c_Kind c = ContentText then guard (c_Text c \<noteq> None) (execution ''text kind does not match variant'')
      else if c_Kind c = ContentImage then guard (c_Image c \<noteq> None) (execution ''image kind does not match variant'')
      else Inl (execution ''unsupported content kind''))"

definition maxCollectorMetaBytes :: int where "maxCollectorMetaBytes = 4096"

text \<open>The body of the loop of \<^verbatim>\<open>preflightContent\<close>; the state is the framed size and the image bytes so far.\<close>

definition preflight_block :: "output_limits \<Rightarrow> int \<times> int \<Rightarrow> content \<Rightarrow> tools_error + int \<times> int" where
  "preflight_block L st c = (case st of (framed, imageBytes) \<Rightarrow>
     rbind (inspectUnion c) (\<lambda>_.
     rbind (if c_Kind c = ContentText then Inr (int (length (the (c_Text c))), [], [], imageBytes)
            else if c_Kind c = ContentImage then
              (let im = the (c_Image c); mime = img_MIMEType im; detail = img_Detail im in
               if img_URI im \<noteq> [] then Inl (execution ''image URI is not allowed'')
               else if int (length mime) > maxCollectorMetaBytes \<or> int (length detail) > maxCollectorMetaBytes
                 then Inl (execution ''image metadata exceeds structural ceiling'')
               else if int (length mime) > ol_MaxMetadataBytes L \<or> int (length detail) > ol_MaxMetadataBytes L
                 then Inl ErrOutputLimit
               else case add64 imageBytes (int (length (bytes_of (img_Data im)))) of
                 None \<Rightarrow> Inl ErrOutputLimit
               | Some n \<Rightarrow>
                   if n > ol_MaxImageBytes L then Inl ErrOutputLimit
                   else Inr (int (length (bytes_of (img_Data im))), mime, detail, n))
            else Inl (execution ''unsupported kind'')) (\<lambda>(payload, mime, detail, imageBytes').
     case framedBlockSize (c_Kind c) mime detail payload of
       None \<Rightarrow> Inl ErrOutputLimit
     | Some k \<Rightarrow>
         (case add64 framed k of
            None \<Rightarrow> Inl ErrOutputLimit
          | Some framed' \<Rightarrow> if framed' > inspectionCeiling then Inl ErrOutputLimit else Inr (framed', imageBytes')))))"

definition preflightContent :: "output_limits \<Rightarrow> content list \<Rightarrow> tools_error + int \<times> int" where
  "preflightContent L cs = rfold (preflight_block L) (frame_header, 0) cs"

text \<open>One block of \<^verbatim>\<open>inspectContent\<close>, with the image bytes counted so far.\<close>

definition inspect_block :: "output_limits \<Rightarrow> int \<Rightarrow> content \<Rightarrow> tools_error + content_block \<times> int" where
  "inspect_block L imageBytes c =
     rbind (inspectUnion c) (\<lambda>_.
     if c_Kind c = ContentText then
       (if \<not> utf8_valid (the (c_Text c)) then Inl (execution ''text is not valid UTF-8'')
        else Inr (\<lparr>cb_kind = ContentText, cb_text = the (c_Text c), cb_mime = [], cb_detail = [], cb_data = [],
          cb_imageOK = False\<rparr>, imageBytes))
     else if c_Kind c = ContentImage then
       (let im = the (c_Image c); data = bytes_of (img_Data im) in
        rbind (inspectImage (img_MIMEType im) data) (\<lambda>(width, height).
        if img_Detail im \<noteq> [] \<and> img_Detail im \<noteq> ImageDetailAuto \<and> img_Detail im \<noteq> ImageDetailLow
             \<and> img_Detail im \<noteq> ImageDetailHigh then Inl (execution ''invalid image detail'')
        else if width > ol_MaxImageWidth L \<or> height > ol_MaxImageHeight L then Inl ErrOutputLimit
        else case mul64 width height of
          None \<Rightarrow> Inl ErrOutputLimit
        | Some pixels \<Rightarrow>
            if pixels > ol_MaxImagePixels L then Inl ErrOutputLimit
            else (case add64 imageBytes (int (length data)) of
                None \<Rightarrow> Inl ErrOutputLimit
              | Some n \<Rightarrow>
                  if n > ol_MaxImageBytes L then Inl ErrOutputLimit
                  else Inr (\<lparr>cb_kind = ContentImage, cb_text = [], cb_mime = img_MIMEType im, cb_detail = img_Detail im,
                    cb_data = data, cb_imageOK = True\<rparr>, n))))
     else Inl (execution ''unsupported kind''))"

fun inspect_blocks :: "output_limits \<Rightarrow> int \<Rightarrow> content list \<Rightarrow> tools_error + content_block list" where
  "inspect_blocks L n [] = Inr []"
| "inspect_blocks L n (c # cs) =
     rbind (inspect_block L n c) (\<lambda>(b, n'). rbind (inspect_blocks L n' cs) (\<lambda>bs. Inr (b # bs)))"

definition inspectContent :: "content list \<Rightarrow> output_limits \<Rightarrow> tools_error + content_block list" where
  "inspectContent cs L =
     (if cs = [] then Inl (execution ''output content is empty'')
      else if int (length cs) > ol_MaxBlocks L then Inl ErrOutputLimit
      else rbind (preflightContent L cs) (\<lambda>_. inspect_blocks L 0 cs))"

section \<open>Truncation\<close>

abbreviation is_text :: "content_block \<Rightarrow> bool" where "is_text b \<equiv> cb_kind b = ContentText"

definition textTotal :: "content_block list \<Rightarrow> int" where
  "textTotal bs = sum_list (map (\<lambda>b. if is_text b then int (length (cb_text b)) else 0) bs)"

definition overText :: "content_block list \<Rightarrow> output_limits \<Rightarrow> bool" where
  "overText bs L \<longleftrightarrow> textTotal bs > ol_MaxTextBytes L"

definition hasText :: "content_block list \<Rightarrow> bool" where
  "hasText bs \<longleftrightarrow> list_ex is_text bs"

definition hex16 :: "nat \<Rightarrow> string" where
  "hex16 n = map (\<lambda>i. hex_digits ! (n div 16 ^ i mod 16)) (rev [0..<16])"

definition truncationPrefix :: string where
  "truncationPrefix = CHR 0x0A # ''[serpe-tool-truncated:v1 kept_framed_bytes=''"
definition truncationMiddle :: string where "truncationMiddle = '' original_framed_bytes=''"
definition truncationSHA :: string where "truncationSHA = '' sha256=''"
definition truncationSuffix :: string where
  "truncationSuffix = '' continue=use a continuation cursor]'' @ [CHR 0x0A]"

text \<open>\<^verbatim>\<open>%016x\<close> of a \<^verbatim>\<open>uint64\<close> is sixteen lower-case hexadecimal digits.\<close>

definition formatMarker :: "int \<Rightarrow> int \<Rightarrow> string \<Rightarrow> string" where
  "formatMarker kept original sha = truncationPrefix @ hex16 (nat (kept mod 2 ^ 64)) @ truncationMiddle
     @ hex16 (nat (original mod 2 ^ 64)) @ truncationSHA @ sha @ truncationSuffix"

text \<open>The loops that move a cut to a rune boundary of a text.\<close>

fun cut_before :: "string \<Rightarrow> nat \<Rightarrow> nat" where
  "cut_before s 0 = 0"
| "cut_before s (Suc n) = (if utf8_valid (take (Suc n) s) then Suc n else cut_before s n)"

function cut_after :: "string \<Rightarrow> nat \<Rightarrow> nat" where
  "cut_after s n = (if n < length s \<and> \<not> utf8_valid (drop n s) then cut_after s (n + 1) else n)"
  by pat_completeness auto
termination
  by (relation "measure (\<lambda>(s, n). length s - n)") auto

declare cut_after.simps [simp del]

fun boundary_before :: "int \<Rightarrow> int \<Rightarrow> content_block list \<Rightarrow> int" where
  "boundary_before target offset [] = offset"
| "boundary_before target offset (b # bs) =
     (if \<not> is_text b then boundary_before target offset bs
      else if target \<le> offset + int (length (cb_text b)) then offset + int (cut_before (cb_text b) (nat (target - offset)))
      else boundary_before target (offset + int (length (cb_text b))) bs)"

definition textBoundaryBefore :: "content_block list \<Rightarrow> int \<Rightarrow> int" where
  "textBoundaryBefore bs target = boundary_before target 0 bs"

fun boundary_after :: "int \<Rightarrow> int \<Rightarrow> content_block list \<Rightarrow> int" where
  "boundary_after target offset [] = offset"
| "boundary_after target offset (b # bs) =
     (if \<not> is_text b then boundary_after target offset bs
      else if target \<le> offset + int (length (cb_text b)) then offset + int (cut_after (cb_text b) (nat (target - offset)))
      else boundary_after target (offset + int (length (cb_text b))) bs)"

definition textBoundaryAfter :: "content_block list \<Rightarrow> int \<Rightarrow> int" where
  "textBoundaryAfter bs target = boundary_after target 0 bs"

fun first_text :: "int \<Rightarrow> int \<Rightarrow> int \<Rightarrow> int \<Rightarrow> content_block list \<Rightarrow> int" where
  "first_text target i offset prev [] = prev"
| "first_text target i offset prev (b # bs) =
     (if \<not> is_text b then first_text target (i + 1) offset prev bs
      else if target \<le> offset + int (length (cb_text b)) then i
      else first_text target (i + 1) (offset + int (length (cb_text b))) i bs)"

definition firstTextAtOrAfter :: "content_block list \<Rightarrow> int \<Rightarrow> int" where
  "firstTextAtOrAfter bs target = first_text target 0 0 (- 1) bs"

text \<open>Where a text of the given total is cut when \<open>keep\<close> bytes of it stay: the end of the head, the start of the tail,
  and the block that receives the marker.\<close>

definition cuts :: "content_block list \<Rightarrow> int \<Rightarrow> int \<times> int \<times> int" where
  "cuts bs keep0 =
     (let total_text = textTotal bs;
          keep = (if keep0 > total_text then total_text else keep0);
          headCut = textBoundaryBefore bs (keep div 2);
          tail0 = textBoundaryAfter bs (total_text - (keep - keep div 2));
          tailStart = (if tail0 < headCut then headCut else tail0)
      in (headCut, tailStart, firstTextAtOrAfter bs headCut))"

definition kept_size :: "int \<Rightarrow> int \<Rightarrow> int \<Rightarrow> int \<Rightarrow> int" where
  "kept_size headCut tailStart st en =
     (if st < headCut then max 0 (min en headCut - st) else 0)
     + (if en > tailStart then max 0 (en - max st tailStart) else 0)"

fun shape_from :: "int \<Rightarrow> int \<Rightarrow> int \<Rightarrow> int \<Rightarrow> int \<Rightarrow> int \<Rightarrow> int \<Rightarrow> int \<Rightarrow> content_block list \<Rightarrow> (int \<times> int) option" where
  "shape_from headCut tailStart marker markerBytes i offset framed texts [] = Some (framed, texts)"
| "shape_from headCut tailStart marker markerBytes i offset framed texts (b # bs) =
     (let en = offset + int (length (cb_text b));
          payload = (if is_text b then kept_size headCut tailStart offset en + (if i = marker then markerBytes else 0)
            else int (length (cb_data b)))
      in Option.bind (if is_text b then add64 texts payload else Some texts) (\<lambda>texts'.
         Option.bind (framedBlockSize (cb_kind b) (cb_mime b) (cb_detail b) payload) (\<lambda>k.
         Option.bind (add64 framed k) (\<lambda>framed'.
         shape_from headCut tailStart marker markerBytes (i + 1) (if is_text b then en else offset) framed' texts' bs))))"

definition truncatedShapeSize :: "content_block list \<Rightarrow> int \<Rightarrow> int \<Rightarrow> (int \<times> int) option" where
  "truncatedShapeSize bs keep markerBytes =
     (case cuts bs keep of (headCut, tailStart, marker) \<Rightarrow>
        shape_from headCut tailStart marker markerBytes 0 0 frame_header 0 bs)"

definition keep_text :: "int \<Rightarrow> int \<Rightarrow> int \<Rightarrow> string \<Rightarrow> string \<Rightarrow> string" where
  "keep_text headCut tailStart st m s =
     (let en = st + int (length s) in
      (if st < headCut then take (nat (min en headCut - st)) s else [])
      @ m @ (if en > tailStart \<and> max st tailStart < en then drop (nat (max st tailStart - st)) s else []))"

fun keep_from :: "int \<Rightarrow> int \<Rightarrow> int \<Rightarrow> string \<Rightarrow> int \<Rightarrow> int \<Rightarrow> content_block list \<Rightarrow> content_block list" where
  "keep_from headCut tailStart marker m i offset [] = []"
| "keep_from headCut tailStart marker m i offset (b # bs) =
     (if \<not> is_text b then b # keep_from headCut tailStart marker m (i + 1) offset bs
      else b\<lparr>cb_text := keep_text headCut tailStart offset (if i = marker then m else []) (cb_text b)\<rparr>
        # keep_from headCut tailStart marker m (i + 1) (offset + int (length (cb_text b))) bs)"

definition applyKeep :: "content_block list \<Rightarrow> int \<Rightarrow> string \<Rightarrow> content_block list" where
  "applyKeep bs keep m =
     (case cuts bs keep of (headCut, tailStart, marker) \<Rightarrow> keep_from headCut tailStart marker m 0 0 bs)"

text \<open>The binary search for the largest number of text bytes to keep.\<close>

definition shape_fits :: "content_block list \<Rightarrow> output_limits \<Rightarrow> int \<Rightarrow> int \<Rightarrow> bool" where
  "shape_fits bs L markerBytes mid =
     (case truncatedShapeSize bs mid markerBytes of
        None \<Rightarrow> False
      | Some (framed, texts) \<Rightarrow> framed \<le> ol_MaxFramedBytes L \<and> texts \<le> ol_MaxTextBytes L)"

function search_keep :: "(int \<Rightarrow> bool) \<Rightarrow> int \<Rightarrow> int \<Rightarrow> int \<Rightarrow> int" where
  "search_keep ok lo hi best =
     (if lo \<le> hi then
        (let mid = (lo + hi) div 2 in
         if ok mid then search_keep ok (mid + 1) hi mid else search_keep ok lo (mid - 1) best)
      else best)"
  by pat_completeness auto
termination
  by (relation "measure (\<lambda>(ok, lo, hi, best). nat (hi - lo + 1))") auto

declare search_keep.simps [simp del]

definition truncateBlocks :: "content_block list \<Rightarrow> output_limits \<Rightarrow> int \<Rightarrow> string \<Rightarrow> content_block list option" where
  "truncateBlocks bs L originalBytes originalSHA =
     (if \<not> hasText bs then None
      else
        let markerBytes = int (length (formatMarker 0 originalBytes originalSHA));
            bestKeep = search_keep (shape_fits bs L markerBytes) 0 (textTotal bs) (- 1)
        in if bestKeep < 0 then None
           else case truncatedShapeSize bs bestKeep markerBytes of
             None \<Rightarrow> None
           | Some (framed, _) \<Rightarrow>
               let marked = applyKeep bs bestKeep (formatMarker framed originalBytes originalSHA) in
               if blocksFrameSize marked \<noteq> Some framed \<or> textTotal marked > ol_MaxTextBytes L then None
               else Some marked)"

section \<open>Finalisation\<close>

definition materialize_block :: "content_block \<Rightarrow> tools_error + content" where
  "materialize_block b =
     (if is_text b then Inr (Text (cb_text b))
      else if cb_kind b = ContentImage then
        (case ImageBytes (cb_mime b) (cb_data b) of Content k t im tc tr rs rf \<Rightarrow>
           Inr (Content k t (map_option (\<lambda>x. if cb_detail b \<noteq> [] then x\<lparr>img_Detail := cb_detail b\<rparr> else x) im) tc tr rs rf))
      else Inl (execution ''internal: unknown block kind''))"

definition materialize :: "content_block list \<Rightarrow> tools_error + content list" where
  "materialize bs = rmap materialize_block bs"

definition verifyReceipt :: "(string \<Rightarrow> string) \<Rightarrow> tool_output \<Rightarrow> collector_receipt \<Rightarrow> content_block list \<Rightarrow> output_limits
    \<Rightarrow> tools_error + unit" where
  "verifyReceipt sha out r bs L =
     (if rc_limits r \<noteq> L then Inl (execution ''collector receipt limits do not match this call'')
      else if rc_isError r \<noteq> out_IsError out then Inl (execution ''collector receipt IsError mismatch'')
      else rbind (digestBlocks sha bs) (\<lambda>(kept, retained).
        if kept \<noteq> rc_keptBytes r \<or> retained \<noteq> rc_retained r then Inl (execution ''collector receipt content mismatch'')
        else if rc_originalBytes r < 0 \<or> rc_keptBytes r < 0 \<or> length (rc_originalSHA r) \<noteq> 64
          then Inl (execution ''collector receipt statistics are invalid'')
        else if \<not> rc_truncated r \<and> (rc_originalBytes r \<noteq> rc_keptBytes r \<or> rc_originalSHA r \<noteq> rc_retained r)
          then Inl (execution ''collector receipt domains disagree'')
        else Inr ()))"

text \<open>The original size and digest, the blocks to keep, and whether they were cut.\<close>

definition choose_kept :: "(string \<Rightarrow> string) \<Rightarrow> tool_output \<Rightarrow> content_block list \<Rightarrow> output_limits
    \<Rightarrow> tools_error + int \<times> string \<times> content_block list \<times> bool" where
  "choose_kept sha out bs L =
     rbind (digestBlocks sha bs) (\<lambda>(originalBytes, originalSHA).
     case out_receipt out of
       Some r \<Rightarrow> Inr (rc_originalBytes r, rc_originalSHA r, bs, rc_truncated r)
     | None \<Rightarrow>
         if overText bs L \<or> originalBytes > ol_MaxFramedBytes L then
           (case truncateBlocks bs L originalBytes originalSHA of
              None \<Rightarrow> Inl ErrOutputLimit
            | Some kept \<Rightarrow> Inr (originalBytes, originalSHA, kept, True))
         else Inr (originalBytes, originalSHA, bs, False))"

definition seal_output :: "nat \<Rightarrow> tool_output \<Rightarrow> output_limits \<Rightarrow> content list \<Rightarrow> int \<Rightarrow> string \<Rightarrow> bool \<Rightarrow> int \<Rightarrow> string \<Rightarrow> tool_output" where
  "seal_output exec out L content originalBytes originalSHA truncated keptBytes retainedSHA =
     (let cut = (truncated \<or> keptBytes \<noteq> originalBytes);
          stats = \<lparr>os_OriginalBytes = (if cut then originalBytes else keptBytes), os_KeptBytes = keptBytes,
            os_SHA256 = (if cut then originalSHA else retainedSHA), os_Truncated = cut\<rparr>
      in \<lparr>out_Content = content, out_IsError = out_IsError out, out_Stats = stats, out_receipt = None,
          out_seal = Some \<lparr>seal_executor = exec, seal_limits = L, seal_isError = out_IsError out, seal_stats = stats,
            seal_retained = retainedSHA\<rparr>\<rparr>)"

definition finalize :: "go_std \<Rightarrow> (string \<Rightarrow> string) \<Rightarrow> nat \<Rightarrow> tool_output \<Rightarrow> output_limits \<Rightarrow> bool \<Rightarrow> tools_error + tool_output" where
  "finalize G sha exec out L allowRewrite =
     (if out_seal out \<noteq> None \<and> \<not> allowRewrite then Inl (execution ''tool reused a sealed output'')
      else rbind (inspectContent (out_Content out) L) (\<lambda>bs.
        rbind (case out_receipt out of None \<Rightarrow> Inr () | Some r \<Rightarrow> verifyReceipt sha out r bs L) (\<lambda>_.
        rbind (choose_kept sha out bs L) (\<lambda>(originalBytes, originalSHA, kept, truncated).
        rbind (digestBlocks sha kept) (\<lambda>(keptBytes, retainedSHA).
        if keptBytes > ol_MaxFramedBytes L then Inl ErrOutputLimit
        else rbind (materialize kept) (\<lambda>content.
          rbind (check_each (Content_Validate G) (\<lambda>i e. execution ''final content'') 0 content) (\<lambda>_.
          Inr (seal_output exec out L content originalBytes originalSHA truncated keptBytes retainedSHA))))))))"

definition verifySeal :: "(string \<Rightarrow> string) \<Rightarrow> tool_output \<Rightarrow> output_seal \<Rightarrow> tools_error + unit" where
  "verifySeal sha out s =
     (if seal_isError s \<noteq> out_IsError out \<or> seal_stats s \<noteq> out_Stats out then Inl (execution ''sealed output was mutated'')
      else case inspectContent (out_Content out) (seal_limits s) of
        Inl _ \<Rightarrow> Inl (execution ''sealed output content is invalid'')
      | Inr bs \<Rightarrow> rbind (digestBlocks sha bs) (\<lambda>(_, digest).
          if digest \<noteq> seal_retained s then Inl (execution ''sealed output content was mutated'') else Inr ()))"

definition ReFinalize :: "go_std \<Rightarrow> (string \<Rightarrow> string) \<Rightarrow> nat \<Rightarrow> tool_output \<Rightarrow> tool_output \<Rightarrow> tools_error + tool_output" where
  "ReFinalize G sha exec previous replacement =
     (case out_seal previous of
        None \<Rightarrow> Inl (execution ''ReFinalize previous is not sealed by this executor'')
      | Some s \<Rightarrow>
          if seal_executor s \<noteq> exec then Inl (execution ''ReFinalize previous is not sealed by this executor'')
          else if out_receipt previous \<noteq> None then Inl (execution ''ReFinalize previous must not carry a collector receipt'')
          else rbind (verifySeal sha previous s) (\<lambda>_.
            if out_seal replacement \<noteq> None \<or> out_receipt replacement \<noteq> None
            then Inl (execution ''ReFinalize replacement must be unsealed'')
            else finalize G sha exec replacement (seal_limits s) True))"

definition budgetErrorText :: string where "budgetErrorText = ''tool output exceeded configured limits''"

definition budgetOutput :: "go_std \<Rightarrow> (string \<Rightarrow> string) \<Rightarrow> nat \<Rightarrow> output_limits \<Rightarrow> tools_error + tool_output" where
  "budgetOutput G sha exec L = finalize G sha exec (error_output budgetErrorText) L True"

definition recoverable :: "go_std \<Rightarrow> (string \<Rightarrow> string) \<Rightarrow> nat \<Rightarrow> output_limits \<Rightarrow> string \<Rightarrow> tool_output" where
  "recoverable G sha exec L msg =
     (case finalize G sha exec (error_output (sanitizeDiagnostic msg maxCallErrorBytes)) L True of
        Inl _ \<Rightarrow> error_output budgetErrorText
      | Inr out \<Rightarrow> out)"

end
