(* ===== verification/Output_Frame.thy ===== *)
theory Output_Frame
  imports Output
begin

text \<open>
  The framed form of an output. \<open>frame_of\<close> is the byte string that is hashed; the encoder counts its length exactly,
  the size functions compute that length without encoding, and the frame determines the blocks.
\<close>

section \<open>The frame\<close>

definition block_frame :: "nat \<times> content_block \<Rightarrow> string" where
  "block_frame x = (case x of (i, b) \<Rightarrow>
     be64 i @ writeBytes (cb_kind b) @ writeBytes (cb_mime b) @ writeBytes (cb_detail b)
     @ concat (map writeBytes (chunks (block_payload b))) @ be64 0 @ be64 (length (block_payload b))
     @ writeBytes blockBoundary)"

definition frame_of :: "content_block list \<Rightarrow> string" where
  "frame_of bs = writeBytes outputDomain @ be64 outputVersion @ be64 (length bs)
     @ concat (map block_frame (enumerate 0 bs))"

lemma add64_nonneg:
  "0 \<le> a \<Longrightarrow> a \<le> max_int64 \<Longrightarrow> 0 \<le> b \<Longrightarrow> add64 a b = (if a + b \<le> max_int64 then Some (a + b) else None)"
proof -
  assume a: "0 \<le> a" "a \<le> max_int64" "0 \<le> b"
  then have "a + b \<le> max_int64 \<Longrightarrow> wrap64 (a + b) = a + b"
    by (intro wrap64_id) (simp add: in_int64_def min_int64_def)
  with a show ?thesis by (auto simp: add64_def)
qed

text \<open>An encoding step appends a fixed string, or fails when the count would pass the 64-bit limit.\<close>

definition appends :: "(frame_enc \<Rightarrow> frame_enc option) \<Rightarrow> string \<Rightarrow> bool" where
  "appends f s \<longleftrightarrow> (\<forall>e. 0 \<le> fe_n e \<and> fe_n e \<le> max_int64 \<longrightarrow>
     f e = (if fe_n e + int (length s) \<le> max_int64
            then Some (e\<lparr>fe_h := fe_h e @ s, fe_n := fe_n e + int (length s)\<rparr>) else None))"

lemma appends_seq: "appends f s \<Longrightarrow> appends g t \<Longrightarrow> appends (\<lambda>e. Option.bind (f e) g) (s @ t)"
  by (auto simp: appends_def)

lemma appends_write: "appends (enc_write p) p"
  by (simp add: appends_def enc_write_def add64_nonneg)

lemma appends_u64: "appends (enc_u64 v) (be64 v)"
  by (simp add: enc_u64_def appends_write)

lemma appends_bytes: "appends (enc_bytes p) (writeBytes p)"
  unfolding enc_bytes_def [abs_def] writeBytes_def by (rule appends_seq [OF appends_u64 appends_write])

lemma appends_all: "(\<And>x. x \<in> set xs \<Longrightarrow> appends (f x) (g x)) \<Longrightarrow> appends (enc_all f xs) (concat (map g xs))"
proof (induction xs)
  case Nil
  then show ?case by (simp add: appends_def)
next
  case (Cons x xs)
  have "appends (\<lambda>e. Option.bind (f x e) (enc_all f xs)) (g x @ concat (map g xs))"
    using Cons by (intro appends_seq) auto
  moreover have "enc_all f (x # xs) = (\<lambda>e. Option.bind (f x e) (enc_all f xs))" by (rule ext) simp
  ultimately show ?case by simp
qed

lemma appends_block: "appends (enc_block x) (block_frame x)"
proof -
  obtain i b where x: "x = (i, b)" by (cases x)
  show ?thesis unfolding x enc_block_def [abs_def] block_frame_def prod.case
    by (intro appends_seq appends_u64 appends_bytes appends_all)
qed

lemma digestBlocks_eq:
  "digestBlocks sha bs = (if int (length (frame_of bs)) \<le> max_int64
     then Inr (int (length (frame_of bs)), hex_encode (sha (frame_of bs))) else Inl ErrOutputLimit)"
proof -
  have "appends (\<lambda>e. Option.bind (enc_bytes outputDomain e) (\<lambda>e. Option.bind (enc_u64 outputVersion e) (\<lambda>e.
      Option.bind (enc_u64 (length bs) e) (enc_all enc_block (enumerate 0 bs))))) (frame_of bs)"
    unfolding frame_of_def by (intro appends_seq appends_u64 appends_bytes appends_all appends_block)
  then show ?thesis
    by (auto simp: digestBlocks_def appends_def max_int64_def dest!: spec [of _ "\<lparr>fe_h = [], fe_n = 0\<rparr>"])
qed

section \<open>Sizes\<close>

definition chunk_count :: "int \<Rightarrow> int" where
  "chunk_count n = n div frameChunk + (if n mod frameChunk \<noteq> 0 then 1 else 0)"

lemma chunk_count_nonneg: "0 \<le> n \<Longrightarrow> 0 \<le> chunk_count n"
  by (simp add: chunk_count_def frameChunk_def pos_imp_zdiv_nonneg_iff)

lemma chunk_count_step: "0 < n \<Longrightarrow> chunk_count n = 1 + chunk_count (max 0 (n - frameChunk))"
proof (cases "n \<le> frameChunk")
  case True
  assume "0 < n"
  with True show ?thesis by (cases "n = frameChunk") (simp_all add: chunk_count_def frameChunk_def div_pos_pos_trivial)
next
  case False
  then have "n - frameChunk = n + (-1) * frameChunk" "0 < n - frameChunk" by simp_all
  moreover have "(n + (-1) * frameChunk) div frameChunk = -1 + n div frameChunk"
    by (rule div_mult_self1) (simp add: frameChunk_def)
  moreover have "(n + (-1) * frameChunk) mod frameChunk = n mod frameChunk" by (rule mod_mult_self1)
  ultimately show ?thesis by (simp add: chunk_count_def)
qed

lemma length_chunks: "int (length (chunks p)) = chunk_count (int (length p))"
proof (induction p rule: chunks.induct)
  case (1 p)
  show ?case
  proof (cases "p = []")
    case True
    then show ?thesis by (simp add: chunks.simps chunk_count_def)
  next
    case False
    have "int (length (drop (nat frameChunk) p)) = max 0 (int (length p) - frameChunk)" by (simp add: frameChunk_def)
    then show ?thesis using 1 [OF False] False chunk_count_step [of "int (length p)"]
      by (subst chunks.simps) simp
  qed
qed

lemma concat_chunks [simp]: "concat (chunks p) = p"
proof (induction p rule: chunks.induct)
  case (1 p)
  then show ?case by (cases "p = []") (simp_all add: chunks.simps [of p] chunks.simps [of "[]"])
qed

lemma chunks_nonempty: "c \<in> set (chunks p) \<Longrightarrow> c \<noteq> []"
proof (induction p rule: chunks.induct)
  case (1 p)
  then show ?case by (subst (asm) (2) chunks.simps) (auto simp: frameChunk_def split: if_splits)
qed

definition block_size :: "string \<Rightarrow> string \<Rightarrow> string \<Rightarrow> int \<Rightarrow> int" where
  "block_size kind mime detail payload =
     8 + (8 + int (length kind)) + (8 + int (length mime)) + (8 + int (length detail))
     + chunk_count payload * 8 + payload + 8 + 8 + (8 + int (length blockBoundary))"

lemma add_all_nonneg:
  "0 \<le> n \<Longrightarrow> n \<le> max_int64 \<Longrightarrow> \<forall>x \<in> set xs. 0 \<le> x \<Longrightarrow>
   add_all n xs = (if n + sum_list xs \<le> max_int64 then Some (n + sum_list xs) else None)"
proof (induction xs arbitrary: n)
  case (Cons x xs)
  have "0 \<le> sum_list xs" using Cons.prems(3) by (intro sum_list_nonneg) auto
  then show ?case using Cons by (auto simp: add64_nonneg add.assoc)
qed simp

lemma framedBlockSize_eq:
  assumes "0 \<le> p"
  shows "framedBlockSize kind mime detail p =
    (if block_size kind mime detail p \<le> max_int64 then Some (block_size kind mime detail p) else None)"
proof -
  have c: "0 \<le> chunk_count p" using assms by (rule chunk_count_nonneg)
  have m: "(8::int) \<le> max_int64" by (simp add: max_int64_def)
  let ?n = "8 + (8 + int (length kind)) + (8 + int (length mime)) + (8 + int (length detail))"
  have head: "add_all 8 [8 + int (length kind), 8 + int (length mime), 8 + int (length detail)] =
      (if ?n \<le> max_int64 then Some ?n else None)"
    by (subst add_all_nonneg) (use m in \<open>simp_all add: add.assoc\<close>)
  have rest: "add_all ?n [chunk_count p * 8, p, 8, 8, 8 + int (length blockBoundary)] =
      (if block_size kind mime detail p \<le> max_int64 then Some (block_size kind mime detail p) else None)"
    if "?n \<le> max_int64"
    by (subst add_all_nonneg) (use that assms c in \<open>simp_all add: block_size_def add.assoc del: add_all.simps\<close>)
  show ?thesis
    using assms c rest
    by (simp add: framedBlockSize_def head mul64_nonneg chunk_count_def [symmetric] Let_def del: add_all.simps)
      (auto simp: block_size_def)
qed

lemma block_size_pos: "0 \<le> p \<Longrightarrow> 0 < block_size k m d p"
  using chunk_count_nonneg [of p] by (simp add: block_size_def)

lemma length_block_frame:
  "int (length (block_frame (i, b))) = block_size (cb_kind b) (cb_mime b) (cb_detail b) (int (length (block_payload b)))"
proof -
  have "sum_list (map length (chunks (block_payload b))) = length (block_payload b)"
    by (metis concat_chunks length_concat)
  then show ?thesis
    using length_chunks [of "block_payload b"]
    by (simp add: block_frame_def block_size_def length_frames)
qed

definition frame_size :: "content_block list \<Rightarrow> int" where
  "frame_size bs = frame_header + sum_list (map (\<lambda>b.
     block_size (cb_kind b) (cb_mime b) (cb_detail b) (int (length (block_payload b)))) bs)"

lemma length_frame_of: "int (length (frame_of bs)) = frame_size bs"
proof -
  have "int (length (concat (map block_frame (enumerate k bs)))) = sum_list (map (\<lambda>b.
      block_size (cb_kind b) (cb_mime b) (cb_detail b) (int (length (block_payload b)))) bs)" for k
    by (induction bs arbitrary: k) (simp_all add: length_block_frame)
  then show ?thesis by (simp add: frame_of_def frame_size_def frame_header_def)
qed

lemma frame_size_from_eq:
  "0 \<le> n \<Longrightarrow> n \<le> max_int64 \<Longrightarrow> frame_size_from n bs =
    (let m = n + sum_list (map (\<lambda>b. block_size (cb_kind b) (cb_mime b) (cb_detail b) (int (length (block_payload b)))) bs)
     in if m \<le> max_int64 then Some m else None)"
proof (induction bs arbitrary: n)
  case (Cons b bs)
  let ?k = "\<lambda>b. block_size (cb_kind b) (cb_mime b) (cb_detail b) (int (length (block_payload b)))"
  have k: "0 < ?k b" by (rule block_size_pos) simp
  have s: "0 \<le> sum_list (map ?k bs)" by (rule sum_list_nonneg) (auto intro!: less_imp_le [OF block_size_pos])
  show ?case
    using Cons k s by (auto simp: framedBlockSize_eq add64_nonneg Let_def add.assoc)
qed (simp add: Let_def)

lemma blocksFrameSize_eq:
  "blocksFrameSize bs = (if frame_size bs \<le> max_int64 then Some (frame_size bs) else None)"
  unfolding blocksFrameSize_def
  by (subst frame_size_from_eq) (simp_all add: frame_size_def Let_def frame_header_def outputDomain_def max_int64_def)

section \<open>The frame determines the blocks\<close>

definition block_view :: "content_block \<Rightarrow> string \<times> string \<times> string \<times> string" where
  "block_view b = (cb_kind b, cb_mime b, cb_detail b, block_payload b)"

lemma tagged_append_inj:
  assumes "writeBytes c @ x = be64 0 @ y" "c \<noteq> []" "sized c" shows False
proof -
  have "be64 (length c) @ (c @ x) = be64 0 @ y" using assms(1) by (simp only: writeBytes_def append_assoc)
  moreover have "length c < 2 ^ 64" "(0::nat) < 2 ^ 64" using assms(3) by (simp_all add: sized_def)
  ultimately have "length c = 0" using be64_append_inj by blast
  then show False using assms(2) by simp
qed

lemma chunk_list_inj:
  assumes "concat (map writeBytes cs) @ be64 0 @ x = concat (map writeBytes ds) @ be64 0 @ y"
    and "\<forall>c \<in> set cs. c \<noteq> [] \<and> sized c" "\<forall>d \<in> set ds. d \<noteq> [] \<and> sized d"
  shows "cs = ds \<and> x = y"
  using assms
proof (induction cs arbitrary: ds)
  case Nil
  show ?case
  proof (cases ds)
    case (Cons d ds')
    then show ?thesis using Nil tagged_append_inj [of d "concat (map writeBytes ds') @ be64 0 @ y" x] by auto
  qed (use Nil in simp)
next
  case (Cons c cs)
  show ?case
  proof (cases ds)
    case Nil
    then show ?thesis using Cons.prems tagged_append_inj [of c "concat (map writeBytes cs) @ be64 0 @ x" y] by auto
  next
    case ds: (Cons d ds')
    with Cons.prems have "writeBytes c @ (concat (map writeBytes cs) @ be64 0 @ x)
        = writeBytes d @ (concat (map writeBytes ds') @ be64 0 @ y)" "sized c" "sized d" by simp_all
    then have "c = d" "concat (map writeBytes cs) @ be64 0 @ x = concat (map writeBytes ds') @ be64 0 @ y"
      using writeBytes_append_inj by blast+
    with Cons.IH [of ds'] Cons.prems ds show ?thesis by simp
  qed
qed

lemma sized_chunk: "sized p \<Longrightarrow> c \<in> set (chunks p) \<Longrightarrow> sized c"
  using member_le_sum_list [of "length c" "map length (chunks p)"] concat_chunks [of p] length_concat [of "chunks p"]
  by (auto simp: sized_def)

lemma block_frame_inj:
  assumes "block_frame (i, b) @ x = block_frame (j, c) @ y"
    and "sized (block_frame (i, b))" "sized (block_frame (j, c))" "i < 2 ^ 64" "j < 2 ^ 64"
  shows "i = j \<and> block_view b = block_view c \<and> x = y"
proof -
  have s: "sized (cb_kind b)" "sized (cb_mime b)" "sized (cb_detail b)" "sized (block_payload b)"
    "sized (cb_kind c)" "sized (cb_mime c)" "sized (cb_detail c)" "sized (block_payload c)"
    using assms(2,3) length_block_frame [of i b] length_block_frame [of j c]
      chunk_count_nonneg [of "int (length (block_payload b))"] chunk_count_nonneg [of "int (length (block_payload c))"]
    by (auto simp: sized_def block_size_def)
  have e: "i = j" "cb_kind b = cb_kind c" "cb_mime b = cb_mime c" "cb_detail b = cb_detail c"
    "concat (map writeBytes (chunks (block_payload b))) @ be64 0 @ be64 (length (block_payload b)) @ writeBytes blockBoundary @ x
     = concat (map writeBytes (chunks (block_payload c))) @ be64 0 @ be64 (length (block_payload c)) @ writeBytes blockBoundary @ y"
    using assms(1)
    by (simp_all only: block_frame_def prod.case append_assoc be64_append_inj [OF assms(4,5)]
        writeBytes_append_inj [OF s(1,5)] writeBytes_append_inj [OF s(2,6)] writeBytes_append_inj [OF s(3,7)])
  have f: "chunks (block_payload b) = chunks (block_payload c)"
    "be64 (length (block_payload b)) @ writeBytes blockBoundary @ x = be64 (length (block_payload c)) @ writeBytes blockBoundary @ y"
    using chunk_list_inj [OF e(5)] chunks_nonempty sized_chunk s(4,8) by blast+
  from arg_cong [OF f(1), of concat] have p: "block_payload b = block_payload c" by simp
  with f(2) e show ?thesis by (simp add: block_view_def)
qed

lemma frames_inj:
  "length bs = length cs \<Longrightarrow> concat (map block_frame (enumerate k bs)) = concat (map block_frame (enumerate k cs)) \<Longrightarrow>
   sized (concat (map block_frame (enumerate k bs))) \<Longrightarrow> sized (concat (map block_frame (enumerate k cs))) \<Longrightarrow>
   k + length bs < 2 ^ 64 \<Longrightarrow> map block_view bs = map block_view cs"
proof (induction bs cs arbitrary: k rule: list_induct2)
  case (Cons b bs c cs)
  let ?x = "concat (map block_frame (enumerate (Suc k) bs))"
  let ?y = "concat (map block_frame (enumerate (Suc k) cs))"
  have e: "block_frame (k, b) @ ?x = block_frame (k, c) @ ?y"
    and s: "sized (block_frame (k, b) @ ?x)" "sized (block_frame (k, c) @ ?y)" and k: "k < 2 ^ 64"
    using Cons.prems by simp_all
  have "block_view b = block_view c \<and> ?x = ?y"
    using block_frame_inj [OF e sized_append [OF s(1), THEN conjunct1] sized_append [OF s(2), THEN conjunct1] k k] by blast
  then show ?case
    using Cons.IH [of "Suc k"] Cons.prems(4) sized_append [OF s(1)] sized_append [OF s(2)] by simp
qed simp

lemma frame_of_inj:
  assumes "frame_of bs = frame_of cs" "frame_size bs \<le> max_int64"
  shows "map block_view bs = map block_view cs"
proof -
  have len: "length (frame_of bs) < 2 ^ 64" "length (frame_of cs) < 2 ^ 64"
    using assms length_frame_of [of bs] by (auto simp: max_int64_def)
  have n: "length xs \<le> length (concat (map block_frame (enumerate k xs)))" for xs k
  proof (induction xs arbitrary: k)
    case (Cons x xs)
    have "0 < int (length (block_frame (k, x)))" unfolding length_block_frame by (rule block_size_pos) simp
    then have "1 \<le> length (block_frame (k, x))" by linarith
    with Cons [of "Suc k"] show ?case by simp
  qed simp
  have l: "length bs < 2 ^ 64" "length cs < 2 ^ 64"
    using len n [of bs 0] n [of cs 0] by (auto simp: frame_of_def)
  from assms(1) have e: "length bs = length cs"
    "concat (map block_frame (enumerate 0 bs)) = concat (map block_frame (enumerate 0 cs))"
    by (simp_all only: frame_of_def same_append_eq be64_append_inj [OF l])
  have "sized (concat (map block_frame (enumerate 0 bs)))" "sized (concat (map block_frame (enumerate 0 cs)))"
    using len by (auto simp: frame_of_def sized_def)
  then show ?thesis using frames_inj [OF e] l by simp
qed

end
