(* ===== verification/Output_Truncate.thy ===== *)
theory Output_Truncate
  imports Output_Frame
begin

text \<open>
  Truncation of long text: the predicted size of a cut is its exact framed size, the cuts fall between runes, and the
  binary search returns a cut that fits whenever keeping nothing fits.
\<close>

section \<open>Predicted and real sizes\<close>

text \<open>The blocks that inspection produces: text, or an image without text.\<close>

definition plain_block :: "content_block \<Rightarrow> bool" where
  "plain_block b \<longleftrightarrow> (is_text b \<or> cb_kind b = ContentImage)
     \<and> (is_text b \<longrightarrow> cb_mime b = [] \<and> cb_detail b = [] \<and> cb_data b = [] \<and> \<not> cb_imageOK b \<and> utf8_valid (cb_text b))
     \<and> (\<not> is_text b \<longrightarrow> cb_text b = [] \<and> cb_imageOK b)"

abbreviation size_of :: "content_block \<Rightarrow> int" where
  "size_of b \<equiv> block_size (cb_kind b) (cb_mime b) (cb_detail b) (int (length (block_payload b)))"

lemma kinds_differ: "ContentText \<noteq> ContentImage"
  by simp

lemma size_of_pos: "0 < size_of b"
  by (rule block_size_pos) simp

lemma sum_sizes_nonneg: "0 \<le> sum_list (map size_of bs)"
  by (rule sum_list_nonneg) (auto intro!: less_imp_le [OF size_of_pos])

lemma textTotal_simps [simp]:
  "textTotal [] = 0"
  "textTotal (b # bs) = (if is_text b then int (length (cb_text b)) else 0) + textTotal bs"
  by (simp_all add: textTotal_def)

lemma textTotal_nonneg: "0 \<le> textTotal bs"
  by (induction bs) auto

lemma length_keep_text:
  "int (length (keep_text h t st m s)) = kept_size h t st (st + int (length s)) + int (length m)"
  by (auto simp: keep_text_def kept_size_def Let_def min_def max_def)

lemma kept_size_nonneg: "0 \<le> kept_size h t st en"
  by (simp add: kept_size_def)

lemma text_le_size: "is_text b \<Longrightarrow> int (length (cb_text b)) \<le> size_of b"
  using chunk_count_nonneg [of "int (length (cb_text b))"] by (simp add: block_size_def block_payload_def)

lemma textTotal_le_sizes: "textTotal bs \<le> sum_list (map size_of bs)"
proof (induction bs)
  case (Cons b bs)
  then show ?case using text_le_size [of b] size_of_pos [of b] by (cases "is_text b") auto
qed simp

lemma shape_from_exact:
  assumes "0 \<le> texts" "texts \<le> framed" "framed \<le> max_int64" "\<forall>b \<in> set bs. plain_block b"
  shows "shape_from h t k (int (length m)) i off framed texts bs =
    (let ks = keep_from h t k m i off bs; n = framed + sum_list (map size_of ks)
     in if n \<le> max_int64 then Some (n, texts + textTotal ks) else None)"
  using assms
proof (induction bs arbitrary: i off framed texts)
  case (Cons b bs)
  show ?case
  proof (cases "is_text b")
    case True
    let ?b = "b\<lparr>cb_text := keep_text h t off (if i = k then m else []) (cb_text b)\<rparr>"
    let ?en = "off + int (length (cb_text b))"
    let ?p = "kept_size h t off ?en + (if i = k then int (length m) else 0)"
    have p: "int (length (cb_text ?b)) = ?p" by (simp add: length_keep_text)
    have p0: "0 \<le> ?p" using kept_size_nonneg [of h t off ?en] by simp
    have sz: "block_size (cb_kind b) (cb_mime b) (cb_detail b) ?p = size_of ?b"
      using True p by (simp add: block_payload_def)
    have le: "?p \<le> size_of ?b" using text_le_size [of ?b] True p by simp
    have ks: "keep_from h t k m i off (b # bs) = ?b # keep_from h t k m (i + 1) ?en bs" using True by simp
    have unfold: "shape_from h t k (int (length m)) i off framed texts (b # bs) =
        Option.bind (add64 texts ?p) (\<lambda>texts'. Option.bind (framedBlockSize (cb_kind b) (cb_mime b) (cb_detail b) ?p) (\<lambda>z.
        Option.bind (add64 framed z) (\<lambda>framed'. shape_from h t k (int (length m)) (i + 1) ?en framed' texts' bs)))"
      using True by (simp add: Let_def)
    have nn: "0 \<le> sum_list (map size_of (keep_from h t k m (i + 1) ?en bs))" by (rule sum_sizes_nonneg)
    show ?thesis
    proof (cases "framed + size_of ?b \<le> max_int64")
      case fit: True
      have "shape_from h t k (int (length m)) i off framed texts (b # bs) =
          shape_from h t k (int (length m)) (i + 1) ?en (framed + size_of ?b) (texts + ?p) bs"
        unfolding unfold using Cons.prems fit le p0 size_of_pos [of ?b]
        by (simp add: add64_nonneg framedBlockSize_eq sz)
      also have "\<dots> = (let ks = keep_from h t k m (i + 1) ?en bs; n = framed + size_of ?b + sum_list (map size_of ks)
          in if n \<le> max_int64 then Some (n, texts + ?p + textTotal ks) else None)"
        by (rule Cons.IH) (use Cons.prems le p0 fit size_of_pos [of ?b] in auto)
      finally show ?thesis using True p by (simp add: ks Let_def add.assoc)
    next
      case False
      have "shape_from h t k (int (length m)) i off framed texts (b # bs) = None"
        unfolding unfold using Cons.prems False p0 size_of_pos [of ?b]
        by (auto simp: add64_nonneg framedBlockSize_eq sz split: bind_splits if_splits)
      then show ?thesis using False nn by (simp add: ks Let_def del: keep_from.simps shape_from.simps)
    qed
  next
    case False
    then have img: "cb_kind b = ContentImage" using Cons.prems(4) by (auto simp: plain_block_def)
    then have pay: "block_payload b = cb_data b" by (simp add: block_payload_def)
    have unfold: "shape_from h t k (int (length m)) i off framed texts (b # bs) =
        Option.bind (framedBlockSize (cb_kind b) (cb_mime b) (cb_detail b) (int (length (block_payload b)))) (\<lambda>z.
        Option.bind (add64 framed z) (\<lambda>framed'. shape_from h t k (int (length m)) (i + 1) off framed' texts bs))"
      using False pay by (simp add: Let_def)
    have ks: "keep_from h t k m i off (b # bs) = b # keep_from h t k m (i + 1) off bs" using False by simp
    have nn: "0 \<le> sum_list (map size_of (keep_from h t k m (i + 1) off bs))" by (rule sum_sizes_nonneg)
    show ?thesis
    proof (cases "framed + size_of b \<le> max_int64")
      case fit: True
      have "shape_from h t k (int (length m)) i off framed texts (b # bs) =
          shape_from h t k (int (length m)) (i + 1) off (framed + size_of b) texts bs"
        unfolding unfold using Cons.prems fit size_of_pos [of b] by (simp add: add64_nonneg framedBlockSize_eq)
      also have "\<dots> = (let ks = keep_from h t k m (i + 1) off bs; n = framed + size_of b + sum_list (map size_of ks)
          in if n \<le> max_int64 then Some (n, texts + textTotal ks) else None)"
        by (rule Cons.IH) (use Cons.prems fit size_of_pos [of b] in auto)
      finally show ?thesis using False by (simp add: ks Let_def add.assoc)
    next
      case no: False
      have "shape_from h t k (int (length m)) i off framed texts (b # bs) = None"
        unfolding unfold using Cons.prems no size_of_pos [of b]
        by (auto simp: add64_nonneg framedBlockSize_eq split: bind_splits if_splits)
      then show ?thesis using no nn by (simp add: ks Let_def del: keep_from.simps shape_from.simps)
    qed
  qed
qed (simp add: Let_def)

lemma truncated_shape_exact:
  assumes "\<forall>b \<in> set bs. plain_block b"
  shows "truncatedShapeSize bs keep (int (length m)) =
    (let ks = applyKeep bs keep m in if frame_size ks \<le> max_int64 then Some (frame_size ks, textTotal ks) else None)"
proof -
  have "0 \<le> frame_header" "frame_header \<le> max_int64" by (simp_all add: frame_header_def outputDomain_def max_int64_def)
  then show ?thesis
    using assms
    by (simp add: truncatedShapeSize_def applyKeep_def shape_from_exact frame_size_def Let_def split: prod.splits)
qed

section \<open>Cuts between runes\<close>

lemma cut_before_le: "cut_before s n \<le> n"
  by (induction s n rule: cut_before.induct) auto

lemma cut_before_valid: "utf8_valid (take (cut_before s n) s)"
  by (induction s n rule: cut_before.induct) auto

lemma cut_after_ge: "n \<le> cut_after s n"
proof (induction s n rule: cut_after.induct)
  case (1 s n)
  then show ?case by (subst cut_after.simps) auto
qed

lemma cut_after_le: "n \<le> length s \<Longrightarrow> cut_after s n \<le> length s"
proof (induction s n rule: cut_after.induct)
  case (1 s n)
  then show ?case by (subst cut_after.simps) auto
qed

lemma cut_after_valid: "utf8_valid (drop (cut_after s n) s)"
proof (induction s n rule: cut_after.induct)
  case (1 s n)
  then show ?case by (cases "n < length s \<and> \<not> utf8_valid (drop n s)") (auto simp: cut_after.simps [of s n])
qed

text \<open>A position splits every text it falls into at a rune boundary: the part before it, or the part after it, is
  valid on its own.\<close>

fun splits_ok :: "int \<Rightarrow> int \<Rightarrow> content_block list \<Rightarrow> bool" where
  "splits_ok c off [] = True"
| "splits_ok c off (b # bs) =
     (if \<not> is_text b then splits_ok c off bs
      else (off < c \<and> c < off + int (length (cb_text b)) \<longrightarrow> utf8_valid (drop (nat (c - off)) (cb_text b)))
        \<and> splits_ok c (off + int (length (cb_text b))) bs)"

fun prefix_ok :: "int \<Rightarrow> int \<Rightarrow> content_block list \<Rightarrow> bool" where
  "prefix_ok c off [] = True"
| "prefix_ok c off (b # bs) =
     (if \<not> is_text b then prefix_ok c off bs
      else (off < c \<and> c < off + int (length (cb_text b)) \<longrightarrow> utf8_valid (take (nat (c - off)) (cb_text b)))
        \<and> prefix_ok c (off + int (length (cb_text b))) bs)"

lemma splits_before: "c \<le> off \<Longrightarrow> splits_ok c off bs"
  by (induction c off bs rule: splits_ok.induct) auto

lemma prefix_before: "c \<le> off \<Longrightarrow> prefix_ok c off bs"
  by (induction c off bs rule: prefix_ok.induct) auto

lemma boundary_before_ge: "off \<le> boundary_before t off bs"
  by (induction t off bs rule: boundary_before.induct) auto

lemma boundary_after_ge: "off \<le> boundary_after t off bs"
  by (induction t off bs rule: boundary_after.induct) auto

lemma boundary_before_prefix: "off \<le> t \<Longrightarrow> prefix_ok (boundary_before t off bs) off bs"
proof (induction t off bs rule: boundary_before.induct)
  case (2 t off b bs)
  let ?e = "off + int (length (cb_text b))"
  consider "\<not> is_text b" | "is_text b" "t \<le> ?e" | "is_text b" "?e < t" by linarith
  then show ?case
  proof cases
    case 2
    have "int (cut_before (cb_text b) (nat (t - off))) \<le> t - off"
      using cut_before_le [of "cb_text b" "nat (t - off)"] \<open>off \<le> t\<close> by linarith
    with 2 show ?thesis by (simp add: cut_before_valid prefix_before)
  next
    case 3
    with "2.IH" boundary_before_ge [of ?e t bs] show ?thesis by simp
  qed (use "2.IH" "2.prems" in simp)
qed simp

lemma boundary_after_splits: "off \<le> t \<Longrightarrow> splits_ok (boundary_after t off bs) off bs"
proof (induction t off bs rule: boundary_after.induct)
  case (2 t off b bs)
  let ?e = "off + int (length (cb_text b))"
  consider "\<not> is_text b" | "is_text b" "t \<le> ?e" | "is_text b" "?e < t" by linarith
  then show ?case
  proof cases
    case 2
    have "cut_after (cb_text b) (nat (t - off)) \<le> length (cb_text b)"
      by (rule cut_after_le) (use 2 \<open>off \<le> t\<close> in linarith)
    with 2 show ?thesis by (simp add: cut_after_valid splits_before)
  next
    case 3
    with "2.IH" boundary_after_ge [of ?e t bs] show ?thesis by simp
  qed (use "2.IH" "2.prems" in simp)
qed simp

lemma valid_suffix: "utf8_valid s \<Longrightarrow> utf8_valid (take n s) \<Longrightarrow> utf8_valid (drop n s)"
  using utf8_valid_append [of "take n s" "drop n s"] by simp

lemma prefix_splits: "\<forall>b \<in> set bs. plain_block b \<Longrightarrow> prefix_ok c off bs \<Longrightarrow> splits_ok c off bs"
  by (induction c off bs rule: splits_ok.induct) (auto simp: plain_block_def valid_suffix)

lemma keep_text_valid:
  assumes "utf8_valid s" "utf8_valid m"
    and "st < h \<and> h < st + int (length s) \<longrightarrow> utf8_valid (take (nat (h - st)) s)"
    and "st < t \<and> t < st + int (length s) \<longrightarrow> utf8_valid (drop (nat (t - st)) s)"
  shows "utf8_valid (keep_text h t st m s)"
proof -
  let ?e = "st + int (length s)"
  have hd: "utf8_valid (if st < h then take (nat (min ?e h - st)) s else [])"
    using assms(1,3) by (cases "h < ?e") (auto simp: min_def)
  have tl: "utf8_valid (if ?e > t \<and> max st t < ?e then drop (nat (max st t - st)) s else [])"
    using assms(1,4) by (cases "st < t") (auto simp: max_def)
  show ?thesis unfolding keep_text_def Let_def using utf8_valid_append [OF hd] utf8_valid_append [OF assms(2)] tl by simp
qed

lemma keep_from_plain:
  assumes "\<forall>b \<in> set bs. plain_block b" "utf8_valid m" "prefix_ok h off bs" "splits_ok t off bs"
  shows "\<forall>b \<in> set (keep_from h t k m i off bs). plain_block b"
  using assms
proof (induction h t k m i off bs rule: keep_from.induct)
  case (2 h t k m i off b bs)
  show ?case
  proof (cases "is_text b")
    case True
    have "utf8_valid (keep_text h t off (if i = k then m else []) (cb_text b))"
      using "2.prems" True by (intro keep_text_valid) (simp_all add: plain_block_def)
    then have "plain_block (b\<lparr>cb_text := keep_text h t off (if i = k then m else []) (cb_text b)\<rparr>)"
      using "2.prems"(1) True by (simp add: plain_block_def)
    then show ?thesis using "2.IH"(2) "2.prems" True by simp
  qed (use "2.IH"(1) "2.prems" in simp)
qed simp

lemma length_hex16 [simp]: "length (hex16 n) = 16"
  by (simp add: hex16_def)

lemma hex_digit_ascii: "k < 16 \<Longrightarrow> byte (hex_digits ! k) < 0x80"
proof -
  assume "k < 16"
  moreover have "list_all (\<lambda>c. byte c < 0x80) hex_digits" "length hex_digits = 16" by (simp_all add: hex_digits_def)
  ultimately show ?thesis by (simp add: list_all_length)
qed

lemma ascii_valid: "list_all (\<lambda>c. byte c < 0x80) s \<Longrightarrow> utf8_valid s"
  by (induction s) simp_all

lemma hex16_valid: "list_all (\<lambda>c. byte c < 0x80) (hex16 n)"
  by (simp add: hex16_def list_all_iff hex_digit_ascii)

lemma hex_encode_ascii: "list_all (\<lambda>c. byte c < 0x80) (hex_encode s)"
proof -
  have "byte c div 16 < 16" for c :: char
    using nat_of_char_less_256 [of c] by linarith
  then show ?thesis by (auto simp: hex_encode_def list_all_iff intro!: hex_digit_ascii)
qed

lemma formatMarker_valid: "utf8_valid (formatMarker kept original (hex_encode s))"
  by (rule ascii_valid)
    (simp add: formatMarker_def truncationPrefix_def truncationMiddle_def truncationSHA_def truncationSuffix_def
      hex16_valid hex_encode_ascii)

lemma length_marker: "length (formatMarker kept original sha) = length (formatMarker 0 original sha)"
  by (simp add: formatMarker_def)

section \<open>The search\<close>

lemma search_keep_spec:
  assumes "lo \<le> hi + 1" "best = lo - 1"
  shows "let r = search_keep ok lo hi best in lo - 1 \<le> r \<and> r \<le> hi \<and> (r = lo - 1 \<or> ok r) \<and> (r = hi \<or> \<not> ok (r + 1))"
  using assms
proof (induction ok lo hi best rule: search_keep.induct)
  case (1 ok lo hi best)
  show ?case
  proof (cases "lo \<le> hi")
    case True
    define mid where "mid = (lo + hi) div 2"
    have m: "lo \<le> mid" "mid \<le> hi" using True by (simp_all add: mid_def)
    show ?thesis
    proof (cases "ok mid")
      case yes: True
      have "search_keep ok lo hi best = search_keep ok (mid + 1) hi mid"
        using True yes by (simp add: search_keep.simps [of ok lo hi best] Let_def mid_def)
      with "1.IH"(1) [OF True mid_def yes] m yes show ?thesis by (auto simp: Let_def)
    next
      case no: False
      have "search_keep ok lo hi best = search_keep ok lo (mid - 1) best"
        using True no by (simp add: search_keep.simps [of ok lo hi best] Let_def mid_def)
      with "1.IH"(2) [OF True mid_def no] m no "1.prems"(2) show ?thesis by (auto simp: Let_def)
    qed
  qed (use 1 in \<open>simp add: search_keep.simps Let_def\<close>)
qed

lemma search_keep_finds: "ok 0 \<Longrightarrow> 0 \<le> hi \<Longrightarrow> 0 \<le> search_keep ok 0 hi (- 1)"
  using search_keep_spec [of 0 hi "- 1" ok] by (cases "search_keep ok 0 hi (- 1) = - 1") (auto simp: Let_def)

definition kept_at :: "content_block list \<Rightarrow> int \<Rightarrow> string \<Rightarrow> int \<Rightarrow> content_block list" where
  "kept_at bs original sha keep = applyKeep bs keep
     (formatMarker (frame_size (applyKeep bs keep (formatMarker 0 original sha))) original sha)"

definition within_limits :: "output_limits \<Rightarrow> content_block list \<Rightarrow> bool" where
  "within_limits L bs \<longleftrightarrow> frame_size bs \<le> ol_MaxFramedBytes L \<and> textTotal bs \<le> ol_MaxTextBytes L"

lemma applyKeep_sizes:
  assumes "\<forall>b \<in> set bs. plain_block b" "length m = length m'"
  shows "frame_size (applyKeep bs keep m) = frame_size (applyKeep bs keep m')
    \<and> textTotal (applyKeep bs keep m) = textTotal (applyKeep bs keep m')"
proof -
  have "map size_of (keep_from h t k m i off bs) = map size_of (keep_from h t k m' i off bs)
      \<and> textTotal (keep_from h t k m i off bs) = textTotal (keep_from h t k m' i off bs)" for h t k i off
  proof (induction bs arbitrary: i off)
    case (Cons b bs)
    have "int (length (keep_text h t off (if i = k then m else []) (cb_text b)))
        = int (length (keep_text h t off (if i = k then m' else []) (cb_text b)))"
      using assms(2) by (simp add: length_keep_text)
    with Cons show ?case by (simp add: block_payload_def)
  qed simp
  then show ?thesis by (simp add: applyKeep_def frame_size_def split: prod.splits)
qed

lemma kept_at_sizes:
  assumes "\<forall>b \<in> set bs. plain_block b"
  shows "frame_size (applyKeep bs keep (formatMarker 0 original sha)) = frame_size (kept_at bs original sha keep)"
    "textTotal (applyKeep bs keep (formatMarker 0 original sha)) = textTotal (kept_at bs original sha keep)"
  using applyKeep_sizes [OF assms length_marker [symmetric]] by (simp_all add: kept_at_def)

lemma shape_fits_iff:
  assumes "\<forall>b \<in> set bs. plain_block b" "ol_MaxFramedBytes L \<le> max_int64"
  shows "shape_fits bs L (int (length (formatMarker 0 original sha))) keep \<longleftrightarrow> within_limits L (kept_at bs original sha keep)"
  unfolding shape_fits_def truncated_shape_exact [OF assms(1)] Let_def within_limits_def kept_at_sizes [OF assms(1)]
  using assms(2) by auto

lemma truncateBlocks_eq:
  assumes "\<forall>b \<in> set bs. plain_block b" "ol_MaxFramedBytes L \<le> max_int64"
  shows "truncateBlocks bs L original sha =
    (let keep = search_keep (\<lambda>k. within_limits L (kept_at bs original sha k)) 0 (textTotal bs) (- 1)
     in if \<not> hasText bs \<or> keep < 0 then None else Some (kept_at bs original sha keep))"
proof -
  let ?m = "formatMarker 0 original sha"
  let ?ok = "\<lambda>k. within_limits L (kept_at bs original sha k)"
  define keep where "keep = search_keep ?ok 0 (textTotal bs) (- 1)"
  have f: "shape_fits bs L (int (length ?m)) = ?ok" by (rule ext) (rule shape_fits_iff [OF assms])
  have "0 \<le> keep \<Longrightarrow> ?ok keep"
    using search_keep_spec [of 0 "textTotal bs" "- 1" ?ok] textTotal_nonneg [of bs] by (auto simp: keep_def Let_def)
  then have w: "frame_size (kept_at bs original sha keep) \<le> max_int64 \<and> textTotal (kept_at bs original sha keep) \<le> ol_MaxTextBytes L
      \<and> truncatedShapeSize bs keep (int (length ?m)) = Some (frame_size (kept_at bs original sha keep), textTotal (kept_at bs original sha keep))"
    if "0 \<le> keep"
    using that assms(2) truncated_shape_exact [OF assms(1), of keep ?m]
    by (simp add: within_limits_def kept_at_sizes [OF assms(1)] Let_def)
  show ?thesis
    unfolding truncateBlocks_def f keep_def [symmetric] Let_def
    using w by (cases "0 \<le> keep") (auto simp: blocksFrameSize_eq kept_at_def [of bs original sha keep, unfolded kept_at_sizes(1) [OF assms(1)], symmetric])
qed

lemma hasText_iff: "hasText bs \<longleftrightarrow> (\<exists>b \<in> set bs. is_text b)"
  by (auto simp: hasText_def list_ex_iff)

lemma kept_at_plain:
  assumes "\<forall>b \<in> set bs. plain_block b" "0 \<le> keep"
  shows "\<forall>b \<in> set (kept_at bs original (hex_encode d) keep). plain_block b"
proof -
  obtain h t k where c: "cuts bs keep = (h, t, k)" by (cases "cuts bs keep")
  let ?k = "if keep > textTotal bs then textTotal bs else keep"
  have h: "h = boundary_before (?k div 2) 0 bs" and t: "t = h \<or> t = boundary_after (textTotal bs - (?k - ?k div 2)) 0 bs"
    using c by (auto simp: cuts_def Let_def textBoundaryBefore_def textBoundaryAfter_def split: if_splits)
  have k0: "0 \<le> ?k" "?k \<le> textTotal bs" using assms(2) textTotal_nonneg [of bs] by auto
  have "prefix_ok h 0 bs" unfolding h by (rule boundary_before_prefix) (use k0 in linarith)
  moreover have "splits_ok t 0 bs"
    using t
  proof
    assume "t = boundary_after (textTotal bs - (?k - ?k div 2)) 0 bs"
    then show ?thesis using k0 by (simp only:) (rule boundary_after_splits, linarith)
  qed (use \<open>prefix_ok h 0 bs\<close> assms(1) prefix_splits in simp)
  ultimately show ?thesis
    using keep_from_plain [OF assms(1) formatMarker_valid] by (simp add: kept_at_def applyKeep_def c)
qed

end
