(* ===== verification/Output_Inspect.thy ===== *)
theory Output_Inspect
  imports Output_Truncate
begin

text \<open>
  What the inspection of an output accepts, as a closed condition on its blocks. Blocks and content determine each
  other, so inspecting the materialised form of accepted blocks returns the blocks.
\<close>

definition image_of :: "content_block \<Rightarrow> image_content" where
  "image_of b = \<lparr>img_URI = [], img_MIMEType = cb_mime b, img_Data = Some (cb_data b), img_Detail = cb_detail b\<rparr>"

definition content_of :: "content_block \<Rightarrow> content" where
  "content_of b = (if is_text b then Text (cb_text b)
     else Content ContentImage None (Some (image_of b)) None None None None)"

definition image_bytes :: "content_block \<Rightarrow> int" where
  "image_bytes b = (if is_text b then 0 else int (length (cb_data b)))"

definition image_total :: "content_block list \<Rightarrow> int" where
  "image_total bs = sum_list (map image_bytes bs)"

definition detail_ok :: "string \<Rightarrow> bool" where
  "detail_ok d \<longleftrightarrow> d = [] \<or> d = ImageDetailAuto \<or> d = ImageDetailLow \<or> d = ImageDetailHigh"

definition canvas_ok :: "output_limits \<Rightarrow> content_block \<Rightarrow> bool" where
  "canvas_ok L b \<longleftrightarrow> (\<exists>w h. inspectImage (cb_mime b) (cb_data b) = Inr (w, h)
     \<and> w \<le> ol_MaxImageWidth L \<and> h \<le> ol_MaxImageHeight L \<and> w * h \<le> ol_MaxImagePixels L)"

definition meta_ok :: "output_limits \<Rightarrow> content_block \<Rightarrow> bool" where
  "meta_ok L b \<longleftrightarrow> int (length (cb_mime b)) \<le> min maxCollectorMetaBytes (ol_MaxMetadataBytes L)
     \<and> int (length (cb_detail b)) \<le> min maxCollectorMetaBytes (ol_MaxMetadataBytes L)"

definition good_block :: "output_limits \<Rightarrow> content_block \<Rightarrow> bool" where
  "good_block L b \<longleftrightarrow> plain_block b \<and> (\<not> is_text b \<longrightarrow> detail_ok (cb_detail b) \<and> canvas_ok L b)"

lemmas block_defs = content_of_def image_of_def image_bytes_def

lemma image_bytes_nonneg: "0 \<le> image_bytes b"
  by (simp add: image_bytes_def)

lemma inspectImage_bounds:
  assumes "inspectImage mime data = Inr (w, h)"
  shows "data \<noteq> [] \<and> mime \<noteq> [] \<and> 0 < w \<and> 0 < h \<and> w * h \<le> max_int64"
proof -
  obtain info where i: "Inspect mime data \<lparr>im_MaxBytes = 0, im_MaxWidth = 0, im_MaxHeight = 0, im_MaxPixels = 0,
      im_MaxRecords = 65536\<rparr> = Inr info" "w = info_Width info" "h = info_Height info"
    using assms by (auto simp: inspectImage_def split: sum.splits image_error.splits)
  then have "data \<noteq> []" "mime \<noteq> []" "0 < w" "0 < h" "w \<le> go_div max_int64 h"
    by (auto simp: Inspect_def Let_def result_simps split: if_splits)
  then show ?thesis by (simp add: go_div_nonneg int_le_div_iff max_int64_def)
qed

lemma union_cases:
  "inspectUnion c = Inr u \<longleftrightarrow> (\<exists>s. c = Text s) \<or> (\<exists>im. c = Content ContentImage None (Some im) None None None None)"
  by (cases c) (auto simp: inspectUnion_def unionCount_def Text_def split: if_splits)

lemma union_content_of: "inspectUnion (content_of b) = Inr ()"
  by (auto simp: union_cases content_of_def)

section \<open>One block\<close>

definition uri_free :: "content \<Rightarrow> bool" where
  "uri_free c \<longleftrightarrow> (c_Kind c = ContentImage \<longrightarrow> img_URI (the (c_Image c)) = [])"

lemma good_image_data: "good_block L b \<Longrightarrow> \<not> is_text b \<Longrightarrow> cb_data b \<noteq> [] \<and> cb_mime b \<noteq> [] \<and> cb_kind b = ContentImage"
  using inspectImage_bounds by (fastforce simp: good_block_def canvas_ok_def plain_block_def)

lemma plain_image_eq:
  "plain_block b \<Longrightarrow> \<not> is_text b \<Longrightarrow> b = \<lparr>cb_kind = ContentImage, cb_text = [], cb_mime = cb_mime b, cb_detail = cb_detail b,
     cb_data = cb_data b, cb_imageOK = True\<rparr>"
  by (auto simp: plain_block_def)

lemma plain_text_eq:
  "plain_block b \<Longrightarrow> is_text b \<Longrightarrow> b = \<lparr>cb_kind = ContentText, cb_text = cb_text b, cb_mime = [], cb_detail = [],
     cb_data = [], cb_imageOK = False\<rparr>"
  by (auto simp: plain_block_def)

lemma inspect_block_content:
  assumes "good_block L b" "0 \<le> n" "n + image_bytes b \<le> max_int64" "is_text b \<or> n + image_bytes b \<le> ol_MaxImageBytes L"
  shows "inspect_block L n (content_of b) = Inr (b, n + image_bytes b)"
proof (cases "is_text b")
  case True
  then show ?thesis
    using assms(1) plain_text_eq [of b] union_content_of [of b]
    by (auto simp: inspect_block_def block_defs good_block_def plain_block_def Text_def)
next
  case False
  then obtain w h where wh: "inspectImage (cb_mime b) (cb_data b) = Inr (w, h)" "w \<le> ol_MaxImageWidth L"
    "h \<le> ol_MaxImageHeight L" "w * h \<le> ol_MaxImagePixels L"
    using assms(1) by (auto simp: good_block_def canvas_ok_def)
  have "mul64 w h = Some (w * h)" using inspectImage_bounds [OF wh(1)] by (simp add: mul64_nonneg)
  moreover have "add64 n (image_bytes b) = Some (n + image_bytes b)"
    using assms(2,3) image_bytes_nonneg [of b] by (simp add: add64_nonneg)
  ultimately show ?thesis
    using False assms wh plain_image_eq [of b] union_content_of [of b]
    by (auto simp: inspect_block_def block_defs good_block_def detail_ok_def Let_def bytes_of_def)
qed

lemma inspect_block_sound:
  assumes "inspect_block L n c = Inr (b, n')" "uri_free c" "0 \<le> n" "n \<le> max_int64"
  shows "c = content_of b \<and> good_block L b \<and> n' = n + image_bytes b \<and> n' \<le> max_int64
    \<and> (is_text b \<or> n' \<le> ol_MaxImageBytes L)"
proof -
  from assms(1) have "inspectUnion c = Inr ()" by (simp add: inspect_block_def result_simps)
  then consider s where "c = Text s" | im where "c = Content ContentImage None (Some im) None None None None"
    by (auto simp: union_cases)
  then show ?thesis
  proof cases
    case 1
    then show ?thesis
      using assms by (auto simp: inspect_block_def result_simps block_defs good_block_def plain_block_def Text_def split: if_splits)
  next
    case 2
    let ?d = "bytes_of (img_Data im)"
    from assms(1) 2 obtain w h where wh: "inspectImage (img_MIMEType im) ?d = Inr (w, h)" "detail_ok (img_Detail im)"
      "w \<le> ol_MaxImageWidth L" "h \<le> ol_MaxImageHeight L" "the (mul64 w h) \<le> ol_MaxImagePixels L"
      and n': "add64 n (int (length ?d)) = Some n'" "n' \<le> ol_MaxImageBytes L"
      and b: "b = \<lparr>cb_kind = ContentImage, cb_text = [], cb_mime = img_MIMEType im, cb_detail = img_Detail im,
        cb_data = ?d, cb_imageOK = True\<rparr>"
      by (auto simp: inspect_block_def result_simps Let_def detail_ok_def split: if_splits option.splits)
    have "the (mul64 w h) = w * h" using inspectImage_bounds [OF wh(1)] by (simp add: mul64_nonneg)
    with wh have px: "w * h \<le> ol_MaxImagePixels L" by simp
    have d: "img_Data im = Some ?d" using inspectImage_bounds [OF wh(1)] by (auto simp: bytes_of_def split: option.splits)
    have "im = image_of b" using assms(2) 2 d b by (simp add: image_of_def uri_free_def)
    moreover have "good_block L b" using wh px b by (auto simp: good_block_def plain_block_def canvas_ok_def)
    ultimately show ?thesis
      using n' assms(3,4) 2 b by (auto simp: add64_nonneg content_of_def image_bytes_def split: if_splits)
  qed
qed

lemma preflight_block_content:
  assumes "good_block L b" "0 \<le> f" "f \<le> inspectionCeiling" "0 \<le> n" "n \<le> f"
  shows "preflight_block L (f, n) (content_of b) = Inr st \<longleftrightarrow>
    st = (f + size_of b, n + image_bytes b) \<and> f + size_of b \<le> inspectionCeiling
    \<and> (\<not> is_text b \<longrightarrow> meta_ok L b \<and> n + image_bytes b \<le> ol_MaxImageBytes L)"
proof -
  have c: "inspectionCeiling \<le> max_int64" by (simp add: inspectionCeiling_def max_int64_def)
  have cap: "x \<le> inspectionCeiling \<Longrightarrow> x \<le> max_int64" for x using c by linarith
  have sz: "0 < size_of b" by (rule size_of_pos)
  have le: "image_bytes b \<le> size_of b"
    using chunk_count_nonneg [of "int (length (cb_data b))"] good_image_data [OF assms(1)]
    by (cases "is_text b") (auto simp: image_bytes_def block_size_def block_payload_def chunk_count_nonneg add_nonneg_nonneg)
  have add: "add64 f k = (if f + k \<le> max_int64 then Some (f + k) else None)" if "0 < k" for k
    using assms cap [of f] that by (simp add: add64_nonneg)
  show ?thesis
  proof (cases "is_text b")
    case True
    have "size_of b = block_size ContentText [] [] (int (length (cb_text b)))"
      using True assms(1) by (simp add: good_block_def plain_block_def block_payload_def)
    then show ?thesis
      using True sz c add assms union_content_of [of b]
      by (auto simp: preflight_block_def content_of_def Text_def image_bytes_def framedBlockSize_eq)
  next
    case False
    note g = good_image_data [OF assms(1) False]
    have s: "size_of b = block_size ContentImage (cb_mime b) (cb_detail b) (int (length (cb_data b)))"
      using g by (simp add: block_payload_def)
    have "add64 n (int (length (cb_data b))) =
        (if n + int (length (cb_data b)) \<le> max_int64 then Some (n + int (length (cb_data b))) else None)"
      using assms cap [of f] by (intro add64_nonneg) auto
    moreover have "n + int (length (cb_data b)) \<le> f + size_of b" using le assms(5) False by (simp add: image_bytes_def)
    ultimately show ?thesis
      using False sz c add assms union_content_of [of b] s
      by (auto simp: preflight_block_def content_of_def image_of_def image_bytes_def framedBlockSize_eq Let_def bytes_of_def meta_ok_def)
  qed
qed

section \<open>Whole outputs\<close>

lemma inspect_blocks_content:
  assumes "\<forall>b \<in> set bs. good_block L b" "0 \<le> n" "n + image_total bs \<le> ol_MaxImageBytes L" "n + image_total bs \<le> max_int64"
  shows "inspect_blocks L n (map content_of bs) = Inr bs"
  using assms
proof (induction bs arbitrary: n)
  case (Cons b bs)
  have t: "0 \<le> image_total bs" by (auto simp: image_total_def intro!: sum_list_nonneg image_bytes_nonneg)
  have "inspect_block L n (content_of b) = Inr (b, n + image_bytes b)"
    using Cons.prems t by (intro inspect_block_content) (auto simp: image_total_def)
  moreover have "inspect_blocks L (n + image_bytes b) (map content_of bs) = Inr bs"
    using Cons.prems image_bytes_nonneg [of b] by (intro Cons.IH) (auto simp: image_total_def)
  ultimately show ?case by simp
qed simp

lemma inspect_blocks_sound:
  assumes "inspect_blocks L n cs = Inr bs" "\<forall>c \<in> set cs. uri_free c" "0 \<le> n" "n \<le> max_int64"
  shows "cs = map content_of bs \<and> (\<forall>b \<in> set bs. good_block L b)"
  using assms
proof (induction cs arbitrary: n bs)
  case (Cons c cs)
  then obtain b n' bs' where b: "inspect_block L n c = Inr (b, n')" "inspect_blocks L n' cs = Inr bs'" "bs = b # bs'"
    by (auto simp: result_simps)
  note h = inspect_block_sound [OF b(1) _ Cons.prems(3,4)]
  with Cons.prems(2) image_bytes_nonneg [of b] Cons.IH [OF b(2)] Cons.prems(3) b(3) show ?case by simp
qed simp

lemma preflight_uri_free: "preflight_block L st c = Inr st' \<Longrightarrow> uri_free c"
  by (auto simp: preflight_block_def uri_free_def result_simps Let_def union_cases split: prod.splits if_splits)

lemma preflight_content_iff:
  assumes "\<forall>b \<in> set bs. good_block L b" "0 \<le> n" "n \<le> f" "f \<le> inspectionCeiling" "n \<le> ol_MaxImageBytes L"
  shows "rfold (preflight_block L) (f, n) (map content_of bs) = Inr st \<longleftrightarrow>
    st = (f + sum_list (map size_of bs), n + image_total bs) \<and> f + sum_list (map size_of bs) \<le> inspectionCeiling
    \<and> n + image_total bs \<le> ol_MaxImageBytes L \<and> (\<forall>b \<in> set bs. \<not> is_text b \<longrightarrow> meta_ok L b)"
  using assms
proof (induction bs arbitrary: n f)
  case Nil
  then show ?case by (auto simp: image_total_def)
next
  case (Cons b bs)
  let ?f = "f + size_of b" and ?n = "n + image_bytes b"
  have pos: "0 \<le> sum_list (map size_of bs)" "0 \<le> image_total bs" "0 \<le> image_bytes b"
    using sum_sizes_nonneg [of bs] image_bytes_nonneg [of b]
    by (auto simp: image_total_def intro!: sum_list_nonneg image_bytes_nonneg)
  have le: "image_bytes b \<le> size_of b"
    using Cons.prems(1) good_image_data [of L b] size_of_pos [of b] chunk_count_nonneg [of "int (length (cb_data b))"]
    by (cases "is_text b") (auto simp: image_bytes_def block_size_def block_payload_def)
  have head: "preflight_block L (f, n) (content_of b) = Inr st' \<longleftrightarrow> st' = (?f, ?n) \<and> ?f \<le> inspectionCeiling
      \<and> (\<not> is_text b \<longrightarrow> meta_ok L b \<and> ?n \<le> ol_MaxImageBytes L)" for st'
    using Cons.prems by (intro preflight_block_content) auto
  have nt: "is_text b \<Longrightarrow> ?n = n" by (simp add: image_bytes_def)
  have tail: "rfold (preflight_block L) (?f, ?n) (map content_of bs) = Inr st \<longleftrightarrow>
      st = (?f + sum_list (map size_of bs), ?n + image_total bs) \<and> ?f + sum_list (map size_of bs) \<le> inspectionCeiling
      \<and> ?n + image_total bs \<le> ol_MaxImageBytes L \<and> (\<forall>b \<in> set bs. \<not> is_text b \<longrightarrow> meta_ok L b)"
    if "?f \<le> inspectionCeiling" "?n \<le> ol_MaxImageBytes L"
    using Cons.prems le pos that by (intro Cons.IH) auto
  have "rfold (preflight_block L) (f, n) (map content_of (b # bs)) = Inr st \<longleftrightarrow>
      ?f \<le> inspectionCeiling \<and> ?n \<le> ol_MaxImageBytes L \<and> (\<not> is_text b \<longrightarrow> meta_ok L b)
      \<and> rfold (preflight_block L) (?f, ?n) (map content_of bs) = Inr st"
    using Cons.prems(5) nt by (cases "is_text b") (auto simp: result_simps head)
  then show ?case using tail pos by (auto simp: image_total_def)
qed

lemma inspectContent_iff:
  assumes "0 \<le> ol_MaxImageBytes L"
  shows "inspectContent cs L = Inr bs \<longleftrightarrow> bs \<noteq> [] \<and> int (length bs) \<le> ol_MaxBlocks L \<and> cs = map content_of bs
    \<and> (\<forall>b \<in> set bs. good_block L b \<and> (\<not> is_text b \<longrightarrow> meta_ok L b))
    \<and> frame_size bs \<le> inspectionCeiling \<and> image_total bs \<le> ol_MaxImageBytes L" (is "?l \<longleftrightarrow> ?r")
proof -
  have h: "0 \<le> frame_header" "frame_header \<le> inspectionCeiling"
    by (simp_all add: frame_header_def outputDomain_def inspectionCeiling_def)
  have pre: "preflightContent L (map content_of bs) = Inr st \<longleftrightarrow> st = (frame_size bs, image_total bs)
      \<and> frame_size bs \<le> inspectionCeiling \<and> image_total bs \<le> ol_MaxImageBytes L
      \<and> (\<forall>b \<in> set bs. \<not> is_text b \<longrightarrow> meta_ok L b)" if "\<forall>b \<in> set bs. good_block L b" for st
    unfolding preflightContent_def frame_size_def using preflight_content_iff [OF that, of 0 frame_header st] h assms by simp
  show ?thesis
  proof
    assume ?l
    then obtain st where c: "cs \<noteq> []" "int (length cs) \<le> ol_MaxBlocks L" "preflightContent L cs = Inr st"
      "inspect_blocks L 0 cs = Inr bs"
      by (auto simp: inspectContent_def result_simps split: if_splits)
    have "\<forall>c \<in> set cs. uri_free c"
    proof -
      have "rfold (preflight_block L) s xs = Inr st \<Longrightarrow> \<forall>c \<in> set xs. uri_free c" for s xs
        by (induction xs arbitrary: s) (auto simp: result_simps dest: preflight_uri_free)
      then show ?thesis using c(3) by (auto simp: preflightContent_def)
    qed
    from inspect_blocks_sound [OF c(4) this] have "cs = map content_of bs" "\<forall>b \<in> set bs. good_block L b"
      by (simp_all add: max_int64_def)
    with c(1-3) pre [of st] show ?r by auto
  next
    assume r: ?r
    have "image_total bs \<le> frame_size bs"
    proof -
      have "image_bytes b \<le> size_of b" if "b \<in> set bs" for b
        using that r good_image_data [of L b] size_of_pos [of b] chunk_count_nonneg [of "int (length (cb_data b))"]
        by (cases "is_text b") (auto simp: image_bytes_def block_size_def block_payload_def)
      then have "image_total bs \<le> sum_list (map size_of bs)" by (auto simp: image_total_def intro!: sum_list_mono)
      then show ?thesis using h by (simp add: frame_size_def)
    qed
    then have "inspect_blocks L 0 cs = Inr bs"
      using r by (auto intro!: inspect_blocks_content simp: inspectionCeiling_def max_int64_def)
    then show ?l using r pre by (auto simp: inspectContent_def result_simps)
  qed
qed

end
