(* ===== verification/Output_Final.thy ===== *)
theory Output_Final
  imports Output_Inspect
begin

text \<open>
  Finalisation of outputs without a collector receipt, as one equation over inspected blocks.
\<close>

definition digest_of :: "(string \<Rightarrow> string) \<Rightarrow> content_block list \<Rightarrow> string" where
  "digest_of sha bs = hex_encode (sha (frame_of bs))"

lemma digestBlocks_small:
  "frame_size bs \<le> max_int64 \<Longrightarrow> digestBlocks sha bs = Inr (frame_size bs, digest_of sha bs)"
  by (simp add: digestBlocks_eq length_frame_of digest_of_def)

lemma materialize_good: "good_block L b \<Longrightarrow> materialize_block b = Inr (content_of b)"
  using good_image_data [of L b]
  by (auto simp: materialize_block_def content_of_def image_of_def ImageBytes_def copy_bytes_def)

lemma materialize_all: "\<forall>b \<in> set bs. good_block L b \<Longrightarrow> materialize bs = Inr (map content_of bs)"
  by (auto simp: materialize_def rmap_eq_Inr_iff list_all2_conv_all_nth intro!: materialize_good [of L])

lemma good_content_valid: "good_block L b \<Longrightarrow> Content_Validate G (content_of b) = Inr ()"
  using good_image_data [of L b]
  by (cases "is_text b")
    (auto simp: content_of_def image_of_def Text_def unionCount_def validateImage_def Let_def bytes_of_def
      good_block_def detail_ok_def)

section \<open>Truncated blocks\<close>

definition same_images :: "content_block \<Rightarrow> content_block \<Rightarrow> bool" where
  "same_images b b' \<longleftrightarrow> is_text b' = is_text b \<and> (\<not> is_text b \<longrightarrow> b' = b)"

lemma keep_from_images: "list_all2 same_images bs (keep_from h t k m i off bs)"
  by (induction h t k m i off bs rule: keep_from.induct) (auto simp: same_images_def)

lemma kept_at_images: "list_all2 same_images bs (kept_at bs original sha keep)"
  by (simp add: kept_at_def applyKeep_def keep_from_images split: prod.splits)

lemma list_all2_rev_set: "list_all2 P xs ys \<Longrightarrow> y \<in> set ys \<Longrightarrow> \<exists>x \<in> set xs. P x y"
  by (induction rule: list_all2_induct) auto

lemma kept_at_good:
  assumes "\<forall>b \<in> set bs. good_block L b" "0 \<le> keep"
  shows "\<forall>b \<in> set (kept_at bs original (hex_encode d) keep). good_block L b"
proof
  fix b' assume b': "b' \<in> set (kept_at bs original (hex_encode d) keep)"
  then have p: "plain_block b'" using kept_at_plain [of bs keep original d] assms by (auto simp: good_block_def)
  obtain b where "b \<in> set bs" "same_images b b'"
    using b' list_all2_rev_set [OF kept_at_images] by blast
  with assms(1) p show "good_block L b'" by (auto simp: same_images_def good_block_def)
qed

lemma same_images_facts:
  assumes "list_all2 same_images bs ks"
  shows "length ks = length bs" "image_total ks = image_total bs"
    "(\<forall>b \<in> set bs. \<not> is_text b \<longrightarrow> P b) \<Longrightarrow> (\<forall>b \<in> set ks. \<not> is_text b \<longrightarrow> P b)"
  using assms by (induction rule: list_all2_induct) (auto simp: same_images_def image_total_def image_bytes_def)

lemma truncated_facts:
  assumes "truncateBlocks bs L original (hex_encode d) = Some ks" "\<forall>b \<in> set bs. good_block L b" "ol_MaxFramedBytes L \<le> max_int64"
  obtains keep where "0 \<le> keep" "keep \<le> textTotal bs" "ks = kept_at bs original (hex_encode d) keep" "within_limits L ks"
    "keep = textTotal bs \<or> \<not> within_limits L (kept_at bs original (hex_encode d) (keep + 1))"
    "\<forall>b \<in> set ks. good_block L b" "list_all2 same_images bs ks" "hasText bs"
proof -
  let ?ok = "\<lambda>k. within_limits L (kept_at bs original (hex_encode d) k)"
  define keep where "keep = search_keep ?ok 0 (textTotal bs) (- 1)"
  have pl: "\<forall>b \<in> set bs. plain_block b" using assms(2) by (simp add: good_block_def)
  have k: "hasText bs" "0 \<le> keep" "ks = kept_at bs original (hex_encode d) keep"
    using assms(1) truncateBlocks_eq [OF pl assms(3), of original "hex_encode d"]
    by (auto simp: keep_def Let_def split: if_splits)
  have s: "keep \<le> textTotal bs" "?ok keep" "keep = textTotal bs \<or> \<not> ?ok (keep + 1)"
    using search_keep_spec [of 0 "textTotal bs" "- 1" ?ok] textTotal_nonneg [of bs] k(2) by (auto simp: keep_def Let_def)
  show thesis
    using that [OF k(2) s(1) k(3)] k s kept_at_good [OF assms(2) k(2)] kept_at_images by metis
qed

section \<open>The result of finalisation\<close>

definition final_of :: "(string \<Rightarrow> string) \<Rightarrow> nat \<Rightarrow> tool_output \<Rightarrow> output_limits \<Rightarrow> content_block list \<Rightarrow> content_block list \<Rightarrow> bool
    \<Rightarrow> tool_output" where
  "final_of sha exec out L bs ks truncated = seal_output exec out L (map content_of ks) (frame_size bs) (digest_of sha bs)
     truncated (frame_size ks) (digest_of sha ks)"

definition sane_limits :: "output_limits \<Rightarrow> bool" where
  "sane_limits L \<longleftrightarrow> 0 \<le> ol_MaxImageBytes L \<and> ol_MaxFramedBytes L \<le> inspectionCeiling"

lemma output_within_sane: "output_within L \<Longrightarrow> sane_limits L"
  by (auto simp: output_within_def sane_limits_def tool_defaults inspectionCeiling_def)

lemma ceiling_int64: "n \<le> inspectionCeiling \<Longrightarrow> n \<le> max_int64"
  by (simp add: inspectionCeiling_def max_int64_def)

lemma finalize_eq:
  assumes "out_receipt out = None" "out_seal out = None \<or> rw" "sane_limits L"
  shows "finalize G sha exec out L rw = rbind (inspectContent (out_Content out) L) (\<lambda>bs.
    if within_limits L bs then Inr (final_of sha exec out L bs bs False)
    else case truncateBlocks bs L (frame_size bs) (digest_of sha bs) of
        None \<Rightarrow> Inl ErrOutputLimit
      | Some ks \<Rightarrow> Inr (final_of sha exec out L bs ks True))"
proof (cases "inspectContent (out_Content out) L")
  case (Inl e)
  then show ?thesis using assms by (cases rw) (simp_all add: finalize_def)
next
  case (Inr bs)
  have i: "\<forall>b \<in> set bs. good_block L b" "frame_size bs \<le> inspectionCeiling" "out_Content out = map content_of bs"
    using Inr inspectContent_iff [of L "out_Content out" bs] assms(3) by (simp_all add: sane_limits_def)
  have m: "ol_MaxFramedBytes L \<le> max_int64" using assms(3) by (simp add: sane_limits_def ceiling_int64)
  have dg: "digestBlocks sha bs = Inr (frame_size bs, digest_of sha bs)" by (simp add: digestBlocks_small ceiling_int64 i(2))
  have done_with: "rbind (digestBlocks sha ks) (\<lambda>(keptBytes, retainedSHA). if keptBytes > ol_MaxFramedBytes L then Inl ErrOutputLimit
        else rbind (materialize ks) (\<lambda>content. rbind (check_each (Content_Validate G) (\<lambda>i e. execution ''final content'') 0 content)
          (\<lambda>_. Inr (seal_output exec out L content (frame_size bs) (digest_of sha bs) cut keptBytes retainedSHA))))
      = Inr (final_of sha exec out L bs ks cut)"
    if "\<forall>b \<in> set ks. good_block L b" "frame_size ks \<le> ol_MaxFramedBytes L" for ks cut
  proof -
    have "check_each (Content_Validate G) (\<lambda>i e. execution ''final content'') 0 (map content_of ks) = Inr ()"
      using that(1) by (auto simp: check_each_iff good_content_valid)
    moreover have "frame_size ks \<le> max_int64" using that(2) m by linarith
    ultimately show ?thesis using that by (simp add: digestBlocks_small materialize_all final_of_def)
  qed
  have over: "overText bs L \<or> frame_size bs > ol_MaxFramedBytes L \<longleftrightarrow> \<not> within_limits L bs"
    by (auto simp: overText_def within_limits_def)
  show ?thesis
  proof (cases "within_limits L bs")
    case True
    with done_with [OF i(1), of False] show ?thesis
      using assms(1,2) Inr dg over by (cases rw) (simp_all add: finalize_def choose_kept_def within_limits_def)
  next
    case False
    show ?thesis
    proof (cases "truncateBlocks bs L (frame_size bs) (digest_of sha bs)")
      case None
      then show ?thesis using False assms(1,2) Inr dg over by (cases rw) (simp_all add: finalize_def choose_kept_def)
    next
      case (Some ks)
      have "(\<forall>b \<in> set ks. good_block L b) \<and> frame_size ks \<le> ol_MaxFramedBytes L"
        by (rule truncated_facts [OF Some [unfolded digest_of_def] i(1) m]) (simp add: within_limits_def)
      then have "\<forall>b \<in> set ks. good_block L b" "frame_size ks \<le> ol_MaxFramedBytes L" by blast+
      from done_with [OF this, of True] show ?thesis
        using False Some assms(1,2) Inr dg over by (cases rw) (simp_all add: finalize_def choose_kept_def)
    qed
  qed
qed

lemma finalize_Inr:
  assumes "finalize G sha exec out L rw = Inr res" "out_receipt out = None" "sane_limits L"
  obtains bs ks cut where "inspectContent (out_Content out) L = Inr bs" "res = final_of sha exec out L bs ks cut"
    "cut = (\<not> within_limits L bs)" "\<not> cut \<longrightarrow> ks = bs" "within_limits L ks"
    "cut \<longrightarrow> truncateBlocks bs L (frame_size bs) (digest_of sha bs) = Some ks"
    "\<forall>b \<in> set ks. good_block L b" "list_all2 same_images bs ks" "inspectContent (map content_of ks) L = Inr ks"
proof -
  have "out_seal out = None \<or> rw" using assms(1) by (cases rw; cases "out_seal out") (simp_all add: finalize_def)
  note eq = finalize_eq [OF assms(2) this assms(3), of G sha exec]
  obtain bs where bs: "inspectContent (out_Content out) L = Inr bs"
    using assms(1) eq by (cases "inspectContent (out_Content out) L") auto
  have img: "0 \<le> ol_MaxImageBytes L" and m: "ol_MaxFramedBytes L \<le> max_int64"
    using assms(3) by (simp_all add: sane_limits_def ceiling_int64)
  note i = bs [unfolded inspectContent_iff [OF img]]
  have g: "\<forall>b \<in> set bs. good_block L b" using i by blast
  have refl: "list_all2 same_images bs bs" by (simp add: list_all2_same same_images_def)
  show thesis
  proof (cases "within_limits L bs")
    case True
    then have "res = final_of sha exec out L bs bs False" using assms(1) eq bs by simp
    then show thesis using that [of bs bs False] bs True g refl i by simp
  next
    case False
    then obtain ks where ks: "truncateBlocks bs L (frame_size bs) (digest_of sha bs) = Some ks"
      "res = final_of sha exec out L bs ks True"
      using assms(1) eq bs by (auto split: option.splits)
    have "within_limits L ks \<and> (\<forall>b \<in> set ks. good_block L b) \<and> list_all2 same_images bs ks"
      by (rule truncated_facts [OF ks(1) [unfolded digest_of_def] g m]) simp
    then have t: "within_limits L ks" "\<forall>b \<in> set ks. good_block L b" "list_all2 same_images bs ks" by blast+
    have "inspectContent (map content_of ks) L = Inr ks"
      unfolding inspectContent_iff [OF img]
      using i t same_images_facts [OF t(3)] assms(3) by (auto simp: within_limits_def sane_limits_def)
    then show thesis using that [of bs ks True] bs False t ks by simp
  qed
qed

section \<open>Digests\<close>

lemma hex_digits_distinct: "distinct hex_digits" "length hex_digits = 16"
  by (simp_all add: hex_digits_def)

lemma hex_encode_Cons: "hex_encode (c # s) = hex_digits ! (byte c div 16) # hex_digits ! (byte c mod 16) # hex_encode s"
  by (simp add: hex_encode_def)

lemma hex_encode_inj: "hex_encode s = hex_encode t \<longleftrightarrow> s = t"
proof (induction s arbitrary: t)
  case Nil
  then show ?case by (cases t) (simp_all add: hex_encode_def)
next
  case (Cons c s)
  have d: "byte x div 16 < 16" for x :: char using nat_of_char_less_256 [of x] by linarith
  have h: "hex_digits ! i = hex_digits ! j \<longleftrightarrow> i = j" if "i < 16" "j < 16" for i j
    using that by (simp add: nth_eq_iff_index_eq hex_digits_distinct)
  have b: "byte x div 16 = byte y div 16 \<and> byte x mod 16 = byte y mod 16 \<longleftrightarrow> x = y" for x y :: char
    by (metis div_mult_mod_eq of_char_eq_iff)
  show ?case
    using b by (cases t) (auto simp: hex_encode_Cons h d Cons, auto simp: hex_encode_def)
qed

lemma length_hex_encode: "length (hex_encode s) = 2 * length s"
  by (induction s) (simp_all add: hex_encode_def)

lemma plain_view_inj: "plain_block b \<Longrightarrow> plain_block c \<Longrightarrow> block_view b = block_view c \<Longrightarrow> b = c"
  by (cases b; cases c) (auto simp: plain_block_def block_view_def block_payload_def split: if_splits)

lemma frame_of_blocks_inj:
  assumes "frame_of bs = frame_of cs" "frame_size bs \<le> max_int64" "\<forall>b \<in> set bs. plain_block b" "\<forall>b \<in> set cs. plain_block b"
  shows "bs = cs"
proof -
  have "map block_view bs = map block_view cs" by (rule frame_of_inj [OF assms(1,2)])
  then show ?thesis using assms(3,4)
  proof (induction bs arbitrary: cs)
    case (Cons b bs)
    then show ?case by (cases cs) (auto intro: plain_view_inj)
  qed simp
qed

end
