(* ===== verification/Output_Props.thy ===== *)
theory Output_Props
  imports Output_Final
begin

text \<open>
  What finalisation guarantees of a tool output: its sizes, its text, its seal, and that the error outputs an executor
  produces itself always survive.
\<close>

section \<open>Error outputs\<close>

lemma kept_at_single:
  assumes "is_text b"
  shows "kept_at [b] original sha 0 = [b\<lparr>cb_text := formatMarker
    (frame_size (applyKeep [b] 0 (formatMarker 0 original sha))) original sha\<rparr>]"
proof -
  have "cut_after (cb_text b) (length (cb_text b)) = length (cb_text b)" by (simp add: cut_after.simps)
  then have "cuts [b] 0 = (0, int (length (cb_text b)), 0)"
    using assms
    by (simp add: cuts_def Let_def textBoundaryBefore_def textBoundaryAfter_def firstTextAtOrAfter_def)
  then show ?thesis using assms by (simp add: kept_at_def applyKeep_def keep_text_def Let_def)
qed

abbreviation text_block :: "string \<Rightarrow> content_block" where
  "text_block s \<equiv> \<lparr>cb_kind = ContentText, cb_text = s, cb_mime = [], cb_detail = [], cb_data = [], cb_imageOK = False\<rparr>"

lemma text_block_size: "frame_size [text_block s] = 110 + chunk_count (int (length s)) * 8 + int (length s)"
  by (simp add: frame_size_def block_size_def block_payload_def frame_header_def outputDomain_def blockBoundary_def)

lemma chunk_count_le: "0 \<le> n \<Longrightarrow> chunk_count n \<le> n + 1"
proof -
  assume "0 \<le> n"
  then have "n div 4096 \<le> n" by linarith
  then show ?thesis by (simp add: chunk_count_def frameChunk_def)
qed

lemma marker_length: "length d = 32 \<Longrightarrow> length (formatMarker kept original (hex_encode d)) = 208"
  by (simp add: formatMarker_def truncationPrefix_def truncationMiddle_def truncationSHA_def truncationSuffix_def
      length_hex_encode)

lemma inspect_text:
  assumes "output_within L" "utf8_valid s" "length s \<le> maxCallErrorBytes"
  shows "inspectContent [Text s] L = Inr [text_block s]"
proof -
  have L: "0 \<le> ol_MaxImageBytes L" "1 \<le> ol_MaxBlocks L" using assms(1) by (auto simp: output_within_def)
  have "frame_size [text_block s] \<le> inspectionCeiling"
    using assms(3) chunk_count_le [of "int (length s)"]
    by (simp add: text_block_size inspectionCeiling_def maxCallErrorBytes_def)
  then show ?thesis
    unfolding inspectContent_iff [OF L(1)] using L assms(2)
    by (simp add: content_of_def image_total_def image_bytes_def good_block_def plain_block_def)
qed

lemma text_finalizes:
  assumes "output_within L" "\<And>x. length (sha x) = 32" "utf8_valid s" "length s \<le> maxCallErrorBytes"
    and "out_Content out = [Text s]" "out_receipt out = None"
  shows "\<exists>ks cut. finalize G sha exec out L True = Inr (final_of sha exec out L [text_block s] ks cut)"
proof -
  let ?b = "text_block s"
  have L: "sane_limits L" "0 \<le> ol_MaxImageBytes L" "1 \<le> ol_MaxBlocks L" "512 \<le> ol_MaxTextBytes L" "1024 \<le> ol_MaxFramedBytes L"
    "ol_MaxFramedBytes L \<le> max_int64"
    using assms(1) output_within_sane [OF assms(1)]
    by (auto simp: output_within_def tool_defaults max_int64_def)
  have good: "good_block L ?b" using assms(3) by (simp add: good_block_def plain_block_def)
  have i: "inspectContent (out_Content out) L = Inr [?b]"
    using inspect_text [OF assms(1,3,4)] assms(5) by simp
  note eq = finalize_eq [OF assms(6) _ L(1), of True G sha exec]
  show ?thesis
  proof (cases "within_limits L [?b]")
    case True
    then show ?thesis using eq i by auto
  next
    case False
    let ?d = "sha (frame_of [?b])" and ?n = "frame_size [?b]"
    let ?ok = "\<lambda>k. within_limits L (kept_at [?b] ?n (hex_encode ?d) k)"
    have k0: "kept_at [?b] ?n (hex_encode ?d) 0 = [text_block (formatMarker
        (frame_size (applyKeep [?b] 0 (formatMarker 0 ?n (hex_encode ?d)))) ?n (hex_encode ?d))]"
      by (subst kept_at_single) simp_all
    have "?ok 0"
      unfolding k0 unfolding within_limits_def text_block_size
      using L(4,5) by (simp add: marker_length [OF assms(2)] chunk_count_def frameChunk_def)
    then have "0 \<le> search_keep ?ok 0 (textTotal [?b]) (- 1)"
      by (rule search_keep_finds) (rule textTotal_nonneg)
    moreover have "\<forall>b \<in> set [?b]. plain_block b" using good by (simp add: good_block_def)
    ultimately obtain ks where "truncateBlocks [?b] L ?n (hex_encode ?d) = Some ks"
      using truncateBlocks_eq [OF _ L(6), of "[?b]" ?n "hex_encode ?d"] by (auto simp: Let_def hasText_iff)
    then show ?thesis using eq i False by (auto simp: digest_of_def)
  qed
qed

lemma final_of_fields [simp]:
  "out_Content (final_of sha exec out L bs ks t) = map content_of ks"
  "out_IsError (final_of sha exec out L bs ks t) = out_IsError out"
  "out_receipt (final_of sha exec out L bs ks t) = None"
  "os_KeptBytes (out_Stats (final_of sha exec out L bs ks t)) = frame_size ks"
  "out_seal (final_of sha exec out L bs ks t) = Some \<lparr>seal_executor = exec, seal_limits = L, seal_isError = out_IsError out,
     seal_stats = out_Stats (final_of sha exec out L bs ks t), seal_retained = digest_of sha ks\<rparr>"
  by (simp_all add: final_of_def seal_output_def Let_def)

text \<open>Instances for the examples: a text that is cut, and a stand-in for the hash.\<close>

definition example_std :: go_std where
  "example_std = \<lparr>url_scheme = \<lambda>_. None, json_valid = \<lambda>_. True\<rparr>"

definition example_sha :: "string \<Rightarrow> string" where
  "example_sha s = take 32 (s @ replicate 32 CHR ''0'')"

definition example_limits :: output_limits where
  "example_limits = (cfg_Output default_config)\<lparr>ol_MaxTextBytes := 512\<rparr>"

definition example_output :: tool_output where
  "example_output = text_output (replicate 600 CHR ''a'')"

definition example_result :: tool_output where
  "example_result = projr (finalize example_std example_sha 1 example_output example_limits True)"

lemma example_sha_length: "length (example_sha s) = 32"
  by (simp add: example_sha_def)

lemma example_limits_within: "output_within example_limits"
  using normalizeConfig_within [OF default_config_ok]
  by (simp add: example_limits_def output_within_def tool_defaults)

lemma example_text: "utf8_valid (replicate 600 CHR ''a'')" "length (replicate 600 CHR ''a'') \<le> maxCallErrorBytes"
  by (rule ascii_valid) (simp_all add: list_all_iff maxCallErrorBytes_def)

lemma example_fields: "out_Content example_output = [Text (replicate 600 CHR ''a'')]" "out_receipt example_output = None"
  by (simp_all add: example_output_def text_output_def)

lemma example_finalized:
  "finalize example_std example_sha 1 example_output example_limits True = Inr example_result"
  using text_finalizes [where sha = example_sha and G = example_std and exec = 1, OF example_limits_within example_sha_length example_text
      example_fields]
  by (auto simp: example_result_def)

section \<open>Properties\<close>

text \<open>C12 (bounds). A finalised output has as many blocks as the tool returned and at most the limit, every block is valid
  content, inspection accepts it again, its framed size is the reported one and within the limit, its text is
  within the limit, and its images are untouched. This holds for every limits an executor can have.\<close>

theorem finalized_within_limits:
  assumes "finalize G sha exec out L rw = Inr res" "out_receipt out = None" "output_within L"
  shows "\<exists>bs ks. inspectContent (out_Content out) L = Inr bs \<and> inspectContent (out_Content res) L = Inr ks
    \<and> length (out_Content res) = length (out_Content out) \<and> int (length (out_Content res)) \<le> ol_MaxBlocks L
    \<and> blocksFrameSize ks = Some (os_KeptBytes (out_Stats res)) \<and> os_KeptBytes (out_Stats res) \<le> ol_MaxFramedBytes L
    \<and> textTotal ks \<le> ol_MaxTextBytes L \<and> list_all2 same_images bs ks
    \<and> (\<forall>c \<in> set (out_Content res). Content_Validate G c = Inr ())"
proof -
  note sane = output_within_sane [OF assms(3)]
  obtain bs ks cut where f: "inspectContent (out_Content out) L = Inr bs" "res = final_of sha exec out L bs ks cut"
    "within_limits L ks" "\<forall>b \<in> set ks. good_block L b" "list_all2 same_images bs ks" "inspectContent (map content_of ks) L = Inr ks"
    by (rule finalize_Inr [OF assms(1,2) sane])
  have img: "0 \<le> ol_MaxImageBytes L" using sane by (simp add: sane_limits_def)
  have m: "frame_size ks \<le> max_int64" using f(3) sane by (auto simp: within_limits_def sane_limits_def intro: ceiling_int64)
  have n: "length ks = length bs" by (rule same_images_facts [OF f(5)])
  have "length (out_Content out) = length bs" "int (length bs) \<le> ol_MaxBlocks L"
    using f(1) [unfolded inspectContent_iff [OF img]] by simp_all
  then show ?thesis
    using f m n by (auto simp: within_limits_def blocksFrameSize_eq good_content_valid)
qed

theorem finalized_within_limits_witness:
  "length (out_Content example_result) = 1 \<and> os_KeptBytes (out_Stats example_result) \<le> ol_MaxFramedBytes example_limits"
  using finalized_within_limits [OF example_finalized example_fields(2) example_limits_within]
  by (auto simp: example_fields)

text \<open>C11 (functional). Output that fits is returned unchanged and marked as such; output that does not fit is cut, and the cut
  keeps a number of text bytes that fits while one more does not (or all of them are kept around the marker), with a
  marker that states the framed size of the result and the size and digest of the original.\<close>

theorem finalize_content:
  assumes "finalize G sha exec out L rw = Inr res" "out_receipt out = None" "output_within L"
    and "inspectContent (out_Content out) L = Inr bs"
  shows "(within_limits L bs \<longrightarrow> out_Content res = out_Content out \<and> \<not> os_Truncated (out_Stats res))
    \<and> (\<not> within_limits L bs \<longrightarrow> os_Truncated (out_Stats res) \<and> (\<exists>keep ks. inspectContent (out_Content res) L = Inr ks
        \<and> 0 \<le> keep \<and> keep \<le> textTotal bs
        \<and> ks = applyKeep bs keep (formatMarker (os_KeptBytes (out_Stats res)) (frame_size bs) (digest_of sha bs))
        \<and> (keep = textTotal bs \<or> \<not> within_limits L (kept_at bs (frame_size bs) (digest_of sha bs) (keep + 1)))))"
proof -
  note sane = output_within_sane [OF assms(3)]
  obtain bs' ks cut where f: "inspectContent (out_Content out) L = Inr bs'" "res = final_of sha exec out L bs' ks cut"
    "cut = (\<not> within_limits L bs')" "\<not> cut \<longrightarrow> ks = bs'"
    "cut \<longrightarrow> truncateBlocks bs' L (frame_size bs') (digest_of sha bs') = Some ks"
    "inspectContent (map content_of ks) L = Inr ks"
    by (rule finalize_Inr [OF assms(1,2) sane])
  have b: "bs' = bs" using f(1) assms(4) by simp
  have img: "0 \<le> ol_MaxImageBytes L" and m: "ol_MaxFramedBytes L \<le> max_int64"
    using sane by (auto simp: sane_limits_def intro: ceiling_int64)
  have g: "\<forall>b \<in> set bs. good_block L b" "out_Content out = map content_of bs"
    using assms(4) [unfolded inspectContent_iff [OF img]] by auto
  show ?thesis
  proof (cases "within_limits L bs")
    case True
    then show ?thesis using f b g by (simp add: final_of_def seal_output_def Let_def)
  next
    case False
    obtain keep where k: "0 \<le> keep" "keep \<le> textTotal bs" "ks = kept_at bs (frame_size bs) (digest_of sha bs) keep"
      "keep = textTotal bs \<or> \<not> within_limits L (kept_at bs (frame_size bs) (digest_of sha bs) (keep + 1))"
      using f(3,5) b False by (auto simp: digest_of_def elim!: truncated_facts [OF _ g(1) m])
    have "\<forall>b \<in> set bs. plain_block b" using g(1) by (simp add: good_block_def)
    from kept_at_sizes(1) [OF this]
    have "ks = applyKeep bs keep (formatMarker (frame_size ks) (frame_size bs) (digest_of sha bs))"
      by (simp add: k(3) kept_at_def)
    then show ?thesis using False f b k by (auto simp: final_of_def seal_output_def Let_def)
  qed
qed

theorem finalize_content_witness: "os_Truncated (out_Stats example_result)"
proof -
  have "inspectContent (out_Content example_output) example_limits = Inr [text_block (replicate 600 CHR ''a'')]"
    unfolding example_fields by (rule inspect_text [OF example_limits_within example_text])
  moreover have "\<not> within_limits example_limits [text_block (replicate 600 CHR ''a'')]"
    by (simp add: within_limits_def example_limits_def)
  ultimately show ?thesis
    using finalize_content [OF example_finalized example_fields(2) example_limits_within] by blast
qed

text \<open>C13 (error). The outputs that report a failure are never lost: under every executor limits the budget message and every
  diagnostic are finalised into a sealed error output.\<close>

theorem error_outputs_survive:
  assumes "output_within L" "\<And>x. length (sha x) = 32"
  shows "(\<exists>res. budgetOutput G sha exec L = Inr res \<and> out_IsError res)
    \<and> out_IsError (recoverable G sha exec L msg) \<and> out_seal (recoverable G sha exec L msg) \<noteq> None"
proof -
  have "\<exists>ks cut. finalize G sha exec (error_output s) L True = Inr (final_of sha exec (error_output s) L [text_block s] ks cut)"
    if "utf8_valid s" "length s \<le> maxCallErrorBytes" for s
    using that by (intro text_finalizes [OF assms]) (simp_all add: error_output_def)
  moreover have "utf8_valid budgetErrorText" "length budgetErrorText \<le> maxCallErrorBytes"
    by (simp_all add: budgetErrorText_def maxCallErrorBytes_def)
  moreover have "utf8_valid (sanitizeDiagnostic msg maxCallErrorBytes)"
    "length (sanitizeDiagnostic msg maxCallErrorBytes) \<le> maxCallErrorBytes"
    using sanitize_text by blast+
  ultimately show ?thesis
    unfolding budgetOutput_def recoverable_def by (fastforce simp: error_output_def)
qed

theorem error_outputs_survive_witness: "out_IsError (recoverable example_std example_sha 1 example_limits ''unknown tool'')"
  using error_outputs_survive [where sha = example_sha, OF example_limits_within example_sha_length] by blast

text \<open>C10 (safety). A finalised output passes the check of its seal. Any output that passes the check of that seal has the
  same content, unless its frame and the original's are a collision of the hash.\<close>

theorem seal_identifies_output:
  assumes "finalize G sha exec out L rw = Inr res" "out_receipt out = None" "output_within L" "out_seal res = Some s"
  shows "verifySeal sha res s = Inr ()
    \<and> (verifySeal sha res' s = Inr () \<longrightarrow> (\<exists>ks ks'. inspectContent (out_Content res) L = Inr ks
        \<and> inspectContent (out_Content res') L = Inr ks' \<and> out_IsError res' = out_IsError res \<and> out_Stats res' = out_Stats res
        \<and> (out_Content res' = out_Content res \<or> frame_of ks' \<noteq> frame_of ks \<and> sha (frame_of ks') = sha (frame_of ks))))"
proof -
  note sane = output_within_sane [OF assms(3)]
  obtain bs ks cut where f: "res = final_of sha exec out L bs ks cut" "within_limits L ks"
    "\<forall>b \<in> set ks. good_block L b" "inspectContent (map content_of ks) L = Inr ks"
    by (rule finalize_Inr [OF assms(1,2) sane])
  have s: "seal_limits s = L" "seal_isError s = out_IsError res" "seal_stats s = out_Stats res" "seal_retained s = digest_of sha ks"
    using assms(4) f(1) by auto
  have img: "0 \<le> ol_MaxImageBytes L" using sane by (simp add: sane_limits_def)
  have m: "frame_size ks \<le> max_int64" using f(2) sane by (auto simp: within_limits_def sane_limits_def intro: ceiling_int64)
  have "verifySeal sha res s = Inr ()"
    using f m s by (simp add: verifySeal_def digestBlocks_small)
  moreover have "\<exists>ks'. inspectContent (out_Content res') L = Inr ks' \<and> out_IsError res' = out_IsError res \<and> out_Stats res' = out_Stats res
      \<and> (out_Content res' = out_Content res \<or> frame_of ks' \<noteq> frame_of ks \<and> sha (frame_of ks') = sha (frame_of ks))"
    if v: "verifySeal sha res' s = Inr ()"
  proof -
    obtain ks' n where k: "inspectContent (out_Content res') L = Inr ks'" "digestBlocks sha ks' = Inr (n, digest_of sha ks)"
      "out_IsError res' = out_IsError res" "out_Stats res' = out_Stats res"
      using v s by (auto simp: verifySeal_def result_simps split: if_splits sum.splits)
    have g: "\<forall>b \<in> set ks'. good_block L b" "out_Content res' = map content_of ks'"
      using k(1) [unfolded inspectContent_iff [OF img]] by auto
    have "sha (frame_of ks') = sha (frame_of ks)"
      using k(2) by (auto simp: digestBlocks_eq digest_of_def hex_encode_inj split: if_splits)
    moreover have "frame_of ks = frame_of ks' \<Longrightarrow> ks = ks'"
      by (rule frame_of_blocks_inj [OF _ m]) (use f(3) g(1) in \<open>auto simp: good_block_def\<close>)
    ultimately show ?thesis using k g f(1) by auto
  qed
  ultimately show ?thesis using f(1,4) by auto
qed

theorem seal_identifies_output_witness: "verifySeal example_sha example_result (the (out_seal example_result)) = Inr ()"
proof -
  have "out_seal example_result = Some (the (out_seal example_result))"
    using text_finalizes [where sha = example_sha and G = example_std and exec = 1, OF example_limits_within example_sha_length example_text
      example_fields]
    by (auto simp: example_result_def)
  from seal_identifies_output [OF example_finalized example_fields(2) example_limits_within this] show ?thesis by blast
qed

text \<open>The size predicted for a cut is the framed size of the cut output, so the search over predicted sizes
  is a search over real ones: for blocks that inspection accepts, keeping \<open>keep\<close> bytes around a marker.\<close>

theorem predicted_size_exact:
  assumes "inspectContent cs L = Inr bs" "0 \<le> ol_MaxImageBytes L"
  shows "truncatedShapeSize bs keep (int (length marker)) =
    (case blocksFrameSize (applyKeep bs keep marker) of
       None \<Rightarrow> None | Some n \<Rightarrow> Some (n, textTotal (applyKeep bs keep marker)))"
proof -
  have "\<forall>b \<in> set bs. plain_block b"
    using assms(1) [unfolded inspectContent_iff [OF assms(2)]] by (auto simp: good_block_def)
  from truncated_shape_exact [OF this, of keep marker] show ?thesis by (simp add: blocksFrameSize_eq Let_def)
qed

theorem predicted_size_exact_witness:
  "truncatedShapeSize [text_block (replicate 600 CHR ''a'')] 2 (int (length ''x'')) =
     (case blocksFrameSize (applyKeep [text_block (replicate 600 CHR ''a'')] 2 ''x'') of
        None \<Rightarrow> None | Some n \<Rightarrow> Some (n, textTotal (applyKeep [text_block (replicate 600 CHR ''a'')] 2 ''x'')))"
  by (rule predicted_size_exact [OF inspect_text [OF example_limits_within example_text]])
    (use example_limits_within in \<open>simp add: output_within_def\<close>)

end
