(* ===== verification/Registry.thy ===== *)
theory Registry
  imports Schema_Props Output Tool_Limits_Props
begin

text \<open>
  The tool registry: \<^verbatim>\<open>New\<close>, \<^verbatim>\<open>registerOne\<close>, \<^verbatim>\<open>lookup\<close> and \<^verbatim>\<open>Definitions\<close> of \<^verbatim>\<open>src/core/tools/registry.go\<close>.

  A tool is an interface value: nil, a nil pointer inside an interface, or an implementation. Of an implementation the
  registry sees its definition (\<open>None\<close> when the getter panics) and which optional interfaces it has. The identifier of the
  executor comes from a process-wide counter and is an argument. Definitions are values here, so the defensive copies of the
  source are the values themselves.
\<close>

section \<open>State\<close>

record tool_impl =
  ti_Definition :: "tool option"
  ti_Planner :: bool
  ti_Activator :: bool

datatype tool_value = NoTool | TypedNil | ToolValue tool_impl

record registered =
  rg_tool :: tool_impl
  rg_def :: tool
  rg_schema :: compiled_schema
  rg_planner :: bool
  rg_activator :: bool

record executor =
  ex_id :: nat
  ex_tools :: "registered list"
  ex_byName :: "(string, nat) gmap"
  ex_input :: input_limits
  ex_output :: output_limits
  ex_parallel :: int

definition maxRegisteredTools :: nat where "maxRegisteredTools = 128"
definition maxDescriptionBytes :: nat where "maxDescriptionBytes = 4 * 2 ^ 10"
definition maxSchemaBytes :: nat where "maxSchemaBytes = 64 * 2 ^ 10"
definition maxDefinitionsBytes :: int where "maxDefinitionsBytes = 4 * 2 ^ 20"

section \<open>Registration\<close>

definition config_error :: "config_fault \<Rightarrow> tools_error + 'a" where
  "config_error f = Inl (ErrInvalidConfig f)"

definition checkDefinitionBounds :: "nat \<Rightarrow> tool \<Rightarrow> tools_error + unit" where
  "checkDefinitionBounds index def =
     (if \<not> utf8_valid (t_Name def) \<or> \<not> utf8_valid (t_Description def) then config_error (DefinitionUtf8 index)
      else if length (t_Description def) > maxDescriptionBytes then config_error (DescriptionBytes index)
      else if length (t_Parameters def) > maxSchemaBytes then config_error (SchemaBytes index)
      else Inr ())"

definition checkDefinition :: "regexps \<Rightarrow> nat \<Rightarrow> input_limits \<Rightarrow> tool \<Rightarrow> tools_error + compiled_schema" where
  "checkDefinition X index L def =
     (case Tool_Validate def of
        Inl e \<Rightarrow> config_error (DefinitionInvalid index e)
      | Inr _ \<Rightarrow>
          if \<not> validToolName (t_Name def) then config_error (NotPortable index)
          else if int (length (t_Name def)) > il_MaxToolNameBytes L then config_error (NameBytes index)
          else if t_Description def = [] then config_error (NoDescription index)
          else if 0 \<in> set (runes (t_Description def)) then config_error (DescriptionNul index)
          else case compileSchema X (t_Parameters def) of
            Inl _ \<Rightarrow> config_error (BadSchema index)
          | Inr s \<Rightarrow> Inr s)"

definition registerOne :: "regexps \<Rightarrow> tool_value \<Rightarrow> nat \<Rightarrow> input_limits \<Rightarrow> tools_error + registered \<times> int" where
  "registerOne X v index L =
     (case v of
        NoTool \<Rightarrow> config_error (NilTool index)
      | TypedNil \<Rightarrow> config_error (TypedNilTool index)
      | ToolValue t \<Rightarrow>
          if ti_Activator t \<and> \<not> ti_Planner t then config_error (ActivatorWithoutPlanner index)
          else case ti_Definition t of
            None \<Rightarrow> config_error (DefinitionPanic index)
          | Some def \<Rightarrow>
              rbind (checkDefinitionBounds index def) (\<lambda>_.
              rbind (checkDefinition X index L def) (\<lambda>s.
              Inr (\<lparr>rg_tool = t, rg_def = def, rg_schema = s, rg_planner = ti_Planner t, rg_activator = ti_Activator t\<rparr>,
                int (length (t_Description def) + length (t_Parameters def))))))"

text \<open>The loop of \<^verbatim>\<open>New\<close> over the tools, with the bytes and the pattern cost so far.\<close>

fun register_tools :: "regexps \<Rightarrow> nat \<Rightarrow> int \<Rightarrow> int \<Rightarrow> executor \<Rightarrow> tool_value list \<Rightarrow> tools_error + executor" where
  "register_tools X i defBytes regexCost ex [] = Inr ex"
| "register_tools X i defBytes regexCost ex (t # ts) =
     rbind (registerOne X t i (ex_input ex)) (\<lambda>(reg, n).
     case add64 defBytes n of
       None \<Rightarrow> config_error DefinitionsBytes
     | Some acc \<Rightarrow>
         if acc > maxDefinitionsBytes then config_error DefinitionsBytes
         else if cs_regexCost (cs_facets (rg_schema reg)) > maxRegexTotal - regexCost then config_error PatternBudget
         else if map_of (ex_byName ex) (t_Name (rg_def reg)) \<noteq> None
           then config_error (config_fault.DuplicateTool (t_Name (rg_def reg)))
         else register_tools X (i + 1) acc (regexCost + cs_regexCost (cs_facets (rg_schema reg)))
           (ex\<lparr>ex_byName := gput (t_Name (rg_def reg)) (length (ex_tools ex)) (ex_byName ex), ex_tools := ex_tools ex @ [reg]\<rparr>) ts)"

definition New :: "regexps \<Rightarrow> int \<Rightarrow> nat \<Rightarrow> tools_config \<Rightarrow> tool_value list \<Rightarrow> tools_error + executor" where
  "New X procs seq cfg ts =
     rbind (normalizeConfig procs cfg) (\<lambda>norm.
     if length ts > maxRegisteredTools then config_error TooManyTools
     else register_tools X 0 0 0
       \<lparr>ex_id = seq + 1, ex_tools = [], ex_byName = [], ex_input = cfg_Input norm, ex_output = cfg_Output norm,
         ex_parallel = cfg_MaxParallel norm\<rparr> ts)"

section \<open>Queries\<close>

definition Definitions :: "executor option \<Rightarrow> tool list" where
  "Definitions e = (case e of None \<Rightarrow> [] | Some ex \<Rightarrow> map rg_def (ex_tools ex))"

definition zero_input :: input_limits where
  "zero_input = \<lparr>il_MaxCalls = 0, il_MaxCallIDBytes = 0, il_MaxToolNameBytes = 0, il_MaxArgumentsBytes = 0, il_MaxBatchArgumentBytes = 0\<rparr>"

definition zero_output :: output_limits where
  "zero_output = \<lparr>ol_MaxBlocks = 0, ol_MaxTextBytes = 0, ol_MaxImageBytes = 0, ol_MaxImageWidth = 0, ol_MaxImageHeight = 0,
     ol_MaxImagePixels = 0, ol_MaxFramedBytes = 0, ol_MaxBatchFramedBytes = 0, ol_MaxMetadataBytes = 0\<rparr>"

definition executorLimits :: "executor option \<Rightarrow> input_limits \<times> output_limits" where
  "executorLimits e = (case e of None \<Rightarrow> (zero_input, zero_output) | Some ex \<Rightarrow> (ex_input ex, ex_output ex))"

definition lookup :: "executor \<Rightarrow> string \<Rightarrow> registered option" where
  "lookup ex name = (case map_of (ex_byName ex) name of None \<Rightarrow> None | Some i \<Rightarrow> Some (ex_tools ex ! i))"

section \<open>What a registry holds\<close>

definition tool_bytes :: "registered \<Rightarrow> int" where
  "tool_bytes r = int (length (t_Description (rg_def r)) + length (t_Parameters (rg_def r)))"

definition tool_cost :: "registered \<Rightarrow> int" where
  "tool_cost r = cs_regexCost (cs_facets (rg_schema r))"

definition tool_name :: "registered \<Rightarrow> string" where
  "tool_name r = t_Name (rg_def r)"

text \<open>A sound entry: a portable name, a description, a schema compiled from its own parameters.\<close>

definition entry_sound :: "regexps \<Rightarrow> input_limits \<Rightarrow> registered \<Rightarrow> bool" where
  "entry_sound X L r \<longleftrightarrow> validToolName (tool_name r) \<and> int (length (tool_name r)) \<le> il_MaxToolNameBytes L
     \<and> t_Description (rg_def r) \<noteq> [] \<and> length (t_Description (rg_def r)) \<le> maxDescriptionBytes
     \<and> length (t_Parameters (rg_def r)) \<le> maxSchemaBytes \<and> Tool_Validate (rg_def r) = Inr ()
     \<and> compileSchema X (t_Parameters (rg_def r)) = Inr (rg_schema r) \<and> wf_schema (rg_schema r)
     \<and> (rg_activator r \<longrightarrow> rg_planner r)"

definition registry_ok :: "regexps \<Rightarrow> executor \<Rightarrow> bool" where
  "registry_ok X ex \<longleftrightarrow> (\<forall>r \<in> set (ex_tools ex). entry_sound X (ex_input ex) r)
     \<and> (\<forall>name i. map_of (ex_byName ex) name = Some i \<longleftrightarrow> i < length (ex_tools ex) \<and> tool_name (ex_tools ex ! i) = name)"

lemma registerOne_Inr:
  assumes "registerOne X v i L = Inr (r, n)"
  shows "entry_sound X L r \<and> n = tool_bytes r \<and> (\<exists>t. v = ToolValue t \<and> ti_Definition t = Some (rg_def r) \<and> rg_tool r = t
    \<and> rg_planner r = ti_Planner t \<and> rg_activator r = ti_Activator t)"
proof -
  from assms obtain t def where t: "v = ToolValue t" "\<not> (ti_Activator t \<and> \<not> ti_Planner t)" "ti_Definition t = Some def"
      "checkDefinitionBounds i def = Inr ()" "checkDefinition X i L def = Inr (rg_schema r)"
    and r: "r = \<lparr>rg_tool = t, rg_def = def, rg_schema = rg_schema r, rg_planner = ti_Planner t, rg_activator = ti_Activator t\<rparr>"
      "n = int (length (t_Description def) + length (t_Parameters def))"
    by (auto simp: registerOne_def config_error_def result_simps Let_def split: tool_value.splits if_splits option.splits)
  have d: "rg_def r = def" "rg_tool r = t" "rg_planner r = ti_Planner t" "rg_activator r = ti_Activator t"
    by (subst r(1), simp)+
  have b: "length (t_Description def) \<le> maxDescriptionBytes" "length (t_Parameters def) \<le> maxSchemaBytes"
    using t(4) by (auto simp: checkDefinitionBounds_def config_error_def split: if_splits)
  have v: "Tool_Validate def = Inr ()" "validToolName (t_Name def)" "int (length (t_Name def)) \<le> il_MaxToolNameBytes L"
    "t_Description def \<noteq> []" "compileSchema X (t_Parameters def) = Inr (rg_schema r)"
    using t(5) by (auto simp: checkDefinition_def config_error_def split: sum.splits if_splits)
  show ?thesis
    using t(1-3) b v schema_wf [OF v(5)] r(2) by (simp add: entry_sound_def tool_name_def tool_bytes_def d)
qed

lemma registry_ok_snoc:
  assumes "registry_ok X ex" "entry_sound X (ex_input ex) r" "map_of (ex_byName ex) (tool_name r) = None"
  shows "registry_ok X (ex\<lparr>ex_byName := gput (tool_name r) (length (ex_tools ex)) (ex_byName ex), ex_tools := ex_tools ex @ [r]\<rparr>)"
proof -
  have "tool_name (ex_tools ex ! i) \<noteq> tool_name r" if "i < length (ex_tools ex)" for i
    using assms(1,3) that by (metis registry_ok_def option.distinct(1))
  with assms show ?thesis
    unfolding registry_ok_def by (auto simp: nth_append less_Suc_eq)
qed

lemma register_tools_Inr:
  assumes "register_tools X i b k ex ts = Inr ex'" "registry_ok X ex" "b = sum_list (map tool_bytes (ex_tools ex))"
    "k = sum_list (map tool_cost (ex_tools ex))" "b \<le> maxDefinitionsBytes" "k \<le> maxRegexTotal"
  shows "registry_ok X ex' \<and> sum_list (map tool_bytes (ex_tools ex')) \<le> maxDefinitionsBytes
    \<and> sum_list (map tool_cost (ex_tools ex')) \<le> maxRegexTotal \<and> ex_input ex' = ex_input ex \<and> ex_output ex' = ex_output ex
    \<and> ex_parallel ex' = ex_parallel ex
    \<and> (\<exists>new. ex_tools ex' = ex_tools ex @ new \<and> ts = map (\<lambda>r. ToolValue (rg_tool r)) new
        \<and> (\<forall>r \<in> set new. ti_Definition (rg_tool r) = Some (rg_def r)))"
  using assms
proof (induction ts arbitrary: i b k ex)
  case Nil
  then show ?case by auto
next
  case (Cons t ts)
  from Cons.prems(1) obtain reg n acc where one: "registerOne X t i (ex_input ex) = Inr (reg, n)"
    and add: "add64 b n = Some acc" "acc \<le> maxDefinitionsBytes" "tool_cost reg \<le> maxRegexTotal - k"
    and new: "map_of (ex_byName ex) (tool_name reg) = None"
    and rest: "register_tools X (i + 1) acc (k + tool_cost reg)
      (ex\<lparr>ex_byName := gput (tool_name reg) (length (ex_tools ex)) (ex_byName ex), ex_tools := ex_tools ex @ [reg]\<rparr>) ts = Inr ex'"
    by (auto simp: result_simps config_error_def tool_cost_def tool_name_def split: option.splits if_splits)
  note r = registerOne_Inr [OF one]
  have "0 \<le> n" "n \<le> 69632" using r by (auto simp: entry_sound_def tool_bytes_def maxDescriptionBytes_def maxSchemaBytes_def)
  moreover have "0 \<le> b" unfolding Cons.prems(3) by (rule sum_list_nonneg) (auto simp: tool_bytes_def)
  ultimately have "in_int64 b" "in_int64 n" "in_int64 (b + n)"
    using Cons.prems(5) by (auto simp: in_int64_def max_int64_def min_int64_def maxDefinitionsBytes_def)
  then have acc: "acc = b + n" using add(1) by (simp add: add64_exact)
  from Cons.IH [OF rest registry_ok_snoc [OF Cons.prems(2) _ new]] r Cons.prems add acc
  show ?case by auto
qed

lemma lookup_iff: "registry_ok X ex \<Longrightarrow> lookup ex name = Some r \<longleftrightarrow> r \<in> set (ex_tools ex) \<and> tool_name r = name"
proof -
  assume ok: "registry_ok X ex"
  then have names: "map_of (ex_byName ex) name = Some i \<longleftrightarrow> i < length (ex_tools ex) \<and> tool_name (ex_tools ex ! i) = name" for name i
    by (simp add: registry_ok_def)
  have inj: "i = j" if "i < length (ex_tools ex)" "j < length (ex_tools ex)" "tool_name (ex_tools ex ! i) = tool_name (ex_tools ex ! j)" for i j
    using that names [of "tool_name (ex_tools ex ! i)"] by (metis option.inject)
  show ?thesis
  proof
    assume "lookup ex name = Some r"
    then obtain i where "map_of (ex_byName ex) name = Some i" "r = ex_tools ex ! i" by (auto simp: lookup_def split: option.splits)
    with names show "r \<in> set (ex_tools ex) \<and> tool_name r = name" by simp
  next
    assume r: "r \<in> set (ex_tools ex) \<and> tool_name r = name"
    then obtain i where "i < length (ex_tools ex)" "r = ex_tools ex ! i" by (auto simp: in_set_conv_nth)
    with r names [of name i] show "lookup ex name = Some r" by (simp add: lookup_def)
  qed
qed

lemma New_Inr:
  assumes "New X procs seq cfg ts = Inr ex"
  shows "registry_ok X ex" "sum_list (map tool_bytes (ex_tools ex)) \<le> maxDefinitionsBytes"
    "sum_list (map tool_cost (ex_tools ex)) \<le> maxRegexTotal" "length (ex_tools ex) \<le> maxRegisteredTools"
    "ts = map (\<lambda>r. ToolValue (rg_tool r)) (ex_tools ex)" "\<forall>r \<in> set (ex_tools ex). ti_Definition (rg_tool r) = Some (rg_def r)"
    "\<exists>norm. normalizeConfig procs cfg = Inr norm \<and> ex_input ex = cfg_Input norm \<and> ex_output ex = cfg_Output norm"
proof -
  from assms obtain norm where n: "normalizeConfig procs cfg = Inr norm" "length ts \<le> maxRegisteredTools"
    and run: "register_tools X 0 0 0 \<lparr>ex_id = seq + 1, ex_tools = [], ex_byName = [], ex_input = cfg_Input norm,
      ex_output = cfg_Output norm, ex_parallel = cfg_MaxParallel norm\<rparr> ts = Inr ex"
    by (auto simp: New_def result_simps config_error_def split: if_splits)
  have r: "registry_ok X \<lparr>ex_id = seq + 1, ex_tools = [], ex_byName = [], ex_input = cfg_Input norm,
      ex_output = cfg_Output norm, ex_parallel = cfg_MaxParallel norm\<rparr>" by (simp add: registry_ok_def)
  have z: "0 \<le> maxDefinitionsBytes" "0 \<le> maxRegexTotal" by (simp_all add: maxDefinitionsBytes_def maxRegexTotal_def)
  note main = register_tools_Inr [OF run r]
  show "registry_ok X ex" "sum_list (map tool_bytes (ex_tools ex)) \<le> maxDefinitionsBytes"
    "sum_list (map tool_cost (ex_tools ex)) \<le> maxRegexTotal" "length (ex_tools ex) \<le> maxRegisteredTools"
    "ts = map (\<lambda>r. ToolValue (rg_tool r)) (ex_tools ex)" "\<forall>r \<in> set (ex_tools ex). ti_Definition (rg_tool r) = Some (rg_def r)"
    "\<exists>norm. normalizeConfig procs cfg = Inr norm \<and> ex_input ex = cfg_Input norm \<and> ex_output ex = cfg_Output norm"
    using main z n by auto
qed

text \<open>C34 (invariant). What \<^verbatim>\<open>New\<close> returns is a sound registry: every entry has a portable unique name, a bounded description
  and the schema compiled from its own parameters; \<^verbatim>\<open>lookup\<close> finds an entry by its name and nothing else; counts, bytes and
  pattern costs stay within their limits, and \<^verbatim>\<open>Definitions\<close> gives the definitions in the order of registration.\<close>

theorem registry_sound:
  assumes "New X procs seq cfg ts = Inr ex"
  shows "(\<forall>r \<in> set (ex_tools ex). entry_sound X (ex_input ex) r)
    \<and> (\<forall>name r. lookup ex name = Some r \<longleftrightarrow> r \<in> set (ex_tools ex) \<and> tool_name r = name)
    \<and> distinct (map tool_name (ex_tools ex))
    \<and> length (ex_tools ex) \<le> maxRegisteredTools \<and> sum_list (map tool_bytes (ex_tools ex)) \<le> maxDefinitionsBytes
    \<and> sum_list (map tool_cost (ex_tools ex)) \<le> maxRegexTotal
    \<and> Definitions (Some ex) = map (\<lambda>v. case v of ToolValue t \<Rightarrow> the (ti_Definition t)) ts"
proof -
  note n = New_Inr [OF assms]
  have names: "map_of (ex_byName ex) name = Some i \<longleftrightarrow> i < length (ex_tools ex) \<and> tool_name (ex_tools ex ! i) = name" for name i
    using n(1) by (simp add: registry_ok_def)
  have "distinct (map tool_name (ex_tools ex))"
    unfolding distinct_conv_nth using names by (metis length_map nth_map option.inject)
  moreover have "Definitions (Some ex) = map (\<lambda>v. case v of ToolValue t \<Rightarrow> the (ti_Definition t)) ts"
    using n(6) by (subst n(5)) (simp add: Definitions_def)
  ultimately show ?thesis using n lookup_iff [OF n(1)] by (auto simp: registry_ok_def)
qed

end
