(* ===== verification/Claims.thy ===== *)
theory Claims
  imports Tool_Limits
begin

text \<open>
  Resource claims of tool calls: \<^verbatim>\<open>src/core/tools/resource.go\<close> and the claim types of
  \<^verbatim>\<open>tool.go\<close>. \<^verbatim>\<open>Access\<close> is an unsigned byte in Go, so a caller may build a value that
  is neither read nor write: \<open>access\<close> keeps the number.

  A claim set is read through \<open>claim_map\<close>, the strongest access per resource; merging, conflict and
  extension are proved against that view.
\<close>

section \<open>Claims\<close>

datatype access = Access nat

definition AccessRead :: access where "AccessRead = Access 1"
definition AccessWrite :: access where "AccessWrite = Access 2"

instantiation access :: linorder
begin

definition less_eq_access :: "access \<Rightarrow> access \<Rightarrow> bool" where
  "less_eq_access a b \<longleftrightarrow> (case a of Access m \<Rightarrow> case b of Access n \<Rightarrow> m \<le> n)"

definition less_access :: "access \<Rightarrow> access \<Rightarrow> bool" where
  "less_access a b \<longleftrightarrow> (case a of Access m \<Rightarrow> case b of Access n \<Rightarrow> m < n)"

instance
  by standard (auto simp: less_eq_access_def less_access_def split: access.splits)

end

record claim =
  cl_Resource :: string
  cl_Access :: access

definition rootResource :: string where "rootResource = ''serpe.tools.root.v1''"

definition rootRead :: claim where "rootRead = \<lparr>cl_Resource = rootResource, cl_Access = AccessRead\<rparr>"
definition rootWrite :: claim where "rootWrite = \<lparr>cl_Resource = rootResource, cl_Access = AccessWrite\<rparr>"

definition maxClaimsPerCall :: nat where "maxClaimsPerCall = 64"
definition maxResourceBytes :: nat where "maxResourceBytes = 4096"

definition validateClaim :: "nat \<Rightarrow> claim \<Rightarrow> exec_fault + unit" where
  "validateClaim i c =
     (if cl_Access c \<noteq> AccessRead \<and> cl_Access c \<noteq> AccessWrite then Inl (ClaimAccess i)
      else if cl_Resource c = [] then Inl (ResourceEmpty i)
      else if \<not> utf8_valid (cl_Resource c) then Inl (ResourceUtf8 i)
      else if length (cl_Resource c) > maxResourceBytes then Inl (ResourceBytes i)
      else if has_control (cl_Resource c) then Inl (ResourceControl i)
      else Inr ())"

text \<open>The merging loop of \<^verbatim>\<open>normalizeClaims\<close>.\<close>

fun merge_claims :: "nat \<Rightarrow> (string, access) gmap \<Rightarrow> claim list \<Rightarrow> exec_fault + (string, access) gmap" where
  "merge_claims i merged [] = Inr merged"
| "merge_claims i merged (c # cs) =
     rbind (validateClaim i c) (\<lambda>_.
       merge_claims (i + 1)
         (case map_of merged (cl_Resource c) of
            None \<Rightarrow> gput (cl_Resource c) (cl_Access c) merged
          | Some prev \<Rightarrow>
              if cl_Access c = AccessWrite \<or> prev < cl_Access c
              then gput (cl_Resource c) (cl_Access c) merged else merged) cs)"

definition normalizeClaims :: "claim list \<Rightarrow> exec_fault + claim list" where
  "normalizeClaims cs =
     (if length cs > maxClaimsPerCall then Inl ClaimBudget
      else rbind (merge_claims 0 [] cs) (\<lambda>merged.
        Inr (sort_key cl_Resource (map (\<lambda>(r, a). \<lparr>cl_Resource = r, cl_Access = a\<rparr>) merged))))"

text \<open>The index built from a claim list: a later claim on a resource replaces an earlier one.\<close>

definition claim_index :: "claim list \<Rightarrow> (string, access) gmap" where
  "claim_index cs = foldl (\<lambda>m c. gput (cl_Resource c) (cl_Access c) m) [] cs"

definition claimsConflict :: "claim list \<Rightarrow> claim list \<Rightarrow> bool" where
  "claimsConflict a b \<longleftrightarrow>
     (if a = [] \<or> b = [] then False
      else let ib = claim_index b in
        list_ex (\<lambda>c. case map_of ib (cl_Resource c) of
            None \<Rightarrow> False
          | Some other \<Rightarrow> cl_Access c = AccessWrite \<or> other = AccessWrite) a)"

definition extendClaims :: "claim list \<Rightarrow> claim list \<Rightarrow> exec_fault + claim list" where
  "extendClaims base extra =
     (if length extra > maxClaimsPerCall \<or> int (length base) > int maxClaimsPerCall - int (length extra)
      then Inl ClaimBudget
      else let have_map = claim_index base in
        if list_ex (\<lambda>c. map_of have_map (cl_Resource c) = Some AccessWrite \<and> cl_Access c = AccessRead) extra
        then Inl WeakensWrite
        else normalizeClaims (base @ extra))"

section \<open>Claim sets\<close>

text \<open>A normalised claim list: one claim per resource, in the order of the resources, each valid.\<close>

definition claims_normal :: "claim list \<Rightarrow> bool" where
  "claims_normal cs \<longleftrightarrow> sorted (map cl_Resource cs) \<and> distinct (map cl_Resource cs)
     \<and> (\<forall>c \<in> set cs. validateClaim 0 c = Inr ())"

text \<open>The access a claim list asks for on a resource: write if any claim writes.\<close>

definition writes :: "claim list \<Rightarrow> string \<Rightarrow> bool" where
  "writes cs r \<longleftrightarrow> (\<exists>c \<in> set cs. cl_Resource c = r \<and> cl_Access c = AccessWrite)"

definition touches :: "claim list \<Rightarrow> string \<Rightarrow> bool" where
  "touches cs r \<longleftrightarrow> (\<exists>c \<in> set cs. cl_Resource c = r)"

lemma access_distinct [simp]: "AccessRead \<noteq> AccessWrite" "AccessWrite \<noteq> AccessRead"
  by (simp_all add: AccessRead_def AccessWrite_def)

lemma validateClaim_iff:
  "validateClaim i c = Inr u \<longleftrightarrow> (cl_Access c = AccessRead \<or> cl_Access c = AccessWrite) \<and> cl_Resource c \<noteq> []
     \<and> utf8_valid (cl_Resource c) \<and> length (cl_Resource c) \<le> maxResourceBytes \<and> \<not> has_control (cl_Resource c)"
  by (auto simp: validateClaim_def)

lemma validateClaim_index: "validateClaim i c = Inr () \<longleftrightarrow> validateClaim 0 c = Inr ()"
  by (simp add: validateClaim_iff)

text \<open>The merged map has, for each resource, write if some claim writes and read otherwise.\<close>

definition merged_ok :: "claim list \<Rightarrow> (string, access) gmap \<Rightarrow> bool" where
  "merged_ok cs m \<longleftrightarrow> wf_gmap m \<and>
     (\<forall>r. map_of m r = (if writes cs r then Some AccessWrite else if touches cs r then Some AccessRead else None))"

lemma writes_append [simp]: "writes (xs @ ys) r \<longleftrightarrow> writes xs r \<or> writes ys r"
  by (auto simp: writes_def)

lemma touches_append [simp]: "touches (xs @ ys) r \<longleftrightarrow> touches xs r \<or> touches ys r"
  by (auto simp: touches_def)

lemma writes_touches: "writes cs r \<Longrightarrow> touches cs r"
  by (auto simp: writes_def touches_def)

lemma single_claim [simp]:
  "writes [c] r \<longleftrightarrow> cl_Resource c = r \<and> cl_Access c = AccessWrite" "touches [c] r \<longleftrightarrow> cl_Resource c = r"
  "\<not> writes [] r" "\<not> touches [] r"
  by (auto simp: writes_def touches_def)

lemma merge_step:
  assumes "merged_ok seen m" "cl_Access c = AccessRead \<or> cl_Access c = AccessWrite"
  shows "merged_ok (seen @ [c]) (case map_of m (cl_Resource c) of
            None \<Rightarrow> gput (cl_Resource c) (cl_Access c) m
          | Some prev \<Rightarrow>
              if cl_Access c = AccessWrite \<or> prev < cl_Access c
              then gput (cl_Resource c) (cl_Access c) m else m)"
  using assms
  by (auto simp: merged_ok_def less_access_def AccessRead_def AccessWrite_def writes_touches
      split: option.splits if_splits access.splits)

lemma merge_claims_Inr:
  "merge_claims i m cs = Inr m' \<Longrightarrow> merged_ok seen m \<Longrightarrow>
     merged_ok (seen @ cs) m' \<and> (\<forall>c \<in> set cs. validateClaim 0 c = Inr ())"
proof (induction cs arbitrary: i m seen)
  case (Cons c cs)
  then have v: "validateClaim i c = Inr ()" by (auto simp: result_simps)
  then have a: "cl_Access c = AccessRead \<or> cl_Access c = AccessWrite" by (simp add: validateClaim_iff)
  from Cons.prems v have "merge_claims (i + 1) (case map_of m (cl_Resource c) of
            None \<Rightarrow> gput (cl_Resource c) (cl_Access c) m
          | Some prev \<Rightarrow>
              if cl_Access c = AccessWrite \<or> prev < cl_Access c
              then gput (cl_Resource c) (cl_Access c) m else m) cs = Inr m'" by simp
  from Cons.IH [OF this merge_step [OF Cons.prems(2) a]] v show ?case
    by (simp add: validateClaim_index [of i])
qed simp

lemma merge_claims_total:
  "\<forall>c \<in> set cs. validateClaim 0 c = Inr () \<Longrightarrow> \<exists>m'. merge_claims i m cs = Inr m'"
proof (induction cs arbitrary: i m)
  case (Cons c cs)
  then have "validateClaim i c = Inr ()" by (simp add: validateClaim_iff)
  with Cons show ?case by simp
qed simp

lemma merged_Nil: "merged_ok [] []"
  by (simp add: merged_ok_def)

lemma keys_of_claims [simp]:
  "map cl_Resource (map (\<lambda>(r, a). \<lparr>cl_Resource = r, cl_Access = a\<rparr>) m) = map fst m"
  by (auto simp: case_prod_beta)

lemma claims_of_map:
  assumes "wf_gmap m"
  shows "writes (map (\<lambda>(r, a). \<lparr>cl_Resource = r, cl_Access = a\<rparr>) m) r \<longleftrightarrow> map_of m r = Some AccessWrite"
    and "touches (map (\<lambda>(r, a). \<lparr>cl_Resource = r, cl_Access = a\<rparr>) m) r \<longleftrightarrow> map_of m r \<noteq> None"
  using assms wf_gmap_map_of [OF assms]
  by (force simp: writes_def touches_def)+

lemma claims_set_cong: "set xs = set ys \<Longrightarrow> writes xs r = writes ys r \<and> touches xs r = touches ys r"
  by (simp add: writes_def touches_def)

lemma claim_of_pair:
  assumes "merged_ok cs m" "\<forall>c \<in> set cs. validateClaim 0 c = Inr ()" "(r, a) \<in> set m"
  shows "validateClaim 0 \<lparr>cl_Resource = r, cl_Access = a\<rparr> = Inr ()"
proof -
  have "map_of m r = Some a" using assms(1,3) by (simp add: merged_ok_def wf_gmap_map_of)
  then have "touches cs r" "a = AccessRead \<or> a = AccessWrite"
    using assms(1) by (auto simp: merged_ok_def writes_touches split: if_splits)
  with assms(2) show ?thesis by (auto simp: touches_def validateClaim_iff)
qed

text \<open>Normalisation succeeds exactly on short lists of valid claims, and keeps what they claim.\<close>

lemma normalizeClaims_ok:
  "(\<exists>out. normalizeClaims cs = Inr out) \<longleftrightarrow> length cs \<le> maxClaimsPerCall \<and> (\<forall>c \<in> set cs. validateClaim 0 c = Inr ())"
  using merge_claims_total [of cs 0 "[]"]
  by (auto simp: normalizeClaims_def result_simps split: if_splits dest: merge_claims_Inr [OF _ merged_Nil])

lemma normalizeClaims_Inr:
  assumes "normalizeClaims cs = Inr out"
  shows "claims_normal out" and "writes out r \<longleftrightarrow> writes cs r" and "touches out r \<longleftrightarrow> touches cs r"
proof -
  from assms obtain m where m: "merge_claims 0 [] cs = Inr m"
    and out: "out = sort_key cl_Resource (map (\<lambda>(r, a). \<lparr>cl_Resource = r, cl_Access = a\<rparr>) m)"
    by (auto simp: normalizeClaims_def result_simps split: if_splits)
  have ok: "merged_ok cs m" "\<forall>c \<in> set cs. validateClaim 0 c = Inr ()"
    using merge_claims_Inr [OF m merged_Nil] by auto
  have wf: "wf_gmap m" using ok by (simp add: merged_ok_def)
  have "distinct (map cl_Resource (map (\<lambda>(r, a). \<lparr>cl_Resource = r, cl_Access = a\<rparr>) m))"
    using wf by (simp add: wf_gmap_def del: map_map)
  then have "distinct (map cl_Resource out)"
    unfolding out distinct_map by (auto simp: distinct_map)
  then show "claims_normal out"
    using claim_of_pair [OF ok] by (auto simp: claims_normal_def out)
  show "writes out r \<longleftrightarrow> writes cs r" and "touches out r \<longleftrightarrow> touches cs r"
    using claims_set_cong [of out "map (\<lambda>(r, a). \<lparr>cl_Resource = r, cl_Access = a\<rparr>) m" r] ok(1)
      claims_of_map [OF wf, of r] writes_touches [of cs r]
    by (auto simp: out merged_ok_def split: if_splits)
qed

lemma claim_index_snoc: "claim_index (cs @ [c]) = gput (cl_Resource c) (cl_Access c) (claim_index cs)"
  by (simp add: claim_index_def)

lemma claim_index_normal:
  "distinct (map cl_Resource cs) \<Longrightarrow> map_of (claim_index cs) r = Some a \<longleftrightarrow>
     (\<exists>c \<in> set cs. cl_Resource c = r \<and> cl_Access c = a)"
proof (induction cs rule: rev_induct)
  case Nil
  then show ?case by (simp add: claim_index_def)
next
  case (snoc c cs)
  then show ?case by (auto simp: claim_index_snoc image_iff)
qed

text \<open>Two normalised claim lists conflict exactly when both touch a resource that one of them writes.\<close>

lemma claimsConflict_iff:
  assumes "claims_normal b"
  shows "claimsConflict a b \<longleftrightarrow> (\<exists>r. touches a r \<and> touches b r \<and> (writes a r \<or> writes b r))"
proof -
  have d: "distinct (map cl_Resource b)" using assms by (simp add: claims_normal_def)
  have "claimsConflict a b \<longleftrightarrow> (\<exists>c \<in> set a. \<exists>o' \<in> set b. cl_Resource o' = cl_Resource c \<and>
      (cl_Access c = AccessWrite \<or> cl_Access o' = AccessWrite))"
  proof -
    have "claimsConflict a b \<longleftrightarrow> (\<exists>c \<in> set a. \<exists>acc. map_of (claim_index b) (cl_Resource c) = Some acc \<and>
        (cl_Access c = AccessWrite \<or> acc = AccessWrite))"
      by (cases "a = [] \<or> b = []")
        (auto simp: claimsConflict_def list_ex_iff Let_def claim_index_def split: option.splits)
    then show ?thesis unfolding claim_index_normal [OF d] by blast
  qed
  also have "\<dots> \<longleftrightarrow> (\<exists>r. touches a r \<and> touches b r \<and> (writes a r \<or> writes b r))"
    unfolding touches_def writes_def by metis
  finally show ?thesis .
qed

lemma claimsConflict_sym: "claims_normal a \<Longrightarrow> claims_normal b \<Longrightarrow> claimsConflict a b = claimsConflict b a"
  by (auto simp: claimsConflict_iff)

definition covers :: "claim list \<Rightarrow> claim list \<Rightarrow> bool" where
  "covers out base \<longleftrightarrow> (\<forall>r. (touches base r \<longrightarrow> touches out r) \<and> (writes base r \<longrightarrow> writes out r))"

lemma covers_refl [simp]: "covers cs cs"
  by (simp add: covers_def)

lemma covers_conflict:
  "covers out base \<Longrightarrow> claims_normal cs \<Longrightarrow> claimsConflict base cs \<Longrightarrow> claimsConflict out cs"
  by (auto simp: claimsConflict_iff covers_def)

lemma covers_conflict':
  "covers out base \<Longrightarrow> claims_normal base \<Longrightarrow> claims_normal out \<Longrightarrow> claimsConflict cs base \<Longrightarrow> claimsConflict cs out"
  by (auto simp: claimsConflict_iff covers_def)

lemma extendClaims_Inr:
  assumes "extendClaims base extra = Inr out"
  shows "claims_normal out" "covers out base" "covers out extra"
    "touches out r \<longleftrightarrow> touches base r \<or> touches extra r" "writes out r \<longleftrightarrow> writes base r \<or> writes extra r"
proof -
  have n: "normalizeClaims (base @ extra) = Inr out"
    using assms by (auto simp: extendClaims_def Let_def split: if_splits)
  from normalizeClaims_Inr [OF n] show "claims_normal out" "covers out base" "covers out extra"
    "touches out r \<longleftrightarrow> touches base r \<or> touches extra r" "writes out r \<longleftrightarrow> writes base r \<or> writes extra r"
    by (auto simp: covers_def)
qed

lemma rootWrite_normal: "claims_normal [rootWrite]"
  by (simp add: claims_normal_def validateClaim_iff rootWrite_def rootResource_def maxResourceBytes_def has_control_def
      runes.simps is_control_def utf8_valid.simps rune_ok_def RuneError_def)

section \<open>Properties\<close>

text \<open>Normalising a claim list keeps exactly the access it asks for: the result is sorted with one
  valid claim per resource, it writes the resources the list writes and touches the resources it touches.\<close>

theorem normalize_claims_exact:
  assumes "normalizeClaims cs = Inr out"
  shows "claims_normal out \<and> (\<forall>r. (writes out r \<longleftrightarrow> writes cs r) \<and> (touches out r \<longleftrightarrow> touches cs r))"
  using normalizeClaims_Inr [OF assms] by blast

theorem normalize_claims_exact_witness:
  "touches (projr (normalizeClaims [rootRead, rootWrite])) rootResource"
proof -
  have "normalizeClaims [rootRead, rootWrite] = Inr (projr (normalizeClaims [rootRead, rootWrite]))"
    by code_simp
  from normalize_claims_exact [OF this] show ?thesis by (simp add: touches_def rootRead_def)
qed

text \<open>An activation only tightens: the extended claims cover the static claims and the extra ones, so
  whatever conflicted with the static claims conflicts with the extended ones.\<close>

theorem extend_claims_tightens:
  assumes "extendClaims base extra = Inr out" and "claims_normal others"
  shows "covers out base \<and> covers out extra \<and> (claimsConflict base others \<longrightarrow> claimsConflict out others)"
  using extendClaims_Inr [OF assms(1)] covers_conflict assms(2) by blast

theorem extend_claims_tightens_witness:
  "covers (projr (extendClaims [rootRead] [rootWrite])) [rootRead]"
proof -
  have e: "extendClaims [rootRead] [rootWrite] = Inr (projr (extendClaims [rootRead] [rootWrite]))"
    by code_simp
  from extend_claims_tightens [OF e rootWrite_normal] show ?thesis by blast
qed

end
