(* ===== verification/Coordinator.thy ===== *)
theory Coordinator
  imports Claims Interfaces
begin

text \<open>
  The resource coordinator shared by every batch of an executor: \<^verbatim>\<open>src/core/tools/coordinator.go\<close>, and the way
  \<^verbatim>\<open>src/core/tools/batch.go\<close> drives it.

  The state is the struct under its mutex. Every method is one function, or one function per section between a lock
  and an unlock where the method blocks: \<^verbatim>\<open>acquireWaiter\<close> is \<open>acquire_enter\<close>, then \<open>acquire_try\<close> once per round of its
  loop, or \<open>acquire_cancel\<close>; \<^verbatim>\<open>extend\<close> is \<open>extend_try\<close> once per round. \<open>co_notify\<close> counts the notification channels
  created so far: a goroutine that read generation \<open>g\<close> wakes when the counter differs from \<open>g\<close>.

  Tickets are \<^verbatim>\<open>uint64\<close>; the code never lets them wrap (\<open>max_uint64\<close> is the guard), so they are \<open>nat\<close>. Waiters are
  compared by pointer in the source and by sequence number here, which is unique to the waiter.

  \<open>coord_step\<close> interleaves the workers of all batches: each call runs the protocol of \<^verbatim>\<open>runCall\<close> one locked section
  at a time, and planning takes permits without a ticket.
\<close>

section \<open>State\<close>

record coord_waiter =
  w_seq :: nat
  w_ticket :: nat
  w_hasTicket :: bool
  w_claims :: "claim list"

record coordinator =
  co_next :: nat
  co_frontier :: nat
  co_exhausted :: bool
  co_pending :: "nat list"
  co_final :: "(nat, claim list) gmap"
  co_released :: "nat list"
  co_held :: "(nat, claim list) gmap"
  co_parallel :: int
  co_inUse :: int
  co_waitSeq :: nat
  co_waiters :: "coord_waiter list"
  co_notify :: nat

definition newCoordinator :: "int \<Rightarrow> coordinator" where
  "newCoordinator par = \<lparr>co_next = 0, co_frontier = 0, co_exhausted = False, co_pending = [], co_final = [],
     co_released = [], co_held = [], co_parallel = par, co_inUse = 0, co_waitSeq = 0, co_waiters = [],
     co_notify = 0\<rparr>"

text \<open>The fields of \<^verbatim>\<open>preparedCall\<close> that the coordinator reads.\<close>

record coord_call =
  pc_rejected :: bool
  pc_hasActivator :: bool
  pc_static :: "claim list"

section \<open>Operations\<close>

definition signalLocked :: "coordinator \<Rightarrow> coordinator" where
  "signalLocked c = c\<lparr>co_notify := co_notify c + 1\<rparr>"

function advance_from :: "nat list \<Rightarrow> nat \<Rightarrow> nat \<Rightarrow> nat" where
  "advance_from pending limit f = (if f < limit \<and> f \<notin> set pending then advance_from pending limit (f + 1) else f)"
  by pat_completeness auto
termination
  by (relation "measure (\<lambda>(pending, limit, f). limit - f)") auto

declare advance_from.simps [simp del]

definition advanceFrontierLocked :: "coordinator \<Rightarrow> coordinator" where
  "advanceFrontierLocked c = c\<lparr>co_frontier := advance_from (co_pending c) (co_next c) (co_frontier c)\<rparr>"

text \<open>The loop of \<^verbatim>\<open>registerBatch\<close>: one ticket per call.\<close>

definition register_one :: "coordinator \<Rightarrow> nat \<Rightarrow> 'a coord_call_scheme \<Rightarrow> coordinator" where
  "register_one c ticket call =
     (if pc_rejected call
      then c\<lparr>co_final := gput ticket [] (co_final c), co_released := List.insert ticket (co_released c)\<rparr>
      else if pc_hasActivator call then c\<lparr>co_pending := List.insert ticket (co_pending c)\<rparr>
      else c\<lparr>co_final := gput ticket (pc_static call) (co_final c)\<rparr>)"

fun register_calls :: "coordinator \<Rightarrow> nat \<Rightarrow> 'a coord_call_scheme list \<Rightarrow> coordinator" where
  "register_calls c ticket [] = c"
| "register_calls c ticket (call # calls) = register_calls (register_one c ticket call) (ticket + 1) calls"

definition registerBatch :: "coordinator \<Rightarrow> 'a coord_call_scheme list \<Rightarrow> exec_fault + nat list \<times> coordinator" where
  "registerBatch c calls =
     (let n = length calls in
      if n = 0 then Inl EmptyRegistration
      else if co_exhausted c \<or> co_next c + n > max_uint64 then Inl TicketsExhausted
      else
        let first = co_next c;
            c1 = register_calls c first calls;
            c2 = c1\<lparr>co_next := first + n\<rparr>;
            c3 = (if co_next c2 = max_uint64 then c2\<lparr>co_exhausted := True\<rparr> else c2)
        in Inr ([first..<first + n], signalLocked (advanceFrontierLocked c3)))"

definition discover :: "coordinator \<Rightarrow> nat \<Rightarrow> claim list \<Rightarrow> exec_fault + coordinator" where
  "discover c ticket claims =
     (if ticket \<notin> set (co_pending c) then Inl (NotPending ticket)
      else Inr (signalLocked (advanceFrontierLocked
        (c\<lparr>co_final := gput ticket claims (co_final c), co_pending := removeAll ticket (co_pending c)\<rparr>))))"

definition claimsFreeExceptLocked :: "coordinator \<Rightarrow> nat \<Rightarrow> claim list \<Rightarrow> bool" where
  "claimsFreeExceptLocked c ticket claims \<longleftrightarrow>
     list_all (\<lambda>(other, held). other = ticket \<or> \<not> claimsConflict held claims) (co_held c)
     \<and> list_all (\<lambda>(other, final). other \<ge> ticket \<or> other \<in> set (co_released c) \<or> \<not> claimsConflict final claims)
         (co_final c)"

definition canGrantLocked :: "coordinator \<Rightarrow> coord_waiter \<Rightarrow> bool" where
  "canGrantLocked c w \<longleftrightarrow>
     (if co_inUse c \<ge> co_parallel c then False
      else if \<not> w_hasTicket w then True
      else if w_ticket w > co_frontier c then False
      else claimsFreeExceptLocked c (w_ticket w) (w_claims w))"

fun earlier_grantable :: "coordinator \<Rightarrow> coord_waiter \<Rightarrow> coord_waiter list \<Rightarrow> bool" where
  "earlier_grantable c w [] = False"
| "earlier_grantable c w (prior # ws) =
     (if w_seq prior = w_seq w then False
      else if w_seq prior < w_seq w \<and> canGrantLocked c prior then True
      else earlier_grantable c w ws)"

definition earlierGrantableLocked :: "coordinator \<Rightarrow> coord_waiter \<Rightarrow> bool" where
  "earlierGrantableLocked c w = earlier_grantable c w (co_waiters c)"

fun remove_waiter :: "nat \<Rightarrow> coord_waiter list \<Rightarrow> coord_waiter list" where
  "remove_waiter q [] = []"
| "remove_waiter q (w # ws) = (if w_seq w = q then ws else w # remove_waiter q ws)"

definition removeWaiterLocked :: "coordinator \<Rightarrow> coord_waiter \<Rightarrow> coordinator" where
  "removeWaiterLocked c w = c\<lparr>co_waiters := remove_waiter (w_seq w) (co_waiters c)\<rparr>"

text \<open>The two kinds of waiter: a permit for planning, and a call with its ticket and static claims.\<close>

definition permit_waiter :: coord_waiter where
  "permit_waiter = \<lparr>w_seq = 0, w_ticket = 0, w_hasTicket = False, w_claims = []\<rparr>"

definition ticket_waiter :: "nat \<Rightarrow> claim list \<Rightarrow> coord_waiter" where
  "ticket_waiter ticket claims = \<lparr>w_seq = 0, w_ticket = ticket, w_hasTicket = True, w_claims = claims\<rparr>"

definition acquire_enter :: "coordinator \<Rightarrow> coord_waiter \<Rightarrow> coord_waiter \<times> coordinator" where
  "acquire_enter c w =
     (let q = co_waitSeq c + 1; w' = w\<lparr>w_seq := q\<rparr>
      in (w', signalLocked (c\<lparr>co_waitSeq := q, co_waiters := co_waiters c @ [w']\<rparr>)))"

definition acquire_try :: "coordinator \<Rightarrow> coord_waiter \<Rightarrow> coordinator option" where
  "acquire_try c w =
     (if canGrantLocked c w \<and> \<not> earlierGrantableLocked c w then
        let c1 = removeWaiterLocked c w;
            c2 = c1\<lparr>co_inUse := co_inUse c1 + 1\<rparr>;
            c3 = (if w_hasTicket w then c2\<lparr>co_held := gput (w_ticket w) (w_claims w) (co_held c2)\<rparr> else c2)
        in Some (signalLocked c3)
      else None)"

definition acquire_cancel :: "coordinator \<Rightarrow> coord_waiter \<Rightarrow> coordinator" where
  "acquire_cancel c w = signalLocked (removeWaiterLocked c w)"

definition releasePermit :: "coordinator \<Rightarrow> coordinator" where
  "releasePermit c = signalLocked (if co_inUse c > 0 then c\<lparr>co_inUse := co_inUse c - 1\<rparr> else c)"

definition extend_try :: "coordinator \<Rightarrow> nat \<Rightarrow> claim list \<Rightarrow> coordinator option" where
  "extend_try c ticket claims =
     (if claimsFreeExceptLocked c ticket claims
      then Some (signalLocked (c\<lparr>co_held := gput ticket claims (co_held c)\<rparr>))
      else None)"

definition release :: "coordinator \<Rightarrow> nat \<Rightarrow> coordinator" where
  "release c ticket =
     (let c1 = (if map_of (co_held c) ticket \<noteq> None
                then let d = c\<lparr>co_held := gdel ticket (co_held c)\<rparr>
                     in if co_inUse d > 0 then d\<lparr>co_inUse := co_inUse d - 1\<rparr> else d
                else c);
          c2 = c1\<lparr>co_pending := removeAll ticket (co_pending c1)\<rparr>;
          c3 = (if map_of (co_final c2) ticket = None then c2\<lparr>co_final := gput ticket [] (co_final c2)\<rparr> else c2);
          c4 = c3\<lparr>co_released := List.insert ticket (co_released c3)\<rparr>
      in signalLocked (advanceFrontierLocked c4))"

section \<open>The protocol of a call\<close>

text \<open>Where \<^verbatim>\<open>runCall\<close> stands: before \<^verbatim>\<open>acquire\<close>, inside its loop, abandoned after a cancelled wait, holding the
  static claims, waiting to extend to the final claims, running with them, or after \<^verbatim>\<open>release\<close>.\<close>

datatype phase =
    Registered | Waiting nat | Abandoned | Granted | Extending "claim list" | Running "claim list" | Done

record call_state =
  cs_phase :: phase
  cs_static :: "claim list"
  cs_activator :: bool

record coord_system =
  sy_co :: coordinator
  sy_calls :: "(nat, call_state) gmap"
  sy_plans :: nat

definition set_phase :: "coord_system \<Rightarrow> nat \<Rightarrow> call_state \<Rightarrow> phase \<Rightarrow> coordinator \<Rightarrow> coord_system" where
  "set_phase s t cs p c = s\<lparr>sy_co := c, sy_calls := gput t (cs\<lparr>cs_phase := p\<rparr>) (sy_calls s)\<rparr>"

text \<open>The workers a batch starts: one per call that was not rejected.\<close>

fun add_workers :: "(nat, call_state) gmap \<Rightarrow> nat \<Rightarrow> 'a coord_call_scheme list \<Rightarrow> (nat, call_state) gmap" where
  "add_workers m ticket [] = m"
| "add_workers m ticket (call # calls) =
     add_workers (if pc_rejected call then m
       else gput ticket \<lparr>cs_phase = Registered, cs_static = pc_static call, cs_activator = pc_hasActivator call\<rparr> m)
       (ticket + 1) calls"

definition static_ok :: "'a coord_call_scheme \<Rightarrow> bool" where
  "static_ok call \<longleftrightarrow> pc_rejected call \<or> claims_normal (pc_static call)"

inductive coord_step :: "coord_system \<Rightarrow> coord_system \<Rightarrow> bool" where
  Register: "registerBatch (sy_co s) (calls :: coord_call list) = Inr (ts, c) \<Longrightarrow> list_all static_ok calls \<Longrightarrow>
    coord_step s (s\<lparr>sy_co := c, sy_calls := add_workers (sy_calls s) (co_next (sy_co s)) calls\<rparr>)"
| Enter: "map_of (sy_calls s) t = Some cs \<Longrightarrow> cs_phase cs = Registered \<Longrightarrow>
    acquire_enter (sy_co s) (ticket_waiter t (cs_static cs)) = (w, c) \<Longrightarrow>
    coord_step s (set_phase s t cs (Waiting (w_seq w)) c)"
| Grant: "map_of (sy_calls s) t = Some cs \<Longrightarrow> cs_phase cs = Waiting q \<Longrightarrow>
    acquire_try (sy_co s) ((ticket_waiter t (cs_static cs))\<lparr>w_seq := q\<rparr>) = Some c \<Longrightarrow>
    coord_step s (set_phase s t cs Granted c)"
| Cancel: "map_of (sy_calls s) t = Some cs \<Longrightarrow> cs_phase cs = Waiting q \<Longrightarrow>
    coord_step s (set_phase s t cs Abandoned
      (acquire_cancel (sy_co s) ((ticket_waiter t (cs_static cs))\<lparr>w_seq := q\<rparr>)))"
| Discover: "map_of (sy_calls s) t = Some cs \<Longrightarrow> cs_phase cs = Granted \<Longrightarrow> cs_activator cs \<Longrightarrow>
    extendClaims (cs_static cs) extra = Inr final \<Longrightarrow> discover (sy_co s) t final = Inr c \<Longrightarrow>
    coord_step s (set_phase s t cs (Extending final) c)"
| Extend: "map_of (sy_calls s) t = Some cs \<Longrightarrow> cs_phase cs = Extending final \<Longrightarrow>
    extend_try (sy_co s) t final = Some c \<Longrightarrow> coord_step s (set_phase s t cs (Running final) c)"
| Release: "map_of (sy_calls s) t = Some cs \<Longrightarrow> cs_phase cs \<noteq> Done \<Longrightarrow> (\<forall>q. cs_phase cs \<noteq> Waiting q) \<Longrightarrow>
    coord_step s (set_phase s t cs Done (release (sy_co s) t))"
| PlanEnter: "acquire_enter (sy_co s) permit_waiter = (w, c) \<Longrightarrow> coord_step s (s\<lparr>sy_co := c\<rparr>)"
| PlanGrant: "w \<in> set (co_waiters (sy_co s)) \<Longrightarrow> \<not> w_hasTicket w \<Longrightarrow> acquire_try (sy_co s) w = Some c \<Longrightarrow>
    coord_step s (s\<lparr>sy_co := c, sy_plans := sy_plans s + 1\<rparr>)"
| PlanCancel: "w \<in> set (co_waiters (sy_co s)) \<Longrightarrow> \<not> w_hasTicket w \<Longrightarrow>
    coord_step s (s\<lparr>sy_co := acquire_cancel (sy_co s) w\<rparr>)"
| PlanDone: "0 < sy_plans s \<Longrightarrow>
    coord_step s (s\<lparr>sy_co := releasePermit (sy_co s), sy_plans := sy_plans s - 1\<rparr>)"

inductive_cases coord_stepE: "coord_step s t"

definition new_system :: "int \<Rightarrow> coord_system" where
  "new_system par = \<lparr>sy_co = newCoordinator par, sy_calls = [], sy_plans = 0\<rparr>"

definition coord_initial :: "coord_system \<Rightarrow> bool" where
  "coord_initial s \<longleftrightarrow> (\<exists>p. 1 \<le> p \<and> p \<le> maxParallelHard \<and> s = new_system p)"

interpretation coord: transition_system coord_initial coord_step .

end
