(* ===== verification/Batch_Plan.thy ===== *)
theory Batch_Plan
  imports Registry Coordinator
begin

text \<open>
  Preflight of a batch: \<^verbatim>\<open>Executor.Start\<close>, \<^verbatim>\<open>callPlan\<close> and \<^verbatim>\<open>recoverable\<close> of
  \<^verbatim>\<open>src/core/tools/batch.go\<close>. Nothing runs yet; each call is checked, validated against its schema and planned.

  Tools are callbacks: \<open>sw_plan i\<close> is what the planner of call \<open>i\<close> does. The context is looked at several times per call:
  \<open>sw_look i k\<close> says whether it is done at the k-th look during call \<open>i\<close>, \<open>sw_permit i\<close> whether it ends while the planner waits
  for its permit.
\<close>

section \<open>Errors\<close>

text \<open>Go errors as the code inspects them: a leaf, or an error that wraps others (\<^verbatim>\<open>fmt.Errorf\<close> with \<^verbatim>\<open>%w\<close>,
  \<^verbatim>\<open>errors.Join\<close>). \<^verbatim>\<open>errors.Is\<close> and \<^verbatim>\<open>errors.As\<close> look at the leaves from left to right. \<open>ErrCancelled\<close> is
  either of \<^verbatim>\<open>context.Canceled\<close> and \<^verbatim>\<open>context.DeadlineExceeded\<close>.\<close>

datatype go_error = Leaf tools_error | Wraps string "go_error list"

fun err_leaves :: "go_error \<Rightarrow> tools_error list" where
  "err_leaves (Leaf e) = [e]"
| "err_leaves (Wraps m es) = concat (map err_leaves es)"

definition is_context :: "go_error \<Rightarrow> bool" where
  "is_context e \<longleftrightarrow> ErrCancelled \<in> set (err_leaves e)"

fun execution_leaf :: "tools_error \<Rightarrow> bool" where
  "execution_leaf (ErrExecution f) = True"
| "execution_leaf _ = False"

definition is_execution :: "go_error \<Rightarrow> bool" where
  "is_execution e \<longleftrightarrow> list_ex execution_leaf (err_leaves e)"

fun call_leaf :: "tools_error \<Rightarrow> bool" where
  "call_leaf (CallError m) = True"
| "call_leaf _ = False"

definition asCallErrorIn :: "go_error \<Rightarrow> string option" where
  "asCallErrorIn e = (case find call_leaf (err_leaves e) of None \<Rightarrow> None | Some l \<Rightarrow> asCallError l)"

definition joinErrors :: "go_error list \<Rightarrow> go_error" where
  "joinErrors es = Wraps [] es"

text \<open>\<^verbatim>\<open>fmt.Errorf("%w: ...%w", ErrExecution, err)\<close>, unless the error is one already.\<close>

definition as_execution :: "string \<Rightarrow> go_error \<Rightarrow> go_error" where
  "as_execution what e = (if is_execution e then e else Wraps what [Leaf (ErrExecution (ToolFault what)), e])"

section \<open>Prepared calls\<close>

record prepared_call =
  pr_index :: nat
  pr_call :: tool_call
  pr_tool :: "registered option"
  pr_limits :: output_limits
  pr_static :: "claim list"
  pr_rejected :: "tool_output option"
  pr_hasActivator :: bool

datatype plan_result = Planned "claim list" | PlanFails go_error | PlanPanics string

record start_world =
  sw_reentrant :: bool
  sw_done :: bool
  sw_look :: "nat \<Rightarrow> nat \<Rightarrow> bool"
  sw_permit :: "nat \<Rightarrow> bool"
  sw_plan :: "nat \<Rightarrow> plan_result"

definition cancelled_error :: go_error where "cancelled_error = Leaf ErrCancelled"

definition execution_error :: "exec_fault \<Rightarrow> go_error" where "execution_error f = Leaf (ErrExecution f)"

definition callPlan :: "start_world \<Rightarrow> nat \<Rightarrow> go_error + claim list" where
  "callPlan w i =
     (if sw_permit w i then Inl cancelled_error
      else case sw_plan w i of
        Planned claims \<Rightarrow> Inr claims
      | PlanFails e \<Rightarrow> Inl e
      | PlanPanics m \<Rightarrow> Inl (execution_error (ToolFault (''Plan panic: '' @ m))))"

text \<open>The environment of an executor: what comes from outside the sources.\<close>

record tool_env =
  te_std :: go_std
  te_sha :: "string \<Rightarrow> string"
  te_rx :: regexps

definition reject :: "tool_env \<Rightarrow> executor \<Rightarrow> prepared_call \<Rightarrow> string \<Rightarrow> prepared_call" where
  "reject E ex pc msg = pc\<lparr>pr_rejected := Some (recoverable (te_std E) (te_sha E) (ex_id ex) (pr_limits pc) msg)\<rparr>"

definition unknown_tool :: "string \<Rightarrow> string" where
  "unknown_tool name = ''unknown tool '' @ sanitizeDiagnostic name 256"

definition mismatch_message :: "eval_error \<Rightarrow> string" where
  "mismatch_message e = (case e of EvalBudget \<Rightarrow> ''schema evaluation budget exceeded''
     | _ \<Rightarrow> ''arguments do not match tool schema'')"

text \<open>The claims a call starts with: the planned ones below a read of the root, or a write of the root.\<close>

definition plan_call :: "tool_env \<Rightarrow> executor \<Rightarrow> start_world \<Rightarrow> registered \<Rightarrow> prepared_call \<Rightarrow> go_error + prepared_call" where
  "plan_call E ex w reg pc =
     (if \<not> rg_planner reg then Inr (pc\<lparr>pr_static := [rootWrite]\<rparr>)
      else case callPlan w (pr_index pc) of
        Inl err \<Rightarrow>
          (case asCallErrorIn err of
             Some msg \<Rightarrow> Inr (reject E ex pc msg)
           | None \<Rightarrow> Inl (if is_context err then err else as_execution ''Plan'' err))
      | Inr claims \<Rightarrow>
          (case normalizeClaims (rootRead # claims) of
             Inl f \<Rightarrow> Inl (execution_error f)
           | Inr static \<Rightarrow> Inr (pc\<lparr>pr_static := static, pr_hasActivator := rg_activator reg\<rparr>)))"

definition prepare_call :: "tool_env \<Rightarrow> executor \<Rightarrow> start_world \<Rightarrow> nat \<Rightarrow> tool_call \<Rightarrow> output_limits \<Rightarrow> go_error + prepared_call" where
  "prepare_call E ex w i call quota =
     (let pc = \<lparr>pr_index = i, pr_call = call, pr_tool = None, pr_limits = quota, pr_static = [], pr_rejected = None,
        pr_hasActivator = False\<rparr> in
      if sw_look w i 0 then Inl cancelled_error
      else if \<not> utf8_valid (tc_Name call) \<or> \<not> validToolName (tc_Name call) then Inr (reject E ex pc (unknown_tool (tc_Name call)))
      else case lookup ex (tc_Name call) of
        None \<Rightarrow> Inr (reject E ex pc (unknown_tool (tc_Name call)))
      | Some reg \<Rightarrow>
          let pc = pc\<lparr>pr_tool := Some reg\<rparr> in
          (case parseArguments (if sw_look w i 1 then Some ErrCancelled else None) (tc_Arguments call) of
             Inl (ArgumentContext e) \<Rightarrow> Inl (Leaf e)
           | Inl (ArgumentJSON e) \<Rightarrow> Inr (reject E ex pc ''invalid tool arguments'')
           | Inr args \<Rightarrow>
               if sw_look w i 2 then Inl cancelled_error
               else (case validate (te_rx E) (\<lambda>k. sw_look w i (3 + k)) (rg_schema reg) args fresh_eval of
                 Inl EvalContext \<Rightarrow> Inl cancelled_error
               | Inl e \<Rightarrow> Inr (reject E ex pc (mismatch_message e))
               | Inr _ \<Rightarrow> plan_call E ex w reg pc)))"

fun prepare_calls :: "tool_env \<Rightarrow> executor \<Rightarrow> start_world \<Rightarrow> nat \<Rightarrow> (tool_call \<times> output_limits) list \<Rightarrow> go_error + prepared_call list" where
  "prepare_calls E ex w i [] = Inr []"
| "prepare_calls E ex w i ((call, quota) # cs) =
     rbind (prepare_call E ex w i call quota) (\<lambda>pc.
     rbind (prepare_calls E ex w (i + 1) cs) (\<lambda>pcs. Inr (pc # pcs)))"

text \<open>The errors of the checks that precede the calls, as values of the wider type.\<close>

definition lift_error :: "tools_error + 'a \<Rightarrow> go_error + 'a" where
  "lift_error r = (case r of Inl e \<Rightarrow> Inl (Leaf e) | Inr x \<Rightarrow> Inr x)"

definition Start :: "tool_env \<Rightarrow> executor option \<Rightarrow> start_world \<Rightarrow> tool_call list \<Rightarrow> int option list \<Rightarrow> go_error + prepared_call list" where
  "Start E e w calls opts =
     (case e of
        None \<Rightarrow> Inl (execution_error (ToolFault ''nil executor''))
      | Some ex \<Rightarrow>
          if sw_reentrant w then Inl (execution_error (ToolFault ''reentrant Start on the same executor''))
          else if sw_done w then Inl cancelled_error
          else rbind (lift_error (checkEnvelope calls (ex_input ex))) (\<lambda>_.
            rbind (lift_error (applyStartOptions opts (ex_output ex) (length calls))) (\<lambda>limits.
            rbind (lift_error (allocateCallQuotas limits (length calls))) (\<lambda>quotas.
            prepare_calls E ex w 0 (zip calls quotas)))))"

end
