(* ===== verification/Batch.thy ===== *)
theory Batch
  imports Batch_Plan
begin

text \<open>
  The run of a batch: \<^verbatim>\<open>Next\<close>, \<^verbatim>\<open>dispatch\<close>, \<^verbatim>\<open>runCall\<close>, \<^verbatim>\<open>Close\<close> and their helpers in
  \<^verbatim>\<open>src/core/tools/batch.go\<close>, as threads that interleave.

  A thread is the list of actions it has still to do. An action is one section of the source between points where other
  goroutines can be seen: a slot written under the mutex, a send on the channel, a call into the coordinator, a callback. A
  branching action looks at the state (or takes the reply of a callback) and puts the actions of the branch in its place;
  \<open>emitRejected\<close>, \<open>fail\<close> and the other helpers are lists of actions, in the order of their statements. The coordinator is the
  system of theory Coordinator, so that calls of other batches take part.

  \<open>bt_sent\<close> and \<open>bt_panic\<close> record what happened and are not in the source: all events that went into the channel, and
  whether the channel was used after it was closed.
\<close>

section \<open>State\<close>

datatype event_kind = BatchStarted | BatchFinished | BatchFailed

record batch_event =
  be_Kind :: event_kind
  be_Index :: nat
  be_Call :: tool_call
  be_Executed :: bool
  be_Output :: "tool_output option"
  be_Err :: "go_error option"

text \<open>A result state with the field that goes with it.\<close>

datatype batch_result = ResultPending | ResultRunning | ResultFinished tool_output | ResultFailed go_error | ResultSkipped

text \<open>What \<^verbatim>\<open>Activate\<close> returns; \<open>ac_run\<close> and \<open>ac_close\<close> say whether the functions are there.\<close>

record activation =
  ac_claims :: "claim list"
  ac_run :: bool
  ac_close :: bool

datatype action =
    ASlot nat batch_result | ASend batch_event | ARelease nat | ACancel | AFatal nat go_error
  | ACheck nat | AAcquire nat | AWait nat nat | AActivate nat | ADiscover nat activation "claim list"
  | AExtend nat activation "claim list" | ARun nat activation | AExecute nat | AFinal nat tool_output | AEnded nat go_error
  | ACancelled nat bool go_error | ACancelEnd nat bool bool go_error
  | ARegister | ASpawn nat | AJoin | ASummary | ACloseEvents

text \<open>What the world answers: nothing, a round of a wait loop, the end of the context in a wait, the callbacks with the
  error of the close that may follow (\<open>None\<close>: no error). Panics of callbacks are errors here, as the recovering wrappers
  make them.\<close>

datatype reply =
    RNone | RTry | RDone "go_error option"
  | RActivate "go_error + activation" "go_error option"
  | RRun "go_error + tool_output" "go_error option"

datatype thread = Dispatcher | Worker nat | Closer

record batch =
  bt_calls :: "prepared_call list"
  bt_tickets :: "nat list"
  bt_started :: bool
  bt_closed :: bool
  bt_cancelled :: bool
  bt_parent :: bool
  bt_slots :: "batch_result list"
  bt_current :: "batch_event option"
  bt_err :: "go_error option"
  bt_fatals :: "(nat \<times> go_error) list"
  bt_queue :: "batch_event list"
  bt_eventsClosed :: bool
  bt_sys :: coord_system
  bt_threads :: "(thread, action list) gmap"
  bt_sent :: "batch_event list"
  bt_panic :: bool

abbreviation ctx_done :: "batch \<Rightarrow> bool" where "ctx_done b \<equiv> bt_cancelled b \<or> bt_parent b"

definition channel_capacity :: "batch \<Rightarrow> nat" where
  "channel_capacity b = 2 * length (bt_calls b) + 1"

text \<open>The batch that \<^verbatim>\<open>Start\<close> returns.\<close>

definition new_batch :: "prepared_call list \<Rightarrow> coord_system \<Rightarrow> bool \<Rightarrow> batch" where
  "new_batch calls sys parentDone =
     \<lparr>bt_calls = calls, bt_tickets = [], bt_started = False, bt_closed = False, bt_cancelled = False, bt_parent = parentDone,
       bt_slots = replicate (length calls) ResultPending, bt_current = None, bt_err = None, bt_fatals = [], bt_queue = [],
       bt_eventsClosed = False, bt_sys = sys, bt_threads = [], bt_sent = [], bt_panic = False\<rparr>"

text \<open>What \<^verbatim>\<open>registerBatch\<close> reads of a prepared call.\<close>

definition coord_view :: "prepared_call \<Rightarrow> coord_call" where
  "coord_view pc = \<lparr>pc_rejected = (pr_rejected pc \<noteq> None), pc_hasActivator = pr_hasActivator pc, pc_static = pr_static pc\<rparr>"

section \<open>Errors of a batch\<close>

fun lowest :: "(nat \<times> go_error) option \<Rightarrow> (nat \<times> go_error) list \<Rightarrow> (nat \<times> go_error) option" where
  "lowest best [] = best"
| "lowest best (f # fs) = lowest (case best of None \<Rightarrow> Some f | Some g \<Rightarrow> if fst f < fst g then Some f else Some g) fs"

text \<open>\<^verbatim>\<open>pickFatal\<close>: the fatal with the lowest index among those that are not cancellations, or among all; ties go to the
  first. The others follow in order. Recorded fatals are never nil.\<close>

definition pickFatal :: "(nat \<times> go_error) list \<Rightarrow> go_error option" where
  "pickFatal fatals =
     (let primary = lowest None (filter (\<lambda>f. \<not> is_context (snd f)) fatals);
          chosen = (case primary of None \<Rightarrow> lowest None fatals | Some f \<Rightarrow> Some f)
      in case chosen of
           None \<Rightarrow> None
         | Some f \<Rightarrow> Some (joinErrors (map snd (f # remove1 f fatals))))"

definition joinBatchErrors :: "go_error \<Rightarrow> (nat \<times> go_error) list \<Rightarrow> go_error" where
  "joinBatchErrors e fatals = joinErrors (e # map snd fatals)"

definition skip_pending :: "batch_result \<Rightarrow> batch_result" where
  "skip_pending r = (if r = ResultPending then ResultSkipped else r)"

definition skipAllLocked :: "batch \<Rightarrow> batch" where
  "skipAllLocked b = b\<lparr>bt_slots := map skip_pending (bt_slots b)\<rparr>"

section \<open>Helpers\<close>

definition call_at :: "batch \<Rightarrow> nat \<Rightarrow> prepared_call" where "call_at b i = bt_calls b ! i"

definition started_event :: "batch \<Rightarrow> nat \<Rightarrow> bool \<Rightarrow> batch_event" where
  "started_event b i executed = \<lparr>be_Kind = BatchStarted, be_Index = i, be_Call = pr_call (call_at b i), be_Executed = executed,
     be_Output = None, be_Err = None\<rparr>"

definition finished_event :: "batch \<Rightarrow> nat \<Rightarrow> tool_output \<Rightarrow> batch_event" where
  "finished_event b i out = \<lparr>be_Kind = BatchFinished, be_Index = i, be_Call = pr_call (call_at b i), be_Executed = False,
     be_Output = Some out, be_Err = None\<rparr>"

definition failed_event :: "batch \<Rightarrow> nat \<Rightarrow> go_error \<Rightarrow> batch_event" where
  "failed_event b i err = \<lparr>be_Kind = BatchFailed, be_Index = i, be_Call = pr_call (call_at b i), be_Executed = False,
     be_Output = None, be_Err = Some err\<rparr>"

definition emitRejected :: "batch \<Rightarrow> nat \<Rightarrow> tool_output \<Rightarrow> action list" where
  "emitRejected b i out = [ASlot i (ResultFinished out), ASend (started_event b i False), ASend (finished_event b i out)]"

definition fail :: "batch \<Rightarrow> nat \<Rightarrow> go_error \<Rightarrow> action list" where
  "fail b i err = [ACancel, AFatal i err, ASlot i (ResultFailed err), ASend (failed_event b i err), ARelease i]"

definition skip :: "nat \<Rightarrow> action list" where
  "skip i = [ASlot i ResultSkipped, ARelease i]"

text \<open>\<^verbatim>\<open>cancelled\<close> looks at the parent context first and at the closed flag later.\<close>

definition cancelled :: "batch \<Rightarrow> nat \<Rightarrow> bool \<Rightarrow> go_error \<Rightarrow> action list" where
  "cancelled b i started err = (if bt_parent b then [AFatal i err] else []) @ [ACancelEnd i started (bt_parent b) err]"

definition cancel_end :: "batch \<Rightarrow> nat \<Rightarrow> bool \<Rightarrow> bool \<Rightarrow> go_error \<Rightarrow> action list" where
  "cancel_end b i started parentCancelled err =
     (if started \<and> (parentCancelled \<or> \<not> bt_closed b)
      then [ASlot i (ResultFailed err), ASend (failed_event b i err), ARelease i]
      else skip i)"

definition begin_running :: "batch \<Rightarrow> nat \<Rightarrow> action \<Rightarrow> action list" where
  "begin_running b i run = [ASlot i ResultRunning, ASend (started_event b i True), run]"

text \<open>\<^verbatim>\<open>closeActivation\<close> with the reply of \<^verbatim>\<open>Close\<close>, joined to an error.\<close>

definition close_error :: "activation \<Rightarrow> go_error option \<Rightarrow> go_error option" where
  "close_error act reply = (if ac_close act then reply else None)"

definition with_close :: "go_error \<Rightarrow> activation \<Rightarrow> go_error option \<Rightarrow> go_error" where
  "with_close err act reply = (case close_error act reply of None \<Rightarrow> err | Some c \<Rightarrow> joinErrors [err, c])"

definition after_activate :: "tool_env \<Rightarrow> executor \<Rightarrow> batch \<Rightarrow> nat \<Rightarrow> go_error + activation \<Rightarrow> go_error option \<Rightarrow> action list" where
  "after_activate E ex b i res closing =
     (case res of
        Inl err \<Rightarrow>
          (case asCallErrorIn err of
             Some msg \<Rightarrow> emitRejected b i (recoverable (te_std E) (te_sha E) (ex_id ex) (pr_limits (call_at b i)) msg) @ [ARelease i]
           | None \<Rightarrow>
               if is_context err \<and> ctx_done b then [ACancelled i False err]
               else fail b i (as_execution ''Activate'' err))
      | Inr act \<Rightarrow>
          if \<not> ac_run act then fail b i (with_close (execution_error (ToolFault ''Activation.Run is nil'')) act closing)
          else (case extendClaims (pr_static (call_at b i)) (ac_claims act) of
            Inl f \<Rightarrow> fail b i (with_close (execution_error f) act closing)
          | Inr final \<Rightarrow> [ADiscover i act final]))"

definition after_run :: "nat \<Rightarrow> go_error + tool_output \<Rightarrow> go_error option \<Rightarrow> action list" where
  "after_run i res closeErr =
     (case (res, closeErr) of
        (Inl e, None) \<Rightarrow> [AEnded i e]
      | (Inl e, Some c) \<Rightarrow> [AEnded i (joinErrors [e, c])]
      | (Inr out, None) \<Rightarrow> [AFinal i out]
      | (Inr out, Some c) \<Rightarrow> [AEnded i c])"

definition after_error :: "batch \<Rightarrow> nat \<Rightarrow> go_error \<Rightarrow> action list" where
  "after_error b i err =
     (if is_context err \<and> bt_closed b then [ACancelled i True err]
      else fail b i (if \<not> is_context err then as_execution [] err else err))"

definition after_output :: "tool_env \<Rightarrow> executor \<Rightarrow> batch \<Rightarrow> nat \<Rightarrow> tool_output \<Rightarrow> action list" where
  "after_output E ex b i out =
     (let limits = pr_limits (call_at b i);
          first = finalize (te_std E) (te_sha E) (ex_id ex) out limits False;
          result = (if first = Inl ErrOutputLimit then budgetOutput (te_std E) (te_sha E) (ex_id ex) limits else first)
      in case result of
           Inl e \<Rightarrow> fail b i (Leaf e)
         | Inr final \<Rightarrow> [ASlot i (ResultFinished final), ASend (finished_event b i final), ARelease i])"

text \<open>The loop of \<^verbatim>\<open>dispatch\<close>: rejected calls are answered at once, the others get a worker.\<close>

definition dispatch_call :: "batch \<Rightarrow> nat \<Rightarrow> action list" where
  "dispatch_call b i = (case pr_rejected (call_at b i) of Some out \<Rightarrow> emitRejected b i out | None \<Rightarrow> [ASpawn i])"

definition dispatch_calls :: "batch \<Rightarrow> action list" where
  "dispatch_calls b = concat (map (dispatch_call b) [0..<length (bt_calls b)])"

section \<open>Actions\<close>

definition send :: "batch_event \<Rightarrow> batch \<Rightarrow> batch option" where
  "send ev b =
     (if bt_eventsClosed b then Some (b\<lparr>bt_panic := True\<rparr>)
      else if length (bt_queue b) < channel_capacity b
        then Some (b\<lparr>bt_queue := bt_queue b @ [ev], bt_sent := bt_sent b @ [ev]\<rparr>)
      else if ctx_done b then Some b else None)"

definition close_events :: "batch \<Rightarrow> batch" where
  "close_events b = (if bt_eventsClosed b then b\<lparr>bt_panic := True\<rparr> else b\<lparr>bt_eventsClosed := True\<rparr>)"

definition ticket_of :: "batch \<Rightarrow> nat \<Rightarrow> nat" where "ticket_of b i = bt_tickets b ! i"

definition own_state :: "batch \<Rightarrow> nat \<Rightarrow> call_state option" where
  "own_state b i = map_of (sy_calls (bt_sys b)) (ticket_of b i)"

text \<open>A step of the coordinator for call \<open>i\<close>: its phase and the state under the coordinator's mutex.\<close>

definition coordinate :: "batch \<Rightarrow> nat \<Rightarrow> phase \<Rightarrow> coordinator \<Rightarrow> batch" where
  "coordinate b i p c = (case own_state b i of
     None \<Rightarrow> b
   | Some cs \<Rightarrow> b\<lparr>bt_sys := set_phase (bt_sys b) (ticket_of b i) cs p c\<rparr>)"

abbreviation co_of :: "batch \<Rightarrow> coordinator" where "co_of b \<equiv> sy_co (bt_sys b)"

definition wait_round :: "batch \<Rightarrow> nat \<Rightarrow> nat \<Rightarrow> reply \<Rightarrow> (action list \<times> batch) option" where
  "wait_round b i q r =
     (let pc = call_at b i; w = (ticket_waiter (ticket_of b i) (pr_static pc))\<lparr>w_seq := q\<rparr> in
      case r of
        RTry \<Rightarrow> map_option (\<lambda>c. (if pr_hasActivator pc then [AActivate i] else begin_running b i (AExecute i), coordinate b i Granted c))
          (acquire_try (co_of b) w)
      | RDone _ \<Rightarrow> if ctx_done b then Some (skip i, coordinate b i Abandoned (acquire_cancel (co_of b) w)) else None
      | _ \<Rightarrow> None)"

definition extend_round :: "batch \<Rightarrow> nat \<Rightarrow> activation \<Rightarrow> claim list \<Rightarrow> reply \<Rightarrow> (action list \<times> batch) option" where
  "extend_round b i act final r =
     (case r of
        RTry \<Rightarrow> map_option (\<lambda>c. (begin_running b i (ARun i act), coordinate b i (Running final) c))
          (extend_try (co_of b) (ticket_of b i) final)
      | RDone closing \<Rightarrow>
          if ctx_done b then Some (case close_error act closing of
              Some ce \<Rightarrow> fail b i (joinErrors [cancelled_error, ce])
            | None \<Rightarrow> [ACancelled i False cancelled_error], b)
          else None
      | _ \<Rightarrow> None)"

definition register :: "batch \<Rightarrow> action list \<times> batch" where
  "register b = (case registerBatch (co_of b) (map coord_view (bt_calls b)) of
     Inl f \<Rightarrow> ([ACloseEvents], skipAllLocked (b\<lparr>bt_err := Some (execution_error f)\<rparr>))
   | Inr (ts, c) \<Rightarrow>
       (dispatch_calls b @ [AJoin],
        b\<lparr>bt_tickets := ts, bt_sys := (bt_sys b)\<lparr>sy_co := c,
          sy_calls := add_workers (sy_calls (bt_sys b)) (co_next (co_of b)) (map coord_view (bt_calls b))\<rparr>\<rparr>))"

definition workers_done :: "batch \<Rightarrow> bool" where
  "workers_done b \<longleftrightarrow> list_all (\<lambda>(t, as). case t of Worker i \<Rightarrow> as = [] | _ \<Rightarrow> True) (bt_threads b)"

definition summary :: "batch \<Rightarrow> batch" where
  "summary b = skipAllLocked (b\<lparr>bt_err :=
     (if bt_parent b then Some (joinBatchErrors cancelled_error (bt_fatals b))
      else if bt_err b = None \<and> bt_fatals b \<noteq> [] then pickFatal (bt_fatals b)
      else bt_err b)\<rparr>)"

text \<open>One action: the actions that take its place and the state after it, or \<open>None\<close> when it cannot be done now with this
  reply.\<close>

fun exec :: "tool_env \<Rightarrow> executor \<Rightarrow> action \<Rightarrow> reply \<Rightarrow> batch \<Rightarrow> (action list \<times> batch) option" where
  "exec E ex (ASlot i r) _ b = Some ([], b\<lparr>bt_slots := (bt_slots b)[i := r]\<rparr>)"
| "exec E ex (ASend ev) _ b = map_option (\<lambda>b'. ([], b')) (send ev b)"
| "exec E ex (ARelease i) _ b = Some ([], coordinate b i Done (release (co_of b) (ticket_of b i)))"
| "exec E ex ACancel _ b = Some ([], b\<lparr>bt_cancelled := True\<rparr>)"
| "exec E ex (AFatal i err) _ b = Some ([], b\<lparr>bt_fatals := bt_fatals b @ [(i, err)]\<rparr>)"
| "exec E ex (ACheck i) _ b = Some (if ctx_done b then skip i else [AAcquire i], b)"
| "exec E ex (AAcquire i) _ b =
     (if ctx_done b then Some (skip i, b)
      else let (w, c) = acquire_enter (co_of b) (ticket_waiter (ticket_of b i) (pr_static (call_at b i)))
           in Some ([AWait i (w_seq w)], coordinate b i (Waiting (w_seq w)) c))"
| "exec E ex (AWait i q) r b = wait_round b i q r"
| "exec E ex (AActivate i) r b =
     (case r of RActivate res closing \<Rightarrow> Some (after_activate E ex b i res closing, b) | _ \<Rightarrow> None)"
| "exec E ex (ADiscover i act final) r b =
     (case r of RDone closing \<Rightarrow>
        (case discover (co_of b) (ticket_of b i) final of
           Inl f \<Rightarrow> Some (fail b i (with_close (execution_error f) act closing), b)
         | Inr c \<Rightarrow> Some ([AExtend i act final], coordinate b i (Extending final) c))
      | _ \<Rightarrow> None)"
| "exec E ex (AExtend i act final) r b = extend_round b i act final r"
| "exec E ex (ARun i act) r b =
     (case r of RRun res closing \<Rightarrow> Some (after_run i res (close_error act closing), b) | _ \<Rightarrow> None)"
| "exec E ex (AExecute i) r b = (case r of RRun res _ \<Rightarrow> Some (after_run i res None, b) | _ \<Rightarrow> None)"
| "exec E ex (AFinal i out) _ b = Some (after_output E ex b i out, b)"
| "exec E ex (AEnded i err) _ b = Some (after_error b i err, b)"
| "exec E ex (ACancelled i started err) _ b = Some (cancelled b i started err, b)"
| "exec E ex (ACancelEnd i started parentCancelled err) _ b = Some (cancel_end b i started parentCancelled err, b)"
| "exec E ex ARegister _ b = Some (register b)"
| "exec E ex (ASpawn i) _ b = Some ([], b\<lparr>bt_threads := gput (Worker i) [ACheck i] (bt_threads b)\<rparr>)"
| "exec E ex AJoin _ b = (if workers_done b then Some ([ASummary], b) else None)"
| "exec E ex ASummary _ b = Some ([ACloseEvents], summary b)"
| "exec E ex ACloseEvents _ b = Some ([], close_events b)"

section \<open>The consumer\<close>

text \<open>\<^verbatim>\<open>Next\<close>: the locked prologue, which may start the dispatcher or end the batch, and the receive. The prologue says
  whether a receive follows; a receive on an empty channel that is not closed waits.\<close>

definition batch_next :: "batch \<Rightarrow> bool \<times> batch" where
  "batch_next b =
     (if bt_started b then (True, b)
      else if bt_closed b then (False, b)
      else if ctx_done b then
        (False, close_events ((skipAllLocked b)\<lparr>bt_err := Some cancelled_error, bt_started := True\<rparr>))
      else (True, b\<lparr>bt_started := True, bt_threads := gput Dispatcher [ARegister] (bt_threads b)\<rparr>))"

definition receive :: "batch \<Rightarrow> (bool \<times> batch) option" where
  "receive b = (case bt_queue b of
     ev # evs \<Rightarrow> Some (True, b\<lparr>bt_queue := evs, bt_current := Some ev\<rparr>)
   | [] \<Rightarrow> if bt_eventsClosed b then Some (False, b) else None)"

text \<open>\<^verbatim>\<open>Close\<close> up to its first wait; the cancellation comes after the unlock. The second value says whether it then waits
  for the dispatcher.\<close>

definition batch_close :: "batch \<Rightarrow> bool \<times> batch" where
  "batch_close b =
     (if bt_closed b then (True, b)
      else if \<not> bt_started b then
        (False, (close_events ((skipAllLocked (b\<lparr>bt_closed := True\<rparr>))\<lparr>bt_started := True\<rparr>))
          \<lparr>bt_threads := gput Closer [ACancel] (bt_threads b)\<rparr>)
      else (True, b\<lparr>bt_closed := True, bt_threads := gput Closer [ACancel] (bt_threads b)\<rparr>))"

definition Results :: "batch \<Rightarrow> batch_result list" where "Results b = bt_slots b"

section \<open>Runs\<close>

text \<open>A step: a thread does its next action, the consumer calls \<^verbatim>\<open>Next\<close> or \<^verbatim>\<open>Close\<close>, the parent context ends, or another
  batch or a planner moves the coordinator without touching the calls of this batch.\<close>

inductive batch_step :: "tool_env \<Rightarrow> executor \<Rightarrow> batch \<Rightarrow> batch \<Rightarrow> bool" for E ex where
  Act: "map_of (bt_threads b) t = Some (a # as) \<Longrightarrow> exec E ex a r b = Some (new, b') \<Longrightarrow>
    batch_step E ex b (b'\<lparr>bt_threads := gput t (new @ as) (bt_threads b')\<rparr>)"
| NextBegin: "batch_step E ex b (snd (batch_next b))"
| Receive: "receive b = Some (got, b') \<Longrightarrow> batch_step E ex b b'"
| CloseBegin: "batch_step E ex b (snd (batch_close b))"
| ParentDone: "batch_step E ex b (b\<lparr>bt_parent := True\<rparr>)"
| Elsewhere: "coord_step (bt_sys b) y \<Longrightarrow> (\<forall>t \<in> set (bt_tickets b). map_of (sy_calls y) t = map_of (sy_calls (bt_sys b)) t) \<Longrightarrow>
    batch_step E ex b (b\<lparr>bt_sys := y\<rparr>)"

inductive_cases batch_stepE: "batch_step E ex b b'"

definition calls_ok :: "prepared_call list \<Rightarrow> bool" where
  "calls_ok calls \<longleftrightarrow> calls \<noteq> [] \<and> list_all (\<lambda>pc. static_ok (coord_view pc)) calls"

definition batch_initial :: "batch \<Rightarrow> bool" where
  "batch_initial b \<longleftrightarrow> (\<exists>calls sys parentDone. b = new_batch calls sys parentDone \<and> calls_ok calls \<and> coord.reach sys)"

interpretation run: transition_system batch_initial "batch_step E ex" for E ex .

end
