(* ===== verification/Coordinator_Props.thy ===== *)
theory Coordinator_Props
  imports Coordinator
begin

text \<open>
  Invariants of the coordinator under every interleaving of batches, and what follows from them: calls that run
  together never conflict, no call overtakes an earlier conflicting one, permits are never oversubscribed, and the
  oldest unfinished call is never blocked by resources. A call that waits for its claim extension keeps its permit,
  so it can block an earlier call that still waits for one.
\<close>

section \<open>Views of the state\<close>

definition excl :: "(nat \<Rightarrow> claim list option) \<Rightarrow> bool" where
  "excl H \<longleftrightarrow> (\<forall>t u a b. H t = Some a \<longrightarrow> H u = Some b \<longrightarrow> t \<noteq> u \<longrightarrow> \<not> claimsConflict a b)"

definition ordered :: "(nat \<Rightarrow> claim list option) \<Rightarrow> (nat \<Rightarrow> claim list option) \<Rightarrow> nat set \<Rightarrow> bool" where
  "ordered H F R \<longleftrightarrow> (\<forall>t u b. H u = Some b \<longrightarrow> t < u \<longrightarrow> t \<notin> R \<longrightarrow>
     (\<exists>f. F t = Some f \<and> \<not> claimsConflict f b))"

definition frontier_ok :: "coordinator \<Rightarrow> bool" where
  "frontier_ok c \<longleftrightarrow> co_frontier c \<le> co_next c \<and> (\<forall>t < co_frontier c. t \<notin> set (co_pending c))
     \<and> (co_frontier c < co_next c \<longrightarrow> co_frontier c \<in> set (co_pending c))"

definition phase_held :: "call_state \<Rightarrow> claim list option" where
  "phase_held cs = (case cs_phase cs of
     Granted \<Rightarrow> Some (cs_static cs) | Extending f \<Rightarrow> Some (cs_static cs) | Running f \<Rightarrow> Some f | _ \<Rightarrow> None)"

definition phase_final :: "call_state \<Rightarrow> claim list option" where
  "phase_final cs = (if \<not> cs_activator cs then Some (cs_static cs) else
     case cs_phase cs of Extending f \<Rightarrow> Some f | Running f \<Rightarrow> Some f | _ \<Rightarrow> None)"

definition final_ok :: "call_state \<Rightarrow> bool" where
  "final_ok cs \<longleftrightarrow> (\<forall>f. cs_phase cs = Extending f \<or> cs_phase cs = Running f \<longrightarrow>
     cs_activator cs \<and> claims_normal f \<and> covers f (cs_static cs))"

definition call_view :: "coordinator \<Rightarrow> nat \<Rightarrow> call_state \<Rightarrow> bool" where
  "call_view c t cs \<longleftrightarrow> t < co_next c \<and> claims_normal (cs_static cs) \<and> final_ok cs
     \<and> map_of (co_held c) t = phase_held cs
     \<and> (if cs_phase cs = Done then t \<in> set (co_released c) \<and> t \<notin> set (co_pending c)
        else t \<notin> set (co_released c) \<and> map_of (co_final c) t = phase_final cs
          \<and> (t \<in> set (co_pending c) \<longleftrightarrow> phase_final cs = None))"

definition ticket_inv :: "coord_system \<Rightarrow> nat \<Rightarrow> bool" where
  "ticket_inv s t \<longleftrightarrow> (case map_of (sy_calls s) t of
     Some cs \<Rightarrow> call_view (sy_co s) t cs
   | None \<Rightarrow> map_of (co_held (sy_co s)) t = None \<and> t \<notin> set (co_pending (sy_co s))
       \<and> (t \<in> set (co_released (sy_co s)) \<longleftrightarrow> t < co_next (sy_co s))
       \<and> (co_next (sy_co s) \<le> t \<longrightarrow> map_of (co_final (sy_co s)) t = None))"

definition call_waiter :: "nat \<Rightarrow> call_state \<Rightarrow> nat \<Rightarrow> coord_waiter" where
  "call_waiter t cs q = (ticket_waiter t (cs_static cs))\<lparr>w_seq := q\<rparr>"

definition waiters_inv :: "coord_system \<Rightarrow> bool" where
  "waiters_inv s \<longleftrightarrow> (let ws = co_waiters (sy_co s) in
     sorted_wrt (<) (map w_seq ws) \<and> (\<forall>w \<in> set ws. w_seq w \<le> co_waitSeq (sy_co s))
     \<and> (\<forall>t cs q. map_of (sy_calls s) t = Some cs \<longrightarrow> cs_phase cs = Waiting q \<longrightarrow> call_waiter t cs q \<in> set ws)
     \<and> (\<forall>w \<in> set ws. w_hasTicket w \<longrightarrow> (\<exists>cs. map_of (sy_calls s) (w_ticket w) = Some cs
          \<and> cs_phase cs = Waiting (w_seq w) \<and> w = call_waiter (w_ticket w) cs (w_seq w))))"

definition permits_inv :: "coord_system \<Rightarrow> bool" where
  "permits_inv s \<longleftrightarrow> wf_gmap (co_held (sy_co s)) \<and> wf_gmap (co_final (sy_co s))
     \<and> co_inUse (sy_co s) = int (length (co_held (sy_co s))) + int (sy_plans s)
     \<and> co_inUse (sy_co s) \<le> co_parallel (sy_co s) \<and> 1 \<le> co_parallel (sy_co s)"

definition locks_inv :: "coord_system \<Rightarrow> bool" where
  "locks_inv s \<longleftrightarrow> excl (map_of (co_held (sy_co s)))
     \<and> ordered (map_of (co_held (sy_co s))) (map_of (co_final (sy_co s))) (set (co_released (sy_co s)))"

definition coord_inv :: "coord_system \<Rightarrow> bool" where
  "coord_inv s \<longleftrightarrow> frontier_ok (sy_co s) \<and> (\<forall>t. ticket_inv s t) \<and> waiters_inv s \<and> permits_inv s \<and> locks_inv s"

section \<open>What the operations change\<close>

lemma advance_from_spec:
  "f \<le> limit \<Longrightarrow> f \<le> advance_from P limit f \<and> advance_from P limit f \<le> limit
     \<and> (\<forall>x. f \<le> x \<longrightarrow> x < advance_from P limit f \<longrightarrow> x \<notin> set P)
     \<and> (advance_from P limit f < limit \<longrightarrow> advance_from P limit f \<in> set P)"
proof (induction P limit f rule: advance_from.induct)
  case (1 P limit f)
  show ?case
  proof (cases "f < limit \<and> f \<notin> set P")
    case True
    then have "advance_from P limit f = advance_from P limit (f + 1)" by (subst advance_from.simps) simp
    with 1(1) [OF True] True show ?thesis by (metis Suc_eq_plus1 Suc_leI le_antisym not_less_eq_eq Suc_leD)
  next
    case False
    then have "advance_from P limit f = f" by (subst advance_from.simps) auto
    with False 1(2) show ?thesis by auto
  qed
qed

lemma advance_ok:
  assumes "co_frontier c \<le> co_next c" "\<forall>t < co_frontier c. t \<notin> set (co_pending c)"
  shows "frontier_ok (advanceFrontierLocked c)"
proof -
  have "t \<notin> set (co_pending c)" if "t < advance_from (co_pending c) (co_next c) (co_frontier c)" for t
    using advance_from_spec [OF assms(1), of "co_pending c"] assms(2) that by (cases "t < co_frontier c") auto
  then show ?thesis
    using advance_from_spec [OF assms(1), of "co_pending c"] by (auto simp: frontier_ok_def advanceFrontierLocked_def)
qed

lemma signal_simps [simp]:
  "co_next (signalLocked c) = co_next c" "co_frontier (signalLocked c) = co_frontier c"
  "co_pending (signalLocked c) = co_pending c" "co_final (signalLocked c) = co_final c"
  "co_released (signalLocked c) = co_released c" "co_held (signalLocked c) = co_held c"
  "co_parallel (signalLocked c) = co_parallel c" "co_inUse (signalLocked c) = co_inUse c"
  "co_waitSeq (signalLocked c) = co_waitSeq c" "co_waiters (signalLocked c) = co_waiters c"
  "frontier_ok (signalLocked c) = frontier_ok c"
  by (simp_all add: signalLocked_def frontier_ok_def)

lemma frontier_simps [simp]:
  "co_next (advanceFrontierLocked c) = co_next c"
  "co_pending (advanceFrontierLocked c) = co_pending c" "co_final (advanceFrontierLocked c) = co_final c"
  "co_released (advanceFrontierLocked c) = co_released c" "co_held (advanceFrontierLocked c) = co_held c"
  "co_parallel (advanceFrontierLocked c) = co_parallel c" "co_inUse (advanceFrontierLocked c) = co_inUse c"
  "co_waitSeq (advanceFrontierLocked c) = co_waitSeq c" "co_waiters (advanceFrontierLocked c) = co_waiters c"
  by (simp_all add: advanceFrontierLocked_def)

lemma removeWaiter_simps [simp]:
  "co_next (removeWaiterLocked c w) = co_next c" "co_frontier (removeWaiterLocked c w) = co_frontier c"
  "co_pending (removeWaiterLocked c w) = co_pending c" "co_final (removeWaiterLocked c w) = co_final c"
  "co_released (removeWaiterLocked c w) = co_released c" "co_held (removeWaiterLocked c w) = co_held c"
  "co_parallel (removeWaiterLocked c w) = co_parallel c" "co_inUse (removeWaiterLocked c w) = co_inUse c"
  "co_waitSeq (removeWaiterLocked c w) = co_waitSeq c"
  "co_waiters (removeWaiterLocked c w) = remove_waiter (w_seq w) (co_waiters c)"
  by (simp_all add: removeWaiterLocked_def)

lemma release_simps [simp]:
  "co_next (release c t) = co_next c"
  "co_pending (release c t) = removeAll t (co_pending c)"
  "co_released (release c t) = List.insert t (co_released c)"
  "co_held (release c t) = (if map_of (co_held c) t = None then co_held c else gdel t (co_held c))"
  "co_final (release c t) = (if map_of (co_final c) t = None then gput t [] (co_final c) else co_final c)"
  "co_parallel (release c t) = co_parallel c" "co_waitSeq (release c t) = co_waitSeq c"
  "co_waiters (release c t) = co_waiters c"
  "co_inUse (release c t) = (if map_of (co_held c) t = None \<or> co_inUse c \<le> 0 then co_inUse c else co_inUse c - 1)"
  by (auto simp: release_def Let_def)

lemma set_phase_simps [simp]:
  "sy_co (set_phase s t cs p c) = c" "sy_plans (set_phase s t cs p c) = sy_plans s"
  "sy_calls (set_phase s t cs p c) = gput t (cs\<lparr>cs_phase := p\<rparr>) (sy_calls s)"
  by (simp_all add: set_phase_def)

lemma acquire_try_Some:
  "acquire_try c w = Some c' \<longleftrightarrow> canGrantLocked c w \<and> \<not> earlierGrantableLocked c w \<and>
     c' = signalLocked (c\<lparr>co_waiters := remove_waiter (w_seq w) (co_waiters c), co_inUse := co_inUse c + 1,
       co_held := (if w_hasTicket w then gput (w_ticket w) (w_claims w) (co_held c) else co_held c)\<rparr>)"
  by (auto simp: acquire_try_def Let_def removeWaiterLocked_def)

lemma extend_try_Some:
  "extend_try c t f = Some c' \<longleftrightarrow> claimsFreeExceptLocked c t f \<and>
     c' = signalLocked (c\<lparr>co_held := gput t f (co_held c)\<rparr>)"
  by (auto simp: extend_try_def)

lemma discover_Inr:
  "discover c t f = Inr c' \<longleftrightarrow> t \<in> set (co_pending c) \<and> c' = signalLocked (advanceFrontierLocked
     (c\<lparr>co_final := gput t f (co_final c), co_pending := removeAll t (co_pending c)\<rparr>))"
  by (auto simp: discover_def)

lemma claimsFree_iff:
  assumes "wf_gmap (co_held c)" "wf_gmap (co_final c)"
  shows "claimsFreeExceptLocked c t cl \<longleftrightarrow>
    (\<forall>u h. map_of (co_held c) u = Some h \<longrightarrow> u \<noteq> t \<longrightarrow> \<not> claimsConflict h cl)
    \<and> (\<forall>u f. map_of (co_final c) u = Some f \<longrightarrow> u < t \<longrightarrow> u \<notin> set (co_released c) \<longrightarrow> \<not> claimsConflict f cl)"
  unfolding claimsFreeExceptLocked_def list_all_iff
  by (fastforce simp: wf_gmap_map_of [OF assms(1)] wf_gmap_map_of [OF assms(2)] case_prod_beta not_le [symmetric]
      dest: map_of_SomeD intro: map_of_is_SomeI)

lemma length_gdel: "wf_gmap m \<Longrightarrow> map_of m k = Some v \<Longrightarrow> Suc (length (gdel k m)) = length m"
proof (induction m)
  case (Cons x m)
  then show ?case
    by (cases x) (auto simp: wf_gmap_def gdel_def image_iff split: if_splits dest: map_of_SomeD)
qed simp

section \<open>Locks\<close>

lemma exclD: "excl H \<Longrightarrow> H t = Some a \<Longrightarrow> H u = Some b \<Longrightarrow> t \<noteq> u \<Longrightarrow> \<not> claimsConflict a b"
  by (auto simp: excl_def)

lemma orderedD:
  "ordered H F R \<Longrightarrow> H u = Some b \<Longrightarrow> t < u \<Longrightarrow> t \<notin> R \<Longrightarrow> \<exists>f. F t = Some f \<and> \<not> claimsConflict f b"
  by (auto simp: ordered_def)

definition held_normal :: "(nat \<Rightarrow> claim list option) \<Rightarrow> bool" where
  "held_normal H \<longleftrightarrow> (\<forall>t a. H t = Some a \<longrightarrow> claims_normal a)"

lemma excl_update:
  assumes "excl H" "held_normal H" "claims_normal cl"
    and "\<And>u h. H u = Some h \<Longrightarrow> u \<noteq> t \<Longrightarrow> \<not> claimsConflict h cl"
  shows "excl (H(t \<mapsto> cl))"
  unfolding excl_def
proof (intro allI impI)
  fix x u a b
  assume x: "(H(t \<mapsto> cl)) x = Some a" and u: "(H(t \<mapsto> cl)) u = Some b" and "x \<noteq> u"
  then consider "x = t" "u \<noteq> t" | "u = t" "x \<noteq> t" | "x \<noteq> t" "u \<noteq> t" by blast
  then show "\<not> claimsConflict a b"
  proof cases
    case 1
    then have "claims_normal b" "\<not> claimsConflict b cl" using u assms(2,4) by (auto simp: held_normal_def)
    with 1 x assms(3) show ?thesis by (simp add: claimsConflict_sym)
  next
    case 2
    with x u assms(4) show ?thesis by simp
  next
    case 3
    with x u \<open>x \<noteq> u\<close> assms(1) show ?thesis by (auto dest: exclD)
  qed
qed

lemma excl_remove: "excl H \<Longrightarrow> excl (H(t := None))"
  by (auto simp: excl_def)

lemma ordered_update:
  assumes "ordered H F R"
    and "\<And>u. u < t \<Longrightarrow> u \<notin> R \<Longrightarrow> \<exists>f. F u = Some f \<and> \<not> claimsConflict f cl"
  shows "ordered (H(t \<mapsto> cl)) F R"
  using assms by (auto simp: ordered_def)

lemma ordered_release: "ordered H F R \<Longrightarrow> ordered (H(t := None)) F (insert t R)"
  by (auto simp: ordered_def)

lemma ordered_released_final: "ordered H F R \<Longrightarrow> t \<in> R \<Longrightarrow> ordered H (F(t \<mapsto> f)) R"
  by (auto simp: ordered_def)

lemma ordered_discover:
  "ordered H F R \<Longrightarrow> t \<notin> R \<Longrightarrow> F t = None \<Longrightarrow> ordered H (F(t \<mapsto> f)) R"
  unfolding ordered_def by (metis fun_upd_other option.distinct(1))

lemma locks_invI:
  "excl (map_of (co_held (sy_co s))) \<Longrightarrow>
   ordered (map_of (co_held (sy_co s))) (map_of (co_final (sy_co s))) (set (co_released (sy_co s))) \<Longrightarrow> locks_inv s"
  by (simp add: locks_inv_def)

section \<open>Tickets\<close>

lemma ticket_invD: "ticket_inv s t \<Longrightarrow> map_of (sy_calls s) t = Some cs \<Longrightarrow> call_view (sy_co s) t cs"
  by (simp add: ticket_inv_def)

text \<open>A step that leaves a ticket alone keeps its invariant.\<close>

definition same_at :: "nat \<Rightarrow> coordinator \<Rightarrow> coordinator \<Rightarrow> bool" where
  "same_at t c c' \<longleftrightarrow> co_next c' = co_next c \<and> map_of (co_held c') t = map_of (co_held c) t
     \<and> map_of (co_final c') t = map_of (co_final c) t
     \<and> (t \<in> set (co_released c') \<longleftrightarrow> t \<in> set (co_released c)) \<and> (t \<in> set (co_pending c') \<longleftrightarrow> t \<in> set (co_pending c))"

lemma ticket_inv_frame:
  "ticket_inv s t \<Longrightarrow> same_at t (sy_co s) (sy_co s') \<Longrightarrow> map_of (sy_calls s') t = map_of (sy_calls s) t \<Longrightarrow>
   ticket_inv s' t"
  by (auto simp: ticket_inv_def same_at_def call_view_def split: option.splits)

lemma tickets_same:
  assumes "\<forall>u. ticket_inv s u" "\<And>u. same_at u (sy_co s) (sy_co s')" "sy_calls s' = sy_calls s"
  shows "\<forall>u. ticket_inv s' u"
proof
  fix u
  have "ticket_inv s u" using assms(1) ..
  then show "ticket_inv s' u" using assms(2) by (rule ticket_inv_frame) (simp add: assms(3))
qed

lemma tickets_phase:
  assumes "\<forall>u. ticket_inv s u" "\<And>u. u \<noteq> t \<Longrightarrow> same_at u (sy_co s) c" "call_view c t (cs\<lparr>cs_phase := p\<rparr>)"
  shows "\<forall>u. ticket_inv (set_phase s t cs p c) u"
proof
  fix u
  show "ticket_inv (set_phase s t cs p c) u"
  proof (cases "u = t")
    case True
    with assms(3) show ?thesis by (simp add: ticket_inv_def)
  next
    case False
    have "ticket_inv s u" using assms(1) ..
    moreover have "same_at u (sy_co s) (sy_co (set_phase s t cs p c))" using assms(2) [OF False] by simp
    ultimately show ?thesis by (rule ticket_inv_frame) (use False in simp)
  qed
qed

lemma call_view_registered: "call_view c t cs \<Longrightarrow> t < co_next c"
  by (simp add: call_view_def)

lemma held_call:
  assumes "\<forall>t. ticket_inv s t" "map_of (co_held (sy_co s)) t = Some a"
  shows "\<exists>cs. map_of (sy_calls s) t = Some cs \<and> phase_held cs = Some a \<and> call_view (sy_co s) t cs"
proof (cases "map_of (sy_calls s) t")
  case None
  moreover have "ticket_inv s t" using assms(1) ..
  ultimately show ?thesis using assms(2) by (simp add: ticket_inv_def)
next
  case (Some cs)
  with assms(1) have v: "call_view (sy_co s) t cs" by (blast intro: ticket_invD)
  with assms(2) have "phase_held cs = Some a" by (simp add: call_view_def)
  with Some v show ?thesis by blast
qed

lemma held_claims_normal: "\<forall>t. ticket_inv s t \<Longrightarrow> held_normal (map_of (co_held (sy_co s)))"
  unfolding held_normal_def
proof (intro allI impI)
  fix t a
  assume "\<forall>t. ticket_inv s t" "map_of (co_held (sy_co s)) t = Some a"
  then obtain cs where cs: "phase_held cs = Some a" "call_view (sy_co s) t cs" by (blast dest: held_call)
  then have "claims_normal (cs_static cs)" "final_ok cs" by (simp_all add: call_view_def)
  with cs(1) show "claims_normal a" by (auto simp: phase_held_def final_ok_def split: phase.splits)
qed

lemma held_registered: "\<forall>t. ticket_inv s t \<Longrightarrow> map_of (co_held (sy_co s)) t = Some a \<Longrightarrow> t < co_next (sy_co s)"
  by (blast dest: held_call intro: call_view_registered)

lemma unreleased_call:
  assumes "\<forall>t. ticket_inv s t" "t < co_next (sy_co s)" "t \<notin> set (co_released (sy_co s))"
  shows "\<exists>cs. map_of (sy_calls s) t = Some cs \<and> cs_phase cs \<noteq> Done \<and> call_view (sy_co s) t cs"
proof (cases "map_of (sy_calls s) t")
  case None
  with assms show ?thesis by (auto simp: ticket_inv_def dest!: spec [of _ t])
next
  case (Some cs)
  with assms(1) have v: "call_view (sy_co s) t cs" by (blast intro: ticket_invD)
  with assms(3) have "cs_phase cs \<noteq> Done" by (auto simp: call_view_def)
  with Some v show ?thesis by blast
qed

lemma below_frontier_final:
  assumes "\<forall>t. ticket_inv s t" "frontier_ok (sy_co s)" "t < co_frontier (sy_co s)" "t \<notin> set (co_released (sy_co s))"
  shows "\<exists>f. map_of (co_final (sy_co s)) t = Some f"
proof -
  have "t < co_next (sy_co s)" "t \<notin> set (co_pending (sy_co s))" using assms(2,3) by (auto simp: frontier_ok_def)
  with unreleased_call [OF assms(1) _ assms(4)] show ?thesis by (auto simp: call_view_def)
qed

section \<open>Waiters\<close>

lemma set_remove_waiter: "sorted_wrt (<) (map w_seq ws) \<Longrightarrow> set (remove_waiter q ws) = {w \<in> set ws. w_seq w \<noteq> q}"
  by (induction ws) auto

lemma sorted_remove_waiter: "sorted_wrt (<) (map w_seq ws) \<Longrightarrow> sorted_wrt (<) (map w_seq (remove_waiter q ws))"
  by (induction ws) (auto simp: set_remove_waiter)

lemma waiters_invD:
  assumes "waiters_inv s"
  shows "sorted_wrt (<) (map w_seq (co_waiters (sy_co s)))"
    and "w \<in> set (co_waiters (sy_co s)) \<Longrightarrow> w_seq w \<le> co_waitSeq (sy_co s)"
    and "map_of (sy_calls s) t = Some cs \<Longrightarrow> cs_phase cs = Waiting q \<Longrightarrow> call_waiter t cs q \<in> set (co_waiters (sy_co s))"
    and "w \<in> set (co_waiters (sy_co s)) \<Longrightarrow> w_hasTicket w \<Longrightarrow> \<exists>cs. map_of (sy_calls s) (w_ticket w) = Some cs
          \<and> cs_phase cs = Waiting (w_seq w) \<and> w = call_waiter (w_ticket w) cs (w_seq w)"
  using assms by (auto simp: waiters_inv_def Let_def)

lemma waiters_invI:
  assumes "sorted_wrt (<) (map w_seq (co_waiters (sy_co s)))"
    and "\<And>w. w \<in> set (co_waiters (sy_co s)) \<Longrightarrow> w_seq w \<le> co_waitSeq (sy_co s)"
    and "\<And>t cs q. map_of (sy_calls s) t = Some cs \<Longrightarrow> cs_phase cs = Waiting q \<Longrightarrow>
      call_waiter t cs q \<in> set (co_waiters (sy_co s))"
    and "\<And>w. w \<in> set (co_waiters (sy_co s)) \<Longrightarrow> w_hasTicket w \<Longrightarrow> \<exists>cs. map_of (sy_calls s) (w_ticket w) = Some cs
          \<and> cs_phase cs = Waiting (w_seq w) \<and> w = call_waiter (w_ticket w) cs (w_seq w)"
  shows "waiters_inv s"
  using assms by (simp add: waiters_inv_def Let_def)

lemma waiter_unique:
  "sorted_wrt (<) (map w_seq ws) \<Longrightarrow> v \<in> set ws \<Longrightarrow> w \<in> set ws \<Longrightarrow> w_seq v = w_seq w \<Longrightarrow> v = w"
  by (induction ws) auto

lemma call_waiter_simps [simp]:
  "w_seq (call_waiter t cs q) = q" "w_ticket (call_waiter t cs q) = t" "w_hasTicket (call_waiter t cs q)"
  "w_claims (call_waiter t cs q) = cs_static cs"
  by (simp_all add: call_waiter_def ticket_waiter_def)

text \<open>A phase change that is not a change of waiting keeps the waiters.\<close>

lemma waiters_phase:
  assumes "waiters_inv s" "map_of (sy_calls s) t = Some cs" "\<And>q. cs_phase cs \<noteq> Waiting q" "\<And>q. p \<noteq> Waiting q"
    "co_waiters c = co_waiters (sy_co s)" "co_waitSeq c = co_waitSeq (sy_co s)"
  shows "waiters_inv (set_phase s t cs p c)"
proof (rule waiters_invI, goal_cases)
  case 1 show ?case using waiters_invD(1) [OF assms(1)] assms(5) by simp
next
  case (2 w) then show ?case using waiters_invD(2) [OF assms(1)] assms(5,6) by simp
next
  case (3 u ds q)
  then show ?case using waiters_invD(3) [OF assms(1), of u ds q] assms(2-5) by (auto split: if_splits)
next
  case (4 w)
  with waiters_invD(4) [OF assms(1), of w] assms(2-5) show ?case by fastforce
qed

text \<open>Leaving the queue, by a grant or a cancellation.\<close>

lemma waiters_leave:
  assumes "waiters_inv s" "map_of (sy_calls s) t = Some cs" "cs_phase cs = Waiting r" "\<And>q. p \<noteq> Waiting q"
    "co_waiters c = remove_waiter r (co_waiters (sy_co s))" "co_waitSeq c = co_waitSeq (sy_co s)"
  shows "waiters_inv (set_phase s t cs p c)"
proof (rule waiters_invI, goal_cases)
  note W = waiters_invD [OF assms(1)]
  {
    case 1 show ?case using sorted_remove_waiter [OF W(1)] assms(5) by simp
  next
    case (2 w) then show ?case using W(2) assms(5,6) by (simp add: set_remove_waiter [OF W(1)])
  next
    case (3 u ds q)
    then have u: "u \<noteq> t" "map_of (sy_calls s) u = Some ds" using assms(4) by (auto split: if_splits)
    then have "call_waiter u ds q \<in> set (co_waiters (sy_co s))" using 3 by (intro W(3))
    moreover have "q \<noteq> r"
      using waiter_unique [OF W(1) calculation W(3) [OF assms(2,3)]] u(1)
      by (metis call_waiter_simps(1) call_waiter_simps(2))
    ultimately show ?case using assms(5) by (simp add: set_remove_waiter [OF W(1)])
  next
    case (4 w)
    then have w: "w \<in> set (co_waiters (sy_co s))" "w_seq w \<noteq> r"
      using assms(5) by (auto simp: set_remove_waiter [OF W(1)])
    with W(4) [OF w(1) 4(2)] assms(2,3) show ?case by fastforce
  }
qed

lemma waiters_same:
  assumes "waiters_inv s" "sy_calls s' = sy_calls s" "co_waiters (sy_co s') = co_waiters (sy_co s)"
    "co_waitSeq (sy_co s') = co_waitSeq (sy_co s)"
  shows "waiters_inv s'"
  using assms by (simp add: waiters_inv_def)

lemma waiters_drop_permit:
  assumes "waiters_inv s" "w \<in> set (co_waiters (sy_co s))" "\<not> w_hasTicket w" "sy_calls s' = sy_calls s"
    "co_waiters (sy_co s') = remove_waiter (w_seq w) (co_waiters (sy_co s))"
    "co_waitSeq (sy_co s') = co_waitSeq (sy_co s)"
  shows "waiters_inv s'"
proof (rule waiters_invI, goal_cases)
  note W = waiters_invD [OF assms(1)]
  {
    case 1 show ?case using sorted_remove_waiter [OF W(1)] assms(5) by simp
  next
    case (2 v) then show ?case using W(2) assms(5,6) by (simp add: set_remove_waiter [OF W(1)])
  next
    case (3 u ds q)
    then have m: "call_waiter u ds q \<in> set (co_waiters (sy_co s))" using assms(4) by (intro W(3)) auto
    moreover have "q \<noteq> w_seq w"
      using waiter_unique [OF W(1) m assms(2)] assms(3) by (metis call_waiter_simps(1) call_waiter_simps(3))
    ultimately show ?case using assms(5) by (simp add: set_remove_waiter [OF W(1)])
  next
    case (4 v)
    then show ?case using W(4) [of v] assms(4,5) by (auto simp: set_remove_waiter [OF W(1)])
  }
qed

section \<open>Registration\<close>

lemma register_one_simps [simp]:
  "co_next (register_one c k call) = co_next c" "co_frontier (register_one c k call) = co_frontier c"
  "co_held (register_one c k call) = co_held c" "co_parallel (register_one c k call) = co_parallel c"
  "co_inUse (register_one c k call) = co_inUse c" "co_waitSeq (register_one c k call) = co_waitSeq c"
  "co_waiters (register_one c k call) = co_waiters c"
  "wf_gmap (co_final c) \<Longrightarrow> wf_gmap (co_final (register_one c k call))"
  by (simp_all add: register_one_def)

lemma register_calls_simps [simp]:
  "co_next (register_calls c k calls) = co_next c" "co_frontier (register_calls c k calls) = co_frontier c"
  "co_held (register_calls c k calls) = co_held c" "co_parallel (register_calls c k calls) = co_parallel c"
  "co_inUse (register_calls c k calls) = co_inUse c" "co_waitSeq (register_calls c k calls) = co_waitSeq c"
  "co_waiters (register_calls c k calls) = co_waiters c"
  "wf_gmap (co_final c) \<Longrightarrow> wf_gmap (co_final (register_calls c k calls))"
  by (induction calls arbitrary: c k) simp_all

lemma register_outside:
  assumes "u < k \<or> k + length calls \<le> u"
  shows "map_of (co_final (register_calls c k calls)) u = map_of (co_final c) u
    \<and> (u \<in> set (co_released (register_calls c k calls)) \<longleftrightarrow> u \<in> set (co_released c))
    \<and> (u \<in> set (co_pending (register_calls c k calls)) \<longleftrightarrow> u \<in> set (co_pending c))
    \<and> map_of (add_workers m k calls) u = map_of m u"
  using assms by (induction calls arbitrary: c k m) (auto simp: register_one_def)

lemma register_inside:
  assumes "i < length calls"
  shows "map_of (co_final (register_calls c k calls)) (k + i)
      = (if pc_rejected (calls ! i) then Some [] else if pc_hasActivator (calls ! i) then map_of (co_final c) (k + i)
         else Some (pc_static (calls ! i)))"
    and "k + i \<in> set (co_released (register_calls c k calls)) \<longleftrightarrow> k + i \<in> set (co_released c) \<or> pc_rejected (calls ! i)"
    and "k + i \<in> set (co_pending (register_calls c k calls)) \<longleftrightarrow> k + i \<in> set (co_pending c)
      \<or> \<not> pc_rejected (calls ! i) \<and> pc_hasActivator (calls ! i)"
    and "map_of (add_workers m k calls) (k + i) = (if pc_rejected (calls ! i) then map_of m (k + i)
      else Some \<lparr>cs_phase = Registered, cs_static = pc_static (calls ! i), cs_activator = pc_hasActivator (calls ! i)\<rparr>)"
  using assms
proof (induction calls arbitrary: c k i m)
  case (Cons call calls)
  {
    case 1
    then show ?case
      by (cases i) (use Cons(1) [where i = "i - 1" and c = "register_one c k call" and k = "k + 1"] in
        \<open>auto simp: register_outside register_one_def\<close>)
  next
    case 2
    then show ?case
      by (cases i) (use Cons(2) [where i = "i - 1" and c = "register_one c k call" and k = "k + 1"] in
        \<open>auto simp: register_outside register_one_def\<close>)
  next
    case 3
    then show ?case
      by (cases i) (use Cons(3) [where i = "i - 1" and c = "register_one c k call" and k = "k + 1"] in
        \<open>auto simp: register_outside register_one_def\<close>)
  next
    case 4
    then show ?case
      by (cases i) (use Cons(4) [where i = "i - 1" and k = "k + 1"] in \<open>auto simp: register_outside\<close>)
  }
qed simp_all

lemma add_workers_values:
  "map_of (add_workers m k calls) u = Some cs \<Longrightarrow> map_of m u = Some cs \<or> cs_phase cs = Registered"
  by (induction calls arbitrary: m k) (fastforce split: if_splits)+

lemma registerBatch_Inr:
  "registerBatch c calls = Inr (ts, c') \<longleftrightarrow> calls \<noteq> [] \<and> \<not> co_exhausted c \<and> co_next c + length calls \<le> max_uint64
     \<and> ts = [co_next c..<co_next c + length calls]
     \<and> c' = signalLocked (advanceFrontierLocked ((register_calls c (co_next c) calls)
         \<lparr>co_next := co_next c + length calls,
          co_exhausted := (co_next c + length calls = max_uint64)
            \<or> co_exhausted (register_calls c (co_next c) calls)\<rparr>))"
  by (auto simp: registerBatch_def Let_def)

section \<open>Preservation\<close>

lemma coord_invD:
  assumes "coord_inv s"
  shows "frontier_ok (sy_co s)" "\<forall>t. ticket_inv s t" "waiters_inv s" "permits_inv s" "locks_inv s"
    "excl (map_of (co_held (sy_co s)))"
    "ordered (map_of (co_held (sy_co s))) (map_of (co_final (sy_co s))) (set (co_released (sy_co s)))"
    "wf_gmap (co_held (sy_co s))" "wf_gmap (co_final (sy_co s))"
  using assms by (auto simp: coord_inv_def permits_inv_def locks_inv_def)

lemma coord_invI:
  "frontier_ok (sy_co s) \<Longrightarrow> \<forall>t. ticket_inv s t \<Longrightarrow> waiters_inv s \<Longrightarrow> permits_inv s \<Longrightarrow> locks_inv s \<Longrightarrow> coord_inv s"
  by (simp add: coord_inv_def)

lemma new_inv: "coord_initial s \<Longrightarrow> coord_inv s"
  by (auto simp: coord_initial_def new_system_def newCoordinator_def coord_inv_def frontier_ok_def ticket_inv_def
      waiters_inv_def permits_inv_def locks_inv_def excl_def ordered_def)

lemma register_ticket:
  assumes inv: "coord_inv s" and ok: "list_all static_ok calls" and r: "registerBatch (sy_co s) calls = Inr (ts, c)"
  shows "ticket_inv (s\<lparr>sy_co := c, sy_calls := add_workers (sy_calls s) (co_next (sy_co s)) calls\<rparr>) t"
proof -
  let ?n = "co_next (sy_co s)"
  have t: "ticket_inv s t" using coord_invD(2) [OF inv] by blast
  note c = r [unfolded registerBatch_Inr]
  consider "t < ?n" | i where "t = ?n + i" "i < length calls" | "?n + length calls \<le> t"
    by (metis le_Suc_ex linorder_not_less nat_add_left_cancel_less)
  then show ?thesis
  proof cases
    case 1
    then show ?thesis
      using t c register_outside [where u = t and k = ?n and calls = calls and c = "sy_co s" and m = "sy_calls s"]
      by (auto simp: ticket_inv_def call_view_def split: option.splits)
  next
    case (2 i)
    have none: "map_of (sy_calls s) t = None"
      using t 2 by (auto simp: ticket_inv_def call_view_def split: option.splits)
    have n: "\<not> pc_rejected (calls ! i) \<Longrightarrow> claims_normal (pc_static (calls ! i))"
      using ok 2(2) by (auto simp: list_all_length static_ok_def)
    show ?thesis
      using t none n 2 c register_inside(1-3) [OF 2(2), where c = "sy_co s" and k = ?n]
        register_inside(4) [OF 2(2), where m = "sy_calls s" and k = ?n]
      by (simp add: ticket_inv_def call_view_def final_ok_def phase_held_def phase_final_def)
  next
    case 3
    then have "map_of (sy_calls s) t = None"
      using t by (auto simp: ticket_inv_def call_view_def split: option.splits)
    with 3 show ?thesis
      using t c register_outside [where u = t and k = ?n and calls = calls and c = "sy_co s" and m = "sy_calls s"] by (simp add: ticket_inv_def)
  qed
qed

lemma register_waiters:
  assumes inv: "coord_inv s" and r: "registerBatch (sy_co s) (calls :: coord_call list) = Inr (ts, c)"
  shows "waiters_inv (s\<lparr>sy_co := c, sy_calls := add_workers (sy_calls s) (co_next (sy_co s)) calls\<rparr>)"
proof (rule waiters_invI, goal_cases)
  note W = waiters_invD [OF coord_invD(3) [OF inv]]
  note c = r [unfolded registerBatch_Inr]
  {
    case 1 show ?case using W(1) c by simp
  next
    case (2 w) then show ?case using W(2) c by simp
  next
    case (3 t cs q)
    then show ?case using W(3) c add_workers_values [of "sy_calls s" "co_next (sy_co s)" calls t cs] by auto
  next
    case (4 w)
    then have "w \<in> set (co_waiters (sy_co s))" using c by simp
    with W(4) [OF this 4(2)] obtain cs where cs: "map_of (sy_calls s) (w_ticket w) = Some cs"
      "cs_phase cs = Waiting (w_seq w)" "w = call_waiter (w_ticket w) cs (w_seq w)" by blast
    have "w_ticket w < co_next (sy_co s)"
      using ticket_invD [OF _ cs(1)] coord_invD(2) [OF inv] call_view_registered by blast
    with cs show ?case
      using register_outside [where u = "w_ticket w" and k = "co_next (sy_co s)" and calls = calls and m = "sy_calls s"] by auto
  }
qed

lemma register_inv:
  assumes inv: "coord_inv s" and ok: "list_all static_ok (calls :: coord_call list)"
    and r: "registerBatch (sy_co s) calls = Inr (ts, c)"
  shows "coord_inv (s\<lparr>sy_co := c, sy_calls := add_workers (sy_calls s) (co_next (sy_co s)) calls\<rparr>)"
proof (rule coord_invI)
  let ?n = "co_next (sy_co s)"
  note c = r [unfolded registerBatch_Inr]
  note D = coord_invD [OF inv]
  have pend: "t \<notin> set (co_pending (register_calls (sy_co s) ?n calls))" if "t < co_frontier (sy_co s)" for t
    using that D(1) register_outside [where u = t and k = ?n and calls = calls and c = "sy_co s"] by (auto simp: frontier_ok_def)
  have "frontier_ok (advanceFrontierLocked ((register_calls (sy_co s) ?n calls)\<lparr>co_next := ?n + length calls,
      co_exhausted := b\<rparr>))" for b
    using D(1) pend by (intro advance_ok) (auto simp: frontier_ok_def)
  then show "frontier_ok (sy_co (s\<lparr>sy_co := c, sy_calls := add_workers (sy_calls s) ?n calls\<rparr>))"
    using c by simp
  show "\<forall>t. ticket_inv (s\<lparr>sy_co := c, sy_calls := add_workers (sy_calls s) ?n calls\<rparr>) t"
    using register_ticket [OF inv ok r] by blast
  show "waiters_inv (s\<lparr>sy_co := c, sy_calls := add_workers (sy_calls s) ?n calls\<rparr>)"
    by (rule register_waiters [OF inv r])
  show "permits_inv (s\<lparr>sy_co := c, sy_calls := add_workers (sy_calls s) ?n calls\<rparr>)"
    using D(4) c by (simp add: permits_inv_def)
  have "ordered (map_of (co_held (sy_co s))) (map_of (co_final (register_calls (sy_co s) ?n calls)))
      (set (co_released (register_calls (sy_co s) ?n calls)))"
    unfolding ordered_def
  proof (intro allI impI)
    fix t u b
    assume u: "map_of (co_held (sy_co s)) u = Some b" and tu: "t < u"
      and nr: "t \<notin> set (co_released (register_calls (sy_co s) ?n calls))"
    have "t < ?n" using held_registered [OF D(2) u] tu by simp
    then show "\<exists>f. map_of (co_final (register_calls (sy_co s) ?n calls)) t = Some f \<and> \<not> claimsConflict f b"
      using register_outside [where u = t and k = ?n and calls = calls and c = "sy_co s"] nr orderedD [OF D(7) u tu] by auto
  qed
  then show "locks_inv (s\<lparr>sy_co := c, sy_calls := add_workers (sy_calls s) ?n calls\<rparr>)"
    using D(6) c by (intro locks_invI) simp_all
qed

text \<open>Entering and leaving the queue touch neither tickets nor locks.\<close>

definition queue_only :: "coordinator \<Rightarrow> coordinator \<Rightarrow> bool" where
  "queue_only c c' \<longleftrightarrow> co_next c' = co_next c \<and> co_frontier c' = co_frontier c \<and> co_pending c' = co_pending c
     \<and> co_final c' = co_final c \<and> co_released c' = co_released c \<and> co_held c' = co_held c
     \<and> co_parallel c' = co_parallel c \<and> co_inUse c' = co_inUse c"

lemma queue_onlyD:
  assumes "queue_only (sy_co s) (sy_co s')"
  shows "frontier_ok (sy_co s') = frontier_ok (sy_co s)" "locks_inv s' = locks_inv s"
    "sy_plans s' = sy_plans s \<Longrightarrow> permits_inv s' = permits_inv s" "same_at t (sy_co s) (sy_co s')"
    "call_view (sy_co s') t cs = call_view (sy_co s) t cs"
  using assms by (simp_all add: queue_only_def frontier_ok_def locks_inv_def permits_inv_def same_at_def call_view_def)

lemma queue_phase_inv:
  assumes inv: "coord_inv s" and cs: "map_of (sy_calls s) t = Some cs" and q: "queue_only (sy_co s) c"
    and v: "call_view (sy_co s) t (cs\<lparr>cs_phase := p\<rparr>)" and w: "waiters_inv (set_phase s t cs p c)"
  shows "coord_inv (set_phase s t cs p c)"
proof (rule coord_invI)
  note D = coord_invD [OF inv]
  have q': "queue_only (sy_co s) (sy_co (set_phase s t cs p c))" using q by simp
  note Q = queue_onlyD [OF q']
  show "frontier_ok (sy_co (set_phase s t cs p c))" "locks_inv (set_phase s t cs p c)"
    "permits_inv (set_phase s t cs p c)"
    using Q(1,2,3) D(1,4,5) by simp_all
  show "waiters_inv (set_phase s t cs p c)" by (rule w)
  show "\<forall>u. ticket_inv (set_phase s t cs p c) u"
    using D(2) Q(4) Q(5) [of t "cs\<lparr>cs_phase := p\<rparr>"] v by (intro tickets_phase) simp_all
qed

lemma queue_other_inv:
  assumes "coord_inv s" "queue_only (sy_co s) (sy_co s')" "sy_calls s' = sy_calls s" "sy_plans s' = sy_plans s"
    "waiters_inv s'"
  shows "coord_inv s'"
proof (rule coord_invI)
  note D = coord_invD [OF assms(1)] and Q = queue_onlyD [OF assms(2)]
  show "frontier_ok (sy_co s')" "waiters_inv s'" "permits_inv s'" "locks_inv s'"
    using Q D assms(4,5) by simp_all
  show "\<forall>t. ticket_inv s' t"
    by (rule tickets_same [OF D(2) Q(4) assms(3)])
qed

lemma enter_waiters:
  assumes "waiters_inv s" "sy_calls s' = m" "co_waiters (sy_co s') = co_waiters (sy_co s) @ [w\<lparr>w_seq := co_waitSeq (sy_co s) + 1\<rparr>]"
    "co_waitSeq (sy_co s') = co_waitSeq (sy_co s) + 1"
    and old: "\<And>t cs q. map_of m t = Some cs \<Longrightarrow> cs_phase cs = Waiting q \<Longrightarrow>
      map_of (sy_calls s) t = Some cs \<or> call_waiter t cs q = w\<lparr>w_seq := co_waitSeq (sy_co s) + 1\<rparr>"
    and keep: "\<And>t cs q. map_of (sy_calls s) t = Some cs \<Longrightarrow> cs_phase cs = Waiting q \<Longrightarrow> map_of m t = Some cs"
    and new: "w_hasTicket w \<Longrightarrow> \<exists>cs. map_of m (w_ticket w) = Some cs \<and> cs_phase cs = Waiting (co_waitSeq (sy_co s) + 1)
      \<and> w_claims w = cs_static cs"
  shows "waiters_inv s'"
proof (rule waiters_invI, goal_cases)
  note W = waiters_invD [OF assms(1)]
  {
    case 1
    show ?case using W(1,2) assms(3) by (auto simp: sorted_wrt_append less_Suc_eq_le)
  next
    case (2 v) then show ?case using W(2) assms(3,4) by fastforce
  next
    case (3 t cs q) then show ?case using old [of t cs q] W(3) [of t cs q] assms(2,3) by auto
  next
    case (4 v)
    then consider "v \<in> set (co_waiters (sy_co s))" | "v = w\<lparr>w_seq := co_waitSeq (sy_co s) + 1\<rparr>" using assms(3) by auto
    then show ?case
    proof cases
      case 1
      with W(4) [OF 1 4(2)] keep assms(2) show ?thesis by fastforce
    next
      case 2
      with 4(2) new assms(2) show ?thesis by (auto simp: call_waiter_def ticket_waiter_def)
    qed
  }
qed

lemma enter_inv:
  assumes inv: "coord_inv s" and cs: "map_of (sy_calls s) t = Some cs" "cs_phase cs = Registered"
    and e: "acquire_enter (sy_co s) (ticket_waiter t (cs_static cs)) = (w, c)"
  shows "coord_inv (set_phase s t cs (Waiting (w_seq w)) c)"
proof (rule queue_phase_inv [OF inv cs(1)])
  note D = coord_invD [OF inv]
  show "queue_only (sy_co s) c" using e by (auto simp: acquire_enter_def Let_def queue_only_def)
  show "call_view (sy_co s) t (cs\<lparr>cs_phase := Waiting (w_seq w)\<rparr>)"
    using ticket_invD [OF _ cs(1)] D(2) cs(2)
    by (auto simp: call_view_def final_ok_def phase_held_def phase_final_def)
  show "waiters_inv (set_phase s t cs (Waiting (w_seq w)) c)"
    using e cs
    by (intro enter_waiters [OF D(3) refl, where w = "ticket_waiter t (cs_static cs)"])
      (auto simp: acquire_enter_def Let_def call_waiter_def ticket_waiter_def split: if_splits)
qed

lemma cancel_inv:
  assumes inv: "coord_inv s" and cs: "map_of (sy_calls s) t = Some cs" "cs_phase cs = Waiting q"
  shows "coord_inv (set_phase s t cs Abandoned (acquire_cancel (sy_co s) ((ticket_waiter t (cs_static cs))\<lparr>w_seq := q\<rparr>)))"
proof (rule queue_phase_inv [OF inv cs(1)])
  note D = coord_invD [OF inv]
  show "queue_only (sy_co s) (acquire_cancel (sy_co s) ((ticket_waiter t (cs_static cs))\<lparr>w_seq := q\<rparr>))"
    by (simp add: acquire_cancel_def queue_only_def)
  show "call_view (sy_co s) t (cs\<lparr>cs_phase := Abandoned\<rparr>)"
    using ticket_invD [OF _ cs(1)] D(2) cs(2)
    by (auto simp: call_view_def final_ok_def phase_held_def phase_final_def)
  show "waiters_inv (set_phase s t cs Abandoned (acquire_cancel (sy_co s) ((ticket_waiter t (cs_static cs))\<lparr>w_seq := q\<rparr>)))"
    by (rule waiters_leave [OF D(3) cs]) (simp_all add: acquire_cancel_def)
qed

lemma plan_queue_inv:
  assumes inv: "coord_inv s"
  shows "acquire_enter (sy_co s) permit_waiter = (w, c) \<Longrightarrow> coord_inv (s\<lparr>sy_co := c\<rparr>)"
    and "v \<in> set (co_waiters (sy_co s)) \<Longrightarrow> \<not> w_hasTicket v \<Longrightarrow> coord_inv (s\<lparr>sy_co := acquire_cancel (sy_co s) v\<rparr>)"
proof -
  note D = coord_invD [OF inv]
  assume e: "acquire_enter (sy_co s) permit_waiter = (w, c)"
  show "coord_inv (s\<lparr>sy_co := c\<rparr>)"
  proof (rule queue_other_inv [OF inv])
    show "queue_only (sy_co s) (sy_co (s\<lparr>sy_co := c\<rparr>))"
      using e by (auto simp: acquire_enter_def Let_def queue_only_def)
    show "waiters_inv (s\<lparr>sy_co := c\<rparr>)"
      using e by (intro enter_waiters [OF D(3) refl, where w = permit_waiter])
        (auto simp: acquire_enter_def Let_def permit_waiter_def)
  qed simp_all
next
  note D = coord_invD [OF inv]
  assume v: "v \<in> set (co_waiters (sy_co s))" "\<not> w_hasTicket v"
  show "coord_inv (s\<lparr>sy_co := acquire_cancel (sy_co s) v\<rparr>)"
  proof (rule queue_other_inv [OF inv])
    show "queue_only (sy_co s) (sy_co (s\<lparr>sy_co := acquire_cancel (sy_co s) v\<rparr>))"
      by (simp add: acquire_cancel_def queue_only_def)
    show "waiters_inv (s\<lparr>sy_co := acquire_cancel (sy_co s) v\<rparr>)"
      by (rule waiters_drop_permit [OF D(3) v]) (simp_all add: acquire_cancel_def)
  qed simp_all
qed

lemma plan_grant_inv:
  assumes inv: "coord_inv s" and w: "w \<in> set (co_waiters (sy_co s))" "\<not> w_hasTicket w"
    and g: "acquire_try (sy_co s) w = Some c"
  shows "coord_inv (s\<lparr>sy_co := c, sy_plans := sy_plans s + 1\<rparr>)"
proof (rule coord_invI)
  note D = coord_invD [OF inv]
  let ?s = "s\<lparr>sy_co := c, sy_plans := sy_plans s + 1\<rparr>"
  note c = g [unfolded acquire_try_Some]
  have free: "co_inUse (sy_co s) < co_parallel (sy_co s)" using c by (simp add: canGrantLocked_def split: if_splits)
  show "frontier_ok (sy_co ?s)" using D(1) c by (simp add: frontier_ok_def)
  show "\<forall>t. ticket_inv ?s t" by (rule tickets_same [OF D(2)]) (use c w(2) in \<open>simp_all add: same_at_def\<close>)
  show "waiters_inv ?s" using c by (intro waiters_drop_permit [OF D(3) w]) simp_all
  show "permits_inv ?s" using D(4) c w(2) free by (simp add: permits_inv_def)
  show "locks_inv ?s" using D(5) c w(2) by (simp add: locks_inv_def)
qed

lemma plan_done_inv:
  assumes inv: "coord_inv s" and p: "0 < sy_plans s"
  shows "coord_inv (s\<lparr>sy_co := releasePermit (sy_co s), sy_plans := sy_plans s - 1\<rparr>)"
proof (rule coord_invI)
  note D = coord_invD [OF inv]
  let ?s = "s\<lparr>sy_co := releasePermit (sy_co s), sy_plans := sy_plans s - 1\<rparr>"
  show "frontier_ok (sy_co ?s)" using D(1) by (simp add: frontier_ok_def releasePermit_def)
  show "\<forall>t. ticket_inv ?s t"
    by (rule tickets_same [OF D(2)]) (simp_all add: same_at_def releasePermit_def)
  show "waiters_inv ?s" using D(3) by (rule waiters_same) (simp_all add: releasePermit_def)
  show "permits_inv ?s" using D(4) p by (auto simp: permits_inv_def releasePermit_def of_nat_diff)
  show "locks_inv ?s" using D(5) by (simp add: locks_inv_def releasePermit_def)
qed

lemma same_at_grant: "u \<noteq> t \<Longrightarrow> acquire_try c w = Some c' \<Longrightarrow> w_ticket w = t \<Longrightarrow> same_at u c c'"
  by (auto simp: acquire_try_Some same_at_def)

lemma grant_inv:
  assumes inv: "coord_inv s" and cs: "map_of (sy_calls s) t = Some cs" "cs_phase cs = Waiting q"
    and g: "acquire_try (sy_co s) ((ticket_waiter t (cs_static cs))\<lparr>w_seq := q\<rparr>) = Some c"
  shows "coord_inv (set_phase s t cs Granted c)"
proof (rule coord_invI)
  note D = coord_invD [OF inv]
  let ?s = "set_phase s t cs Granted c" and ?w = "(ticket_waiter t (cs_static cs))\<lparr>w_seq := q\<rparr>"
  note c = g [unfolded acquire_try_Some]
  have v: "call_view (sy_co s) t cs" using D(2) cs(1) by (blast intro: ticket_invD)
  have free: "co_inUse (sy_co s) < co_parallel (sy_co s)" "t \<le> co_frontier (sy_co s)"
    "claimsFreeExceptLocked (sy_co s) t (cs_static cs)"
    using c by (auto simp: canGrantLocked_def ticket_waiter_def split: if_splits)
  note F = free(3) [unfolded claimsFree_iff [OF D(8,9)]]
  have H: "co_held c = gput t (cs_static cs) (co_held (sy_co s))" "map_of (co_held (sy_co s)) t = None"
    "claims_normal (cs_static cs)"
    using c v cs(2) by (auto simp: ticket_waiter_def call_view_def phase_held_def)
  show "frontier_ok (sy_co ?s)" using D(1) c by (simp add: frontier_ok_def)
  have "call_view c t (cs\<lparr>cs_phase := Granted\<rparr>)"
    using v cs(2) c H by (simp add: call_view_def final_ok_def phase_held_def phase_final_def)
  then show "\<forall>u. ticket_inv ?s u"
    using D(2) same_at_grant [OF _ g] by (intro tickets_phase) (simp_all add: ticket_waiter_def)
  show "waiters_inv ?s"
    by (rule waiters_leave [OF D(3) cs]) (use c in \<open>simp_all add: ticket_waiter_def\<close>)
  show "permits_inv ?s" using D(4) c H free(1) by (simp add: permits_inv_def ticket_waiter_def length_gput_new)
  have "excl (map_of (co_held c))"
    using excl_update [OF D(6) held_claims_normal [OF D(2)] H(3), of t] F H(1) by simp
  moreover have "ordered ((map_of (co_held (sy_co s)))(t \<mapsto> cs_static cs)) (map_of (co_final (sy_co s)))
      (set (co_released (sy_co s)))"
  proof (rule ordered_update [OF D(7)])
    fix u
    assume u: "u < t" "u \<notin> set (co_released (sy_co s))"
    then obtain f where "map_of (co_final (sy_co s)) u = Some f"
      using below_frontier_final [OF D(2,1), of u] free(2) by auto
    with F u show "\<exists>f. map_of (co_final (sy_co s)) u = Some f \<and> \<not> claimsConflict f (cs_static cs)" by blast
  qed
  ultimately show "locks_inv ?s" using c H(1) by (intro locks_invI) simp_all
qed

lemma discover_inv:
  assumes inv: "coord_inv s" and cs: "map_of (sy_calls s) t = Some cs" "cs_phase cs = Granted" "cs_activator cs"
    and f: "extendClaims (cs_static cs) extra = Inr f" and d: "discover (sy_co s) t f = Inr c"
  shows "coord_inv (set_phase s t cs (Extending f) c)"
proof (rule coord_invI)
  note D = coord_invD [OF inv]
  let ?s = "set_phase s t cs (Extending f) c"
  note c = d [unfolded discover_Inr]
  have v: "call_view (sy_co s) t cs" using D(2) cs(1) by (blast intro: ticket_invD)
  have F: "map_of (co_final (sy_co s)) t = None" "t \<notin> set (co_released (sy_co s))"
    using v cs(2,3) by (auto simp: call_view_def phase_final_def)
  have "frontier_ok (advanceFrontierLocked (sy_co s\<lparr>co_final := gput t f (co_final (sy_co s)),
      co_pending := removeAll t (co_pending (sy_co s))\<rparr>))"
    using D(1) by (intro advance_ok) (auto simp: frontier_ok_def)
  then show "frontier_ok (sy_co ?s)" using c by simp
  have "call_view c t (cs\<lparr>cs_phase := Extending f\<rparr>)"
    using v cs(2,3) c extendClaims_Inr [OF f]
    by (simp add: call_view_def final_ok_def phase_held_def phase_final_def)
  moreover have "same_at u (sy_co s) c" if "u \<noteq> t" for u using c that by (auto simp: same_at_def)
  ultimately show "\<forall>u. ticket_inv ?s u" using D(2) by (intro tickets_phase)
  show "waiters_inv ?s" using c cs by (intro waiters_phase [OF D(3) cs(1)]) simp_all
  show "permits_inv ?s" using D(4) c by (simp add: permits_inv_def)
  show "locks_inv ?s"
    using D(6) ordered_discover [OF D(7) F(2,1), of f] c by (intro locks_invI) simp_all
qed

lemma extend_inv:
  assumes inv: "coord_inv s" and cs: "map_of (sy_calls s) t = Some cs" "cs_phase cs = Extending f"
    and e: "extend_try (sy_co s) t f = Some c"
  shows "coord_inv (set_phase s t cs (Running f) c)"
proof (rule coord_invI)
  note D = coord_invD [OF inv]
  let ?s = "set_phase s t cs (Running f) c"
  note c = e [unfolded extend_try_Some]
  have v: "call_view (sy_co s) t cs" using D(2) cs(1) by (blast intro: ticket_invD)
  then have n: "claims_normal f" "map_of (co_held (sy_co s)) t = Some (cs_static cs)"
    using cs(2) by (auto simp: call_view_def final_ok_def phase_held_def)
  note F = conjunct1 [OF c, unfolded claimsFree_iff [OF D(8,9)]]
  show "frontier_ok (sy_co ?s)" using D(1) c by (simp add: frontier_ok_def)
  have "call_view c t (cs\<lparr>cs_phase := Running f\<rparr>)"
    using v cs(2) c by (auto simp: call_view_def final_ok_def phase_held_def phase_final_def)
  moreover have "same_at u (sy_co s) c" if "u \<noteq> t" for u using c that by (auto simp: same_at_def)
  ultimately show "\<forall>u. ticket_inv ?s u" using D(2) by (intro tickets_phase)
  show "waiters_inv ?s" using c cs by (intro waiters_phase [OF D(3) cs(1)]) simp_all
  show "permits_inv ?s" using D(4) c n by (simp add: permits_inv_def length_gput_old)
  have "excl ((map_of (co_held (sy_co s)))(t \<mapsto> f))"
    using F by (intro excl_update [OF D(6) held_claims_normal [OF D(2)] n(1)]) blast
  moreover have "ordered ((map_of (co_held (sy_co s)))(t \<mapsto> f)) (map_of (co_final (sy_co s)))
      (set (co_released (sy_co s)))"
    using orderedD [OF D(7) n(2)] F by (intro ordered_update [OF D(7)]) blast
  ultimately show "locks_inv ?s" using c by (intro locks_invI) simp_all
qed

lemma release_held: "map_of (co_held (release c t)) = (map_of (co_held c))(t := None)"
  by (auto simp: fun_upd_idem)

lemma release_final: "u \<noteq> t \<Longrightarrow> map_of (co_final (release c t)) u = map_of (co_final c) u"
  by simp

lemma release_inv:
  assumes inv: "coord_inv s" and cs: "map_of (sy_calls s) t = Some cs" "cs_phase cs \<noteq> Done" "\<forall>q. cs_phase cs \<noteq> Waiting q"
  shows "coord_inv (set_phase s t cs Done (release (sy_co s) t))"
proof (rule coord_invI)
  note D = coord_invD [OF inv]
  let ?c = "release (sy_co s) t" and ?s = "set_phase s t cs Done (release (sy_co s) t)"
  have v: "call_view (sy_co s) t cs" using D(2) cs(1) by (blast intro: ticket_invD)
  have "frontier_ok ?c"
    unfolding release_def Let_def signal_simps by (rule advance_ok) (use D(1) in \<open>auto simp: frontier_ok_def\<close>)
  then show "frontier_ok (sy_co ?s)" by simp
  have "call_view ?c t (cs\<lparr>cs_phase := Done\<rparr>)"
    using v by (auto simp: call_view_def final_ok_def phase_held_def)
  moreover have "same_at u (sy_co s) ?c" if "u \<noteq> t" for u
    using that by (auto simp: same_at_def)
  ultimately show "\<forall>u. ticket_inv ?s u" using D(2) by (intro tickets_phase)
  show "waiters_inv ?s" using cs by (intro waiters_phase [OF D(3) cs(1)]) simp_all
  show "permits_inv ?s"
    using D(4) length_gdel [OF D(8), of t] by (cases "map_of (co_held (sy_co s)) t") (auto simp: permits_inv_def)
  have "ordered ((map_of (co_held (sy_co s)))(t := None)) (map_of (co_final ?c)) (insert t (set (co_released (sy_co s))))"
    using ordered_release [OF D(7), of t] ordered_released_final [OF ordered_release [OF D(7), of t], of t "[]"]
    by (cases "map_of (co_final (sy_co s)) t") simp_all
  then show "locks_inv ?s"
    using excl_remove [OF D(6), of t] by (intro locks_invI) (simp_all only: set_phase_simps release_held, simp)
qed

lemma coord_inv_step: "coord_step s s' \<Longrightarrow> coord_inv s \<Longrightarrow> coord_inv s'"
  by (induction rule: coord_step.induct)
    (auto intro: register_inv enter_inv grant_inv cancel_inv discover_inv extend_inv release_inv
      plan_queue_inv plan_grant_inv [simplified] plan_done_inv [simplified])

lemma coord_reach_inv: "coord.reach s \<Longrightarrow> coord_inv s"
  by (erule coord.invariant) (auto intro: new_inv coord_inv_step)

end
