(* ===== verification/Coordinator_Safety.thy ===== *)
theory Coordinator_Safety
  imports Coordinator_Props
begin

text \<open>
  What the invariants of the coordinator give its callers: exclusion, submission order, permits, progress of the
  oldest call, and the one way two calls can block each other.
\<close>

section \<open>Progress\<close>

lemma released_not_pending:
  assumes "ticket_inv s u" "u \<in> set (co_released (sy_co s))"
  shows "u \<notin> set (co_pending (sy_co s)) \<and> map_of (co_held (sy_co s)) u = None"
proof (cases "map_of (sy_calls s) u")
  case (Some cs)
  with assms(1) have v: "call_view (sy_co s) u cs" by (rule ticket_invD)
  then have "cs_phase cs = Done" using assms(2) by (auto simp: call_view_def split: if_splits)
  then show ?thesis using v by (simp add: call_view_def phase_held_def)
qed (use assms(1) in \<open>simp add: ticket_inv_def\<close>)

lemma oldest_at_frontier:
  assumes inv: "coord_inv s" and t: "t < co_next (sy_co s)" "\<forall>u<t. u \<in> set (co_released (sy_co s))"
  shows "t \<le> co_frontier (sy_co s)"
proof (rule ccontr)
  let ?f = "co_frontier (sy_co s)"
  note D = coord_invD [OF inv]
  assume "\<not> t \<le> ?f"
  then have "?f < t" "?f \<in> set (co_pending (sy_co s))" using D(1) t(1) by (auto simp: frontier_ok_def)
  then show False using released_not_pending [of s ?f] D(2) t(2) by blast
qed

text \<open>Nothing the oldest call may ask for is held or reserved by another call.\<close>

lemma oldest_free:
  assumes inv: "coord_inv s" and cs: "map_of (sy_calls s) t = Some cs" "cs_phase cs \<noteq> Done"
    and old: "\<forall>u<t. u \<in> set (co_released (sy_co s))" and n: "claims_normal cl"
    and f: "\<And>f. map_of (co_final (sy_co s)) t = Some f \<Longrightarrow> covers f cl \<and> claims_normal f"
  shows "claimsFreeExceptLocked (sy_co s) t cl"
  unfolding claimsFree_iff [OF coord_invD(8) [OF inv] coord_invD(9) [OF inv]]
proof (intro conjI allI impI)
  note D = coord_invD [OF inv]
  have v: "call_view (sy_co s) t cs" using D(2) cs(1) by (blast intro: ticket_invD)
  have nr: "t \<notin> set (co_released (sy_co s))" using v cs(2) by (simp add: call_view_def)
  fix u h
  assume h: "map_of (co_held (sy_co s)) u = Some h" and ut: "u \<noteq> t"
  have "u \<notin> set (co_released (sy_co s))" using released_not_pending [of s u] D(2) h by auto
  then have "t < u" using old ut by (metis linorder_neqE_nat)
  with orderedD [OF D(7) h _ nr] obtain g where g: "map_of (co_final (sy_co s)) t = Some g" "\<not> claimsConflict g h"
    by blast
  have "claims_normal h" using held_claims_normal [OF D(2)] h by (simp add: held_normal_def)
  with f [OF g(1)] g(2) n show "\<not> claimsConflict h cl"
    by (metis claimsConflict_sym covers_conflict)
next
  fix u g
  assume "u < t" "u \<notin> set (co_released (sy_co s))"
  with old show "\<not> claimsConflict g cl" by blast
qed

lemma first_grantable:
  "List.find (canGrantLocked c) ws = Some w \<Longrightarrow> canGrantLocked c w \<and> \<not> earlier_grantable c w ws \<and> w \<in> set ws"
  by (induction ws) (auto split: if_splits)

lemma some_grantable:
  assumes "w \<in> set (co_waiters c)" "canGrantLocked c w"
  shows "\<exists>v \<in> set (co_waiters c). \<exists>c'. acquire_try c v = Some c'"
proof -
  obtain v where "List.find (canGrantLocked c) (co_waiters c) = Some v"
    using assms by (cases "List.find (canGrantLocked c) (co_waiters c)") (auto simp: find_None_iff)
  from first_grantable [OF this] show ?thesis by (auto simp: acquire_try_Some earlierGrantableLocked_def)
qed

lemma oldest_waiting:
  assumes inv: "coord_inv s" and cs: "map_of (sy_calls s) t = Some cs" "cs_phase cs = Waiting q"
    and old: "\<forall>u<t. u \<in> set (co_released (sy_co s))"
  shows "canGrantLocked (sy_co s) (call_waiter t cs q) \<longleftrightarrow> co_inUse (sy_co s) < co_parallel (sy_co s)"
proof -
  note D = coord_invD [OF inv]
  have v: "call_view (sy_co s) t cs" using D(2) cs(1) by (blast intro: ticket_invD)
  then have n: "claims_normal (cs_static cs)" "t < co_next (sy_co s)" by (simp_all add: call_view_def)
  have f: "map_of (co_final (sy_co s)) t = Some f \<Longrightarrow> covers f (cs_static cs) \<and> claims_normal f" for f
    using v cs(2) n(1) by (auto simp: call_view_def phase_final_def split: if_splits)
  have "claimsFreeExceptLocked (sy_co s) t (cs_static cs)"
    using cs(2) by (intro oldest_free [OF inv cs(1) _ old n(1) f]) simp
  then show ?thesis
    using oldest_at_frontier [OF inv n(2) old] by (simp add: canGrantLocked_def)
qed

lemma oldest_extending:
  assumes inv: "coord_inv s" and cs: "map_of (sy_calls s) t = Some cs" "cs_phase cs = Extending f"
    and old: "\<forall>u<t. u \<in> set (co_released (sy_co s))"
  shows "\<exists>c. extend_try (sy_co s) t f = Some c"
proof -
  have v: "call_view (sy_co s) t cs" using coord_invD(2) [OF inv] cs(1) by (blast intro: ticket_invD)
  then have "claims_normal f" "map_of (co_final (sy_co s)) t = Some f"
    using cs(2) by (auto simp: call_view_def final_ok_def phase_final_def)
  then have "claimsFreeExceptLocked (sy_co s) t f"
    using cs(2) by (intro oldest_free [OF inv cs(1) _ old]) auto
  then show ?thesis by (simp add: extend_try_Some)
qed

section \<open>Example runs\<close>

definition file_claim :: claim where "file_claim = \<lparr>cl_Resource = ''file'', cl_Access = AccessWrite\<rparr>"

text \<open>A batch of a planned call that writes a file and an activated call that discovers the same file.\<close>

definition writer_call :: coord_call where
  "writer_call = \<lparr>pc_rejected = False, pc_hasActivator = False, pc_static = [file_claim, rootRead]\<rparr>"

definition activated_call :: coord_call where
  "activated_call = \<lparr>pc_rejected = False, pc_hasActivator = True, pc_static = [rootRead]\<rparr>"

definition final_claims :: "claim list" where "final_claims = projr (extendClaims [rootRead] [file_claim])"

definition call_of :: "coord_system \<Rightarrow> nat \<Rightarrow> call_state" where "call_of s t = the (map_of (sy_calls s) t)"

definition run_register :: "coord_system \<Rightarrow> coord_call list \<Rightarrow> coord_system" where
  "run_register s calls = s\<lparr>sy_co := snd (projr (registerBatch (sy_co s) calls)),
     sy_calls := add_workers (sy_calls s) (co_next (sy_co s)) calls\<rparr>"

definition run_enter :: "coord_system \<Rightarrow> nat \<Rightarrow> coord_system" where
  "run_enter s t = (let r = acquire_enter (sy_co s) (ticket_waiter t (cs_static (call_of s t)))
     in set_phase s t (call_of s t) (Waiting (w_seq (fst r))) (snd r))"

definition run_grant :: "coord_system \<Rightarrow> nat \<Rightarrow> nat \<Rightarrow> coord_system" where
  "run_grant s t q = set_phase s t (call_of s t) Granted
     (the (acquire_try (sy_co s) ((ticket_waiter t (cs_static (call_of s t)))\<lparr>w_seq := q\<rparr>)))"

definition run_discover :: "coord_system \<Rightarrow> nat \<Rightarrow> claim list \<Rightarrow> coord_system" where
  "run_discover s t f = set_phase s t (call_of s t) (Extending f) (projr (discover (sy_co s) t f))"

definition st1 :: coord_system where "st1 = run_register (new_system 1) [writer_call, activated_call]"
definition st2 :: coord_system where "st2 = run_enter st1 1"
definition st3 :: coord_system where "st3 = run_grant st2 1 1"
definition st4 :: coord_system where "st4 = run_enter st3 0"
definition st5 :: coord_system where "st5 = run_discover st4 1 final_claims"

lemma step_register:
  assumes "registerBatch (sy_co s) calls = Inr (projr (registerBatch (sy_co s) calls))" "list_all static_ok calls"
  shows "coord_step s (run_register s calls)"
proof -
  obtain ts c where r: "projr (registerBatch (sy_co s) calls) = (ts, c)" by fastforce
  with assms(1) have "registerBatch (sy_co s) calls = Inr (ts, c)" by simp
  from Register [OF this assms(2)] show ?thesis by (simp add: run_register_def r)
qed

lemma step_enter:
  assumes "map_of (sy_calls s) t = Some (call_of s t)" "cs_phase (call_of s t) = Registered"
  shows "coord_step s (run_enter s t)"
  unfolding run_enter_def Let_def by (rule Enter [OF assms]) simp

lemma step_grant:
  assumes "map_of (sy_calls s) t = Some (call_of s t)" "cs_phase (call_of s t) = Waiting q"
    "acquire_try (sy_co s) ((ticket_waiter t (cs_static (call_of s t)))\<lparr>w_seq := q\<rparr>) \<noteq> None"
  shows "coord_step s (run_grant s t q)"
  unfolding run_grant_def by (rule Grant [OF assms(1,2)]) (use assms(3) in auto)

lemma step_discover:
  assumes "map_of (sy_calls s) t = Some (call_of s t)" "cs_phase (call_of s t) = Granted" "cs_activator (call_of s t)"
    "extendClaims (cs_static (call_of s t)) extra = Inr f" "discover (sy_co s) t f = Inr (projr (discover (sy_co s) t f))"
  shows "coord_step s (run_discover s t f)"
  unfolding run_discover_def by (rule Discover [OF assms(1-4)]) (rule assms(5))

lemma normal_claims: "claims_normal [file_claim, rootRead]" "claims_normal [rootRead]"
  by code_simp+

lemma reach_st1: "coord.reach st1"
proof (rule coord.step)
  show "coord.reach (new_system 1)" by (rule coord.init) (auto simp: coord_initial_def maxParallelHard_def)
  show "coord_step (new_system 1) st1"
    unfolding st1_def by (rule step_register) (code_simp, simp add: static_ok_def writer_call_def activated_call_def normal_claims)
qed

lemma reach_st3: "coord.reach st3"
proof (rule coord.step)
  show "coord.reach st2"
    by (rule coord.step [OF reach_st1]) (unfold st2_def, rule step_enter, code_simp+)
  show "coord_step st2 st3" unfolding st3_def by (rule step_grant) code_simp+
qed

lemma reach_st5: "coord.reach st5"
proof (rule coord.step)
  show "coord.reach st4"
    by (rule coord.step [OF reach_st3]) (unfold st4_def, rule step_enter, code_simp+)
  show "coord_step st4 st5"
    unfolding st5_def by (rule step_discover [where extra = "[file_claim]"]) code_simp+
qed

section \<open>Properties\<close>

text \<open>C6 (safety). Mutual exclusion across all batches: in every reachable state, no two calls hold claims on a resource
  that one of them writes.\<close>

theorem held_claims_never_conflict:
  assumes "coord.reach s" and "map_of (co_held (sy_co s)) t = Some a" and "map_of (co_held (sy_co s)) u = Some b"
    and "t \<noteq> u" and "touches a r" and "touches b r"
  shows "\<not> writes a r \<and> \<not> writes b r"
proof -
  note D = coord_invD [OF coord_reach_inv [OF assms(1)]]
  have "claims_normal b" using held_claims_normal [OF D(2)] assms(3) by (simp add: held_normal_def)
  with exclD [OF D(6) assms(2-4)] assms(5,6) show ?thesis by (auto simp: claimsConflict_iff)
qed

text \<open>A reader and another reader of the root resource run together.\<close>

definition two_readers :: coord_system where
  "two_readers = run_grant (run_enter (run_grant (run_enter (run_register (new_system 2)
     [writer_call, writer_call\<lparr>pc_static := [rootRead]\<rparr>]) 0) 0 1) 1) 1 2"

lemma reach_two_readers: "coord.reach two_readers"
  unfolding two_readers_def
proof (rule coord.step [OF _ step_grant], rule coord.step [OF _ step_enter], rule coord.step [OF _ step_grant],
    rule coord.step [OF _ step_enter], rule coord.step [OF _ step_register])
  show "coord.reach (new_system 2)"
    by (rule coord.init) (unfold coord_initial_def, intro exI [of _ 2], simp add: maxParallelHard_def)
  show "list_all static_ok [writer_call, writer_call\<lparr>pc_static := [rootRead]\<rparr>]"
    by (simp add: static_ok_def writer_call_def normal_claims)
qed code_simp+

theorem held_claims_never_conflict_witness: "\<not> writes [file_claim, rootRead] rootResource \<and> \<not> writes [rootRead] rootResource"
proof (rule held_claims_never_conflict [OF reach_two_readers, of 0 _ 1])
  show "map_of (co_held (sy_co two_readers)) 0 = Some [file_claim, rootRead]"
    "map_of (co_held (sy_co two_readers)) 1 = Some [rootRead]" by code_simp+
  show "touches [file_claim, rootRead] rootResource" "touches [rootRead] rootResource"
    by (simp_all add: touches_def rootRead_def)
qed simp

text \<open>C7 (safety). Submission order: a call that holds claims has overtaken no earlier unfinished call it conflicts with;
  the claims of every earlier unfinished call are known by then.\<close>

theorem no_conflicting_overtaking:
  assumes "coord.reach s" and "map_of (co_held (sy_co s)) u = Some b" and "t < u" and "t \<notin> set (co_released (sy_co s))"
  shows "\<exists>f. map_of (co_final (sy_co s)) t = Some f \<and> \<not> claimsConflict f b"
  using orderedD [OF coord_invD(7) [OF coord_reach_inv [OF assms(1)]] assms(2-4)] .

theorem no_conflicting_overtaking_witness:
  "\<exists>f. map_of (co_final (sy_co st3)) 0 = Some f \<and> \<not> claimsConflict f [rootRead]"
  by (rule no_conflicting_overtaking [OF reach_st3, of 1]) code_simp+

text \<open>C31 (bounds). Permits: those in use are exactly the calls that hold claims and the plans that run, never more than
  the configured parallelism, so a release never finds the counter at zero.\<close>

theorem permits_accounted:
  assumes "coord.reach s"
  shows "co_inUse (sy_co s) = int (length (co_held (sy_co s))) + int (sy_plans s)
    \<and> co_inUse (sy_co s) \<le> co_parallel (sy_co s)"
  using coord_invD(4) [OF coord_reach_inv [OF assms]] by (simp add: permits_inv_def)

theorem permits_accounted_witness: "co_inUse (sy_co st3) = 1"
proof -
  have "length (co_held (sy_co st3)) = 1" "sy_plans st3 = 0" by code_simp+
  with permits_accounted [OF reach_st3] show ?thesis by simp
qed

text \<open>The discovery frontier is the first ticket whose claims are not known, or the next ticket when all
  are; every ticket below it that is not released has its complete claim set on record.\<close>

theorem frontier_is_first_unknown:
  assumes "coord.reach s"
  shows "co_frontier (sy_co s) \<le> co_next (sy_co s)
    \<and> (co_frontier (sy_co s) < co_next (sy_co s) \<longrightarrow> co_frontier (sy_co s) \<in> set (co_pending (sy_co s)))
    \<and> (\<forall>t < co_frontier (sy_co s). t \<notin> set (co_pending (sy_co s)) \<and>
        (t \<in> set (co_released (sy_co s)) \<or> (\<exists>f. map_of (co_final (sy_co s)) t = Some f)))"
proof -
  note D = coord_invD [OF coord_reach_inv [OF assms]]
  show ?thesis using D(1) below_frontier_final [OF D(2,1)] by (auto simp: frontier_ok_def)
qed

theorem frontier_is_first_unknown_witness: "co_frontier (sy_co st1) \<in> set (co_pending (sy_co st1))"
proof -
  have "co_frontier (sy_co st1) < co_next (sy_co st1)" by code_simp
  with frontier_is_first_unknown [OF reach_st1] show ?thesis by blast
qed

text \<open>C20 (liveness). The oldest unfinished call is never blocked by resources: while it waits for its claims, some waiter
  can be granted as soon as a permit is free, and its claim extension always succeeds at once.\<close>

theorem oldest_call_progresses:
  assumes "coord.reach s" and "map_of (sy_calls s) t = Some cs" and "\<forall>u<t. u \<in> set (co_released (sy_co s))"
  shows "(\<forall>q. cs_phase cs = Waiting q \<longrightarrow> co_inUse (sy_co s) < co_parallel (sy_co s) \<longrightarrow>
        canGrantLocked (sy_co s) (call_waiter t cs q)
        \<and> (\<exists>w \<in> set (co_waiters (sy_co s)). \<exists>c. acquire_try (sy_co s) w = Some c))
    \<and> (\<forall>f. cs_phase cs = Extending f \<longrightarrow> (\<exists>c. extend_try (sy_co s) t f = Some c))"
proof -
  note inv = coord_reach_inv [OF assms(1)]
  show ?thesis
    using oldest_waiting [OF inv assms(2) _ assms(3)] oldest_extending [OF inv assms(2) _ assms(3)]
      waiters_invD(3) [OF coord_invD(3) [OF inv] assms(2)] some_grantable by blast
qed

theorem oldest_call_progresses_witness:
  "\<exists>w \<in> set (co_waiters (sy_co (run_enter st1 0))). \<exists>c. acquire_try (sy_co (run_enter st1 0)) w = Some c"
proof -
  let ?s = "run_enter st1 0"
  have "coord.reach ?s" by (rule coord.step [OF reach_st1], rule step_enter) code_simp+
  moreover have "map_of (sy_calls ?s) 0 = Some (call_of ?s 0)" "cs_phase (call_of ?s 0) = Waiting 1"
    "co_inUse (sy_co ?s) < co_parallel (sy_co ?s)" by code_simp+
  ultimately show ?thesis using oldest_call_progresses [of ?s 0 "call_of ?s 0"] by simp
qed

text \<open>No lost wakeup: every step moves the notification generation, so a goroutine that waits on the
  generation it read re-evaluates its predicate after any change.\<close>

theorem every_step_notifies:
  assumes "coord_step s s'"
  shows "co_notify (sy_co s) < co_notify (sy_co s')"
proof -
  have reg: "co_notify (register_calls c k calls) = co_notify c" for c k and calls :: "coord_call list"
    by (induction calls arbitrary: c k) (simp_all add: register_one_def)
  have sig: "co_notify (signalLocked c) = co_notify c + 1" "co_notify (advanceFrontierLocked c) = co_notify c" for c
    by (simp_all add: signalLocked_def advanceFrontierLocked_def)
  from assms show ?thesis
    by (cases rule: coord_step.cases)
      (auto simp: registerBatch_Inr acquire_enter_def acquire_try_Some acquire_cancel_def discover_Inr extend_try_Some
        release_def releasePermit_def removeWaiterLocked_def Let_def sig reg)
qed

theorem every_step_notifies_witness: "co_notify (sy_co st1) < co_notify (sy_co st2)"
  by (rule every_step_notifies, unfold st2_def, rule step_enter) code_simp+

text \<open>C32 (liveness). A call that waits for its extension keeps its permit. With one permit there is a reachable state in
  which an earlier call waits for the permit and the later call that holds it waits for the earlier call to finish:
  neither the grant nor the extension can happen, and no other call or plan is active.\<close>

theorem extension_can_deadlock:
  "\<exists>s f q. coord.reach s \<and> co_parallel (sy_co s) = 1 \<and> map fst (sy_calls s) = [0, 1] \<and> sy_plans s = 0
    \<and> cs_phase (call_of s 0) = Waiting q \<and> acquire_try (sy_co s) (call_waiter 0 (call_of s 0) q) = None
    \<and> cs_phase (call_of s 1) = Extending f \<and> extend_try (sy_co s) 1 f = None"
proof (intro exI conjI)
  show "coord.reach st5" by (rule reach_st5)
  show "cs_phase (call_of st5 0) = Waiting 2" "cs_phase (call_of st5 1) = Extending final_claims" by code_simp+
  show "acquire_try (sy_co st5) (call_waiter 0 (call_of st5 0) 2) = None" unfolding call_waiter_def by code_simp
qed code_simp+

end
