(* ===== verification/Batch_Inv.thy ===== *)
theory Batch_Inv
  imports Batch Coordinator_Safety
begin

text \<open>
  The invariant of a batch. What the threads have still to do for a call decides, together with its slot, the events it has
  sent and its phase in the coordinator, how the call can end; every action keeps that.
\<close>

section \<open>What is left to do for a call\<close>

fun about :: "nat \<Rightarrow> action \<Rightarrow> bool" where
  "about i (ASlot j r) \<longleftrightarrow> j = i"
| "about i (ASend ev) \<longleftrightarrow> be_Index ev = i"
| "about i (ARelease j) \<longleftrightarrow> j = i"
| "about i (AFatal j e) \<longleftrightarrow> j = i"
| "about i (ACheck j) \<longleftrightarrow> j = i"
| "about i (AAcquire j) \<longleftrightarrow> j = i"
| "about i (AWait j q) \<longleftrightarrow> j = i"
| "about i (AActivate j) \<longleftrightarrow> j = i"
| "about i (ADiscover j a f) \<longleftrightarrow> j = i"
| "about i (AExtend j a f) \<longleftrightarrow> j = i"
| "about i (ARun j a) \<longleftrightarrow> j = i"
| "about i (AExecute j) \<longleftrightarrow> j = i"
| "about i (AFinal j x) \<longleftrightarrow> j = i"
| "about i (AEnded j e) \<longleftrightarrow> j = i"
| "about i (ACancelled j s e) \<longleftrightarrow> j = i"
| "about i (ACancelEnd j s p e) \<longleftrightarrow> j = i"
| "about i (ASpawn j) \<longleftrightarrow> j = i"
| "about i _ \<longleftrightarrow> False"

type_synonym stage = "batch_event list \<times> batch_result \<times> phase option"

abbreviation ev_started :: "prepared_call \<Rightarrow> nat \<Rightarrow> bool \<Rightarrow> batch_event" where
  "ev_started pc i x \<equiv> \<lparr>be_Kind = BatchStarted, be_Index = i, be_Call = pr_call pc, be_Executed = x, be_Output = None, be_Err = None\<rparr>"

abbreviation ev_finished :: "prepared_call \<Rightarrow> nat \<Rightarrow> tool_output \<Rightarrow> batch_event" where
  "ev_finished pc i out \<equiv> \<lparr>be_Kind = BatchFinished, be_Index = i, be_Call = pr_call pc, be_Executed = False, be_Output = Some out,
     be_Err = None\<rparr>"

abbreviation ev_failed :: "prepared_call \<Rightarrow> nat \<Rightarrow> go_error \<Rightarrow> batch_event" where
  "ev_failed pc i e \<equiv> \<lparr>be_Kind = BatchFailed, be_Index = i, be_Call = pr_call pc, be_Executed = False, be_Output = None,
     be_Err = Some e\<rparr>"

text \<open>How a call may stand when nothing is left to do for it: its events and its slot agree, and its claims are released.\<close>

definition settled :: "prepared_call \<Rightarrow> nat \<Rightarrow> stage \<Rightarrow> bool" where
  "settled pc i st \<longleftrightarrow> (case st of (lg, slot, ph) \<Rightarrow>
     case pr_rejected pc of
       Some out \<Rightarrow> slot = ResultFinished out \<and> lg = [ev_started pc i False, ev_finished pc i out]
     | None \<Rightarrow> ph = Some Done \<and> (case slot of
           ResultSkipped \<Rightarrow> lg = [] \<or> lg = [ev_started pc i True]
         | ResultFinished out \<Rightarrow> \<exists>x. lg = [ev_started pc i x, ev_finished pc i out]
         | ResultFailed e \<Rightarrow> lg = [ev_failed pc i e] \<or> lg = [ev_started pc i True, ev_failed pc i e]
         | _ \<Rightarrow> False))"

definition releasable :: "phase option \<Rightarrow> bool" where
  "releasable ph \<longleftrightarrow> (\<exists>p. ph = Some p \<and> p \<noteq> Done \<and> (\<forall>q. p \<noteq> Waiting q))"

text \<open>The code of a call runs while it holds its claims.\<close>

definition holding :: "phase option \<Rightarrow> bool" where
  "holding ph \<longleftrightarrow> ph = Some Granted \<or> (\<exists>f. ph = Some (Running f))"

lemma holding_releasable: "holding ph \<Longrightarrow> releasable ph"
  by (auto simp: holding_def releasable_def)

text \<open>Where a call stands when a branching action is about to be done.\<close>

fun entry :: "prepared_call \<Rightarrow> nat \<Rightarrow> stage \<Rightarrow> action \<Rightarrow> bool" where
  "entry pc i (lg, slot, ph) (ACheck j) \<longleftrightarrow> j = i \<and> lg = [] \<and> slot = ResultPending \<and> ph = Some Registered"
| "entry pc i (lg, slot, ph) (AAcquire j) \<longleftrightarrow> j = i \<and> lg = [] \<and> slot = ResultPending \<and> ph = Some Registered"
| "entry pc i (lg, slot, ph) (AWait j q) \<longleftrightarrow> j = i \<and> lg = [] \<and> slot = ResultPending \<and> ph = Some (Waiting q)"
| "entry pc i (lg, slot, ph) (AActivate j) \<longleftrightarrow> j = i \<and> lg = [] \<and> slot = ResultPending \<and> ph = Some Granted \<and> pr_hasActivator pc"
| "entry pc i (lg, slot, ph) (ADiscover j act final) \<longleftrightarrow> j = i \<and> lg = [] \<and> slot = ResultPending \<and> ph = Some Granted
     \<and> pr_hasActivator pc \<and> extendClaims (pr_static pc) (ac_claims act) = Inr final"
| "entry pc i (lg, slot, ph) (AExtend j act final) \<longleftrightarrow> j = i \<and> lg = [] \<and> slot = ResultPending \<and> ph = Some (Extending final)"
| "entry pc i (lg, slot, ph) (ARun j act) \<longleftrightarrow> j = i \<and> lg = [ev_started pc i True] \<and> slot = ResultRunning \<and> holding ph"
| "entry pc i (lg, slot, ph) (AExecute j) \<longleftrightarrow> j = i \<and> lg = [ev_started pc i True] \<and> slot = ResultRunning \<and> holding ph"
| "entry pc i (lg, slot, ph) (AFinal j out) \<longleftrightarrow> j = i \<and> lg = [ev_started pc i True] \<and> slot = ResultRunning \<and> holding ph"
| "entry pc i (lg, slot, ph) (AEnded j e) \<longleftrightarrow> j = i \<and> lg = [ev_started pc i True] \<and> slot = ResultRunning \<and> holding ph"
| "entry pc i (lg, slot, ph) (ACancelled j started e) \<longleftrightarrow> j = i \<and> releasable ph
     \<and> (if started then lg = [ev_started pc i True] \<and> slot = ResultRunning else lg = [] \<and> slot = ResultPending)"
| "entry pc i (lg, slot, ph) (ACancelEnd j started p e) \<longleftrightarrow> j = i \<and> releasable ph
     \<and> (if started then lg = [ev_started pc i True] \<and> slot = ResultRunning else lg = [] \<and> slot = ResultPending)"
| "entry pc i st _ \<longleftrightarrow> False"

text \<open>From stage \<open>st\<close>, doing the actions ends the call properly. A branching action is the last.\<close>

fun follows :: "prepared_call \<Rightarrow> nat \<Rightarrow> stage \<Rightarrow> action list \<Rightarrow> bool" where
  "follows pc i st [] \<longleftrightarrow> settled pc i st"
| "follows pc i (lg, slot, ph) (ASlot j r # as) \<longleftrightarrow> j = i \<and> follows pc i (lg, r, ph) as"
| "follows pc i (lg, slot, ph) (ASend ev # as) \<longleftrightarrow> be_Index ev = i \<and> follows pc i (lg @ [ev], slot, ph) as"
| "follows pc i (lg, slot, ph) (ARelease j # as) \<longleftrightarrow> j = i \<and> releasable ph \<and> follows pc i (lg, slot, Some Done) as"
| "follows pc i st (ACancel # as) \<longleftrightarrow> follows pc i st as"
| "follows pc i st (AFatal j e # as) \<longleftrightarrow> j = i \<and> follows pc i st as"
| "follows pc i st (a # as) \<longleftrightarrow> as = [] \<and> pr_rejected pc = None \<and> entry pc i st a"

lemma entry_length: "entry pc i (lg, slot, ph) a \<Longrightarrow> length lg \<le> 1"
  by (cases a) (auto split: if_splits)

lemma settled_length: "settled pc i (lg, slot, ph) \<Longrightarrow> length lg \<le> 2"
  by (auto simp: settled_def split: option.splits batch_result.splits)

lemma follows_length: "follows pc i (lg, slot, ph) as \<Longrightarrow> length lg \<le> 2"
proof (induction as arbitrary: lg slot ph)
  case Nil
  then show ?case by (simp add: settled_length)
next
  case (Cons a as)
  then show ?case using entry_length [of pc i lg slot ph a] by (cases a) force+
qed

section \<open>Views of the state\<close>

definition acts_of :: "batch \<Rightarrow> thread \<Rightarrow> action list" where
  "acts_of b t = (case map_of (bt_threads b) t of None \<Rightarrow> [] | Some as \<Rightarrow> as)"

text \<open>A worker that is still to be spawned begins with its check.\<close>

fun spawned :: "action \<Rightarrow> action" where
  "spawned (ASpawn i) = ACheck i"
| "spawned a = a"

definition todo :: "batch \<Rightarrow> nat \<Rightarrow> action list" where
  "todo b i = map spawned (filter (about i) (acts_of b Dispatcher)) @ acts_of b (Worker i)"

definition log_of :: "batch \<Rightarrow> nat \<Rightarrow> batch_event list" where
  "log_of b i = filter (\<lambda>e. be_Index e = i) (bt_sent b)"

definition phase_of :: "batch \<Rightarrow> nat \<Rightarrow> phase option" where
  "phase_of b i = map_option cs_phase (own_state b i)"

definition stage_of :: "batch \<Rightarrow> nat \<Rightarrow> stage" where
  "stage_of b i = (log_of b i, bt_slots b ! i, phase_of b i)"

text \<open>The coordinator knows the call as it was prepared.\<close>

definition known :: "batch \<Rightarrow> nat \<Rightarrow> bool" where
  "known b i \<longleftrightarrow> (\<exists>cs. own_state b i = Some cs \<and> cs_static cs = pr_static (call_at b i) \<and> cs_activator cs = pr_hasActivator (call_at b i))"

text \<open>What a step for call \<open>i\<close> leaves alone.\<close>

definition own_change :: "nat \<Rightarrow> batch \<Rightarrow> batch \<Rightarrow> bool" where
  "own_change i b b' \<longleftrightarrow> bt_calls b' = bt_calls b \<and> bt_tickets b' = bt_tickets b \<and> bt_started b' = bt_started b
     \<and> bt_threads b' = bt_threads b \<and> bt_eventsClosed b' = bt_eventsClosed b \<and> bt_panic b' = bt_panic b
     \<and> bt_err b' = bt_err b \<and> length (bt_slots b') = length (bt_slots b) \<and> (\<forall>j. j \<noteq> i \<longrightarrow> bt_slots b' ! j = bt_slots b ! j)
     \<and> (\<exists>evs. bt_sent b' = bt_sent b @ evs \<and> bt_queue b' = bt_queue b @ evs \<and> (\<forall>e \<in> set evs. be_Index e = i))
     \<and> (bt_sys b' = bt_sys b \<or> coord_step (bt_sys b) (bt_sys b')
        \<and> (\<forall>t. t \<noteq> ticket_of b i \<longrightarrow> map_of (sy_calls (bt_sys b')) t = map_of (sy_calls (bt_sys b)) t))"

lemma own_change_refl: "own_change i b b"
  by (simp add: own_change_def)

text \<open>A coordinator step of the call is a step of the coordinator system.\<close>

lemma coordinate_change:
  assumes "own_state b i = Some cs" "coord_step (bt_sys b) (set_phase (bt_sys b) (ticket_of b i) cs p c)"
  shows "own_change i b (coordinate b i p c)" "own_state (coordinate b i p c) i = Some (cs\<lparr>cs_phase := p\<rparr>)"
    "log_of (coordinate b i p c) = log_of b" "bt_slots (coordinate b i p c) = bt_slots b" "call_at (coordinate b i p c) = call_at b"
    "bt_closed (coordinate b i p c) = bt_closed b" "bt_threads (coordinate b i p c) = bt_threads b"
  using assms
  by (auto simp: own_change_def coordinate_def own_state_def ticket_of_def set_phase_def log_of_def call_at_def fun_eq_iff)

lemma stage_coordinate:
  assumes "own_state b i = Some cs" "coord_step (bt_sys b) (set_phase (bt_sys b) (ticket_of b i) cs p c)"
  shows "stage_of (coordinate b i p c) i = (log_of b i, bt_slots b ! i, Some p)"
  using coordinate_change [OF assms] by (simp add: stage_of_def phase_of_def)

lemma known_coordinate:
  assumes "own_state b i = Some cs" "coord_step (bt_sys b) (set_phase (bt_sys b) (ticket_of b i) cs p c)" "known b i"
  shows "known (coordinate b i p c) i"
  using coordinate_change [OF assms(1,2)] assms(1,3) by (auto simp: known_def)

section \<open>Actions of a call\<close>

lemmas event_defs = started_event_def finished_event_def failed_event_def

text \<open>The helpers end a call from where they are used.\<close>

lemma follows_fail:
  "lg = [] \<and> slot = ResultPending \<or> lg = [ev_started (call_at b i) i True] \<Longrightarrow> releasable ph \<Longrightarrow> pr_rejected (call_at b i) = None \<Longrightarrow>
     follows (call_at b i) i (lg, slot, ph) (fail b i err)"
  by (auto simp: fail_def event_defs settled_def)

lemma follows_skip:
  "lg = [] \<or> lg = [ev_started (call_at b i) i True] \<Longrightarrow> releasable ph \<Longrightarrow> pr_rejected (call_at b i) = None \<Longrightarrow>
     follows (call_at b i) i (lg, slot, ph) (skip i)"
  by (auto simp: skip_def settled_def)

lemma follows_reject_release:
  "lg = [] \<Longrightarrow> releasable ph \<Longrightarrow> pr_rejected (call_at b i) = None \<Longrightarrow>
     follows (call_at b i) i (lg, slot, ph) (emitRejected b i out @ [ARelease i])"
  by (auto simp: emitRejected_def event_defs settled_def)

lemma releasable_simps [simp]:
  "releasable (Some Registered)" "releasable (Some Abandoned)" "releasable (Some Granted)" "releasable (Some (Extending f))"
  "releasable (Some (Running f))" "\<not> releasable (Some Done)" "\<not> releasable (Some (Waiting q))" "\<not> releasable None"
  by (simp_all add: releasable_def)

lemma holding_simps [simp]: "holding (Some Granted)" "holding (Some (Running f))"
  by (simp_all add: holding_def)

text \<open>The conclusion of a step for a call.\<close>

definition step_ok :: "batch \<Rightarrow> nat \<Rightarrow> action list \<Rightarrow> batch \<Rightarrow> bool" where
  "step_ok b i new b' \<longleftrightarrow> own_change i b b' \<and> known b' i \<and> follows (call_at b i) i (stage_of b' i) new"

lemma step_same: "known b i \<Longrightarrow> follows (call_at b i) i (stage_of b i) new \<Longrightarrow> step_ok b i new b"
  by (simp add: step_ok_def own_change_refl)

lemma step_coordinate:
  assumes "own_state b i = Some cs" "coord_step (bt_sys b) (set_phase (bt_sys b) (ticket_of b i) cs p c)" "known b i"
    "follows (call_at b i) i (log_of b i, bt_slots b ! i, Some p) new"
  shows "step_ok b i new (coordinate b i p c)"
  using coordinate_change(1) [OF assms(1,2)] known_coordinate [OF assms(1-3)] assms(4)
  by (simp add: step_ok_def stage_coordinate [OF assms(1,2)])

text \<open>Every branching action of a call keeps the call on its way.\<close>

lemma knownD:
  assumes "known b i" "phase_of b i = Some p"
  obtains cs where "own_state b i = Some cs" "map_of (sy_calls (bt_sys b)) (ticket_of b i) = Some cs" "cs_phase cs = p"
    "cs_static cs = pr_static (call_at b i)" "cs_activator cs = pr_hasActivator (call_at b i)"
  using assms by (auto simp: known_def phase_of_def own_state_def)

lemma exec_branch:
  assumes "exec E ex a r b = Some (new, b')" "entry (call_at b i) i (stage_of b i) a" "pr_rejected (call_at b i) = None"
    "known b i"
  shows "step_ok b i new b'"
proof (cases a)
  case (ACheck j)
  with assms show ?thesis
    by (auto simp: stage_of_def split: if_splits intro!: step_same follows_skip)
next
  case (AAcquire j)
  then have st: "log_of b i = []" "bt_slots b ! i = ResultPending" "phase_of b i = Some Registered" "j = i"
    using assms(2) by (simp_all add: stage_of_def)
  show ?thesis
  proof (cases "ctx_done b")
    case True
    with assms(1,3,4) st show ?thesis
      by (auto simp: AAcquire stage_of_def intro!: step_same follows_skip)
  next
    case False
    obtain w c where wc: "acquire_enter (co_of b) (ticket_waiter (ticket_of b i) (pr_static (call_at b i))) = (w, c)"
      by (cases "acquire_enter (co_of b) (ticket_waiter (ticket_of b i) (pr_static (call_at b i)))")
    obtain cs where cs: "own_state b i = Some cs" "map_of (sy_calls (bt_sys b)) (ticket_of b i) = Some cs" "cs_phase cs = Registered"
      "cs_static cs = pr_static (call_at b i)" using knownD [OF assms(4) st(3)] by blast
    have "coord_step (bt_sys b) (set_phase (bt_sys b) (ticket_of b i) cs (Waiting (w_seq w)) c)"
      by (rule coord_step.Enter [OF cs(2,3)]) (simp add: cs(4) wc)
    moreover have "new = [AWait i (w_seq w)]" "b' = coordinate b i (Waiting (w_seq w)) c"
      using assms(1) False st(4) wc by (simp_all add: AAcquire)
    ultimately show ?thesis using step_coordinate [OF cs(1) _ assms(4)] st assms(3) by simp
  qed
next
  case (AWait j q)
  then have st: "log_of b i = []" "bt_slots b ! i = ResultPending" "phase_of b i = Some (Waiting q)" "j = i"
    using assms(2) by (simp_all add: stage_of_def)
  obtain cs where cs: "own_state b i = Some cs" "map_of (sy_calls (bt_sys b)) (ticket_of b i) = Some cs" "cs_phase cs = Waiting q"
    "cs_static cs = pr_static (call_at b i)" using knownD [OF assms(4) st(3)] by blast
  let ?w = "(ticket_waiter (ticket_of b i) (pr_static (call_at b i)))\<lparr>w_seq := q\<rparr>"
  from assms(1) st(4) have round: "wait_round b i q r = Some (new, b')" by (simp add: AWait)
  show ?thesis
  proof (cases r)
    case RTry
    with round obtain c where c: "acquire_try (co_of b) ?w = Some c" "b' = coordinate b i Granted c"
      "new = (if pr_hasActivator (call_at b i) then [AActivate i] else begin_running b i (AExecute i))"
      by (auto simp: wait_round_def Let_def)
    have "coord_step (bt_sys b) (set_phase (bt_sys b) (ticket_of b i) cs Granted c)"
      by (rule coord_step.Grant [OF cs(2,3)]) (simp add: cs(4) c(1))
    from step_coordinate [OF cs(1) this assms(4)] st assms(3) show ?thesis
      by (auto simp: c(2,3) begin_running_def event_defs)
  next
    case (RDone x)
    with round have "new = skip i" "b' = coordinate b i Abandoned (acquire_cancel (co_of b) ?w)"
      by (auto simp: wait_round_def Let_def split: if_splits)
    moreover have "coord_step (bt_sys b) (set_phase (bt_sys b) (ticket_of b i) cs Abandoned (acquire_cancel (co_of b) ?w))"
      using coord_step.Cancel [OF cs(2,3)] by (simp add: cs(4))
    ultimately show ?thesis using step_coordinate [OF cs(1) _ assms(4)] st assms(3) by (simp add: follows_skip)
  qed (use round in \<open>simp_all add: wait_round_def Let_def\<close>)
next
  case (AActivate j)
  then have st: "log_of b i = []" "bt_slots b ! i = ResultPending" "phase_of b i = Some Granted" "j = i" "pr_hasActivator (call_at b i)"
    using assms(2) by (simp_all add: stage_of_def)
  obtain res cl where "new = after_activate E ex b i res cl" "b' = b"
  proof (cases r)
    case (RActivate res cl)
    then have "(after_activate E ex b i res cl, b) = (new, b')" using assms(1) by (auto simp: AActivate st(4))
    then show ?thesis using that by blast
  qed (use assms(1) in \<open>simp_all add: AActivate\<close>)
  moreover have "follows (call_at b i) i (stage_of b i) (after_activate E ex b i res cl)"
  proof (cases res)
    case (Inl err)
    have f: "follows (call_at b i) i ([], ResultPending, Some Granted) (fail b i e)" for e
      by (rule follows_fail) (simp_all add: assms(3))
    have j: "follows (call_at b i) i ([], ResultPending, Some Granted) (emitRejected b i out @ [ARelease i])" for out
      by (rule follows_reject_release) (simp_all add: assms(3))
    show ?thesis unfolding after_activate_def stage_of_def st(1-3) Inl sum.case
      by (cases "asCallErrorIn err") (simp_all add: f j assms(3))
  next
    case (Inr act)
    have f: "follows (call_at b i) i ([], ResultPending, Some Granted) (fail b i e)" for e
      by (rule follows_fail) (simp_all add: assms(3))
    show ?thesis unfolding after_activate_def stage_of_def st(1-3) Inr sum.case
      by (cases "extendClaims (pr_static (call_at b i)) (ac_claims act)") (simp_all add: f assms(3) st(5))
  qed
  ultimately show ?thesis using step_same [OF assms(4)] by simp
next
  case (ADiscover j act final)
  then have st: "log_of b i = []" "bt_slots b ! i = ResultPending" "phase_of b i = Some Granted" "j = i" "pr_hasActivator (call_at b i)"
    "extendClaims (pr_static (call_at b i)) (ac_claims act) = Inr final"
    using assms(2) by (simp_all add: stage_of_def)
  obtain cs where cs: "own_state b i = Some cs" "map_of (sy_calls (bt_sys b)) (ticket_of b i) = Some cs" "cs_phase cs = Granted"
    "cs_static cs = pr_static (call_at b i)" "cs_activator cs = pr_hasActivator (call_at b i)" using knownD [OF assms(4) st(3)] by blast
  obtain cl where r: "r = RDone cl"
  proof (cases r)
    case (RDone cl)
    then show ?thesis by (rule that)
  qed (use assms(1) in \<open>simp_all add: ADiscover\<close>)
  show ?thesis
  proof (cases "discover (co_of b) (ticket_of b i) final")
    case (Inl f)
    with assms(1) have "new = fail b i (with_close (execution_error f) act cl)" "b' = b" by (auto simp: ADiscover st(4) r)
    then show ?thesis using st assms(3) by (auto simp: stage_of_def intro!: step_same assms(4) follows_fail)
  next
    case (Inr c)
    with assms(1) have n: "new = [AExtend i act final]" "b' = coordinate b i (Extending final) c" by (auto simp: ADiscover st(4) r)
    have "coord_step (bt_sys b) (set_phase (bt_sys b) (ticket_of b i) cs (Extending final) c)"
      by (rule coord_step.Discover [OF cs(2,3) _ _ Inr, where extra = "ac_claims act"]) (simp_all add: cs st)
    from step_coordinate [OF cs(1) this assms(4)] st assms(3) show ?thesis by (simp add: n)
  qed
next
  case (AExtend j act final)
  then have st: "log_of b i = []" "bt_slots b ! i = ResultPending" "phase_of b i = Some (Extending final)" "j = i"
    using assms(2) by (simp_all add: stage_of_def)
  obtain cs where cs: "own_state b i = Some cs" "map_of (sy_calls (bt_sys b)) (ticket_of b i) = Some cs" "cs_phase cs = Extending final"
    using knownD [OF assms(4) st(3)] by blast
  from assms(1) st(4) have round: "extend_round b i act final r = Some (new, b')" by (simp add: AExtend)
  show ?thesis
  proof (cases r)
    case RTry
    with round obtain c where c: "extend_try (co_of b) (ticket_of b i) final = Some c" "b' = coordinate b i (Running final) c"
      "new = begin_running b i (ARun i act)" by (auto simp: extend_round_def)
    from step_coordinate [OF cs(1) coord_step.Extend [OF cs(2,3) c(1)] assms(4)] st assms(3) show ?thesis
      by (simp add: c(2,3) begin_running_def event_defs)
  next
    case (RDone cl)
    with round have "b' = b" "new = (case close_error act cl of Some ce \<Rightarrow> fail b i (joinErrors [cancelled_error, ce])
        | None \<Rightarrow> [ACancelled i False cancelled_error])"
      by (auto simp: extend_round_def split: if_splits)
    then show ?thesis using st assms(3)
      by (auto simp: stage_of_def intro!: step_same assms(4) follows_fail split: option.splits)
  qed (use round in \<open>simp_all add: extend_round_def\<close>)
next
  case (ARun j act)
  with assms show ?thesis
    by (auto simp: stage_of_def after_run_def intro!: step_same split: reply.splits sum.splits option.splits)
next
  case (AExecute j)
  with assms show ?thesis
    by (auto simp: stage_of_def after_run_def intro!: step_same split: reply.splits sum.splits option.splits)
next
  case (AFinal j out)
  then have st: "log_of b i = [ev_started (call_at b i) i True]" "releasable (phase_of b i)" "j = i"
    using assms(2) holding_releasable by (simp_all add: stage_of_def)
  have "follows (call_at b i) i (stage_of b i) (after_output E ex b i out)"
    unfolding after_output_def Let_def stage_of_def st(1)
    using st assms(3) follows_fail [where b = b and i = i and lg = "[ev_started (call_at b i) i True]"]
    by (auto simp: settled_def event_defs split: sum.splits)
  then show ?thesis using assms(1) st(3) step_same [OF assms(4)] by (auto simp: AFinal)
next
  case (AEnded j e)
  with assms show ?thesis
    by (auto simp: stage_of_def after_error_def holding_releasable intro!: step_same follows_fail)
next
  case (ACancelled j started e)
  with assms show ?thesis
    by (auto simp: stage_of_def cancelled_def intro!: step_same split: if_splits)
next
  case (ACancelEnd j started p e)
  with assms show ?thesis
    by (auto simp: stage_of_def cancel_end_def event_defs settled_def intro!: step_same follows_skip split: if_splits)
qed (use assms in \<open>simp_all add: stage_of_def\<close>)

end
