(* ===== verification/Batch_Run.thy ===== *)
theory Batch_Run
  imports Batch_Inv
begin

text \<open>
  The invariant of whole batches, and that every step keeps it.
\<close>

section \<open>One action of a call\<close>

definition call_inv :: "batch \<Rightarrow> nat \<Rightarrow> bool" where
  "call_inv b i \<longleftrightarrow> follows (call_at b i) i (stage_of b i) (todo b i) \<and> (pr_rejected (call_at b i) = None \<longrightarrow> known b i)"

lemma send_room:
  "\<not> bt_eventsClosed b \<Longrightarrow> length (bt_queue b) < channel_capacity b \<Longrightarrow>
     send ev b = Some (b\<lparr>bt_queue := bt_queue b @ [ev], bt_sent := bt_sent b @ [ev]\<rparr>)"
  by (simp add: send_def)

lemma exec_call:
  assumes "exec E ex a r b = Some (new, b')" "follows (call_at b i) i (stage_of b i) (a # as)"
    and "pr_rejected (call_at b i) = None \<longrightarrow> known b i"
    and "\<not> bt_eventsClosed b" "length (bt_queue b) < channel_capacity b" "i < length (bt_slots b)"
  shows "own_change i b b' \<and> (pr_rejected (call_at b i) = None \<longrightarrow> known b' i)
    \<and> follows (call_at b i) i (stage_of b' i) (new @ as)"
proof -
  have branch: ?thesis if "entry (call_at b i) i (stage_of b i) a" "pr_rejected (call_at b i) = None" "as = []"
    using exec_branch [OF assms(1) that(1,2)] assms(3) that by (simp add: step_ok_def)
  have sl: "b' = b\<lparr>bt_slots := (bt_slots b)[i := x]\<rparr> \<Longrightarrow> own_change i b b' \<and> known b' i = known b i
      \<and> stage_of b' i = (log_of b i, x, phase_of b i)" for x
    using assms(6) by (auto simp: own_change_def known_def own_state_def ticket_of_def call_at_def stage_of_def log_of_def phase_of_def)
  show ?thesis
  proof (cases a)
    case (ASlot j x)
    then have "new = []" "b' = b\<lparr>bt_slots := (bt_slots b)[i := x]\<rparr>" "follows (call_at b i) i (log_of b i, x, phase_of b i) as"
      using assms(1,2) by (auto simp: stage_of_def)
    with sl [of x] assms(3) show ?thesis by simp
  next
    case (ASend ev)
    then have "new = []" "b' = b\<lparr>bt_queue := bt_queue b @ [ev], bt_sent := bt_sent b @ [ev]\<rparr>" "be_Index ev = i"
      "follows (call_at b i) i (log_of b i @ [ev], bt_slots b ! i, phase_of b i) as"
      using assms(1,2) send_room [OF assms(4,5)] by (auto simp: stage_of_def)
    then show ?thesis using assms(3)
      by (auto simp: own_change_def known_def own_state_def ticket_of_def call_at_def stage_of_def log_of_def phase_of_def)
  next
    case (ARelease j)
    then have f: "new = []" "b' = coordinate b i Done (release (co_of b) (ticket_of b i))" "releasable (phase_of b i)"
      "follows (call_at b i) i (log_of b i, bt_slots b ! i, Some Done) as"
      using assms(1,2) by (auto simp: stage_of_def)
    then obtain cs where cs: "own_state b i = Some cs" "map_of (sy_calls (bt_sys b)) (ticket_of b i) = Some cs" "cs_phase cs \<noteq> Done"
      "\<forall>q. cs_phase cs \<noteq> Waiting q"
      by (auto simp: releasable_def phase_of_def own_state_def)
    note st = coord_step.Release [OF cs(2-4)]
    show ?thesis
      using coordinate_change(1) [OF cs(1) st] known_coordinate [OF cs(1) st] stage_coordinate [OF cs(1) st] f assms(3) by simp
  next
    case ACancel
    then show ?thesis using assms(1-3)
      by (auto simp: own_change_def known_def own_state_def ticket_of_def call_at_def stage_of_def log_of_def phase_of_def)
  next
    case (AFatal j e)
    then show ?thesis using assms(1-3)
      by (auto simp: own_change_def known_def own_state_def ticket_of_def call_at_def stage_of_def log_of_def phase_of_def)
  qed (use branch assms(2) in \<open>auto simp: stage_of_def\<close>)
qed

section \<open>The invariant\<close>

definition all_done :: "batch \<Rightarrow> bool" where
  "all_done b \<longleftrightarrow> (\<forall>i. acts_of b (Worker i) = [])"

text \<open>What the dispatcher does before it waits for the workers.\<close>

definition dispatch_action :: "batch \<Rightarrow> action \<Rightarrow> bool" where
  "dispatch_action b a \<longleftrightarrow> (\<exists>i < length (bt_calls b).
     pr_rejected (call_at b i) = None \<and> a = ASpawn i
     \<or> pr_rejected (call_at b i) \<noteq> None \<and> ((\<exists>x. a = ASlot i x) \<or> (\<exists>ev. a = ASend ev \<and> be_Index ev = i)))"

definition registered_inv :: "batch \<Rightarrow> action list \<Rightarrow> bool" where
  "registered_inv b d \<longleftrightarrow> (\<exists>k. bt_tickets b = [k..<k + length (bt_calls b)]) \<and> (\<forall>i < length (bt_calls b). call_inv b i)
     \<and> ((\<exists>xs. d = xs @ [AJoin] \<and> list_all (dispatch_action b) xs) \<and> \<not> bt_eventsClosed b
        \<or> (d = [ASummary] \<or> d = [ACloseEvents]) \<and> all_done b \<and> \<not> bt_eventsClosed b
        \<or> d = [] \<and> all_done b \<and> bt_eventsClosed b)"

definition quiet :: "batch \<Rightarrow> batch_result \<Rightarrow> bool" where
  "quiet b r \<longleftrightarrow> bt_tickets b = [] \<and> bt_sent b = [] \<and> all_done b \<and> bt_slots b = replicate (length (bt_calls b)) r"

text \<open>Where the batch stands, by what the dispatcher has still to do.\<close>

definition life_inv :: "batch \<Rightarrow> bool" where
  "life_inv b \<longleftrightarrow> (case map_of (bt_threads b) Dispatcher of
     None \<Rightarrow> if bt_started b then quiet b ResultSkipped \<and> bt_eventsClosed b else quiet b ResultPending \<and> \<not> bt_eventsClosed b
   | Some d \<Rightarrow> bt_started b
       \<and> (d = [ARegister] \<and> quiet b ResultPending \<and> \<not> bt_eventsClosed b
          \<or> quiet b ResultSkipped \<and> (d = [ACloseEvents] \<and> \<not> bt_eventsClosed b \<or> d = [] \<and> bt_eventsClosed b)
          \<or> registered_inv b d))"

definition threads_inv :: "batch \<Rightarrow> bool" where
  "threads_inv b \<longleftrightarrow> (\<forall>i as. map_of (bt_threads b) (Worker i) = Some as \<longrightarrow> i < length (bt_calls b) \<and> pr_rejected (call_at b i) = None)
     \<and> (acts_of b Closer = [] \<or> acts_of b Closer = [ACancel])"

definition batch_inv :: "batch \<Rightarrow> bool" where
  "batch_inv b \<longleftrightarrow> calls_ok (bt_calls b) \<and> length (bt_slots b) = length (bt_calls b) \<and> coord.reach (bt_sys b)
     \<and> \<not> bt_panic b \<and> (\<exists>rcv. bt_sent b = rcv @ bt_queue b) \<and> (\<forall>e \<in> set (bt_sent b). be_Index e < length (bt_calls b))
     \<and> threads_inv b \<and> life_inv b"

lemma batch_invD:
  assumes "batch_inv b"
  shows "calls_ok (bt_calls b)" "length (bt_slots b) = length (bt_calls b)" "coord.reach (bt_sys b)" "\<not> bt_panic b"
    "\<exists>rcv. bt_sent b = rcv @ bt_queue b" "\<forall>e \<in> set (bt_sent b). be_Index e < length (bt_calls b)" "threads_inv b" "life_inv b"
  using assms by (simp_all add: batch_inv_def)

section \<open>The channel has room\<close>

lemma sum_filter_index:
  "\<forall>e \<in> set es. be_Index e < n \<Longrightarrow> length es = (\<Sum>i < n. length (filter (\<lambda>e. be_Index e = i) es))"
proof (induction es)
  case (Cons e es)
  have "(\<Sum>i < n. length (filter (\<lambda>e. be_Index e = i) (e # es)))
      = (\<Sum>i < n. (if i = be_Index e then 1 else 0) + length (filter (\<lambda>e. be_Index e = i) es))"
    by (rule sum.cong) auto
  also have "\<dots> = 1 + (\<Sum>i < n. length (filter (\<lambda>e. be_Index e = i) es))"
    using Cons.prems by (simp add: sum.distrib)
  finally show ?case using Cons by simp
qed simp

lemma call_inv_follows: "call_inv b i \<Longrightarrow> follows (call_at b i) i (stage_of b i) (todo b i)"
  by (simp add: call_inv_def)

lemma call_inv_length: "call_inv b i \<Longrightarrow> length (log_of b i) \<le> 2"
  using follows_length by (auto simp: call_inv_def stage_of_def)

lemma registered_room:
  assumes "batch_inv b" "\<forall>i < length (bt_calls b). call_inv b i"
  shows "length (bt_sent b) \<le> 2 * length (bt_calls b)" "length (bt_queue b) < channel_capacity b"
proof -
  have "length (bt_sent b) = (\<Sum>i < length (bt_calls b). length (log_of b i))"
    using sum_filter_index batch_invD(6) [OF assms(1)] by (simp add: log_of_def)
  also have "\<dots> \<le> (\<Sum>i < length (bt_calls b). 2)"
    by (rule sum_mono) (use assms(2) call_inv_length in auto)
  finally show s: "length (bt_sent b) \<le> 2 * length (bt_calls b)" by simp
  moreover have "length (bt_queue b) \<le> length (bt_sent b)" using batch_invD(5) [OF assms(1)] by auto
  ultimately show "length (bt_queue b) < channel_capacity b" by (simp add: channel_capacity_def)
qed

section \<open>Frames\<close>

lemma own_changeD:
  assumes "own_change i b b'"
  shows "bt_calls b' = bt_calls b" "bt_tickets b' = bt_tickets b" "bt_started b' = bt_started b" "bt_threads b' = bt_threads b"
    "bt_eventsClosed b' = bt_eventsClosed b" "bt_panic b' = bt_panic b" "length (bt_slots b') = length (bt_slots b)"
    "j \<noteq> i \<Longrightarrow> bt_slots b' ! j = bt_slots b ! j"
    "\<exists>evs. bt_sent b' = bt_sent b @ evs \<and> bt_queue b' = bt_queue b @ evs \<and> (\<forall>e \<in> set evs. be_Index e = i)"
    "bt_sys b' = bt_sys b \<or> coord_step (bt_sys b) (bt_sys b')"
    "t \<noteq> ticket_of b i \<Longrightarrow> map_of (sy_calls (bt_sys b')) t = map_of (sy_calls (bt_sys b)) t"
  using assms by (auto simp: own_change_def)

lemma other_call:
  assumes "own_change i b b'" "j \<noteq> i" "bt_tickets b = [k..<k + n]" "i < n" "j < n"
  shows "stage_of b' j = stage_of b j" "known b' j = known b j" "call_at b' j = call_at b j"
proof -
  note D = own_changeD [OF assms(1)]
  have t: "ticket_of b' j = ticket_of b j" "ticket_of b j \<noteq> ticket_of b i"
    using assms(2-5) by (simp_all add: ticket_of_def D(2))
  then have os: "own_state b' j = own_state b j" using D(11) [of "ticket_of b j"] by (simp add: own_state_def)
  have "log_of b' j = log_of b j"
    using D(9) assms(2) by (auto simp: log_of_def filter_empty_conv)
  then show "stage_of b' j = stage_of b j" using D(8) [OF assms(2)] by (simp add: stage_of_def phase_of_def os)
  show c: "call_at b' j = call_at b j" by (simp add: call_at_def D(1))
  then show "known b' j = known b j" by (simp add: known_def os)
qed

lemma acts_gput [simp]:
  "acts_of (b\<lparr>bt_threads := gput t as (bt_threads b)\<rparr>) u = (if u = t then as else acts_of b u)"
  by (simp add: acts_of_def)

lemma thread_simps [simp]:
  "stage_of (b\<lparr>bt_threads := x\<rparr>) i = stage_of b i" "known (b\<lparr>bt_threads := x\<rparr>) i = known b i"
  "call_at (b\<lparr>bt_threads := x\<rparr>) i = call_at b i"
  by (simp_all add: stage_of_def log_of_def phase_of_def known_def own_state_def ticket_of_def call_at_def)

lemma acts_of_Some: "map_of (bt_threads b) t = Some as \<Longrightarrow> acts_of b t = as"
  by (simp add: acts_of_def)

lemma coord_reach_step: "coord.reach s \<Longrightarrow> t = s \<or> coord_step s t \<Longrightarrow> coord.reach t"
  using coord.reach.step by blast

text \<open>The parts of the invariant that a step for a call keeps by its frame.\<close>

lemma frame_inv:
  assumes "batch_inv b" "own_change i b b'" "i < length (bt_calls b)"
  shows "calls_ok (bt_calls b')" "length (bt_slots b') = length (bt_calls b')" "coord.reach (bt_sys b')" "\<not> bt_panic b'"
    "\<exists>rcv. bt_sent b' = rcv @ bt_queue b'" "\<forall>e \<in> set (bt_sent b'). be_Index e < length (bt_calls b')"
proof -
  note I = batch_invD [OF assms(1)] and D = own_changeD [OF assms(2)]
  show "calls_ok (bt_calls b')" "length (bt_slots b') = length (bt_calls b')" "\<not> bt_panic b'" using I D by simp_all
  show "coord.reach (bt_sys b')" using coord_reach_step [OF I(3)] D(10) by auto
  obtain evs where e: "bt_sent b' = bt_sent b @ evs" "bt_queue b' = bt_queue b @ evs" "\<forall>e \<in> set evs. be_Index e = i"
    using D(9) by blast
  with I(5) show "\<exists>rcv. bt_sent b' = rcv @ bt_queue b'" by auto
  show "\<forall>e \<in> set (bt_sent b'). be_Index e < length (bt_calls b')" using e I(6) assms(3) D(1) by auto
qed

section \<open>Worker steps\<close>

lemma worker_registered:
  assumes "batch_inv b" "map_of (bt_threads b) (Worker i) = Some (a # as)"
  obtains xs where "bt_started b" "map_of (bt_threads b) Dispatcher = Some (xs @ [AJoin])" "list_all (dispatch_action b) xs"
    "\<not> bt_eventsClosed b" "\<forall>j < length (bt_calls b). call_inv b j" "i < length (bt_calls b)" "pr_rejected (call_at b i) = None"
    "\<exists>k. bt_tickets b = [k..<k + length (bt_calls b)]" "follows (call_at b i) i (stage_of b i) (a # as)"
    "filter (about i) xs = []"
proof -
  have w: "acts_of b (Worker i) = a # as" using assms(2) by (rule acts_of_Some)
  then have nd: "\<not> all_done b" unfolding all_done_def by (metis list.distinct(1))
  have i: "i < length (bt_calls b)" "pr_rejected (call_at b i) = None"
    using batch_invD(7) [OF assms(1)] assms(2) by (auto simp: threads_inv_def)
  obtain d where d: "map_of (bt_threads b) Dispatcher = Some d" "bt_started b" "registered_inv b d"
    using batch_invD(8) [OF assms(1)] nd by (auto simp: life_inv_def quiet_def split: option.splits if_splits)
  then obtain xs where xs: "d = xs @ [AJoin]" "list_all (dispatch_action b) xs" "\<not> bt_eventsClosed b"
    and c: "\<forall>j < length (bt_calls b). call_inv b j" "\<exists>k. bt_tickets b = [k..<k + length (bt_calls b)]"
    using nd by (auto simp: registered_inv_def)
  have f: "follows (call_at b i) i (stage_of b i) (map spawned (filter (about i) xs) @ a # as)"
  proof -
    have "follows (call_at b i) i (stage_of b i) (todo b i)" using c(1) i(1) by (simp add: call_inv_def)
    then show ?thesis unfolding todo_def w acts_of_Some [OF d(1)] xs(1) by simp
  qed
  have "filter (about i) xs = []"
  proof (rule ccontr)
    assume "filter (about i) xs \<noteq> []"
    then obtain y ys where y: "filter (about i) xs = y # ys" by (cases "filter (about i) xs") auto
    then have "y \<in> set (filter (about i) xs)" by simp
    then have "y \<in> set xs" "about i y" by simp_all
    then have "y = ASpawn i" using xs(2) i(2) by (auto simp: list_all_iff dispatch_action_def)
    with f y show False by (cases "stage_of b i") (simp add: xs(1))
  qed
  with f show thesis using that [OF d(2) _ xs(2,3) c(1) i c(2)] d(1) xs(1) by simp
qed

lemma dispatch_action_cong: "bt_calls b' = bt_calls b \<Longrightarrow> dispatch_action b' a = dispatch_action b a"
  by (simp add: dispatch_action_def call_at_def)

lemma worker_step:
  assumes "batch_inv b" "map_of (bt_threads b) (Worker i) = Some (a # as)" "exec E ex a r b = Some (new, b')"
  shows "batch_inv (b'\<lparr>bt_threads := gput (Worker i) (new @ as) (bt_threads b')\<rparr>)"
proof -
  obtain xs where R: "bt_started b" "map_of (bt_threads b) Dispatcher = Some (xs @ [AJoin])" "list_all (dispatch_action b) xs"
    "\<not> bt_eventsClosed b" "\<forall>j < length (bt_calls b). call_inv b j" "i < length (bt_calls b)" "pr_rejected (call_at b i) = None"
    "\<exists>k. bt_tickets b = [k..<k + length (bt_calls b)]" "follows (call_at b i) i (stage_of b i) (a # as)" "filter (about i) xs = []"
    by (rule worker_registered [OF assms(1,2)])
  note I = batch_invD [OF assms(1)]
  have kn: "pr_rejected (call_at b i) = None \<longrightarrow> known b i" using R(5,6) by (simp add: call_inv_def)
  have X: "own_change i b b'" "known b' i" "follows (call_at b i) i (stage_of b' i) (new @ as)"
    using exec_call [OF assms(3) R(9) kn R(4) registered_room(2) [OF assms(1) R(5)]] R(6,7) I(2) by simp_all
  note D = own_changeD [OF X(1)]
  let ?b = "b'\<lparr>bt_threads := gput (Worker i) (new @ as) (bt_threads b')\<rparr>"
  have F: "calls_ok (bt_calls ?b)" "length (bt_slots ?b) = length (bt_calls ?b)" "coord.reach (bt_sys ?b)" "\<not> bt_panic ?b"
    "\<exists>rcv. bt_sent ?b = rcv @ bt_queue ?b" "\<forall>e \<in> set (bt_sent ?b). be_Index e < length (bt_calls ?b)"
    using frame_inv [OF assms(1) X(1) R(6)] by simp_all
  have th: "acts_of b' u = acts_of b u" for u by (simp add: acts_of_def D(4))
  have "call_inv ?b j" if j: "j < length (bt_calls b)" for j
  proof (cases "j = i")
    case True
    have "todo ?b i = new @ as" using R(10) acts_of_Some [OF R(2)] by (simp add: todo_def th)
    then show ?thesis using X(2,3) by (simp add: True call_inv_def call_at_def D(1))
  next
    case False
    obtain k where k: "bt_tickets b = [k..<k + length (bt_calls b)]" using R(8) by blast
    note oc = other_call [OF X(1) False k R(6) j]
    have "todo ?b j = todo b j" using False by (simp add: todo_def th)
    then show ?thesis using R(5) j by (simp add: call_inv_def oc)
  qed
  moreover have "threads_inv ?b"
  proof -
    have "acts_of ?b Closer = acts_of b Closer" by (simp add: th)
    then show ?thesis using I(7) R(6,7) unfolding threads_inv_def by (auto simp: call_at_def D(1) D(4))
  qed
  moreover have "list_all (dispatch_action ?b) xs"
    using R(3) by (simp add: list_all_iff dispatch_action_cong [of ?b b] D(1))
  ultimately show ?thesis
    using F R(1,2,4,8) D unfolding batch_inv_def life_inv_def registered_inv_def by auto
qed

section \<open>Dispatcher steps\<close>

lemma add_workers_at:
  "i < length calls \<Longrightarrow> map_of (add_workers m k calls) (k + i) = (if pc_rejected (calls ! i) then map_of m (k + i)
     else Some \<lparr>cs_phase = Registered, cs_static = pc_static (calls ! i), cs_activator = pc_hasActivator (calls ! i)\<rparr>)"
proof (induction calls arbitrary: m k i)
  case (Cons c cs)
  have below: "u < l \<Longrightarrow> map_of (add_workers n l ds) u = map_of n u" for u l n and ds :: "'a coord_call_scheme list"
    by (induction ds arbitrary: l n) auto
  show ?case
  proof (cases i)
    case 0
    then show ?thesis by (simp add: below)
  next
    case (Suc i')
    then show ?thesis using Cons.prems Cons.IH [of i' _ "Suc k"] by simp
  qed
qed simp

lemma filter_dispatch: "filter (about i) (dispatch_call b j) = (if i = j then dispatch_call b j else [])"
  by (auto simp: dispatch_call_def emitRejected_def event_defs split: option.splits)

lemma concat_single: "i < n \<Longrightarrow> concat (map (\<lambda>j. if i = j then f j else []) [0..<n]) = f i"
  by (induction n) (auto simp: less_Suc_eq)

lemma todo_dispatch:
  "i < length (bt_calls b) \<Longrightarrow> filter (about i) (dispatch_calls b @ [AJoin]) = dispatch_call b i"
  by (simp add: dispatch_calls_def filter_concat filter_dispatch concat_single comp_def)

lemma dispatch_calls_actions: "list_all (dispatch_action b) (dispatch_calls b)"
  by (auto simp: list_all_iff dispatch_calls_def dispatch_action_def dispatch_call_def emitRejected_def event_defs
      split: option.splits)

text \<open>Registration.\<close>

lemma quietD: "quiet b r \<Longrightarrow> bt_tickets b = [] \<and> bt_sent b = [] \<and> all_done b \<and> bt_slots b = replicate (length (bt_calls b)) r"
  by (simp add: quiet_def)

lemma register_step:
  assumes "batch_inv b" "map_of (bt_threads b) Dispatcher = Some (ARegister # as)" "register b = (new, b')"
  shows "batch_inv (b'\<lparr>bt_threads := gput Dispatcher (new @ as) (bt_threads b')\<rparr>)"
proof -
  note I = batch_invD [OF assms(1)]
  have L: "bt_started b" "as = []" "quiet b ResultPending" "\<not> bt_eventsClosed b"
    using I(8) assms(2) by (auto simp: life_inv_def registered_inv_def Cons_eq_append_conv list_all_iff dispatch_action_def)
  note Q = quietD [OF L(3)]
  let ?n = "length (bt_calls b)"
  show ?thesis
  proof (cases "registerBatch (co_of b) (map coord_view (bt_calls b))")
    case (Inl f)
    then have "new = [ACloseEvents]" "b' = skipAllLocked (b\<lparr>bt_err := Some (execution_error f)\<rparr>)"
      using assms(3) by (simp_all add: register_def)
    then show ?thesis
      using I Q L
      by (auto simp: batch_inv_def life_inv_def quiet_def threads_inv_def all_done_def skipAllLocked_def skip_pending_def
          acts_of_def call_at_def)
  next
    case (Inr res)
    obtain ts c where tc: "res = (ts, c)" by (cases res)
    let ?sys = "(bt_sys b)\<lparr>sy_co := c, sy_calls := add_workers (sy_calls (bt_sys b)) (co_next (co_of b)) (map coord_view (bt_calls b))\<rparr>"
    from Inr assms(3) have n: "new = dispatch_calls b @ [AJoin]" "b' = b\<lparr>bt_tickets := ts, bt_sys := ?sys\<rparr>"
      by (simp_all add: register_def tc)
    have ts: "ts = [co_next (co_of b)..<co_next (co_of b) + ?n]"
      using Inr by (auto simp: tc registerBatch_Inr)
    have st: "coord_step (bt_sys b) ?sys"
      by (rule coord_step.Register [OF Inr [unfolded tc]]) (use I(1) in \<open>simp add: calls_ok_def list_all_iff\<close>)
    let ?b = "b'\<lparr>bt_threads := gput Dispatcher (new @ as) (bt_threads b')\<rparr>"
    have ci: "call_inv ?b i" if i: "i < ?n" for i
    proof -
      have td: "todo ?b i = map spawned (dispatch_call b i)"
        using todo_dispatch [OF i] Q by (simp add: todo_def n L(2) all_done_def acts_of_def)
      have os: "own_state ?b i = map_of (add_workers (sy_calls (bt_sys b)) (co_next (co_of b)) (map coord_view (bt_calls b))) (co_next (co_of b) + i)"
        using i by (simp add: own_state_def ticket_of_def n ts)
      have sg: "log_of ?b i = []" "bt_slots ?b ! i = ResultPending" "call_at ?b i = call_at b i"
        using Q i by (simp_all add: log_of_def n call_at_def)
      show ?thesis
      proof (cases "pr_rejected (call_at b i)")
        case None
        then have "own_state ?b i = Some \<lparr>cs_phase = Registered, cs_static = pr_static (call_at b i), cs_activator = pr_hasActivator (call_at b i)\<rparr>"
          using i unfolding os by (subst add_workers_at) (simp_all add: coord_view_def call_at_def)
        then show ?thesis using None sg td
          by (simp add: call_inv_def stage_of_def phase_of_def dispatch_call_def known_def)
      next
        case (Some out)
        then show ?thesis using sg td
          by (simp add: call_inv_def stage_of_def dispatch_call_def emitRejected_def settled_def event_defs)
      qed
    qed
    have "threads_inv ?b" using I(7) by (auto simp: threads_inv_def n acts_of_def call_at_def)
    moreover have "list_all (dispatch_action ?b) (dispatch_calls b)"
    proof -
      have "dispatch_action ?b = dispatch_action b" by (simp add: fun_eq_iff dispatch_action_def call_at_def n)
      then show ?thesis using dispatch_calls_actions [of b] by (simp only:)
    qed
    ultimately show ?thesis
      using I L ci coord_reach_step [OF I(3)] st
      by (auto simp: batch_inv_def life_inv_def registered_inv_def n ts)
  qed
qed

text \<open>The dispatcher before it waits: answers to rejected calls, and spawned workers.\<close>

lemma dispatch_about:
  "dispatch_action b a \<Longrightarrow> \<exists>i < length (bt_calls b). about i a \<and> (\<forall>j. about j a \<longleftrightarrow> j = i)
     \<and> (pr_rejected (call_at b i) = None \<longleftrightarrow> a = ASpawn i)
     \<and> (pr_rejected (call_at b i) \<noteq> None \<longrightarrow> (\<exists>x. a = ASlot i x) \<or> (\<exists>ev. a = ASend ev \<and> be_Index ev = i))"
  by (auto simp: dispatch_action_def)

lemma dispatcher_registered:
  assumes "batch_inv b" "map_of (bt_threads b) Dispatcher = Some (a # as)" "dispatch_action b a"
  shows "bt_started b" "\<not> bt_eventsClosed b" "\<forall>j < length (bt_calls b). call_inv b j"
    "\<exists>k. bt_tickets b = [k..<k + length (bt_calls b)]" "\<exists>xs. as = xs @ [AJoin] \<and> list_all (dispatch_action b) xs"
  using batch_invD(8) [OF assms(1)] assms(2,3)
  by (auto simp: life_inv_def registered_inv_def Cons_eq_append_conv dispatch_action_def)

lemma spawn_step:
  assumes "batch_inv b" "map_of (bt_threads b) Dispatcher = Some (ASpawn i # as)"
  shows "batch_inv (b\<lparr>bt_threads := gput Dispatcher as (gput (Worker i) [ACheck i] (bt_threads b))\<rparr>)"
proof -
  note I = batch_invD [OF assms(1)]
  have da: "dispatch_action b (ASpawn i)"
    using I(8) assms(2) by (auto simp: life_inv_def registered_inv_def Cons_eq_append_conv)
  note R = dispatcher_registered [OF assms da]
  obtain xs where xs: "as = xs @ [AJoin]" "list_all (dispatch_action b) xs" using R(5) by blast
  have i: "i < length (bt_calls b)" "pr_rejected (call_at b i) = None" using da by (auto simp: dispatch_action_def)
  let ?b = "b\<lparr>bt_threads := gput Dispatcher as (gput (Worker i) [ACheck i] (bt_threads b))\<rparr>"
  have acts: "acts_of ?b u = (if u = Dispatcher then as else if u = Worker i then [ACheck i] else acts_of b u)" for u
    by (simp add: acts_of_def)
  have d: "acts_of b Dispatcher = ASpawn i # as" by (rule acts_of_Some [OF assms(2)])
  have ci: "call_inv ?b j" if j: "j < length (bt_calls b)" for j
  proof (cases "j = i")
    case True
    have f: "follows (call_at b i) i (stage_of b i) (ACheck i # map spawned (filter (about i) as) @ acts_of b (Worker i))"
      using call_inv_follows [OF R(3) [rule_format, OF i(1)]] by (simp add: todo_def d)
    have "filter (about i) as = [] \<and> acts_of b (Worker i) = []" using f by (cases "stage_of b i") auto
    then have "todo ?b i = todo b i" by (simp add: todo_def acts d)
    then show ?thesis using R(3) j by (simp add: True call_inv_def)
  next
    case False
    then have "todo ?b j = todo b j" by (simp add: todo_def acts d)
    then show ?thesis using R(3) j by (simp add: call_inv_def)
  qed
  have "threads_inv ?b"
    using I(7) i acts [of Closer] by (auto simp: threads_inv_def call_at_def)
  moreover have "dispatch_action ?b = dispatch_action b" by (simp add: fun_eq_iff dispatch_action_def call_at_def)
  ultimately show ?thesis
    using I R ci xs unfolding batch_inv_def life_inv_def registered_inv_def by simp
qed

lemma answer_step:
  assumes "batch_inv b" "map_of (bt_threads b) Dispatcher = Some (a # as)" "dispatch_action b a" "\<And>i. a \<noteq> ASpawn i"
    "exec E ex a r b = Some (new, b')"
  shows "batch_inv (b'\<lparr>bt_threads := gput Dispatcher (new @ as) (bt_threads b')\<rparr>)"
proof -
  note I = batch_invD [OF assms(1)] and R = dispatcher_registered [OF assms(1-3)]
  obtain xs where xs: "as = xs @ [AJoin]" "list_all (dispatch_action b) xs" using R(5) by blast
  obtain i where i: "i < length (bt_calls b)" "about i a" "\<forall>j. about j a \<longleftrightarrow> j = i" "pr_rejected (call_at b i) \<noteq> None"
    and sh: "(\<exists>x. a = ASlot i x) \<or> (\<exists>ev. a = ASend ev \<and> be_Index ev = i)"
    using dispatch_about [OF assms(3)] assms(4) by metis
  have sp: "spawned a = a" using assms(4) by (cases a) auto
  have d: "acts_of b Dispatcher = a # as" by (rule acts_of_Some [OF assms(2)])
  have f: "follows (call_at b i) i (stage_of b i) (a # map spawned (filter (about i) as) @ acts_of b (Worker i))"
    using call_inv_follows [OF R(3) [rule_format, OF i(1)]] i(2) sp by (simp add: todo_def d)
  have X: "own_change i b b'" "follows (call_at b i) i (stage_of b' i) (new @ map spawned (filter (about i) as) @ acts_of b (Worker i))"
    using exec_call [OF assms(5) f _ R(2) registered_room(2) [OF assms(1) R(3)]] i(1,4) I(2) by auto
  have new: "new = []"
    using sh assms(5) by (auto simp: send_def split: if_splits)
  note D = own_changeD [OF X(1)]
  let ?b = "b'\<lparr>bt_threads := gput Dispatcher (new @ as) (bt_threads b')\<rparr>"
  have F: "calls_ok (bt_calls ?b)" "length (bt_slots ?b) = length (bt_calls ?b)" "coord.reach (bt_sys ?b)" "\<not> bt_panic ?b"
    "\<exists>rcv. bt_sent ?b = rcv @ bt_queue ?b" "\<forall>e \<in> set (bt_sent ?b). be_Index e < length (bt_calls ?b)"
    using frame_inv [OF assms(1) X(1) i(1)] by simp_all
  have th: "acts_of b' u = acts_of b u" for u by (simp add: acts_of_def D(4))
  have "call_inv ?b j" if j: "j < length (bt_calls b)" for j
  proof (cases "j = i")
    case True
    have "todo ?b i = new @ map spawned (filter (about i) as) @ acts_of b (Worker i)" by (simp add: todo_def th new)
    then show ?thesis using X(2) i(4) by (auto simp: True call_inv_def call_at_def D(1))
  next
    case False
    obtain k where k: "bt_tickets b = [k..<k + length (bt_calls b)]" using R(4) by blast
    note oc = other_call [OF X(1) False k i(1) j]
    have "todo ?b j = todo b j" using i(3) False by (simp add: todo_def th d new)
    then show ?thesis using R(3) j by (simp add: call_inv_def oc)
  qed
  moreover have "threads_inv ?b"
  proof -
    have "acts_of ?b Closer = acts_of b Closer" by (simp add: th)
    then show ?thesis using I(7) unfolding threads_inv_def by (auto simp: call_at_def D(1) D(4))
  qed
  moreover have "dispatch_action ?b = dispatch_action b" by (simp add: fun_eq_iff dispatch_action_def call_at_def D(1))
  ultimately show ?thesis
    using F R(1,2,4) D xs new unfolding batch_inv_def life_inv_def registered_inv_def by auto
qed

text \<open>The end of the dispatcher.\<close>

lemma all_done_settled:
  assumes "batch_inv b" "registered_inv b d" "all_done b" "d = [] \<or> (\<exists>a. d = [a] \<and> (\<forall>i. \<not> about i a))" "acts_of b Dispatcher = d"
    "i < length (bt_calls b)"
  shows "settled (call_at b i) i (stage_of b i)"
proof -
  have "todo b i = []" using assms(3-5) by (auto simp: todo_def all_done_def)
  moreover have "call_inv b i" using assms(2,6) by (simp add: registered_inv_def)
  ultimately show ?thesis by (cases "stage_of b i") (simp add: call_inv_def)
qed

lemma settled_not_pending: "settled pc i (lg, slot, ph) \<Longrightarrow> slot \<noteq> ResultPending \<and> slot \<noteq> ResultRunning"
  by (auto simp: settled_def split: option.splits)

lemma summary_slots:
  assumes "batch_inv b" "registered_inv b [ASummary]" "all_done b" "acts_of b Dispatcher = [ASummary]"
  shows "bt_slots (summary b) = bt_slots b"
proof -
  have "bt_slots b ! i \<noteq> ResultPending" if "i < length (bt_calls b)" for i
    using all_done_settled [OF assms(1-3) _ assms(4) that] settled_not_pending by (auto simp: stage_of_def)
  then have "map skip_pending (bt_slots b) = bt_slots b"
    using batch_invD(2) [OF assms(1)] by (auto simp: skip_pending_def in_set_conv_nth intro!: map_idI)
  then show ?thesis by (simp add: summary_def skipAllLocked_def)
qed

lemma calls_inv_cong:
  assumes "\<And>i. i < length (bt_calls b) \<Longrightarrow> stage_of b' i = stage_of b i \<and> known b' i = known b i \<and> todo b' i = todo b i"
    "bt_calls b' = bt_calls b"
  shows "(\<forall>i < length (bt_calls b'). call_inv b' i) \<longleftrightarrow> (\<forall>i < length (bt_calls b). call_inv b i)"
proof -
  have "call_at b' i = call_at b i" for i by (simp add: call_at_def assms(2))
  then show ?thesis using assms by (simp add: call_inv_def)
qed

lemma view_defs: "stage_of b i = (filter (\<lambda>e. be_Index e = i) (bt_sent b), bt_slots b ! i,
    map_option cs_phase (map_of (sy_calls (bt_sys b)) (bt_tickets b ! i)))"
  "known b i = (\<exists>cs. map_of (sy_calls (bt_sys b)) (bt_tickets b ! i) = Some cs \<and> cs_static cs = pr_static (bt_calls b ! i)
     \<and> cs_activator cs = pr_hasActivator (bt_calls b ! i))"
  by (simp_all add: stage_of_def log_of_def phase_of_def own_state_def ticket_of_def known_def call_at_def)

lemma finish_step:
  assumes "batch_inv b" "map_of (bt_threads b) Dispatcher = Some (a # as)" "a = AJoin \<or> a = ASummary \<or> a = ACloseEvents"
    "exec E ex a r b = Some (new, b')"
  shows "batch_inv (b'\<lparr>bt_threads := gput Dispatcher (new @ as) (bt_threads b')\<rparr>)"
proof -
  note I = batch_invD [OF assms(1)]
  let ?b = "b'\<lparr>bt_threads := gput Dispatcher (new @ as) (bt_threads b')\<rparr>"
  have d: "acts_of b Dispatcher = a # as" by (rule acts_of_Some [OF assms(2)])
  have L: "bt_started b" "as = []" "\<not> bt_eventsClosed b"
    "a = ACloseEvents \<and> quiet b ResultSkipped \<or> registered_inv b [a]"
    using I(8) assms(2,3) by (auto simp: life_inv_def registered_inv_def Cons_eq_append_conv dispatch_action_def)
  consider (quiet) "a = ACloseEvents" "quiet b ResultSkipped" | (reg) "registered_inv b [a]" using L(4) by blast
  then show ?thesis
  proof cases
    case quiet
    then have n: "new = []" "b' = b\<lparr>bt_eventsClosed := True\<rparr>"
      using assms(4) L(3) by (simp_all add: close_events_def)
    then show ?thesis using I quiet L
      by (auto simp: batch_inv_def life_inv_def quiet_def threads_inv_def all_done_def acts_of_def call_at_def)
  next
    case reg
    have ad: "all_done b"
    proof (cases "a = AJoin")
      case True
      then have "workers_done b" using assms(4) by (simp split: if_splits)
      then show ?thesis
        by (auto simp: all_done_def acts_of_def workers_done_def list_all_iff split: option.splits dest!: map_of_SomeD)
    next
      case False
      with reg show ?thesis by (auto simp: registered_inv_def Cons_eq_append_conv)
    qed
    have t: "todo b i = []" for i using assms(3) ad by (auto simp: todo_def d L(2) all_done_def)
    have B: "bt_calls b' = bt_calls b \<and> bt_tickets b' = bt_tickets b \<and> bt_started b' = bt_started b \<and> bt_threads b' = bt_threads b
      \<and> bt_sys b' = bt_sys b \<and> bt_sent b' = bt_sent b \<and> bt_queue b' = bt_queue b \<and> bt_slots b' = bt_slots b \<and> bt_panic b' = bt_panic b
      \<and> (a = AJoin \<and> new = [ASummary] \<and> \<not> bt_eventsClosed b' \<or> a = ASummary \<and> new = [ACloseEvents] \<and> \<not> bt_eventsClosed b'
         \<or> a = ACloseEvents \<and> new = [] \<and> bt_eventsClosed b')"
      using assms(3)
    proof (elim disjE)
      assume "a = ASummary"
      then show ?thesis using assms(4) L(3) summary_slots [OF assms(1) _ ad] reg d L(2)
        by (auto simp: summary_def skipAllLocked_def)
    qed (use assms(4) L(3) in \<open>auto simp: close_events_def split: if_splits\<close>)
    have ac: "acts_of ?b u = (if u = Dispatcher then new @ as else acts_of b u)" for u using B by (simp add: acts_of_def)
    have ad': "all_done ?b" unfolding all_done_def using ad ac [of "Worker _"] by (simp only: all_done_def thread.simps if_False) simp
    have na: "filter (about i) (new @ as) = []" for i using B L(2) by auto
    have t': "todo ?b i = []" for i
      using ad na [of i] ac [of Dispatcher] ac [of "Worker i"] unfolding todo_def all_done_def
      by (simp only: thread.simps if_False if_True list.map append_Nil simp_thms)
    have sk: "stage_of ?b i = stage_of b i" "known ?b i = known b i" for i using B by (simp_all add: view_defs)
    have cl: "bt_calls ?b = bt_calls b" using B by simp
    have "\<forall>i < length (bt_calls b). call_inv b i" using reg by (simp add: registered_inv_def)
    then have c: "\<forall>i < length (bt_calls ?b). call_inv ?b i"
      by (subst calls_inv_cong [OF _ cl]) (simp_all only: sk t t' simp_thms)
    have "threads_inv ?b" using I(7) B by (auto simp: threads_inv_def acts_of_def call_at_def)
    moreover have "registered_inv ?b (new @ as)"
      using reg B L(2) c ad' by (auto simp: registered_inv_def)
    ultimately show ?thesis using I B L(1) by (auto simp: batch_inv_def life_inv_def)
  qed
qed

lemma dispatcher_step:
  assumes "batch_inv b" "map_of (bt_threads b) Dispatcher = Some (a # as)" "exec E ex a r b = Some (new, b')"
  shows "batch_inv (b'\<lparr>bt_threads := gput Dispatcher (new @ as) (bt_threads b')\<rparr>)"
proof -
  consider (register) "a = ARegister" | (finish) "a = AJoin \<or> a = ASummary \<or> a = ACloseEvents" | (go) "dispatch_action b a"
    using batch_invD(8) [OF assms(1)] assms(2)
    by (auto simp: life_inv_def registered_inv_def Cons_eq_append_conv)
  then show ?thesis
  proof cases
    case register
    then show ?thesis using register_step [OF assms(1)] assms(2,3) by simp
  next
    case finish
    then show ?thesis using finish_step [OF assms(1,2) _ assms(3)] by blast
  next
    case go
    show ?thesis
    proof (cases "\<exists>i. a = ASpawn i")
      case True
      then obtain i where i: "a = ASpawn i" by blast
      from assms(3) have "new = []" "b' = b\<lparr>bt_threads := gput (Worker i) [ACheck i] (bt_threads b)\<rparr>" by (auto simp: i)
      then show ?thesis using spawn_step [OF assms(1) assms(2) [unfolded i]] by simp
    next
      case False
      then show ?thesis using answer_step [OF assms(1,2) go _ assms(3)] by blast
    qed
  qed
qed

section \<open>Consumer and environment\<close>

text \<open>Changes of fields that only the consumer and the context touch.\<close>

lemma inert_inv:
  assumes "batch_inv b" "bt_calls b' = bt_calls b" "bt_tickets b' = bt_tickets b" "bt_started b' = bt_started b"
    "bt_slots b' = bt_slots b" "bt_sent b' = bt_sent b" "bt_eventsClosed b' = bt_eventsClosed b" "bt_panic b' = bt_panic b"
    "\<exists>rcv. bt_sent b = rcv @ bt_queue b'" "coord.reach (bt_sys b')"
    "\<forall>t \<in> set (bt_tickets b). map_of (sy_calls (bt_sys b')) t = map_of (sy_calls (bt_sys b)) t"
    "\<And>t. t \<noteq> Closer \<Longrightarrow> map_of (bt_threads b') t = map_of (bt_threads b) t" "acts_of b' Closer = [] \<or> acts_of b' Closer = [ACancel]"
  shows "batch_inv b'"
proof -
  note I = batch_invD [OF assms(1)]
  have acts: "t \<noteq> Closer \<Longrightarrow> acts_of b' t = acts_of b t" for t using assms(12) by (simp add: acts_of_def)
  have td: "todo b' i = todo b i" for i by (simp add: todo_def acts)
  have ad: "all_done b' = all_done b" by (simp add: all_done_def acts)
  have da: "dispatch_action b' = dispatch_action b" by (simp add: fun_eq_iff dispatch_action_def call_at_def assms(2))
  have ci: "(\<forall>i < length (bt_calls b). call_inv b' i) \<longleftrightarrow> (\<forall>i < length (bt_calls b). call_inv b i)"
    if k: "bt_tickets b = [k..<k + length (bt_calls b)]" for k
  proof -
    have os: "map_of (sy_calls (bt_sys b')) (bt_tickets b ! i) = map_of (sy_calls (bt_sys b)) (bt_tickets b ! i)"
      if "i < length (bt_calls b)" for i using assms(11) that by (simp add: k)
    show ?thesis
      by (rule calls_inv_cong [of b b', unfolded assms(2)])
        (simp_all add: view_defs td os assms(2,3,5,6))
  qed
  have "registered_inv b' d = registered_inv b d" for d
    unfolding registered_inv_def da ad assms(2,3,7) using ci by blast
  moreover have "quiet b' r = quiet b r" for r by (simp add: quiet_def ad assms)
  ultimately have "life_inv b'" using I(8) assms(12) [of Dispatcher] assms(4,7)
    by (cases "map_of (bt_threads b) Dispatcher") (simp_all add: life_inv_def)
  moreover have "threads_inv b'" using I(7) assms(2,12,13) by (auto simp: threads_inv_def call_at_def)
  ultimately show ?thesis using I assms by (simp add: batch_inv_def)
qed

lemma new_batch_inv:
  assumes "batch_initial b"
  shows "batch_inv b"
proof -
  obtain calls sys d where b: "b = new_batch calls sys d" "calls_ok calls" "coord.reach sys" using assms by (auto simp: batch_initial_def)
  then show ?thesis
    by (simp add: batch_inv_def new_batch_def threads_inv_def life_inv_def quiet_def all_done_def acts_of_def)
qed

lemma idle_inv:
  assumes "batch_inv b" "\<not> bt_started b" "bt_calls b' = bt_calls b" "bt_tickets b' = bt_tickets b" "bt_started b'"
    "bt_slots b' = map skip_pending (bt_slots b)" "bt_sent b' = bt_sent b" "bt_queue b' = bt_queue b" "bt_eventsClosed b'" "\<not> bt_panic b'"
    "bt_sys b' = bt_sys b" "\<And>t. t \<noteq> Closer \<Longrightarrow> map_of (bt_threads b') t = map_of (bt_threads b) t" "acts_of b' Closer = [] \<or> acts_of b' Closer = [ACancel]"
  shows "batch_inv b'"
proof -
  note I = batch_invD [OF assms(1)]
  have q: "map_of (bt_threads b) Dispatcher = None" "quiet b ResultPending"
    using I(8) assms(2) by (auto simp: life_inv_def split: option.splits)
  have "quiet b' ResultSkipped"
    using q(2) assms(3,4,6,7,12) by (simp add: quiet_def all_done_def acts_of_def skip_pending_def)
  then have "life_inv b'" using assms(5,9,12) q(1) by (simp add: life_inv_def)
  moreover have "threads_inv b'" using I(7) assms(3,12,13) by (auto simp: threads_inv_def call_at_def)
  ultimately show ?thesis using I assms by (simp add: batch_inv_def)
qed

lemma unstarted_open: "batch_inv b \<Longrightarrow> \<not> bt_started b \<Longrightarrow> \<not> bt_eventsClosed b \<and> map_of (bt_threads b) Dispatcher = None \<and> quiet b ResultPending"
  using batch_invD(8) [of b] by (auto simp: life_inv_def split: option.splits)

lemma next_inv:
  assumes "batch_inv b"
  shows "batch_inv (snd (batch_next b))"
proof -
  note I = batch_invD [OF assms]
  consider "bt_started b \<or> bt_closed b" | "\<not> bt_started b" "\<not> bt_closed b" "ctx_done b" | "\<not> bt_started b" "\<not> bt_closed b" "\<not> ctx_done b"
    by blast
  then show ?thesis
  proof cases
    case 1
    then show ?thesis using assms by (auto simp: batch_next_def)
  next
    case 2
    note u = unstarted_open [OF assms 2(1)]
    show ?thesis
      by (rule idle_inv [OF assms 2(1)])
        (use 2 u I in \<open>auto simp: batch_next_def close_events_def skipAllLocked_def threads_inv_def acts_of_def\<close>)
  next
    case 3
    note u = unstarted_open [OF assms 3(1)]
    then show ?thesis using I 3
      by (auto simp: batch_next_def batch_inv_def life_inv_def quiet_def threads_inv_def all_done_def acts_of_def call_at_def)
  qed
qed

lemma batch_close_inv:
  assumes "batch_inv b"
  shows "batch_inv (snd (batch_close b))"
proof -
  note I = batch_invD [OF assms]
  consider "bt_closed b" | "\<not> bt_closed b" "\<not> bt_started b" | "\<not> bt_closed b" "bt_started b" by blast
  then show ?thesis
  proof cases
    case 1
    then show ?thesis using assms by (simp add: batch_close_def)
  next
    case 2
    note u = unstarted_open [OF assms 2(2)]
    show ?thesis
      by (rule idle_inv [OF assms 2(2)])
        (use 2 u I in \<open>auto simp: batch_close_def close_events_def skipAllLocked_def threads_inv_def acts_of_def\<close>)
  next
    case 3
    show ?thesis
      by (rule inert_inv [OF assms]) (use 3 I in \<open>auto simp: batch_close_def acts_of_def\<close>)
  qed
qed

theorem batch_step_inv:
  assumes "batch_inv b" "batch_step E ex b b'"
  shows "batch_inv b'"
  using assms(2)
proof (cases rule: batch_step.cases)
  case (Act t a as r new b1)
  show ?thesis
  proof (cases t)
    case Dispatcher
    then show ?thesis using dispatcher_step [OF assms(1) _ Act(3)] Act(1,2) by simp
  next
    case (Worker i)
    then show ?thesis using worker_step [OF assms(1) _ Act(3)] Act(1,2) by simp
  next
    case Closer
    then have "a # as = [ACancel]" using batch_invD(7) [OF assms(1)] Act(2) by (auto simp: threads_inv_def acts_of_def)
    then have n: "new = []" "b1 = b\<lparr>bt_cancelled := True\<rparr>" "as = []" using Act(3) by auto
    show ?thesis
      unfolding Act(1) n Closer
      by (rule inert_inv [OF assms(1)]) (use batch_invD [OF assms(1)] in \<open>auto simp: acts_of_def\<close>)
  qed
next
  case NextBegin
  then show ?thesis using next_inv [OF assms(1)] by simp
next
  case (Receive got)
  then consider "b' = b" | ev evs where "bt_queue b = ev # evs" "b' = b\<lparr>bt_queue := evs, bt_current := Some ev\<rparr>"
    by (cases "bt_queue b") (auto simp: receive_def split: if_splits)
  then show ?thesis
  proof cases
    case 1
    then show ?thesis using assms(1) by simp
  next
    case (2 ev evs)
    obtain rcv where "bt_sent b = rcv @ bt_queue b" using batch_invD(5) [OF assms(1)] by blast
    then have q: "\<exists>rcv. bt_sent b = rcv @ evs" by (intro exI [of _ "rcv @ [ev]"]) (simp add: 2(1))
    show ?thesis
      unfolding 2(2) by (rule inert_inv [OF assms(1)])
        (use batch_invD(3,7) [OF assms(1)] q in \<open>auto simp: acts_of_def threads_inv_def\<close>)
  qed
next
  case CloseBegin
  then show ?thesis using batch_close_inv [OF assms(1)] by simp
next
  case ParentDone
  show ?thesis unfolding ParentDone
    by (rule inert_inv [OF assms(1)]) (use batch_invD [OF assms(1)] in \<open>auto simp: acts_of_def threads_inv_def\<close>)
next
  case (Elsewhere y)
  show ?thesis unfolding Elsewhere(1)
    by (rule inert_inv [OF assms(1)])
      (use batch_invD [OF assms(1)] Elsewhere(2,3) coord_reach_step in \<open>auto simp: acts_of_def threads_inv_def\<close>)
qed

lemma batch_reach_inv: "run.reach E ex b \<Longrightarrow> batch_inv b"
  by (erule run.invariant) (auto intro: new_batch_inv batch_step_inv)

end
