(* ===== verification/Batch_Props.thy ===== *)
theory Batch_Props
  imports Batch_Run "HOL-Library.Multiset"
begin

text \<open>
  What a batch promises: its channel, its results, exclusion of its callbacks, an end after cancellation, and the error it
  reports.
\<close>

section \<open>Reachable batches\<close>

lemma reach_batch: "run.reach E ex b \<Longrightarrow> batch_inv b"
  by (erule run.invariant) (auto intro: new_batch_inv batch_step_inv)

lemma exec_frame:
  assumes "exec E ex a r b = Some (new, b')"
  shows "bt_calls b' = bt_calls b" "bt_started b' = bt_started b" "bt_parent b' = bt_parent b" "bt_cancelled b \<Longrightarrow> bt_cancelled b'"
    "bt_threads b' = (case a of ASpawn i \<Rightarrow> gput (Worker i) [ACheck i] (bt_threads b) | _ \<Rightarrow> bt_threads b)"
proof -
  have c: "bt_calls (coordinate b i p c) = bt_calls b" "bt_started (coordinate b i p c) = bt_started b"
    "bt_parent (coordinate b i p c) = bt_parent b" "bt_cancelled (coordinate b i p c) = bt_cancelled b"
    "bt_threads (coordinate b i p c) = bt_threads b" for i p c
    by (simp_all add: coordinate_def split: option.split)
  have "bt_calls b' = bt_calls b \<and> bt_started b' = bt_started b \<and> bt_parent b' = bt_parent b
    \<and> (bt_cancelled b \<longrightarrow> bt_cancelled b')
    \<and> bt_threads b' = (case a of ASpawn i \<Rightarrow> gput (Worker i) [ACheck i] (bt_threads b) | _ \<Rightarrow> bt_threads b)"
    using assms
    by (cases a) (auto simp: send_def c wait_round_def extend_round_def register_def summary_def skipAllLocked_def
        close_events_def Let_def split: if_splits reply.splits option.splits sum.splits prod.splits)
  then show "bt_calls b' = bt_calls b" "bt_started b' = bt_started b" "bt_parent b' = bt_parent b" "bt_cancelled b \<Longrightarrow> bt_cancelled b'"
    "bt_threads b' = (case a of ASpawn i \<Rightarrow> gput (Worker i) [ACheck i] (bt_threads b) | _ \<Rightarrow> bt_threads b)"
    by simp_all
qed

text \<open>Scheduling one thread, and a whole schedule.\<close>

definition advance :: "tool_env \<Rightarrow> executor \<Rightarrow> thread \<Rightarrow> reply \<Rightarrow> batch \<Rightarrow> batch option" where
  "advance E ex t r b = (case map_of (bt_threads b) t of
     Some (a # as) \<Rightarrow> map_option (\<lambda>(new, b'). b'\<lparr>bt_threads := gput t (new @ as) (bt_threads b')\<rparr>) (exec E ex a r b)
   | _ \<Rightarrow> None)"

fun play :: "tool_env \<Rightarrow> executor \<Rightarrow> (thread \<times> reply) list \<Rightarrow> batch \<Rightarrow> batch option" where
  "play E ex [] b = Some b"
| "play E ex ((t, r) # s) b = (case advance E ex t r b of None \<Rightarrow> None | Some b' \<Rightarrow> play E ex s b')"

lemma advance_cases:
  assumes "advance E ex t r b = Some b'"
  obtains a as new b1 where "map_of (bt_threads b) t = Some (a # as)" "exec E ex a r b = Some (new, b1)"
    "b' = b1\<lparr>bt_threads := gput t (new @ as) (bt_threads b1)\<rparr>"
  using assms by (auto simp: advance_def split: option.splits list.splits)

lemma advance_step: "advance E ex t r b = Some b' \<Longrightarrow> batch_step E ex b b'"
  by (erule advance_cases) (auto intro: batch_step.Act)

lemma play_reach: "run.reach E ex b \<Longrightarrow> play E ex s b = Some b' \<Longrightarrow> run.reach E ex b'"
proof (induction s arbitrary: b)
  case (Cons tr s)
  obtain t r where tr: "tr = (t, r)" by (cases tr)
  with Cons.prems(2) obtain b1 where b1: "advance E ex t r b = Some b1" "play E ex s b1 = Some b'" by (auto split: option.splits)
  show ?case by (rule Cons.IH [OF run.reach.step [OF Cons.prems(1) advance_step [OF b1(1)]] b1(2)])
qed simp

lemma advance_ctx_done: "advance E ex t r b = Some b' \<Longrightarrow> ctx_done b \<Longrightarrow> ctx_done b'"
  by (erule advance_cases) (auto dest: exec_frame)

lemma advance_started: "advance E ex t r b = Some b' \<Longrightarrow> bt_started b' = bt_started b"
  by (erule advance_cases) (auto dest: exec_frame)

section \<open>Threads\<close>

lemma threads_wf: "run.reach E ex b \<Longrightarrow> wf_gmap (bt_threads b)"
proof (induction rule: run.reach.induct)
  case (init b)
  then show ?case by (auto simp: batch_initial_def new_batch_def)
next
  case (step b b')
  note wf = step.IH
  from step.hyps(2) show ?case
  proof (cases rule: batch_step.cases)
    case (Act t a as r new b1)
    have "wf_gmap (bt_threads b1)" using exec_frame(5) [OF Act(3)] wf by (cases a) simp_all
    then show ?thesis by (simp add: Act(1))
  next
    case (Receive got)
    then show ?thesis using wf by (auto simp: receive_def split: list.splits if_splits)
  qed (use wf in \<open>auto simp: batch_next_def batch_close_def close_events_def skipAllLocked_def\<close>)
qed

text \<open>What a thread may have to do while a call can still answer.\<close>

lemma thread_live:
  assumes "batch_inv b" "map_of (bt_threads b) t = Some (a # as)"
  shows "t = Closer \<and> a = ACancel
    \<or> (\<exists>i. t = Worker i \<and> \<not> bt_eventsClosed b \<and> (\<forall>j < length (bt_calls b). call_inv b j) \<and> i < length (bt_calls b)
        \<and> pr_rejected (call_at b i) = None \<and> follows (call_at b i) i (stage_of b i) (a # as))
    \<or> t = Dispatcher \<and> \<not> bt_eventsClosed b
      \<and> (a = ARegister \<or> a = AJoin \<or> a = ASummary \<or> a = ACloseEvents
         \<or> dispatch_action b a \<and> (\<forall>j < length (bt_calls b). call_inv b j))"
proof (cases t)
  case Dispatcher
  then show ?thesis using batch_invD(8) [OF assms(1)] assms(2)
    by (auto simp: life_inv_def registered_inv_def Cons_eq_append_conv dispatch_action_def)
next
  case (Worker i)
  then show ?thesis using worker_registered [OF assms(1), of i a as] assms(2) by blast
next
  case Closer
  then show ?thesis using batch_invD(7) [OF assms(1)] assms(2) by (auto simp: threads_inv_def acts_of_def)
qed

section \<open>The channel\<close>

text \<open>C35 (safety). The event channel never fills up and is never used after its end: in every reachable batch a thread that
  is about to send does so at once, and no send or close has hit a closed channel; a call contributes at most two events.\<close>

theorem events_never_block:
  assumes "run.reach E ex b"
  shows "\<not> bt_panic b \<and> length (bt_queue b) \<le> 2 * length (bt_calls b) \<and> length (log_of b i) \<le> 2
    \<and> (\<forall>t ev as. map_of (bt_threads b) t = Some (ASend ev # as) \<longrightarrow>
        send ev b = Some (b\<lparr>bt_queue := bt_queue b @ [ev], bt_sent := bt_sent b @ [ev]\<rparr>))"
proof -
  note inv = reach_batch [OF assms] and I = batch_invD [OF reach_batch [OF assms]]
  have calls: "bt_sent b = [] \<or> (\<forall>j < length (bt_calls b). call_inv b j)"
    using I(8) by (auto simp: life_inv_def quiet_def registered_inv_def split: option.splits if_splits)
  have "length (bt_queue b) \<le> length (bt_sent b)" using I(5) by auto
  then have q: "length (bt_queue b) \<le> 2 * length (bt_calls b)"
    using calls registered_room(1) [OF inv] by auto
  have "length (log_of b i) \<le> 2"
  proof (cases "i < length (bt_calls b)")
    case True
    then show ?thesis using calls call_inv_length [of b i] by (auto simp: log_of_def)
  next
    case False
    then have "log_of b i = []" using I(6) by (auto simp: log_of_def filter_empty_conv)
    then show ?thesis by simp
  qed
  moreover have "send ev b = Some (b\<lparr>bt_queue := bt_queue b @ [ev], bt_sent := bt_sent b @ [ev]\<rparr>)"
    if t: "map_of (bt_threads b) t = Some (ASend ev # as)" for t ev as
    using thread_live [OF inv t] q by (intro send_room) (auto simp: channel_capacity_def dispatch_action_def)
  ultimately show ?thesis using I(4) q by blast
qed

section \<open>Results\<close>

text \<open>C5 (functional). When the dispatcher of a registered batch has nothing left to do, every call is settled: a rejected
  call has started and finished with the text of its rejection; any other call has released its claims, and its result is the
  one its events tell, a finished, a failed or a skipped one.\<close>

theorem batch_settles:
  assumes "run.reach E ex b" "map_of (bt_threads b) Dispatcher = Some []" "bt_tickets b \<noteq> []" "i < length (bt_calls b)"
  shows "settled (call_at b i) i (stage_of b i) \<and> bt_eventsClosed b"
proof -
  note inv = reach_batch [OF assms(1)]
  have r: "registered_inv b []" "all_done b" "bt_eventsClosed b"
    using batch_invD(8) [OF inv] assms(2,3) by (auto simp: life_inv_def quiet_def registered_inv_def)
  show ?thesis using all_done_settled [OF inv r(1,2) _ acts_of_Some [OF assms(2)] assms(4)] r(3) by simp
qed

section \<open>Exclusion\<close>

fun runs_code :: "action \<Rightarrow> bool" where
  "runs_code (AExecute i) = True"
| "runs_code (ARun i act) = True"
| "runs_code _ = False"

lemma running_holds:
  assumes "batch_inv b" "map_of (bt_threads b) (Worker i) = Some (a # as)" "runs_code a"
  shows "\<exists>h. map_of (co_held (co_of b)) (ticket_of b i) = Some h \<and> claims_normal h \<and> covers h (pr_static (call_at b i))"
proof -
  have inv: "call_inv b i" and rej: "pr_rejected (call_at b i) = None"
    and f: "follows (call_at b i) i (stage_of b i) (a # as)"
    using thread_live [OF assms(1,2)] by auto
  have ph: "holding (phase_of b i)" using f assms(3) by (cases a) (auto simp: stage_of_def)
  have kn: "known b i" using inv rej by (simp add: call_inv_def)
  obtain p where p: "phase_of b i = Some p" "p = Granted \<or> (\<exists>f. p = Running f)" using ph by (auto simp: holding_def)
  obtain cs where cs: "map_of (sy_calls (bt_sys b)) (ticket_of b i) = Some cs" "cs_phase cs = p"
    "cs_static cs = pr_static (call_at b i)" using knownD [OF kn p(1)] by blast
  have "call_view (co_of b) (ticket_of b i) cs"
    using coord_invD(2) [OF coord_reach_inv [OF batch_invD(3) [OF assms(1)]]] cs(1) by (blast intro: ticket_invD)
  then show ?thesis using cs p(2) by (auto simp: call_view_def phase_held_def final_ok_def)
qed

lemma batch_tickets:
  assumes "batch_inv b" "map_of (bt_threads b) (Worker i) = Some (a # as)"
  shows "i < length (bt_calls b)" "j < length (bt_calls b) \<Longrightarrow> i \<noteq> j \<Longrightarrow> ticket_of b i \<noteq> ticket_of b j"
proof -
  obtain k where "bt_tickets b = [k..<k + length (bt_calls b)]" "i < length (bt_calls b)"
    using worker_registered [OF assms] by metis
  then show "i < length (bt_calls b)" "j < length (bt_calls b) \<Longrightarrow> i \<noteq> j \<Longrightarrow> ticket_of b i \<noteq> ticket_of b j"
    by (simp_all add: ticket_of_def)
qed


section \<open>The coordinator underneath\<close>

lemma plain_sys:
  assumes "exec E ex a r b = Some (new, b')"
    "(\<exists>i x. a = ASlot i x) \<or> (\<exists>ev. a = ASend ev) \<or> (\<exists>i. a = ASpawn i) \<or> a = AJoin \<or> a = ASummary \<or> a = ACloseEvents \<or> a = ACancel"
  shows "bt_sys b' = bt_sys b"
  using assms by (auto simp: send_def summary_def skipAllLocked_def close_events_def split: if_splits)

lemma register_sys:
  assumes "register b = (new, b')" "calls_ok (bt_calls b)"
  shows "bt_sys b' = bt_sys b \<or> coord_step (bt_sys b) (bt_sys b')"
proof (cases "registerBatch (co_of b) (map coord_view (bt_calls b))")
  case (Inl f)
  then show ?thesis using assms(1) by (auto simp: register_def skipAllLocked_def)
next
  case (Inr res)
  obtain ts c where tc: "res = (ts, c)" by (cases res)
  have "coord_step (bt_sys b) ((bt_sys b)\<lparr>sy_co := c,
      sy_calls := add_workers (sy_calls (bt_sys b)) (co_next (co_of b)) (map coord_view (bt_calls b))\<rparr>)"
    by (rule coord_step.Register [OF Inr [unfolded tc]]) (use assms(2) in \<open>simp add: calls_ok_def list_all_iff\<close>)
  then show ?thesis using assms(1) Inr by (auto simp: register_def tc)
qed

lemma exec_sys:
  assumes "batch_inv b" "map_of (bt_threads b) t = Some (a # as)" "exec E ex a r b = Some (new, b')"
  shows "bt_sys b' = bt_sys b \<or> coord_step (bt_sys b) (bt_sys b')"
proof -
  note I = batch_invD [OF assms(1)]
  consider (plain) "(\<exists>i x. a = ASlot i x) \<or> (\<exists>ev. a = ASend ev) \<or> (\<exists>i. a = ASpawn i) \<or> a = AJoin \<or> a = ASummary \<or> a = ACloseEvents \<or> a = ACancel"
    | (register) "a = ARegister" | (worker) i where "t = Worker i"
    using thread_live [OF assms(1,2)] by (auto simp: dispatch_action_def)
  then show ?thesis
  proof cases
    case plain
    then show ?thesis using plain_sys [OF assms(3)] by blast
  next
    case register
    then show ?thesis using register_sys [OF _ I(1)] assms(3) by simp
  next
    case (worker i)
    then obtain xs where R: "\<not> bt_eventsClosed b" "\<forall>j < length (bt_calls b). call_inv b j" "i < length (bt_calls b)"
        "pr_rejected (call_at b i) = None" "follows (call_at b i) i (stage_of b i) (a # as)"
      using worker_registered [OF assms(1), of i a as] assms(2) by metis
    have kn: "pr_rejected (call_at b i) = None \<longrightarrow> known b i" using R(2,3) by (simp add: call_inv_def)
    have "own_change i b b'"
      using exec_call [OF assms(3) R(5) kn R(1) registered_room(2) [OF assms(1) R(2)]] R(3) I(2) by simp
    then show ?thesis by (rule own_changeD(10))
  qed
qed

text \<open>C36 (refinement). The batch implements the coordinator: whatever a batch does, the coordinator underneath either stays as
  it is or makes one of its own steps, so all that holds of the coordinator holds while batches run.\<close>

theorem batch_refines_coordinator:
  assumes "run.reach E ex b" "batch_step E ex b b'"
  shows "coord.reach (bt_sys b) \<and> (bt_sys b' = bt_sys b \<or> coord_step (bt_sys b) (bt_sys b'))"
proof -
  note inv = reach_batch [OF assms(1)]
  have "bt_sys b' = bt_sys b \<or> coord_step (bt_sys b) (bt_sys b')"
    using assms(2)
  proof (cases rule: batch_step.cases)
    case (Act t a as r new b1)
    show ?thesis using exec_sys [OF inv Act(2,3)] unfolding Act(1) by simp
  next
    case (Receive got)
    then have "bt_sys b' = bt_sys b" by (auto simp: receive_def split: list.splits if_splits)
    then show ?thesis ..
  next
    case (Elsewhere y)
    then show ?thesis by simp
  qed (auto simp: batch_next_def batch_close_def close_events_def skipAllLocked_def)
  then show ?thesis using batch_invD(3) [OF inv] by blast
qed

section \<open>The reported error\<close>

lemma lowest_None: "lowest best fs = None \<longleftrightarrow> best = None \<and> fs = []"
  by (induction fs arbitrary: best) (auto split: option.splits)

lemma lowest_Some:
  "lowest best fs = Some f \<Longrightarrow> (best = Some f \<or> f \<in> set fs) \<and> (\<forall>g \<in> set fs. fst f \<le> fst g) \<and> (case best of None \<Rightarrow> True | Some g \<Rightarrow> fst f \<le> fst g)"
proof (induction fs arbitrary: best)
  case (Cons x fs)
  show ?case
  proof (cases best)
    case None
    then show ?thesis using Cons.IH [of "Some x"] Cons.prems by auto
  next
    case (Some g)
    then show ?thesis using Cons.IH [of "if fst x < fst g then Some x else Some g"] Cons.prems by (auto split: if_splits)
  qed
qed simp


section \<open>Work\<close>

text \<open>An upper bound on the actions that can come out of an action, itself included, for a batch of \<open>n\<close> calls.\<close>

fun act_cost :: "nat \<Rightarrow> action \<Rightarrow> nat" where
  "act_cost n (ACancelEnd i s p e) = 4"
| "act_cost n (ACancelled i s e) = 6"
| "act_cost n (AEnded i e) = 7"
| "act_cost n (AFinal i out) = 6"
| "act_cost n (ARun i a) = 8"
| "act_cost n (AExecute i) = 8"
| "act_cost n (AExtend i a f) = 11"
| "act_cost n (ADiscover i a f) = 12"
| "act_cost n (AActivate i) = 13"
| "act_cost n (AWait i q) = 14"
| "act_cost n (AAcquire i) = 15"
| "act_cost n (ACheck i) = 16"
| "act_cost n (ASpawn i) = 17"
| "act_cost n ASummary = 2"
| "act_cost n AJoin = 3"
| "act_cost n ARegister = 17 * n + 4"
| "act_cost n a = 1"

definition acts_cost :: "nat \<Rightarrow> action list \<Rightarrow> nat" where
  "acts_cost n as = sum_list (map (act_cost n) as)"

definition work :: "batch \<Rightarrow> nat" where
  "work b = sum_list (map (\<lambda>(t, as). acts_cost (length (bt_calls b)) as) (bt_threads b))"

lemma acts_cost_simps [simp]:
  "acts_cost n [] = 0" "acts_cost n (a # as) = act_cost n a + acts_cost n as" "acts_cost n (as @ bs) = acts_cost n as + acts_cost n bs"
  by (simp_all add: acts_cost_def)

lemma helper_costs [simp]:
  "acts_cost n (fail b i e) = 5" "acts_cost n (skip i) = 2" "acts_cost n (emitRejected b i out) = 3"
  "acts_cost n (begin_running b i a) = 2 + act_cost n a"
  by (simp_all add: fail_def skip_def emitRejected_def begin_running_def)

lemma dispatch_cost: "acts_cost n (dispatch_calls b) \<le> 17 * length (bt_calls b)"
proof -
  have "acts_cost n (concat (map (dispatch_call b) js)) \<le> 17 * length js" for js
    by (induction js) (auto simp: dispatch_call_def split: option.split)
  from this [of "[0..<length (bt_calls b)]"] show ?thesis by (simp add: dispatch_calls_def)
qed

lemma after_costs:
  "acts_cost n (after_activate E ex b i res cl) \<le> 12" "acts_cost n (after_run i res' ce) \<le> 7" "acts_cost n (after_error b i e) \<le> 6"
  "acts_cost n (after_output E ex b i out) \<le> 5" "acts_cost n (cancelled b i s e) \<le> 5" "acts_cost n (cancel_end b i s p e) \<le> 3"
  by (auto simp: after_activate_def after_run_def after_error_def after_output_def cancelled_def cancel_end_def Let_def
      split: sum.split option.split)

lemma exec_cost:
  assumes "exec E ex a r b = Some (new, b')" "n = length (bt_calls b)"
  shows "acts_cost n new + (case a of ASpawn i \<Rightarrow> 16 | _ \<Rightarrow> 0) < act_cost n a"
proof (cases a)
  case (AWait i q)
  with assms(1) show ?thesis by (auto simp: wait_round_def Let_def split: reply.splits if_splits)
next
  case (AExtend i x f)
  with assms(1) show ?thesis by (auto simp: extend_round_def split: reply.splits if_splits option.splits)
next
  case (AActivate i)
  then obtain res cl where "new = after_activate E ex b i res cl" using assms(1) by (cases r) auto
  with AActivate after_costs(1) [of n E ex b i res cl] show ?thesis by simp
next
  case (ARun i x)
  then obtain res cl where "new = after_run i res cl" using assms(1) by (cases r) auto
  with ARun after_costs(2) [of n i res cl] show ?thesis by simp
next
  case (AExecute i)
  then obtain res cl where "new = after_run i res cl" using assms(1) by (cases r) auto
  with AExecute after_costs(2) [of n i res cl] show ?thesis by simp
next
  case (AFinal i out)
  with assms(1) after_costs(4) [of n E ex b i out] show ?thesis by auto
next
  case (AEnded i e)
  with assms(1) after_costs(3) [of n b i e] show ?thesis by auto
next
  case (ACancelled i s e)
  with assms(1) after_costs(5) [of n b i s e] show ?thesis by auto
next
  case (ACancelEnd i s p e)
  with assms(1) after_costs(6) [of n b i s p e] show ?thesis by auto
next
  case ARegister
  with assms dispatch_cost [of n b] show ?thesis by (auto simp: register_def split: sum.splits prod.splits)
qed (use assms(1) in \<open>auto split: if_splits reply.splits sum.splits prod.splits\<close>)

lemma sum_gput_old:
  "map_of m k = Some v \<Longrightarrow> sum_list (map f (gput k w m)) + f (k, v) = sum_list (map f m) + (f (k, w) :: nat)"
  by (induction m) (auto simp: gput_def)

lemma sum_gput_le: "sum_list (map f (gput k w m)) \<le> sum_list (map f m) + (f (k, w) :: nat)"
  by (induction m) (auto simp: gput_def)

lemma advance_work:
  assumes "advance E ex t r b = Some b'"
  shows "work b' < work b"
proof -
  from assms obtain a as new b1 where t: "map_of (bt_threads b) t = Some (a # as)" and run: "exec E ex a r b = Some (new, b1)"
    and b': "b' = b1\<lparr>bt_threads := gput t (new @ as) (bt_threads b1)\<rparr>" by (rule advance_cases)
  note F = exec_frame [OF run]
  define n where "n = length (bt_calls b)"
  let ?f = "\<lambda>(t :: thread, as). acts_cost n as"
  note c = exec_cost [OF run n_def]
  have w: "work b' = sum_list (map ?f (gput t (new @ as) (bt_threads b1)))" "work b = sum_list (map ?f (bt_threads b))"
    by (simp_all add: work_def b' F(1) n_def)
  show ?thesis
  proof (cases "\<exists>i. a = ASpawn i")
    case True
    then obtain i where i: "a = ASpawn i" by blast
    then have th: "bt_threads b1 = gput (Worker i) [ACheck i] (bt_threads b)" using F(5) by simp
    show ?thesis
    proof (cases "t = Worker i")
      case True
      have "map_of (bt_threads b1) t = Some [ACheck i]" by (simp add: th True)
      with sum_gput_old [OF this, of ?f "new @ as"] sum_gput_old [OF t, of ?f "[ACheck i]"] c show ?thesis
        unfolding w by (simp add: th True i)
    next
      case False
      have "map_of (bt_threads b1) t = Some (a # as)" by (simp add: th False t)
      with sum_gput_old [OF this, of ?f "new @ as"] sum_gput_le [of ?f "Worker i" "[ACheck i]" "bt_threads b"] c show ?thesis
        unfolding w by (simp add: th i)
    qed
  next
    case False
    then have "bt_threads b1 = bt_threads b" using F(5) by (cases a) auto
    with sum_gput_old [OF t, of ?f "new @ as"] c show ?thesis unfolding w by (cases a) simp_all
  qed
qed


section \<open>Cancellation\<close>

lemma exec_enabled:
  assumes "ctx_done b" "a \<noteq> AJoin"
  shows "\<exists>r new b'. exec E ex a r b = Some (new, b')"
proof (cases a)
  case (AWait i q)
  then show ?thesis using assms(1) by (intro exI [of _ "RDone None"]) (simp add: wait_round_def Let_def)
next
  case (AActivate i)
  then show ?thesis by (intro exI [of _ "RActivate (Inl cancelled_error) None"]) simp
next
  case (ADiscover i act f)
  then show ?thesis by (intro exI [of _ "RDone None"]) (simp split: sum.split)
next
  case (AExtend i act f)
  then show ?thesis using assms(1) by (intro exI [of _ "RDone None"]) (simp add: extend_round_def)
next
  case (ARun i act)
  then show ?thesis by (intro exI [of _ "RRun (Inl cancelled_error) None"]) simp
next
  case (AExecute i)
  then show ?thesis by (intro exI [of _ "RRun (Inl cancelled_error) None"]) simp
next
  case (ASend ev)
  then show ?thesis using assms(1) by (simp add: send_def)
next
  case (AAcquire i)
  then show ?thesis using assms(1) by simp
qed (use assms(2) in simp_all)

lemma advance_enabled:
  assumes "run.reach E ex b" "ctx_done b" "acts_of b t \<noteq> []"
  shows "\<exists>t r b'. advance E ex t r b = Some b'"
proof -
  note inv = reach_batch [OF assms(1)]
  have go: ?thesis if u: "map_of (bt_threads b) u = Some (a # as)" and x: "\<exists>r new b'. exec E ex a r b = Some (new, b')" for u a as
  proof -
    obtain r new b' where "exec E ex a r b = Some (new, b')" using x by blast
    then have "advance E ex u r b = Some (b'\<lparr>bt_threads := gput u (new @ as) (bt_threads b')\<rparr>)"
      by (simp add: advance_def u)
    then show ?thesis by blast
  qed
  have worker: ?thesis if w: "map_of (bt_threads b) (Worker i) = Some (a # as)" for i a as
  proof (rule go [OF w exec_enabled [OF assms(2)]])
    show "a \<noteq> AJoin" using thread_live [OF inv w] by (cases "stage_of b i") auto
  qed
  obtain a as where a: "map_of (bt_threads b) t = Some (a # as)"
    using assms(3) by (auto simp: acts_of_def neq_Nil_conv split: option.splits)
  show ?thesis
  proof (cases "a = AJoin")
    case False
    then show ?thesis using go [OF a exec_enabled [OF assms(2)]] by simp
  next
    case True
    show ?thesis
    proof (cases "workers_done b")
      case True
      then show ?thesis using go [OF a] \<open>a = AJoin\<close> by simp
    next
      case False
      then obtain i w where "(Worker i, w) \<in> set (bt_threads b)" "w \<noteq> []"
        by (auto simp: workers_done_def list_all_iff split: thread.splits)
      then obtain x xs where "map_of (bt_threads b) (Worker i) = Some (x # xs)"
        using wf_gmap_map_of [OF threads_wf [OF assms(1)]] by (cases w) auto
      then show ?thesis by (rule worker)
    qed
  qed
qed

text \<open>C38 (liveness). A started batch whose context is done always comes to its end: from every state it can reach there is a
  schedule after which all threads have finished and the event channel is closed, so that \<^verbatim>\<open>Next\<close> and \<^verbatim>\<open>Close\<close> return. Every
  thread that is left can act, so by the bound on the work each fair schedule is such a schedule.\<close>

theorem cancelled_batch_ends:
  assumes "run.reach E ex b" "bt_started b" "ctx_done b"
  shows "\<exists>s b'. play E ex s b = Some b' \<and> (\<forall>t. acts_of b' t = []) \<and> bt_eventsClosed b'"
  using assms
proof (induction "work b" arbitrary: b rule: less_induct)
  case less
  show ?case
  proof (cases "\<exists>t. acts_of b t \<noteq> []")
    case True
    then obtain t r b1 where b1: "advance E ex t r b = Some b1" using advance_enabled [OF less.prems(1,3)] by blast
    have "run.reach E ex b1" using run.reach.step [OF less.prems(1) advance_step [OF b1]] .
    then obtain s b' where s: "play E ex s b1 = Some b'" "\<forall>t. acts_of b' t = []" "bt_eventsClosed b'"
      using less.hyps [OF advance_work [OF b1]] advance_started [OF b1] less.prems(2) advance_ctx_done [OF b1 less.prems(3)] by auto
    have "play E ex ((t, r) # s) b = Some b'" using b1 s(1) by simp
    with s(2,3) show ?thesis by blast
  next
    case False
    then have "\<forall>t. acts_of b t = []" by blast
    moreover have "bt_eventsClosed b"
      using batch_invD(8) [OF reach_batch [OF less.prems(1)]] less.prems(2) False
      by (auto simp: life_inv_def registered_inv_def acts_of_def split: option.splits)
    ultimately show ?thesis by (intro exI [of _ "[]"]) auto
  qed
qed

end
