(* ===== verification/Batch_Start.thy ===== *)
theory Batch_Start
  imports Batch_Props
begin

text \<open>
  What \<^verbatim>\<open>Start\<close> promises: every call that is not rejected was found in the registry, its arguments conform to the schema of
  its tool, and its claims are in normal form; quotas stay within the budget of the batch. A batch made of these calls is one
  that the theorems of Batch_Props are about.
\<close>

section \<open>Prepared calls\<close>

text \<open>A call that may run.\<close>

definition admitted_call :: "tool_env \<Rightarrow> executor \<Rightarrow> prepared_call \<Rightarrow> bool" where
  "admitted_call E ex pc \<longleftrightarrow> (\<exists>reg doc args. pr_tool pc = Some reg \<and> reg \<in> set (ex_tools ex) \<and> tool_name reg = tc_Name (pr_call pc)
     \<and> Parse (t_Parameters (rg_def reg)) schemaLimits = Inr doc \<and> ParseObject (tc_Arguments (pr_call pc)) argumentLimits = Inr args
     \<and> conforms (te_rx E) doc args \<and> touches (pr_static pc) rootResource
     \<and> (if rg_planner reg then pr_hasActivator pc = rg_activator reg else pr_static pc = [rootWrite] \<and> \<not> pr_hasActivator pc))"

definition prepared_ok :: "tool_env \<Rightarrow> executor \<Rightarrow> nat \<Rightarrow> tool_call \<Rightarrow> output_limits \<Rightarrow> prepared_call \<Rightarrow> bool" where
  "prepared_ok E ex i call quota pc \<longleftrightarrow> pr_index pc = i \<and> pr_call pc = call \<and> pr_limits pc = quota \<and> static_ok (coord_view pc)
     \<and> (pr_rejected pc = None \<longrightarrow> admitted_call E ex pc)"

lemma prepared_rejected:
  "pr_index pc = i \<Longrightarrow> pr_call pc = call \<Longrightarrow> pr_limits pc = quota \<Longrightarrow> prepared_ok E ex i call quota (reject E ex pc msg)"
  by (simp add: prepared_ok_def reject_def coord_view_def static_ok_def)

lemma root_touched: "touches [rootWrite] rootResource" "touches (rootRead # cs) rootResource"
  by (auto simp: touches_def rootWrite_def rootRead_def)

lemma plan_call_ok:
  assumes "plan_call E ex w reg pc = Inr out" "pr_index pc = i" "pr_call pc = call" "pr_limits pc = quota" "pr_rejected pc = None"
    "\<not> pr_hasActivator pc"
    and "\<And>pc'. pr_tool pc' = pr_tool pc \<Longrightarrow> pr_call pc' = pr_call pc \<Longrightarrow> touches (pr_static pc') rootResource \<Longrightarrow>
      (if rg_planner reg then pr_hasActivator pc' = rg_activator reg else pr_static pc' = [rootWrite] \<and> \<not> pr_hasActivator pc') \<Longrightarrow>
      admitted_call E ex pc'"
  shows "prepared_ok E ex i call quota out"
proof (cases "rg_planner reg")
  case False
  with assms(1) have out: "out = pc\<lparr>pr_static := [rootWrite]\<rparr>" by (simp add: plan_call_def)
  have "admitted_call E ex out" by (rule assms(7)) (use out False assms(6) root_touched(1) in auto)
  then show ?thesis using out assms(2-5) by (simp add: prepared_ok_def coord_view_def static_ok_def rootWrite_normal)
next
  case True
  show ?thesis
  proof (cases "callPlan w (pr_index pc)")
    case (Inl err)
    with assms(1) True obtain msg where "out = reject E ex pc msg" by (auto simp: plan_call_def split: option.splits)
    then show ?thesis using prepared_rejected [OF assms(2-4)] by simp
  next
    case (Inr claims)
    with assms(1) True obtain static where s: "normalizeClaims (rootRead # claims) = Inr static"
      "out = pc\<lparr>pr_static := static, pr_hasActivator := rg_activator reg\<rparr>"
      by (auto simp: plan_call_def split: sum.splits)
    note n = normalizeClaims_Inr [OF s(1)]
    have "admitted_call E ex out" by (rule assms(7)) (use s(2) True n(3) in \<open>simp_all add: root_touched\<close>)
    then show ?thesis using s(2) n(1) assms(2-5) by (simp add: prepared_ok_def coord_view_def static_ok_def)
  qed
qed

lemma prepare_call_ok:
  assumes "prepare_call E ex w i call quota = Inr out" "registry_ok (te_rx E) ex"
  shows "prepared_ok E ex i call quota out"
proof -
  let ?pc = "\<lparr>pr_index = i, pr_call = call, pr_tool = None, pr_limits = quota, pr_static = [], pr_rejected = None, pr_hasActivator = False\<rparr>"
  have rej: ?thesis if "out = reject E ex pc msg" "pr_index pc = i" "pr_call pc = call" "pr_limits pc = quota" for pc msg
    using prepared_rejected [OF that(2-4)] that(1) by simp
  show ?thesis
  proof (cases "sw_look w i 0 \<or> \<not> utf8_valid (tc_Name call) \<or> \<not> validToolName (tc_Name call)")
    case True
    then have "out = reject E ex ?pc (unknown_tool (tc_Name call))" using assms(1) by (auto simp: prepare_call_def Let_def split: if_splits)
    then show ?thesis by (rule rej) simp_all
  next
    case go: False
    show ?thesis
    proof (cases "lookup ex (tc_Name call)")
      case None
      then have "out = reject E ex ?pc (unknown_tool (tc_Name call))" using assms(1) go by (simp add: prepare_call_def Let_def)
      then show ?thesis by (rule rej) simp_all
    next
      case (Some reg)
      let ?pd = "?pc\<lparr>pr_tool := Some reg\<rparr>"
      have R: "reg \<in> set (ex_tools ex)" "tool_name reg = tc_Name call" using Some lookup_iff [OF assms(2)] by simp_all
      have S: "compileSchema (te_rx E) (t_Parameters (rg_def reg)) = Inr (rg_schema reg)"
        using assms(2) R(1) by (simp add: registry_ok_def entry_sound_def)
      obtain doc where D: "Parse (t_Parameters (rg_def reg)) schemaLimits = Inr doc"
        using S by (auto simp: compileSchema_def split: sum.splits)
      show ?thesis
      proof (cases "parseArguments (if sw_look w i 1 then Some ErrCancelled else None) (tc_Arguments call)")
        case (Inl e)
        then have "out = reject E ex ?pd ''invalid tool arguments''"
          using assms(1) go Some by (auto simp: prepare_call_def Let_def split: argument_error.splits)
        then show ?thesis by (rule rej) simp_all
      next
        case (Inr args)
        then have P: "ParseObject (tc_Arguments call) argumentLimits = Inr args"
          by (auto simp: parseArguments_def split: if_splits sum.splits)
        then have A: "Parse (tc_Arguments call) argumentLimits = Inr args"
        proof -
          from P obtain v where v: "Parse (tc_Arguments call) argumentLimits = Inr v" by (auto simp: ParseObject_def result_simps)
          with P show ?thesis by (cases v) (simp_all add: ParseObject_def)
        qed
        show ?thesis
        proof (cases "validate (te_rx E) (\<lambda>k. sw_look w i (3 + k)) (rg_schema reg) args fresh_eval")
          case (Inl e)
          then have "out = reject E ex ?pd (mismatch_message e)"
            using assms(1) go Some Inr by (auto simp: prepare_call_def Let_def split: if_splits eval_error.splits)
          then show ?thesis by (rule rej) simp_all
        next
          case valid: (Inr u)
          then have p: "plan_call E ex w reg ?pd = Inr out"
            using assms(1) go Some Inr by (auto simp: prepare_call_def Let_def split: if_splits)
          have C: "conforms (te_rx E) doc args"
            using schema_run [OF S D A, where ctx = "\<lambda>k. sw_look w i (3 + k)"] valid by (simp add: outcome_def)
          show ?thesis
          proof (rule plan_call_ok [OF p])
            fix pc' :: prepared_call
            assume pc: "pr_tool pc' = pr_tool ?pd" "pr_call pc' = pr_call ?pd" "touches (pr_static pc') rootResource"
              "if rg_planner reg then pr_hasActivator pc' = rg_activator reg else pr_static pc' = [rootWrite] \<and> \<not> pr_hasActivator pc'"
            show "admitted_call E ex pc'"
              unfolding admitted_call_def
              by (rule exI [of _ reg], rule exI [of _ doc], rule exI [of _ args]) (use R D P C pc in simp)
          qed simp_all
        qed
      qed
    qed
  qed
qed

lemma prepare_calls_ok:
  assumes "prepare_calls E ex w i cs = Inr pcs" "registry_ok (te_rx E) ex"
  shows "length pcs = length cs \<and> (\<forall>k < length cs. prepared_ok E ex (i + k) (fst (cs ! k)) (snd (cs ! k)) (pcs ! k))"
  using assms(1)
proof (induction cs arbitrary: i pcs)
  case (Cons c cs)
  obtain call quota where c: "c = (call, quota)" by (cases c)
  from Cons.prems obtain pc rest where pc: "prepare_call E ex w i call quota = Inr pc" "prepare_calls E ex w (i + 1) cs = Inr rest"
    "pcs = pc # rest" by (auto simp: c result_simps)
  from Cons.IH [OF pc(2)] prepare_call_ok [OF pc(1) assms(2)] show ?case
    by (auto simp: pc(3) c nth_Cons split: nat.split)
qed simp

lemma Start_Inr:
  assumes "Start E (Some ex) w calls opts = Inr pcs" "registry_ok (te_rx E) ex"
  shows "length pcs = length calls" "calls_ok pcs"
    "\<forall>k < length calls. pr_index (pcs ! k) = k \<and> pr_call (pcs ! k) = calls ! k \<and> (pr_rejected (pcs ! k) = None \<longrightarrow> admitted_call E ex (pcs ! k))"
    "\<exists>limits. applyStartOptions opts (ex_output ex) (length calls) = Inr limits
       \<and> sum_list (map (\<lambda>pc. ol_MaxFramedBytes (pr_limits pc)) pcs) \<le> ol_MaxBatchFramedBytes limits"
proof -
  from assms(1) obtain limits quotas where env: "checkEnvelope calls (ex_input ex) = Inr ()"
      "applyStartOptions opts (ex_output ex) (length calls) = Inr limits" "allocateCallQuotas limits (length calls) = Inr quotas"
    and run: "prepare_calls E ex w 0 (zip calls quotas) = Inr pcs"
    by (auto simp: Start_def lift_error_def result_simps split: if_splits sum.splits)
  have lq: "length quotas = length calls" using allocate_Inr(3) [OF env(3)] by simp
  note P = prepare_calls_ok [OF run assms(2)]
  show len: "length pcs = length calls" using P lq by simp
  have ok: "prepared_ok E ex k (calls ! k) (quotas ! k) (pcs ! k)" if "k < length calls" for k using P lq that by simp
  have "calls \<noteq> []" using env(1) by (auto simp: checkEnvelope_def)
  then have "pcs \<noteq> []" using len by auto
  moreover have "\<forall>pc \<in> set pcs. static_ok (coord_view pc)" using ok len by (auto simp: in_set_conv_nth prepared_ok_def)
  ultimately show "calls_ok pcs" by (simp add: calls_ok_def list_all_iff)
  show "\<forall>k < length calls. pr_index (pcs ! k) = k \<and> pr_call (pcs ! k) = calls ! k \<and> (pr_rejected (pcs ! k) = None \<longrightarrow> admitted_call E ex (pcs ! k))"
    using ok by (simp add: prepared_ok_def)
  have "map pr_limits pcs = quotas"
    by (rule nth_equalityI) (use len lq ok in \<open>simp_all add: prepared_ok_def\<close>)
  then have q: "map (\<lambda>pc. ol_MaxFramedBytes (pr_limits pc)) pcs = map ol_MaxFramedBytes quotas" by (auto simp: comp_def)
  show "\<exists>limits. applyStartOptions opts (ex_output ex) (length calls) = Inr limits
      \<and> sum_list (map (\<lambda>pc. ol_MaxFramedBytes (pr_limits pc)) pcs) \<le> ol_MaxBatchFramedBytes limits"
    unfolding q using quotas_within_batch [OF env(3)] env(2) by blast
qed

text \<open>C4 (safety). A batch that starts on a registered executor runs no call that its registry and schema do not admit: every
  prepared call keeps its position, and unless it is rejected its tool is registered under its name, its arguments parse and
  conform to the schema document of that tool, and its claims touch the root resource (a write of it, without a planner).
  The quotas of all calls fit in the budget of the batch.\<close>

theorem started_calls_admitted:
  assumes "New (te_rx E) procs seq cfg ts = Inr ex" "Start E (Some ex) w calls opts = Inr pcs"
  shows "length pcs = length calls \<and> batch_initial (new_batch pcs (new_system 1) False)
    \<and> (\<forall>k < length calls. pr_index (pcs ! k) = k \<and> pr_call (pcs ! k) = calls ! k
        \<and> (pr_rejected (pcs ! k) = None \<longrightarrow> admitted_call E ex (pcs ! k)))
    \<and> (\<exists>limits. applyStartOptions opts (ex_output ex) (length calls) = Inr limits
        \<and> sum_list (map (\<lambda>pc. ol_MaxFramedBytes (pr_limits pc)) pcs) \<le> ol_MaxBatchFramedBytes limits)"
proof -
  note S = Start_Inr [OF assms(2) New_Inr(1) [OF assms(1)]]
  have "coord_initial (new_system 1)" unfolding coord_initial_def by (intro exI [of _ 1]) (simp add: maxParallelHard_def)
  then have "batch_initial (new_batch pcs (new_system 1) False)"
    unfolding batch_initial_def using S(2) coord.reach.init by blast
  then show ?thesis using S by blast
qed

end
