(* ===== verification/Batch_Demo.thy ===== *)
theory Batch_Demo
  imports Batch_Start
begin

text \<open>
  Examples: a tool is registered and a batch with calls of it is started; a batch with two readers and a rejected call runs
  until both readers are at work, and on to its end.
\<close>

section \<open>A registered tool\<close>

definition demo_env :: tool_env where
  "demo_env = \<lparr>te_std = sample_std, te_sha = (\<lambda>_. ''digest''), te_rx = sample_regexps\<rparr>"

definition demo_tool :: tool_value where
  "demo_tool = ToolValue \<lparr>ti_Definition = Some \<lparr>t_Name = ''pick'', t_Description = ''Picks one.'', t_Parameters = ''{\"type\":\"object\"}'',
     t_Strict = None\<rparr>, ti_Planner = True, ti_Activator = False\<rparr>"

definition demo_executor :: executor where
  "demo_executor = projr (New (te_rx demo_env) 8 0 zero_config [demo_tool])"

definition demo_world :: start_world where
  "demo_world = \<lparr>sw_reentrant = False, sw_done = False, sw_look = (\<lambda>_ _. False), sw_permit = (\<lambda>_. False), sw_plan = (\<lambda>_. Planned [])\<rparr>"

definition demo_calls :: "tool_call list" where
  "demo_calls = [\<lparr>tc_ID = ''1'', tc_Name = ''pick'', tc_Arguments = ''{}''\<rparr>,
     \<lparr>tc_ID = ''3'', tc_Name = ''pick'', tc_Arguments = ''{}''\<rparr>]"

definition demo_prepared :: "prepared_call list" where
  "demo_prepared = projr (Start demo_env (Some demo_executor) demo_world demo_calls [])"

text \<open>One evaluation for both: whether the registration and the start succeed, and which calls were accepted.\<close>

definition start_facts :: "tools_error + executor \<Rightarrow> bool list option" where
  "start_facts r = (case r of Inl _ \<Rightarrow> None
     | Inr ex \<Rightarrow> (case Start demo_env (Some ex) demo_world demo_calls [] of Inl _ \<Rightarrow> None
         | Inr ps \<Rightarrow> Some (map (\<lambda>pc. pr_rejected pc = None) ps)))"

lemma demo_start_facts: "start_facts (New (te_rx demo_env) 8 0 zero_config [demo_tool]) = Some [True, True]"
  by code_simp

lemma demo_new: "New (te_rx demo_env) 8 0 zero_config [demo_tool] = Inr demo_executor"
  using demo_start_facts by (cases "New (te_rx demo_env) 8 0 zero_config [demo_tool]") (simp_all add: start_facts_def demo_executor_def)

lemma demo_start: "Start demo_env (Some demo_executor) demo_world demo_calls [] = Inr demo_prepared"
  and demo_admits: "map (\<lambda>pc. pr_rejected pc = None) demo_prepared = [True, True]"
  using demo_start_facts unfolding demo_new
  by (cases "Start demo_env (Some demo_executor) demo_world demo_calls []"; simp add: start_facts_def demo_prepared_def)+

theorem started_calls_admitted_witness:
  "length demo_prepared = 2 \<and> admitted_call demo_env demo_executor (demo_prepared ! 0) \<and> admitted_call demo_env demo_executor (demo_prepared ! 1)"
proof -
  have n: "length demo_calls = 2" by (simp add: demo_calls_def)
  note S = started_calls_admitted [OF demo_new demo_start, unfolded n]
  then have l: "length demo_prepared = 2" by blast
  have "pr_rejected (demo_prepared ! 0) = None \<and> pr_rejected (demo_prepared ! 1) = None"
    using arg_cong [OF demo_admits, of "\<lambda>xs. xs ! 0"] arg_cong [OF demo_admits, of "\<lambda>xs. xs ! 1"] l by simp
  then show ?thesis using S by simp
qed

section \<open>A run of a batch\<close>

text \<open>Two readers and a rejected call; both readers run together, then one fails and the other is cancelled.\<close>

definition demo_call :: "string \<Rightarrow> tool_call" where
  "demo_call i = \<lparr>tc_ID = i, tc_Name = ''pick'', tc_Arguments = ''{}''\<rparr>"

definition demo_reader :: "nat \<Rightarrow> prepared_call" where
  "demo_reader i = \<lparr>pr_index = i, pr_call = demo_call ''a'', pr_tool = None, pr_limits = zero_output, pr_static = [rootRead],
     pr_rejected = None, pr_hasActivator = False\<rparr>"

definition demo_refused :: prepared_call where
  "demo_refused = (demo_reader 1)\<lparr>pr_static := [], pr_rejected := Some (text_output ''no'')\<rparr>"

definition run_executor :: executor where
  "run_executor = \<lparr>ex_id = 8, ex_tools = [], ex_byName = [], ex_input = zero_input, ex_output = zero_output, ex_parallel = 1\<rparr>"

definition demo_fresh :: batch where
  "demo_fresh = new_batch [demo_reader 0, demo_refused, demo_reader 2] (new_system 2) False"

definition demo_batch :: batch where
  "demo_batch = snd (batch_next demo_fresh)"

definition demo_script :: "(thread \<times> reply) list" where
  "demo_script = replicate 6 (Dispatcher, RNone) @ replicate 2 (Worker 0, RNone) @ [(Worker 0, RTry)] @ replicate 2 (Worker 0, RNone)
     @ replicate 2 (Worker 2, RNone) @ [(Worker 2, RTry)] @ replicate 2 (Worker 2, RNone)"

definition demo_running :: batch where
  "demo_running = the (play demo_env run_executor demo_script demo_batch)"

definition demo_finish :: "(thread \<times> reply) list" where
  "demo_finish = [(Worker 0, RRun (Inl (Leaf (ErrExecution (ToolFault ''broken'')))) None), (Worker 2, RRun (Inl cancelled_error) None)]
     @ replicate 6 (Worker 0, RNone) @ replicate 6 (Worker 2, RNone) @ replicate 3 (Dispatcher, RNone)"

definition demo_finished :: batch where
  "demo_finished = the (play demo_env run_executor demo_finish demo_running)"

lemma demo_reach: "run.reach demo_env run_executor demo_fresh"
proof (rule run.reach.init)
  have "coord_initial (new_system 2)" unfolding coord_initial_def by (intro exI [of _ 2]) (simp add: maxParallelHard_def)
  moreover have "calls_ok [demo_reader 0, demo_refused, demo_reader 2]"
    by (simp add: calls_ok_def static_ok_def coord_view_def demo_reader_def demo_refused_def normal_claims)
  ultimately show "batch_initial demo_fresh" unfolding batch_initial_def demo_fresh_def using coord.reach.init by blast
qed

lemma demo_reach_started: "run.reach demo_env run_executor demo_batch"
  unfolding demo_batch_def by (rule run.reach.step [OF demo_reach batch_step.NextBegin])

text \<open>One evaluation of both parts of the run, with what the theorems below look at.\<close>

definition run_facts :: "batch \<Rightarrow> (action list option list \<times> nat \<times> bool \<times> bool list) option" where
  "run_facts b = (case play demo_env run_executor demo_finish b of None \<Rightarrow> None
     | Some f \<Rightarrow> Some ([map_of (bt_threads b) (Worker 0), map_of (bt_threads b) (Worker 2), map_of (bt_threads f) Dispatcher],
         length (bt_calls b), bt_started b, [touches (pr_static (call_at b 0)) rootResource, touches (pr_static (call_at b 2)) rootResource,
         bt_tickets f \<noteq> [], length (bt_calls f) = 3]))"

lemma demo_facts: "map_option run_facts (play demo_env run_executor demo_script demo_batch)
    = Some (Some ([Some [AExecute 0], Some [AExecute 2], Some []], 3, True, [True, True, True, True]))"
  by code_simp

lemma demo_plays: "play demo_env run_executor demo_script demo_batch = Some demo_running"
  and demo_run_facts: "run_facts demo_running = Some ([Some [AExecute 0], Some [AExecute 2], Some []], 3, True, [True, True, True, True])"
  using demo_facts by (cases "play demo_env run_executor demo_script demo_batch"; simp add: demo_running_def)+

lemma demo_ends: "play demo_env run_executor demo_finish demo_running = Some demo_finished"
  using demo_run_facts by (cases "play demo_env run_executor demo_finish demo_running") (simp_all add: demo_finished_def run_facts_def)

lemmas demo_seen = demo_run_facts [unfolded run_facts_def demo_ends option.case, simplified]

lemma demo_threads: "map_of (bt_threads demo_running) (Worker 0) = Some [AExecute 0] \<and> map_of (bt_threads demo_running) (Worker 2) = Some [AExecute 2]"
  and demo_calls_count: "length (bt_calls demo_running) = 3"
  and demo_is_started: "bt_started demo_running"
  and demo_shared: "touches (pr_static (call_at demo_running 0)) rootResource \<and> touches (pr_static (call_at demo_running 2)) rootResource"
  and demo_done: "map_of (bt_threads demo_finished) Dispatcher = Some [] \<and> bt_tickets demo_finished \<noteq> [] \<and> length (bt_calls demo_finished) = 3"
  using demo_seen by simp_all

lemma demo_work: "work demo_batch = 17 * 3 + 4"
  by code_simp

lemma demo_reach_running: "run.reach demo_env run_executor demo_running"
  by (rule play_reach [OF demo_reach_started demo_plays])

lemma demo_reach_finished: "run.reach demo_env run_executor demo_finished"
  by (rule play_reach [OF demo_reach_running demo_ends])

section \<open>Witnesses\<close>

theorem events_never_block_witness: "\<not> bt_panic demo_running \<and> length (bt_queue demo_running) \<le> 6"
  using events_never_block [OF demo_reach_running, of 0] by (auto simp: demo_calls_count)

theorem batch_settles_witness: "settled (call_at demo_finished 1) 1 (stage_of demo_finished 1)"
  using batch_settles [OF demo_reach_finished, of 1] demo_done by simp



theorem cancelled_batch_ends_witness:
  "\<exists>s b'. play demo_env run_executor s (demo_running\<lparr>bt_parent := True\<rparr>) = Some b' \<and> bt_eventsClosed b'"
  using cancelled_batch_ends [OF run.reach.step [OF demo_reach_running batch_step.ParentDone]] demo_is_started by fastforce

theorem batch_refines_coordinator_witness:
  "coord.reach (bt_sys demo_fresh) \<and> (bt_sys demo_batch = bt_sys demo_fresh \<or> coord_step (bt_sys demo_fresh) (bt_sys demo_batch))"
  using batch_refines_coordinator [OF demo_reach batch_step.NextBegin] unfolding demo_batch_def .

theorem registry_sound_witness: "distinct (map tool_name (ex_tools demo_executor)) \<and> length (ex_tools demo_executor) \<le> maxRegisteredTools"
  using registry_sound [OF demo_new] by blast


end
