(* ===== verification/Collector.thy ===== *)
theory Collector
  imports Output
begin

text \<open>
  The bounded text collector: \<^verbatim>\<open>TextCollector\<close> and its helpers in \<^verbatim>\<open>src/core/tools/collector.go\<close>.

  A collector takes raw bytes in pieces, escapes what is not UTF-8, hashes all of the text and keeps a window of it. The
  state under the mutex is one record; an operation gives a result and the state after it, also when it fails. The hash
  state is the list of bytes written to it. Slices that share memory are values here: every use in the source copies bytes to
  their place before the old ones are overwritten.
\<close>

section \<open>State\<close>

definition HeadTail :: nat where "HeadTail = 1"
definition Prefix :: nat where "Prefix = 2"

definition metadataBegin :: string where
  "metadataBegin = CHR 0x0A # ''@serpe-tool-metadata-begin:v1'' @ [CHR 0x0A]"

definition collectorChunk :: nat where "collectorChunk = 32 * 2 ^ 10"

text \<open>\<^verbatim>\<open>%08x\<close>, for numbers below \<open>2 ^ 32\<close>.\<close>

definition hex8 :: "nat \<Rightarrow> string" where
  "hex8 n = map (\<lambda>i. hex_digits ! (n div 16 ^ i mod 16)) (rev [0..<8])"

definition metadataEnd :: "nat \<Rightarrow> string" where
  "metadataEnd n = CHR 0x0A # ''@serpe-tool-metadata-end:v1 bytes='' @ hex8 n"

record prefix_state =
  ps_KeptLogicalBytes :: int
  ps_Truncated :: bool

datatype collector_state = CollectorWriting | CollectorPrepared | CollectorFinished

record stream_hasher =
  sh_h :: string
  sh_pending :: string
  sh_total :: int
  sh_done :: bool

record collector =
  tx_limits :: output_limits
  tx_mode :: nat
  tx_state :: collector_state
  tx_pending :: string
  tx_total :: int
  tx_hasher :: stream_hasher
  tx_bodyBudget :: int
  tx_window :: string
  tx_headBytes :: nat
  tx_omitted :: bool
  tx_recordMode :: bool
  tx_recordFull :: "string list"
  tx_recordHead :: "string list"
  tx_recordTail :: "string list"
  tx_recordN :: int

section \<open>Hashing\<close>

definition newStreamHasher :: stream_hasher where
  "newStreamHasher = \<lparr>sh_h = writeBytes outputDomain @ be64 outputVersion @ be64 1 @ be64 0 @ writeBytes ContentText
     @ writeBytes [] @ writeBytes [], sh_pending = [], sh_total = 0, sh_done = False\<rparr>"

definition emit :: "string \<Rightarrow> stream_hasher \<Rightarrow> stream_hasher" where
  "emit chunk s = s\<lparr>sh_h := sh_h s @ be64 (length chunk) @ chunk\<rparr>"

text \<open>The loop of \<^verbatim>\<open>writeLogical\<close>. The pending bytes are fewer than a chunk, or the loop would not advance; the first
  branch is for that case, which does not occur.\<close>

function write_chunks :: "string \<Rightarrow> stream_hasher \<Rightarrow> stream_hasher" where
  "write_chunks p s =
     (if p = [] \<or> length (sh_pending s) \<ge> nat frameChunk then s
      else if sh_pending s = [] \<and> length p \<ge> nat frameChunk
        then write_chunks (drop (nat frameChunk) p) (emit (take (nat frameChunk) p) s)
      else
        let need = min (nat frameChunk - length (sh_pending s)) (length p);
            s' = s\<lparr>sh_pending := sh_pending s @ take need p\<rparr>
        in write_chunks (drop need p)
          (if length (sh_pending s') = nat frameChunk then (emit (sh_pending s') s')\<lparr>sh_pending := []\<rparr> else s'))"
  by pat_completeness auto
termination
  by (relation "measure (\<lambda>(p, s). length p)") (auto simp: frameChunk_def)

declare write_chunks.simps [simp del]

definition writeLogical :: "string \<Rightarrow> stream_hasher \<Rightarrow> stream_hasher option" where
  "writeLogical p s =
     (if sh_done s then None
      else case add64 (sh_total s) (int (length p)) of
        None \<Rightarrow> None
      | Some next \<Rightarrow> Some (write_chunks p (s\<lparr>sh_total := next\<rparr>)))"

definition singleTextFrameSize :: "int \<Rightarrow> int option" where
  "singleTextFrameSize textBytes =
     Option.bind (framedBlockSize ContentText [] [] textBytes) (\<lambda>block.
     add64 (int (8 + length outputDomain + 8 + 8)) block)"

text \<open>\<^verbatim>\<open>finish\<close>: the framed size and the digest.\<close>

definition finish_hash :: "(string \<Rightarrow> string) \<Rightarrow> stream_hasher \<Rightarrow> (int \<times> string) option \<times> stream_hasher" where
  "finish_hash sha s =
     (if sh_done s then (None, s)
      else
        let s1 = s\<lparr>sh_done := True\<rparr>;
            s2 = (if sh_pending s1 \<noteq> [] then (emit (sh_pending s1) s1)\<lparr>sh_pending := []\<rparr> else s1);
            s3 = s2\<lparr>sh_h := sh_h s2 @ be64 0 @ be64 (nat (sh_total s2)) @ writeBytes blockBoundary\<rparr>
        in (map_option (\<lambda>framed. (framed, hex_encode (sha (sh_h s3)))) (singleTextFrameSize (sh_total s3)), s3))"

section \<open>Construction\<close>

function body_search :: "(int \<Rightarrow> bool) \<Rightarrow> int \<Rightarrow> int \<Rightarrow> int" where
  "body_search ok lo hi =
     (if lo < hi then
        (let mid = lo + (hi - lo + 1) div 2 in
         if ok mid then body_search ok mid hi else body_search ok lo (mid - 1))
      else lo)"
  by pat_completeness auto
termination
  by (relation "measure (\<lambda>(ok, lo, hi). nat (hi - lo))") auto

declare body_search.simps [simp del]

definition maxCollectorBody :: "output_limits \<Rightarrow> int \<Rightarrow> int \<Rightarrow> int" where
  "maxCollectorBody L trailerReserve markerReserve =
     (let hi = ol_MaxTextBytes L - trailerReserve - markerReserve in
      if hi < 0 then 0
      else body_search (\<lambda>mid. case singleTextFrameSize (mid + trailerReserve + markerReserve) of
          None \<Rightarrow> False | Some framed \<Rightarrow> framed \<le> ol_MaxFramedBytes L) 0 hi)"

definition trailer_reserve :: nat where
  "trailer_reserve = length metadataBegin + nat maxCollectorMetaBytes + length (metadataEnd (nat maxCollectorMetaBytes))"

definition NewTextCollector :: "(string \<Rightarrow> string) \<Rightarrow> output_limits \<Rightarrow> nat \<Rightarrow> tools_error + collector" where
  "NewTextCollector sha L mode =
     (if mode \<noteq> HeadTail \<and> mode \<noteq> Prefix then Inl (execution ''unknown collector mode'')
      else if ol_MaxTextBytes L < minTextBytes \<or> ol_MaxFramedBytes L < minFramedBytes
        then Inl (execution ''collector limits are below the package floor'')
      else Inr \<lparr>tx_limits = L, tx_mode = mode, tx_state = CollectorWriting, tx_pending = [], tx_total = 0,
        tx_hasher = newStreamHasher,
        tx_bodyBudget = maxCollectorBody L (int trailer_reserve) (int (length (formatMarker 0 0 (hex_encode (sha []))))),
        tx_window = [], tx_headBytes = 0, tx_omitted = False, tx_recordMode = False, tx_recordFull = [], tx_recordHead = [],
        tx_recordTail = [], tx_recordN = 0\<rparr>)"

section \<open>Escaping\<close>

definition appendEscapedByte :: "char \<Rightarrow> string" where
  "appendEscapedByte c = [CHR 0x5C, CHR ''x'', hex_digits ! (byte c div 16), hex_digits ! (byte c mod 16)]"

definition escapeBytes :: "string \<Rightarrow> string" where
  "escapeBytes s = concat (map appendEscapedByte s)"

text \<open>\<^verbatim>\<open>utf8.FullRune\<close>: whether the bytes begin with a full encoding, or with bytes that cannot become one.\<close>

definition full_rune :: "string \<Rightarrow> bool" where
  "full_rune s = (case s of [] \<Rightarrow> False
     | a # r \<Rightarrow> let n = seq_len (byte a) in
         n = 0 \<or> n \<le> length s
         \<or> (r \<noteq> [] \<and> \<not> in_range (second_lo (byte a)) (second_hi (byte a)) (hd r))
         \<or> (1 < length r \<and> \<not> cont (r ! 1)))"

function escapeValidPrefix :: "string \<Rightarrow> bool \<Rightarrow> string \<times> string" where
  "escapeValidPrefix s final = (case s of
     [] \<Rightarrow> ([], [])
   | a # r \<Rightarrow>
       if byte a < 0x80 then (case escapeValidPrefix r final of (logical, rest) \<Rightarrow> (a # logical, rest))
       else if \<not> full_rune s \<and> \<not> final then ([], s)
       else
         let d = decode_rune s in
         if d = (RuneError, 1) then (case escapeValidPrefix r final of (logical, rest) \<Rightarrow> (appendEscapedByte a @ logical, rest))
         else (case escapeValidPrefix (drop (snd d) s) final of (logical, rest) \<Rightarrow> (take (snd d) s @ logical, rest)))"
  by pat_completeness auto
termination
proof (relation "measure (length \<circ> fst)", goal_cases)
  case (4 s final a r d)
  then show ?case using decode_rune_width_pos [of s] by auto
qed auto

declare escapeValidPrefix.simps [simp del]

section \<open>Windows\<close>

definition utf8PrefixView :: "string \<Rightarrow> int \<Rightarrow> string" where
  "utf8PrefixView s n = (if n \<ge> int (length s) then s else take (cut_before s (nat n)) s)"

definition utf8SuffixView :: "string \<Rightarrow> int \<Rightarrow> string" where
  "utf8SuffixView s n = (if n \<ge> int (length s) then s else drop (cut_after s (length s - nat n)) s)"

definition appendCombinedSuffix :: "string \<Rightarrow> string \<Rightarrow> string \<Rightarrow> int \<Rightarrow> string" where
  "appendCombinedSuffix dst first second budget =
     (if int (length second) \<ge> budget then dst @ utf8SuffixView second budget
      else dst @ utf8SuffixView first (budget - int (length second)) @ second)"

definition appendHeadTail :: "string \<Rightarrow> collector \<Rightarrow> collector" where
  "appendHeadTail logical c =
     (let budget = tx_bodyBudget c; window = tx_window c in
      if budget \<le> 0 then c\<lparr>tx_omitted := True\<rparr>
      else if \<not> tx_omitted c \<and> int (length window) + int (length logical) \<le> budget
        then c\<lparr>tx_window := window @ logical, tx_headBytes := length (window @ logical)\<rparr>
      else
        let headBudget = budget div 2; tailBudget = budget - headBudget in
        if \<not> tx_omitted c then
          let retained = (if int (length window) \<ge> headBudget then utf8PrefixView window headBudget
            else window @ utf8PrefixView logical (headBudget - int (length window)))
          in c\<lparr>tx_headBytes := length retained, tx_window := appendCombinedSuffix retained window logical tailBudget,
            tx_omitted := True\<rparr>
        else
          let oldTail = drop (tx_headBytes c) window;
              tail = (if int (length logical) \<ge> tailBudget then utf8SuffixView logical tailBudget
                else utf8SuffixView oldTail (tailBudget - int (length logical)) @ logical)
          in c\<lparr>tx_window := take (tx_headBytes c) window @ tail\<rparr>)"

text \<open>The \<^verbatim>\<open>Prefix\<close> branch of \<^verbatim>\<open>acceptLogical\<close>.\<close>

definition append_prefix :: "string \<Rightarrow> collector \<Rightarrow> collector" where
  "append_prefix logical c =
     (let need = tx_bodyBudget c - int (length (tx_window c)) in
      if need \<le> 0 then c\<lparr>tx_omitted := True\<rparr>
      else if int (length logical) > need
        then c\<lparr>tx_window := tx_window c @ take (cut_before logical (nat need)) logical, tx_omitted := True\<rparr>
      else c\<lparr>tx_window := tx_window c @ logical\<rparr>)"

definition acceptLogical :: "string \<Rightarrow> collector \<Rightarrow> tools_error option \<times> collector" where
  "acceptLogical logical c =
     (if logical = [] then (None, c)
      else case add64 (tx_total c) (int (length logical)) of
        None \<Rightarrow> (Some ErrOutputLimit, c)
      | Some next \<Rightarrow>
          (case writeLogical logical (tx_hasher c) of
             None \<Rightarrow> (Some ErrOutputLimit, c)
           | Some h \<Rightarrow>
               let c' = c\<lparr>tx_hasher := h, tx_total := next\<rparr> in
               (None, if tx_mode c = Prefix then append_prefix logical c'
                 else if tx_mode c = HeadTail then appendHeadTail logical c' else c')))"

section \<open>Writing\<close>

function consumeRaw :: "string \<Rightarrow> bool \<Rightarrow> collector \<Rightarrow> tools_error option \<times> collector" where
  "consumeRaw p final c =
     (if p = [] then
        (if final \<and> tx_pending c \<noteq> [] then acceptLogical (escapeBytes (tx_pending c)) (c\<lparr>tx_pending := []\<rparr>) else (None, c))
      else
        let n = min (length p) collectorChunk; chunk = take n p in
        if tx_pending c = [] \<and> utf8_valid chunk then
          (case acceptLogical chunk c of
             (Some e, c') \<Rightarrow> (Some e, c')
           | (None, c') \<Rightarrow> consumeRaw (drop n p) final c')
        else
          (case escapeValidPrefix (tx_pending c @ chunk) (final \<and> n = length p) of (logical, rest) \<Rightarrow>
            (case acceptLogical logical (c\<lparr>tx_pending := rest\<rparr>) of
               (Some e, c') \<Rightarrow> (Some e, c')
             | (None, c') \<Rightarrow> consumeRaw (drop n p) final c')))"
  by pat_completeness auto
termination
  by (relation "measure (\<lambda>(p, final, c). length p)") (auto simp: collectorChunk_def)

declare consumeRaw.simps [simp del]

definition collector_Write :: "string \<Rightarrow> collector \<Rightarrow> (tools_error + nat) \<times> collector" where
  "collector_Write p c =
     (if tx_state c \<noteq> CollectorWriting then (Inl (execution ''collector is no longer writable''), c)
      else if tx_recordMode c then (Inl (execution ''record collector cannot be written directly''), c)
      else case consumeRaw p False c of
        (Some e, c') \<Rightarrow> (Inl e, c')
      | (None, c') \<Rightarrow> (Inr (length p), c'))"

definition PreparePrefix :: "collector \<Rightarrow> (tools_error + prefix_state) \<times> collector" where
  "PreparePrefix c =
     (if tx_mode c \<noteq> Prefix then (Inl (execution ''PreparePrefix is only valid for Prefix collectors''), c)
      else if tx_state c \<noteq> CollectorWriting then (Inl (execution ''PreparePrefix called out of order''), c)
      else case consumeRaw [] True c of
        (Some e, c') \<Rightarrow> (Inl e, c')
      | (None, c') \<Rightarrow> (Inr \<lparr>ps_KeptLogicalBytes = int (length (tx_window c')),
          ps_Truncated = (tx_omitted c' \<or> tx_total c' > int (length (tx_window c')))\<rparr>, c'\<lparr>tx_state := CollectorPrepared\<rparr>))"

section \<open>Output\<close>

definition maxCollectorMetaDepth :: int where "maxCollectorMetaDepth = 64"
definition maxCollectorMetaNodes :: int where "maxCollectorMetaNodes = 512"

definition metadata_limits :: limits where
  "metadata_limits = \<lparr>MaxDepth = maxCollectorMetaDepth, MaxNodes = maxCollectorMetaNodes, MaxNumberBytes = 128,
     MaxExponent = 1000, MaxScale = 1024\<rparr>"

definition parseCollectorMetadata :: "string \<Rightarrow> tools_error + string" where
  "parseCollectorMetadata raw =
     (let raw = (if raw = [] then ''{}'' else raw) in
      if int (length raw) > maxCollectorMetaBytes then Inl ErrOutputLimit
      else case ParseObject raw metadata_limits of
        Inl e \<Rightarrow> Inl (execution ''collector metadata'')
      | Inr v \<Rightarrow>
          (case CanonicalValue v of
             Inl e \<Rightarrow> Inl (execution ''collector metadata'')
           | Inr canonical \<Rightarrow> if int (length canonical) > maxCollectorMetaBytes then Inl ErrOutputLimit else Inr canonical))"

definition renderMetadataTrailer :: "string \<Rightarrow> string" where
  "renderMetadataTrailer canonical = metadataBegin @ canonical @ metadataEnd (length canonical)"

definition overLimit :: "string \<Rightarrow> output_limits \<Rightarrow> bool" where
  "overLimit logical L =
     (if int (length logical) > ol_MaxTextBytes L then True
      else case singleTextFrameSize (int (length logical)) of
        None \<Rightarrow> True | Some framed \<Rightarrow> framed > ol_MaxFramedBytes L)"

definition budgetCollectorOutput :: tool_output where
  "budgetCollectorOutput = error_output budgetErrorText"

definition render_with_kept :: "string \<Rightarrow> nat \<Rightarrow> string \<Rightarrow> nat \<Rightarrow> int \<times> string \<Rightarrow> int \<Rightarrow> string" where
  "render_with_kept body head trailer mode original kept =
     (let marker = formatMarker kept (fst original) (snd original) in
      if mode = Prefix then body @ marker @ trailer
      else
        let head = (if head > length body then length body div 2 else head) in
        take head body @ marker @ drop head body @ trailer)"

definition retainedBody :: "collector \<Rightarrow> string \<times> nat" where
  "retainedBody c =
     (if \<not> tx_recordMode c then (tx_window c, tx_headBytes c)
      else if \<not> tx_omitted c then (concat (tx_recordFull c), length (concat (tx_recordFull c)))
      else (concat (tx_recordHead c @ tx_recordTail c), length (concat (tx_recordHead c))))"

definition collector_block :: "string \<Rightarrow> content_block" where
  "collector_block s = \<lparr>cb_kind = ContentText, cb_text = s, cb_mime = [], cb_detail = [], cb_data = [], cb_imageOK = False\<rparr>"

text \<open>The end of \<^verbatim>\<open>Output\<close>: from the canonical metadata on. Its errors that are values are the first component.\<close>

definition collect_output :: "(string \<Rightarrow> string) \<Rightarrow> collector \<Rightarrow> string \<Rightarrow> bool \<Rightarrow> (tools_error + tool_output) \<times> collector" where
  "collect_output sha c canonical isError =
     (let trailer = renderMetadataTrailer canonical in
      if length trailer > trailer_reserve then (Inr budgetCollectorOutput, c)
      else case writeLogical trailer (tx_hasher c) of
        None \<Rightarrow> (Inr budgetCollectorOutput, c)
      | Some h \<Rightarrow>
          (case finish_hash sha h of
             (None, h') \<Rightarrow> (Inr budgetCollectorOutput, c\<lparr>tx_hasher := h'\<rparr>)
           | (Some original, h') \<Rightarrow>
               let c' = c\<lparr>tx_hasher := h'\<rparr>;
                   (body, head) = retainedBody c';
                   truncated = (tx_total c' \<noteq> int (length body) \<or> tx_omitted c');
                   logical = (if truncated then render_with_kept body head trailer (tx_mode c') original 0 else body @ trailer)
               in if overLimit logical (tx_limits c') then (Inr budgetCollectorOutput, c')
                  else
                    (rbind (digestBlocks sha [collector_block logical]) (\<lambda>(keptBytes, retained).
                     rbind (if truncated then
                         (let final = render_with_kept body head trailer (tx_mode c') original keptBytes in
                          case digestBlocks sha [collector_block final] of
                            Inl e \<Rightarrow> Inl (execution ''collector truncation frame invariant failed'')
                          | Inr (actual, digest) \<Rightarrow>
                              if actual \<noteq> keptBytes then Inl (execution ''collector truncation frame invariant failed'')
                              else Inr (final, digest))
                       else Inr (logical, retained)) (\<lambda>(final, digest).
                     Inr \<lparr>out_Content = [Text final], out_IsError = isError, out_Stats = zero_stats,
                       out_receipt = Some \<lparr>rc_limits = tx_limits c', rc_originalBytes = fst original, rc_originalSHA = snd original,
                         rc_keptBytes = keptBytes, rc_truncated = truncated, rc_isError = isError, rc_retained = digest,
                         rc_sources = [], rc_metadata = canonical\<rparr>,
                       out_seal = None\<rparr>)), c')))"

definition collector_Output :: "(string \<Rightarrow> string) \<Rightarrow> string \<Rightarrow> bool \<Rightarrow> collector \<Rightarrow> (tools_error + tool_output) \<times> collector" where
  "collector_Output sha metadata isError c =
     (if tx_state c = CollectorFinished then (Inl (execution ''collector already finished''), c)
      else if tx_mode c = Prefix \<and> tx_state c \<noteq> CollectorPrepared
        then (Inl (execution ''Prefix collector must be prepared before Output''), c)
      else if tx_mode c = HeadTail \<and> tx_state c \<noteq> CollectorWriting
        then (Inl (execution ''collector Output called out of order''), c)
      else case (if tx_mode c = HeadTail then consumeRaw [] True c else (None, c)) of
        (Some e, c') \<Rightarrow> (Inl e, c')
      | (None, c') \<Rightarrow>
          let c2 = c'\<lparr>tx_state := CollectorFinished\<rparr> in
          (case parseCollectorMetadata metadata of
             Inl ErrOutputLimit \<Rightarrow> (Inr budgetCollectorOutput, c2)
           | Inl e \<Rightarrow> (Inl e, c2)
           | Inr canonical \<Rightarrow> collect_output sha c2 canonical isError))"

end
