(* ===== verification/Collector_Group.thy ===== *)
theory Collector_Group
  imports Collector
begin

text \<open>
  Several named sources in one collector: \<^verbatim>\<open>TextCollectorGroup\<close> in \<^verbatim>\<open>src/core/tools/collector.go\<close>. Each source is cut
  into records of at most \<^verbatim>\<open>frameChunk\<close> bytes, which the collector keeps whole.
\<close>

section \<open>Records\<close>

text \<open>The loop over the records of \<^verbatim>\<open>partitionRecords\<close> that fills the head.\<close>

fun head_records :: "int \<Rightarrow> int \<Rightarrow> string list \<Rightarrow> string list" where
  "head_records budget used [] = []"
| "head_records budget used (r # rs) =
     (if used + int (length r) > budget then [] else r # head_records budget (used + int (length r)) rs)"

text \<open>The loop that fills the tail from the end; the list is given backwards.\<close>

fun tail_records :: "int \<Rightarrow> int \<Rightarrow> string list \<Rightarrow> string list \<Rightarrow> string list" where
  "tail_records budget used tail [] = tail"
| "tail_records budget used tail (r # rs) =
     (if used + int (length r) > budget then tail_records budget used tail rs
      else tail_records budget (used + int (length r)) (r # tail) rs)"

definition partitionRecords :: "collector \<Rightarrow> collector" where
  "partitionRecords c =
     (let headBudget = tx_bodyBudget c div 2; tailBudget = tx_bodyBudget c - headBudget;
          head = tx_recordHead c @ head_records headBudget 0 (tx_recordFull c)
      in c\<lparr>tx_recordHead := head,
        tx_recordTail := tail_records tailBudget 0 (tx_recordTail c) (rev (drop (length head) (tx_recordFull c))),
        tx_recordFull := [], tx_omitted := True\<rparr>)"

fun drop_records :: "int \<Rightarrow> int \<Rightarrow> string list \<Rightarrow> string list" where
  "drop_records budget total_bytes [] = []"
| "drop_records budget total_bytes (r # rs) =
     (if total_bytes > budget then drop_records budget (total_bytes - int (length r)) rs else r # rs)"

definition trimRecordTail :: "collector \<Rightarrow> collector" where
  "trimRecordTail c =
     (let budget = tx_bodyBudget c - tx_bodyBudget c div 2 in
      c\<lparr>tx_recordTail := drop_records budget (int (length (concat (tx_recordTail c)))) (tx_recordTail c)\<rparr>)"

definition acceptRecord :: "string \<Rightarrow> collector \<Rightarrow> tools_error option \<times> collector" where
  "acceptRecord record c =
     (if \<not> utf8_valid record then (Some (execution ''collector source record is not valid UTF-8''), c)
      else case add64 (tx_total c) (int (length record)) of
        None \<Rightarrow> (Some ErrOutputLimit, c)
      | Some next \<Rightarrow>
          (case writeLogical record (tx_hasher c) of
             None \<Rightarrow> (Some ErrOutputLimit, c)
           | Some h \<Rightarrow>
               let c' = c\<lparr>tx_hasher := h, tx_total := next, tx_recordN := tx_recordN c + int (length record)\<rparr> in
               (None,
                 if \<not> tx_omitted c' then
                   (let c2 = c'\<lparr>tx_recordFull := tx_recordFull c' @ [record]\<rparr> in
                    if tx_recordN c2 \<le> tx_bodyBudget c2 then c2 else partitionRecords c2)
                 else trimRecordTail (c'\<lparr>tx_recordTail := tx_recordTail c' @ [record]\<rparr>))))"

definition formatSourceRecord :: "string \<Rightarrow> string \<Rightarrow> string" where
  "formatSourceRecord name payload =
     ''@serpe-source:v1 name='' @ name @ '' bytes='' @ hex8 (length payload) @ [CHR 0x0A] @ payload"

section \<open>The group\<close>

record source_state =
  src_pending :: string
  src_record :: string

record collector_group =
  gr_closed :: bool
  gr_names :: "string list"
  gr_sources :: "(string, source_state) gmap"
  gr_col :: collector

definition source_start :: "char \<Rightarrow> bool" where
  "source_start c \<longleftrightarrow> c = CHR ''_'' \<or> in_range 65 90 c \<or> in_range 97 122 c"

definition validSourceName :: "string \<Rightarrow> bool" where
  "validSourceName name \<longleftrightarrow> name \<noteq> [] \<and> length name \<le> 32 \<and> source_start (hd name)
     \<and> list_all (\<lambda>c. source_start c \<or> in_range 48 57 c) (tl name)"

text \<open>The checks of the names, in their order.\<close>

fun check_names :: "string list \<Rightarrow> string list \<Rightarrow> tools_error + unit" where
  "check_names seen [] = Inr ()"
| "check_names seen (n # ns) =
     (if \<not> validSourceName n then Inl (execution (''invalid collector source name '' @ n))
      else if n \<in> set seen then Inl (execution (''duplicate collector source name '' @ n))
      else check_names (n # seen) ns)"

definition NewTextCollectorGroup :: "(string \<Rightarrow> string) \<Rightarrow> output_limits \<Rightarrow> nat \<Rightarrow> string list \<Rightarrow> tools_error + collector_group" where
  "NewTextCollectorGroup sha L mode names =
     (if mode \<noteq> HeadTail then Inl (execution ''collector groups only support HeadTail mode'')
      else if length names < 1 \<or> length names > 16 then Inl (execution ''collector group must have 1-16 sources'')
      else rbind (check_names [] names) (\<lambda>_.
        rbind (NewTextCollector sha L HeadTail) (\<lambda>col.
        Inr \<lparr>gr_closed = False, gr_names = names,
          gr_sources = foldl (\<lambda>m n. gput n \<lparr>src_pending = [], src_record = []\<rparr> m) [] names,
          gr_col = col\<lparr>tx_recordMode := True\<rparr>\<rparr>)))"

definition flushRecord :: "string \<Rightarrow> string \<Rightarrow> collector \<Rightarrow> tools_error option \<times> collector" where
  "flushRecord name payload c = acceptRecord (formatSourceRecord name payload) c"

text \<open>One unit of text is added to the record of its source; a record that would grow beyond the frame chunk, or that
  fills it, goes to the collector.\<close>

definition add_unit :: "string \<Rightarrow> string \<Rightarrow> source_state \<times> collector \<Rightarrow> tools_error option \<times> source_state \<times> collector" where
  "add_unit name u st = (case st of (s, c) \<Rightarrow>
     case (if length (src_record s) + length u > nat frameChunk
           then (case flushRecord name (src_record s) c of (Some e, c') \<Rightarrow> (Some e, s, c') | (None, c') \<Rightarrow> (None, s\<lparr>src_record := []\<rparr>, c'))
           else (None, s, c)) of
       (Some e, s1, c1) \<Rightarrow> (Some e, s1, c1)
     | (None, s1, c1) \<Rightarrow>
         let s2 = s1\<lparr>src_record := src_record s1 @ u\<rparr> in
         if length (src_record s2) = nat frameChunk
         then (case flushRecord name (src_record s2) c1 of (Some e, c') \<Rightarrow> (Some e, s2, c') | (None, c') \<Rightarrow> (None, s2\<lparr>src_record := []\<rparr>, c'))
         else (None, s2, c1))"

function consumeSourceChunk :: "string \<Rightarrow> string \<Rightarrow> bool \<Rightarrow> source_state \<times> collector \<Rightarrow> tools_error option \<times> source_state \<times> collector" where
  "consumeSourceChunk name buf final st = (case buf of
     [] \<Rightarrow> (None, st)
   | a # r \<Rightarrow>
       if \<not> byte a < 0x80 \<and> \<not> full_rune buf \<and> \<not> final
       then (None, case st of (s, c) \<Rightarrow> (s\<lparr>src_pending := src_pending s @ buf\<rparr>, c))
       else
         let d = decode_rune buf;
             (u, rest) = (if byte a < 0x80 then ([a], r)
               else if d = (RuneError, 1) then (appendEscapedByte a, r)
               else (take (snd d) buf, drop (snd d) buf))
         in case add_unit name u st of
              (Some e, st') \<Rightarrow> (Some e, st')
            | (None, st') \<Rightarrow> consumeSourceChunk name rest final st')"
  by pat_completeness auto
termination
proof (relation "measure (length \<circ> fst \<circ> snd)", goal_cases)
  case (2 name buf final st a r d x u rest y z)
  then show ?case using decode_rune_width_pos [of buf] by (auto split: if_splits)
qed auto

declare consumeSourceChunk.simps [simp del]

function consume_pieces :: "string \<Rightarrow> string \<Rightarrow> source_state \<times> collector \<Rightarrow> tools_error option \<times> source_state \<times> collector" where
  "consume_pieces name p st =
     (if p = [] then (None, st)
      else
        let n = min (length p) collectorChunk; (s, c) = st in
        case consumeSourceChunk name (src_pending s @ take n p) False (s\<lparr>src_pending := []\<rparr>, c) of
          (Some e, st') \<Rightarrow> (Some e, st')
        | (None, st') \<Rightarrow> consume_pieces name (drop n p) st')"
  by pat_completeness auto
termination
  by (relation "measure (\<lambda>(name, p, st). length p)") (auto simp: collectorChunk_def)

declare consume_pieces.simps [simp del]

definition finish_source :: "string \<Rightarrow> source_state \<times> collector \<Rightarrow> tools_error option \<times> source_state \<times> collector" where
  "finish_source name st = (case st of (s, c) \<Rightarrow>
     case consumeSourceChunk name (src_pending s) True (s, c) of
       (Some e, st') \<Rightarrow> (Some e, st')
     | (None, s1, c1) \<Rightarrow>
         let s2 = s1\<lparr>src_pending := []\<rparr> in
         if src_record s2 \<noteq> []
         then (case flushRecord name (src_record s2) c1 of (Some e, c') \<Rightarrow> (Some e, s2, c') | (None, c') \<Rightarrow> (None, s2\<lparr>src_record := []\<rparr>, c'))
         else (None, s2, c1))"

definition consumeSource :: "string \<Rightarrow> string \<Rightarrow> bool \<Rightarrow> source_state \<times> collector \<Rightarrow> tools_error option \<times> source_state \<times> collector" where
  "consumeSource name p final st =
     (case consume_pieces name p st of
        (Some e, st') \<Rightarrow> (Some e, st')
      | (None, st') \<Rightarrow> if final then finish_source name st' else (None, st'))"

definition with_source :: "string \<Rightarrow> string \<Rightarrow> bool \<Rightarrow> source_state \<Rightarrow> collector_group \<Rightarrow> tools_error option \<times> collector_group" where
  "with_source name p final s g = (case consumeSource name p final (s, gr_col g) of
     (e, s', c') \<Rightarrow> (e, g\<lparr>gr_sources := gput name s' (gr_sources g), gr_col := c'\<rparr>))"

definition WriteSource :: "string \<Rightarrow> string \<Rightarrow> collector_group \<Rightarrow> tools_error option \<times> collector_group" where
  "WriteSource name p g =
     (if gr_closed g then (Some (execution ''collector group already finished''), g)
      else case map_of (gr_sources g) name of
        None \<Rightarrow> (Some (execution (''unknown collector source '' @ name)), g)
      | Some s \<Rightarrow> with_source name p False s g)"

fun finish_sources :: "string list \<Rightarrow> collector_group \<Rightarrow> tools_error option \<times> collector_group" where
  "finish_sources [] g = (None, g)"
| "finish_sources (n # ns) g = (case map_of (gr_sources g) n of
     None \<Rightarrow> finish_sources ns g
   | Some s \<Rightarrow> (case with_source n [] True s g of (Some e, g') \<Rightarrow> (Some e, g') | (None, g') \<Rightarrow> finish_sources ns g'))"

definition group_Output :: "(string \<Rightarrow> string) \<Rightarrow> string \<Rightarrow> bool \<Rightarrow> collector_group \<Rightarrow> (tools_error + tool_output) \<times> collector_group" where
  "group_Output sha metadata isError g =
     (if gr_closed g then (Inl (execution ''collector group already finished''), g)
      else case finish_sources (gr_names g) (g\<lparr>gr_closed := True\<rparr>) of
        (Some e, g') \<Rightarrow> (Inl e, g')
      | (None, g') \<Rightarrow> (case collector_Output sha metadata isError (gr_col g') of (r, c') \<Rightarrow> (r, g'\<lparr>gr_col := c'\<rparr>)))"

end
