(* ===== verification/Collector_Text.thy ===== *)
theory Collector_Text
  imports Collector_Group Output_Props
begin

text \<open>
  The text of a collector, whatever pieces it comes in: the streaming hash is the digest of the framed text, and escaping a
  stream piece by piece gives the same text as escaping it at once.
\<close>

section \<open>The streaming hash\<close>

abbreviation "chunk_len \<equiv> nat frameChunk"

lemma chunk_len_pos: "0 < chunk_len" by (simp add: frameChunk_def)

text \<open>The hasher has taken the text \<open>t\<close>.\<close>

definition hashed :: "stream_hasher \<Rightarrow> string \<Rightarrow> bool" where
  "hashed s t \<longleftrightarrow> \<not> sh_done s \<and> sh_total s = int (length t) \<and> int (length t) \<le> max_int64 \<and> length (sh_pending s) < chunk_len
     \<and> (\<exists>cs. list_all (\<lambda>c. length c = chunk_len) cs \<and> t = concat cs @ sh_pending s
          \<and> sh_h s = sh_h newStreamHasher @ concat (map writeBytes cs))"

lemma hashed_new: "hashed newStreamHasher []"
  by (simp add: hashed_def newStreamHasher_def frameChunk_def max_int64_def exI [of _ "[]"])

definition hashing :: "stream_hasher \<Rightarrow> string \<Rightarrow> bool" where
  "hashing s t \<longleftrightarrow> length (sh_pending s) < chunk_len
     \<and> (\<exists>cs. list_all (\<lambda>c. length c = chunk_len) cs \<and> t = concat cs @ sh_pending s
          \<and> sh_h s = sh_h newStreamHasher @ concat (map writeBytes cs))"

lemma hashed_iff: "hashed s t \<longleftrightarrow> \<not> sh_done s \<and> sh_total s = int (length t) \<and> int (length t) \<le> max_int64 \<and> hashing s t"
  by (auto simp: hashed_def hashing_def)

lemma hashing_emit:
  assumes "hashing s t" "length (sh_pending s @ c) = chunk_len"
  shows "hashing ((emit (sh_pending s @ c) s)\<lparr>sh_pending := []\<rparr>) (t @ c)"
proof -
  from assms(1) obtain cs where cs: "list_all (\<lambda>c. length c = chunk_len) cs" "t = concat cs @ sh_pending s"
    "sh_h s = sh_h newStreamHasher @ concat (map writeBytes cs)" by (auto simp: hashing_def)
  show ?thesis
    unfolding hashing_def
    by (intro conjI exI [of _ "cs @ [sh_pending s @ c]"]) (use cs assms(2) in \<open>auto simp: emit_def writeBytes_def frameChunk_def\<close>)
qed

lemma write_chunks_hashing:
  "hashing s t \<Longrightarrow> hashing (write_chunks p s) (t @ p) \<and> sh_total (write_chunks p s) = sh_total s \<and> sh_done (write_chunks p s) = sh_done s"
proof (induction p s arbitrary: t rule: write_chunks.induct)
  case (1 p s)
  have len: "length (sh_pending s) < chunk_len" using "1.prems" by (simp add: hashing_def)
  consider "p = []" | "p \<noteq> []" "sh_pending s = []" "length p \<ge> chunk_len" | "p \<noteq> []" "\<not> (sh_pending s = [] \<and> length p \<ge> chunk_len)"
    by blast
  then show ?case
  proof cases
    case 1
    then show ?thesis using \<open>hashing s t\<close> by (simp add: write_chunks.simps)
  next
    case 2
    let ?s = "emit (take chunk_len p) s"
    have "(emit (sh_pending s @ take chunk_len p) s)\<lparr>sh_pending := []\<rparr> = ?s" using 2 by (simp add: emit_def)
    then have "hashing ?s (t @ take chunk_len p)"
      using hashing_emit [OF "1.prems", of "take chunk_len p"] 2 by simp
    from "1.IH"(1) [OF _ _ this] 2 len have "hashing (write_chunks (drop chunk_len p) ?s) ((t @ take chunk_len p) @ drop chunk_len p)
        \<and> sh_total (write_chunks (drop chunk_len p) ?s) = sh_total s \<and> sh_done (write_chunks (drop chunk_len p) ?s) = sh_done s"
      by (simp add: emit_def)
    then show ?thesis using 2 len by (subst (1 2 3) write_chunks.simps) simp
  next
    case 3
    define need where "need = min (chunk_len - length (sh_pending s)) (length p)"
    let ?s = "s\<lparr>sh_pending := sh_pending s @ take need p\<rparr>"
    let ?r = "if length (sh_pending ?s) = chunk_len then (emit (sh_pending ?s) ?s)\<lparr>sh_pending := []\<rparr> else ?s"
    have n: "need \<le> length p" "0 < need" using len 3 by (simp_all add: need_def)
    have r: "hashing ?r (t @ take need p)"
    proof (cases "length (sh_pending ?s) = chunk_len")
      case True
      have "(emit (sh_pending ?s) ?s)\<lparr>sh_pending := []\<rparr> = (emit (sh_pending s @ take need p) s)\<lparr>sh_pending := []\<rparr>"
        by (simp add: emit_def)
      with hashing_emit [OF "1.prems", of "take need p"] True show ?thesis by simp
    next
      case False
      then have "length (sh_pending s) + need < chunk_len" using n len by (auto simp: need_def)
      with "1.prems" n False show ?thesis by (auto simp: hashing_def)
    qed
    have keep: "sh_total ?r = sh_total s" "sh_done ?r = sh_done s" by (simp_all add: emit_def)
    have c: "\<not> (p = [] \<or> chunk_len \<le> length (sh_pending s))" "\<not> (sh_pending s = [] \<and> chunk_len \<le> length p)"
      using 3 len by simp_all
    have "hashing (write_chunks (drop need p) ?r) ((t @ take need p) @ drop need p)
        \<and> sh_total (write_chunks (drop need p) ?r) = sh_total ?r \<and> sh_done (write_chunks (drop need p) ?r) = sh_done ?r"
      by (rule "1.IH"(2) [OF c need_def refl r])
    moreover have "write_chunks p s = write_chunks (drop need p) ?r"
      by (subst write_chunks.simps) (simp only: c if_False Let_def need_def)
    ultimately show ?thesis using keep by (simp only: append.assoc append_take_drop_id)
  qed
qed

lemma writeLogical_hashed:
  assumes "hashed s t"
  shows "writeLogical p s = (if int (length (t @ p)) \<le> max_int64 then Some (write_chunks p (s\<lparr>sh_total := int (length (t @ p))\<rparr>)) else None)"
    "int (length (t @ p)) \<le> max_int64 \<Longrightarrow> hashed (write_chunks p (s\<lparr>sh_total := int (length (t @ p))\<rparr>)) (t @ p)"
proof -
  have h: "\<not> sh_done s" "sh_total s = int (length t)" "hashing s t" using assms by (simp_all add: hashed_iff)
  have m: "int (length t) \<le> max_int64" using assms by (simp add: hashed_iff)
  show "writeLogical p s = (if int (length (t @ p)) \<le> max_int64 then Some (write_chunks p (s\<lparr>sh_total := int (length (t @ p))\<rparr>)) else None)"
    using h m by (simp add: writeLogical_def add64_nonneg)
  have "hashing (s\<lparr>sh_total := int (length (t @ p))\<rparr>) t" using h(3) by (simp add: hashing_def)
  then show "int (length (t @ p)) \<le> max_int64 \<Longrightarrow> hashed (write_chunks p (s\<lparr>sh_total := int (length (t @ p))\<rparr>)) (t @ p)"
    using write_chunks_hashing h(1) by (simp add: hashed_iff)
qed

lemma chunks_full: "list_all (\<lambda>c. length c = chunk_len) cs \<Longrightarrow> length r < chunk_len \<Longrightarrow>
    chunks (concat cs @ r) = cs @ (if r = [] then [] else [r])"
proof (induction cs)
  case Nil
  then show ?case by (simp add: chunks.simps [of r] chunks.simps [of "[]"])
next
  case (Cons c cs)
  then have "c @ concat cs @ r \<noteq> []" using chunk_len_pos by auto
  with Cons show ?case by (subst chunks.simps) simp
qed

lemma frame_collector_block:
  "frame_of [collector_block t] = sh_h newStreamHasher @ concat (map writeBytes (chunks t)) @ be64 0 @ be64 (length t) @ writeBytes blockBoundary"
  by (simp add: frame_of_def block_frame_def collector_block_def block_payload_def newStreamHasher_def)

lemma single_text_size:
  "singleTextFrameSize (int (length t)) = (if int (length (frame_of [collector_block t])) \<le> max_int64 then Some (int (length (frame_of [collector_block t]))) else None)"
proof -
  have "singleTextFrameSize (int (length t)) = blocksFrameSize [collector_block t]"
    by (simp add: singleTextFrameSize_def blocksFrameSize_def frame_header_def collector_block_def block_payload_def split: option.split bind_split)
  then show ?thesis by (simp add: blocksFrameSize_eq length_frame_of)
qed

lemma finish_hashed:
  assumes "hashed s t"
  shows "fst (finish_hash sha s) = (case digestBlocks sha [collector_block t] of Inl e \<Rightarrow> None | Inr x \<Rightarrow> Some x)"
proof -
  obtain cs where cs: "list_all (\<lambda>c. length c = chunk_len) cs" "t = concat cs @ sh_pending s" "length (sh_pending s) < chunk_len"
    "sh_h s = sh_h newStreamHasher @ concat (map writeBytes cs)" "\<not> sh_done s" "sh_total s = int (length t)"
    using assms by (auto simp: hashed_def)
  have c: "concat (map writeBytes (chunks t)) = concat (map writeBytes cs) @ (if sh_pending s = [] then [] else writeBytes (sh_pending s))"
    unfolding cs(2) chunks_full [OF cs(1,3)] by simp
  show ?thesis
    using cs(4-6) by (simp add: finish_hash_def digestBlocks_eq frame_collector_block c single_text_size emit_def writeBytes_def Let_def)
qed

section \<open>Escaping\<close>

definition escape_text :: "string \<Rightarrow> string" where
  "escape_text raw = fst (escapeValidPrefix raw True)"

lemma full_rune_extend:
  assumes "full_rune s"
  shows "full_rune (s @ t)" "decode_rune (s @ t) = decode_rune s"
proof -
  from assms obtain a r where s: "s = a # r" by (cases s) (auto simp: full_rune_def)
  let ?n = "seq_len (byte a)"
  have n: "?n = 0 \<or> 2 \<le> ?n" using seq_len_cases [of "byte a"] by auto
  consider "?n = 0" | "2 \<le> ?n" "?n \<le> length s" | "2 \<le> ?n" "\<not> ?n \<le> length s" "r \<noteq> []" "\<not> in_range (second_lo (byte a)) (second_hi (byte a)) (hd r)"
    | "2 \<le> ?n" "\<not> ?n \<le> length s" "1 < length r" "\<not> cont (r ! 1)"
    using assms n by (auto simp: s full_rune_def Let_def)
  then have "full_rune (s @ t) \<and> decode_rune (s @ t) = decode_rune s"
  proof cases
    case 1
    have "\<not> tail_ok (byte a) cs" for cs using tail_ok_len [of "byte a" cs] 1 by auto
    then show ?thesis using 1 by (simp add: s full_rune_def Let_def)
  next
    case 2
    then show ?thesis by (simp add: s full_rune_def Let_def)
  next
    case 3
    have h: "hd (r @ t) = hd r" "hd (take (?n - 1) (r @ t)) = hd r" "hd (take (?n - 1) r) = hd r"
      using 3 by (cases r; simp)+
    then have "\<not> tail_ok (byte a) (take (?n - 1) (r @ t))" "\<not> tail_ok (byte a) (take (?n - 1) r)"
      using 3(4) by (auto simp: tail_ok_def)
    then show ?thesis using 3 h by (simp add: s full_rune_def Let_def)
  next
    case 4
    then obtain x y q where r: "r = x # y # q" by (cases r; cases "tl r") auto
    have y: "\<not> list_all cont (tl (take k (x # y # q')))" if "2 \<le> k" for k q'
      using that 4(4) by (cases k; cases "k - 1") (simp_all add: r)
    have k: "2 \<le> ?n - 1" using 4(2) by (simp add: s r)
    have "\<not> tail_ok (byte a) (take (?n - 1) (r @ t))" "\<not> tail_ok (byte a) (take (?n - 1) r)"
      using y [OF k] unfolding r tail_ok_def append_Cons by blast+
    then show ?thesis using 4 by (simp add: s full_rune_def Let_def r)
  qed
  then show "full_rune (s @ t)" "decode_rune (s @ t) = decode_rune s" by simp_all
qed

lemma rune_ok_full: "rune_ok s \<Longrightarrow> s \<noteq> [] \<Longrightarrow> full_rune s"
proof -
  assume ok: "rune_ok s" "s \<noteq> []"
  then obtain a r where s: "s = a # r" by (cases s) auto
  show "full_rune s"
  proof (cases "seq_len (byte a) = 0")
    case False
    then have "\<not> byte a < 0x80" by (auto simp: seq_len_def split: if_splits)
    then have "tail_ok (byte a) (take (seq_len (byte a) - 1) r)" using ok by (simp add: s rune_ok_Cons)
    from tail_ok_take [OF this] False show ?thesis by (auto simp: full_rune_def s)
  qed (simp add: full_rune_def s)
qed

lemma evp_Nil [simp]: "escapeValidPrefix [] f = ([], [])"
  by (simp add: escapeValidPrefix.simps)

lemma evp_step:
  "s \<noteq> [] \<Longrightarrow> escapeValidPrefix s f =
     (if byte (hd s) < 0x80 then (hd s # fst (escapeValidPrefix (tl s) f), snd (escapeValidPrefix (tl s) f))
      else if \<not> full_rune s \<and> \<not> f then ([], s)
      else if decode_rune s = (RuneError, 1)
        then (appendEscapedByte (hd s) @ fst (escapeValidPrefix (tl s) f), snd (escapeValidPrefix (tl s) f))
      else (take (snd (decode_rune s)) s @ fst (escapeValidPrefix (drop (snd (decode_rune s)) s) f),
        snd (escapeValidPrefix (drop (snd (decode_rune s)) s) f)))"
proof (cases s)
  case (Cons a q)
  show ?thesis
    unfolding escapeValidPrefix.simps [of s f] Let_def
    by (simp add: Cons case_prod_beta del: decode_rune.simps)
qed simp

lemma decode_width: "s \<noteq> [] \<Longrightarrow> 0 < snd (decode_rune s) \<and> snd (decode_rune s) \<le> length s"
  by (simp add: decode_rune_width_pos decode_rune_width_le)

lemma evp_induct [case_names Nil Step]:
  assumes "P []" "\<And>s. s \<noteq> [] \<Longrightarrow> P (tl s) \<Longrightarrow> P (drop (snd (decode_rune s)) s) \<Longrightarrow> P s"
  shows "P s"
proof (induction "length s" arbitrary: s rule: less_induct)
  case less
  show ?case
  proof (cases "s = []")
    case False
    then show ?thesis using assms(2) [OF False less [of "tl s"] less] decode_width [OF False] by simp
  qed (simp add: assms(1))
qed

text \<open>The bytes left over, at the front of what comes next, give what the whole would have given.\<close>

lemma evp_append:
  "escapeValidPrefix (s @ t) f = (fst (escapeValidPrefix s False) @ fst (escapeValidPrefix (snd (escapeValidPrefix s False) @ t) f),
     snd (escapeValidPrefix (snd (escapeValidPrefix s False) @ t) f))"
proof (induction s rule: evp_induct)
  case (Step s)
  note g = evp_step [of "s @ t" f] evp_step [OF Step.hyps(1), of False]
  have h: "hd (s @ t) = hd s" "tl (s @ t) = tl s @ t" using Step(1) by simp_all
  note w = decode_width [OF Step(1)]
  consider "byte (hd s) < 0x80" | "\<not> byte (hd s) < 0x80" "\<not> full_rune s" | "\<not> byte (hd s) < 0x80" "full_rune s" by blast
  then show ?case
  proof cases
    case 1
    then show ?thesis using Step g h by simp
  next
    case 2
    then show ?thesis using g(2) by simp
  next
    case 3
    note x = full_rune_extend [OF 3(2), of t]
    show ?thesis using 3 Step g h x w by (cases "decode_rune s = (RuneError, 1)") simp_all
  qed
qed simp

lemma evp_valid: "utf8_valid s \<Longrightarrow> escapeValidPrefix s f = (s, [])"
proof (induction s rule: evp_induct)
  case (Step s)
  have v: "rune_ok s" "utf8_valid (drop (snd (decode_rune s)) s)" using Step by (simp_all add: utf8_valid_step)
  then have d: "decode_rune s \<noteq> (RuneError, 1)" "full_rune s" using rune_ok_full [of s] Step(1) by (simp_all add: rune_ok_def)
  show ?case
  proof (cases "byte (hd s) < 0x80")
    case True
    then have "utf8_valid (tl s)" using Step by (cases s) auto
    then show ?thesis using True Step by (simp add: evp_step)
  next
    case False
    then show ?thesis using d v Step by (simp add: evp_step)
  qed
qed simp

lemma escape_byte_valid: "utf8_valid (appendEscapedByte c)"
proof -
  have "byte (hex_digits ! k) < 0x80" if "k < 16" for k using hex_digit_ascii [OF that] .
  then show ?thesis by (simp add: appendEscapedByte_def)
qed

lemma evp_logical_valid: "utf8_valid (fst (escapeValidPrefix s f))"
proof (induction s rule: evp_induct)
  case (Step s)
  have p: "utf8_valid (take (snd (decode_rune s)) s @ u) = utf8_valid u" if "decode_rune s \<noteq> (RuneError, 1)" for u
    using utf8_valid_prefix [of s u] that Step(1) by (simp add: rune_ok_def)
  show ?case using Step p by (cases "decode_rune s = (RuneError, 1)") (simp_all add: evp_step utf8_valid_append escape_byte_valid)
qed simp

lemma evp_rest: "\<not> full_rune (snd (escapeValidPrefix s False)) \<and> snd (escapeValidPrefix s True) = []"
proof (induction s rule: evp_induct)
  case Nil
  then show ?case by (simp add: full_rune_def)
next
  case (Step s)
  then show ?case by (simp add: evp_step)
qed

text \<open>What is left over is an unfinished rune: at the end each of its bytes is escaped.\<close>

lemma evp_unfinished:
  assumes "\<not> full_rune r"
  shows "escapeValidPrefix r True = (escapeBytes r, [])"
proof (cases r)
  case Nil
  then show ?thesis by (simp add: escapeBytes_def)
next
  case (Cons a q)
  let ?n = "seq_len (byte a)"
  have u: "2 \<le> ?n" "length r < ?n" "q \<noteq> [] \<longrightarrow> in_range (second_lo (byte a)) (second_hi (byte a)) (hd q)"
    "1 < length q \<longrightarrow> cont (q ! 1)"
    using assms seq_len_cases [of "byte a"] by (auto simp: full_rune_def Cons Let_def)
  have a: "\<not> byte a < 0x80" using u(1) by (auto simp: seq_len_def split: if_splits)
  have "\<not> tail_ok (byte a) (take (?n - 1) q)" using u(2) by (auto simp: tail_ok_def Cons)
  then have d: "decode_rune r = (RuneError, 1)" using a by (simp add: Cons Let_def)
  have bytes: "list_all cont q"
  proof -
    have "length q \<le> 2" using u(2) seq_len_cases [of "byte a"] by (auto simp: Cons)
    then consider "q = []" | x where "q = [x]" | x y where "q = [x, y]" by (cases q; cases "tl q"; cases "tl (tl q)") auto
    then show ?thesis
      using u(3,4) by cases (auto simp: in_range_def second_lo_def second_hi_def split: if_splits)
  qed
  have esc: "list_all cont p \<Longrightarrow> escapeValidPrefix p True = (escapeBytes p, [])" for p
  proof (induction p)
    case (Cons b p)
    then have b: "\<not> byte b < 0x80" "seq_len (byte b) = 0" by (auto simp: in_range_def seq_len_def)
    have "\<not> tail_ok (byte b) cs" for cs using tail_ok_len [of "byte b" cs] b by auto
    then have "decode_rune (b # p) = (RuneError, 1)" using b by (simp add: Let_def)
    then show ?case using Cons b evp_step [of "b # p" True] by (simp add: escapeBytes_def del: decode_rune.simps)
  qed (simp add: escapeBytes_def)
  show ?thesis
    using d a esc [OF bytes] evp_step [of r True] by (simp add: Cons escapeBytes_def del: decode_rune.simps)
qed

end
