(* ===== verification/Collector_Window.thy ===== *)
theory Collector_Window
  imports Collector_Text
begin

text \<open>
  The window that a \<^verbatim>\<open>HeadTail\<close> collector keeps is a function of the text alone: the longest valid prefix within half of
  the budget and the longest valid suffix within the rest.
\<close>

section \<open>Cuts\<close>

lemma cut_before_append: "n \<le> length s \<Longrightarrow> cut_before (s @ t) n = cut_before s n"
  by (induction s n rule: cut_before.induct) auto

lemma cut_before_shift: "utf8_valid w \<Longrightarrow> cut_before (w @ l) (length w + n) = length w + cut_before l n"
proof (induction n)
  case 0
  then have "utf8_valid (take (length w) (w @ l))" by simp
  then have "cut_before (w @ l) (length w) = length w" by (cases "length w") (simp_all del: take_append)
  then show ?case by simp
next
  case (Suc n)
  have "utf8_valid (take (length w + Suc n) (w @ l)) = utf8_valid (take (Suc n) l)" using Suc.prems by (simp add: utf8_valid_append)
  then show ?case using Suc by (simp del: take_append)
qed

lemma cut_before_all: "utf8_valid s \<Longrightarrow> length s \<le> n \<Longrightarrow> cut_before s n = n"
  by (cases n) auto

lemma cut_after_go: "n < length s \<Longrightarrow> \<not> utf8_valid (drop n s) \<Longrightarrow> cut_after s n = cut_after s (Suc n)"
  by (simp add: cut_after.simps [of s n])

lemma cut_after_here: "\<not> (n < length s \<and> \<not> utf8_valid (drop n s)) \<Longrightarrow> cut_after s n = n"
  unfolding cut_after.simps [of s n] by (rule if_not_P)

lemma cut_after_induct [case_names Here Go]:
  assumes "\<And>n. \<not> (n < length s \<and> \<not> utf8_valid (drop n s)) \<Longrightarrow> P n"
    "\<And>n. n < length s \<Longrightarrow> \<not> utf8_valid (drop n s) \<Longrightarrow> P (Suc n) \<Longrightarrow> P n"
  shows "P n"
proof (induction "length s - n" arbitrary: n rule: less_induct)
  case less
  then show ?case using assms(1) [of n] assms(2) [of n] less [of "Suc n"] by (cases "n < length s \<and> \<not> utf8_valid (drop n s)") auto
qed

lemma cut_after_shift: "cut_after (w @ l) (length w + n) = length w + cut_after l n"
proof (induction n rule: cut_after_induct [where s = l])
  case (Here n)
  then have "\<not> (length w + n < length (w @ l) \<and> \<not> utf8_valid (drop (length w + n) (w @ l)))" by simp
  from cut_after_here [OF this] cut_after_here [OF Here] show ?case by simp
next
  case (Go n)
  have "cut_after (w @ l) (length w + n) = cut_after (w @ l) (Suc (length w + n))" by (rule cut_after_go) (use Go in simp_all)
  with Go cut_after_go [OF Go.hyps] show ?case by simp
qed

lemma cut_after_stop: "n \<le> m \<Longrightarrow> m \<le> cut_after s n \<Longrightarrow> cut_after s m = cut_after s n"
proof (induction n rule: cut_after_induct [where s = s])
  case (Here n)
  then show ?case using cut_after_here [OF Here(1)] by simp
next
  case (Go n)
  then show ?case using cut_after_go [OF Go.hyps] by (cases "m = n") simp_all
qed

text \<open>A valid text after which a valid text comes to a valid whole.\<close>

lemma utf8_valid_front: "utf8_valid s \<Longrightarrow> utf8_valid (x @ s) \<Longrightarrow> utf8_valid x"
proof (induction x rule: evp_induct)
  case (Step x)
  let ?n = "snd (decode_rune x)"
  have ok: "rune_ok (x @ s)" "utf8_valid (drop (snd (decode_rune (x @ s))) (x @ s))"
    using Step.prems(2) Step.hyps by (simp_all add: utf8_valid_step)
  show ?case
  proof (cases "full_rune x")
    case True
    note d = full_rune_extend(2) [OF True, of s]
    have "utf8_valid (drop ?n x)" using Step.IH(2) [OF Step.prems(1)] ok(2) decode_width [OF Step.hyps] by (simp add: d)
    moreover have "rune_ok x" using ok(1) by (simp add: rune_ok_def d)
    ultimately show ?thesis using Step.hyps by (simp add: utf8_valid_step)
  next
    case False
    obtain a q where x: "x = a # q" using Step.hyps by (cases x) auto
    have n: "length x < seq_len (byte a)" "seq_len (byte a) \<noteq> 0" using False by (auto simp: full_rune_def x Let_def)
    have "\<not> byte a < 0x80" using n(2) by (auto simp: seq_len_def split: if_splits)
    then have t: "tail_ok (byte a) (take (seq_len (byte a) - 1) (q @ s))" using ok(1) by (simp add: x rune_ok_Cons)
    then have "s \<noteq> []" using tail_ok_take [OF t] n by (auto simp: x)
    then obtain b r where s: "s = b # r" by (cases s) auto
    have "b \<in> set (take (seq_len (byte a) - 1) (q @ s))" using n(1) by (auto simp: x s take_Cons')
    from tail_ok_cont [OF t this] have b: "\<not> byte b < 0x80" "seq_len (byte b) = 0" by (auto simp: in_range_def seq_len_def)
    have "\<not> tail_ok (byte b) cs" for cs using tail_ok_len [of "byte b" cs] b(2) by auto
    then have "\<not> utf8_valid s" using b(1) by (simp add: s utf8_valid_step rune_ok_Cons)
    then show ?thesis using Step.prems(1) by simp
  qed
qed simp

lemma cut_after_front:
  assumes "utf8_valid s" "n \<le> length f"
  shows "cut_after (f @ s) n = cut_after f n"
  using assms(2)
proof (induction n rule: cut_after_induct [where s = f])
  case (Here n)
  then have "utf8_valid (drop n (f @ s))" using assms(1) by (cases "n = length f") (auto simp: utf8_valid_append)
  then show ?case using cut_after_here [OF Here(1)] cut_after_here [of n "f @ s"] by simp
next
  case (Go n)
  have "\<not> utf8_valid (drop n (f @ s))" using utf8_valid_front [OF assms(1), of "drop n f"] Go by auto
  then have "cut_after (f @ s) n = cut_after (f @ s) (Suc n)" by (intro cut_after_go) (use Go in simp_all)
  with Go cut_after_go [OF Go.hyps] show ?case by simp
qed

section \<open>Views of a valid text\<close>

definition head_view :: "string \<Rightarrow> int \<Rightarrow> string" where
  "head_view t n = take (cut_before t (nat n)) t"

definition tail_view :: "string \<Rightarrow> int \<Rightarrow> string" where
  "tail_view t n = drop (cut_after t (length t - nat n)) t"

lemma prefix_view: "utf8_valid t \<Longrightarrow> utf8PrefixView t n = head_view t n"
  by (auto simp: utf8PrefixView_def head_view_def cut_before_all nat_le_iff le_nat_iff)

lemma cut_after_zero: "utf8_valid t \<Longrightarrow> cut_after t 0 = 0"
  by (simp add: cut_after.simps)

lemma suffix_view: "utf8_valid t \<Longrightarrow> utf8SuffixView t n = tail_view t n"
proof -
  assume t: "utf8_valid t"
  show ?thesis
  proof (cases "n \<ge> int (length t)")
    case True
    then have "length t - nat n = 0" by (simp add: le_nat_iff nat_le_iff)
    then show ?thesis using True t by (simp add: utf8SuffixView_def tail_view_def cut_after_zero)
  qed (simp add: utf8SuffixView_def tail_view_def)
qed

lemma head_view_valid: "utf8_valid (head_view t n)"
  by (simp add: head_view_def cut_before_valid)

lemma tail_view_valid: "utf8_valid (tail_view t n)"
  by (simp add: tail_view_def cut_after_valid)

lemma head_view_le: "0 \<le> n \<Longrightarrow> int (length (head_view t n)) \<le> n"
  using cut_before_le [of t "nat n"] by (simp add: head_view_def)

lemma tail_view_le: "0 \<le> n \<Longrightarrow> int (length (tail_view t n)) \<le> n"
  using cut_after_ge [of "length t - nat n" t] by (simp add: tail_view_def)

lemma head_view_append: "n \<le> int (length t) \<Longrightarrow> head_view (t @ l) n = head_view t n"
  using cut_before_le [of t "nat n"] by (simp add: head_view_def cut_before_append nat_le_iff)

lemma head_view_join: "utf8_valid w \<Longrightarrow> int (length w) \<le> n \<Longrightarrow> w @ head_view l (n - int (length w)) = head_view (w @ l) n"
proof -
  assume w: "utf8_valid w" "int (length w) \<le> n"
  then have "nat n = length w + nat (n - int (length w))" by simp
  then show ?thesis using w cut_before_shift [OF w(1), of l "nat (n - int (length w))"] by (simp add: head_view_def)
qed

lemma tail_view_back: "n \<le> int (length s) \<Longrightarrow> tail_view (f @ s) n = tail_view s n"
proof -
  assume "n \<le> int (length s)"
  then have "length (f @ s) - nat n = length f + (length s - nat n)" by (simp add: nat_le_iff)
  then show ?thesis by (simp add: tail_view_def cut_after_shift)
qed

lemma tail_view_join:
  assumes "utf8_valid s" "int (length s) \<le> n"
  shows "tail_view (f @ s) n = tail_view f (n - int (length s)) @ s"
proof -
  have m: "length (f @ s) - nat n = length f - nat (n - int (length s))" using assms(2) by (simp add: nat_diff_distrib')
  have "cut_after f (length f - nat (n - int (length s))) \<le> length f" by (rule cut_after_le) simp
  then show ?thesis unfolding tail_view_def m by (simp add: cut_after_front [OF assms(1)])
qed

lemma tail_view_twice:
  assumes "0 \<le> m" "m \<le> n"
  shows "tail_view (tail_view t n) m = tail_view t m"
proof -
  define c where "c = cut_after t (length t - nat n)"
  define d where "d = drop c t"
  have c: "length t - nat n \<le> c" "c \<le> length t" unfolding c_def using cut_after_ge cut_after_le by simp_all
  have t: "take c t @ d = t" "length (take c t) = c" "length d = length t - c" using c by (simp_all add: d_def)
  have "drop (cut_after d (length d - nat m)) d = drop (cut_after t (length t - nat m)) t"
  proof (cases "nat m \<le> length d")
    case True
    then have "length t - nat m = c + (length d - nat m)" using t(3) c(2) by simp
    then have "cut_after t (length t - nat m) = c + cut_after d (length d - nat m)"
      using cut_after_shift [of "take c t" d "length d - nat m"] t by simp
    then show ?thesis by (simp add: d_def add.commute)
  next
    case False
    then have z: "length d - nat m = 0" by simp
    have "length t - nat n \<le> length t - nat m" "length t - nat m \<le> c" using False assms t(3) c by (simp_all add: nat_mono diff_le_mono2)
    then have "cut_after t (length t - nat m) = c" using cut_after_stop [of "length t - nat n" "length t - nat m" t] by (simp add: c_def)
    moreover have "cut_after d 0 = 0" unfolding d_def c_def by (rule cut_after_zero) (rule cut_after_valid)
    ultimately show ?thesis using z by (simp add: d_def)
  qed
  then show ?thesis by (simp add: tail_view_def d_def c_def)
qed

section \<open>The window\<close>

definition kept_window :: "string \<Rightarrow> int \<Rightarrow> string \<times> string" where
  "kept_window t budget = (if int (length t) \<le> budget then (t, []) else (head_view t (budget div 2), tail_view t (budget - budget div 2)))"

definition window_ok :: "collector \<Rightarrow> string \<Rightarrow> bool" where
  "window_ok c t \<longleftrightarrow> (tx_omitted c \<longleftrightarrow> tx_bodyBudget c < int (length t))
     \<and> tx_window c = fst (kept_window t (tx_bodyBudget c)) @ snd (kept_window t (tx_bodyBudget c))
     \<and> tx_headBytes c = length (fst (kept_window t (tx_bodyBudget c)))"

lemma cut_after_end [simp]: "cut_after t (length t) = length t"
  by (simp add: cut_after.simps)

lemma views_empty: "head_view t 0 = []" "tail_view t 0 = []"
  by (simp_all add: head_view_def tail_view_def)

lemma appendHeadTail_window:
  assumes "window_ok c t" "0 \<le> tx_bodyBudget c" "utf8_valid t" "utf8_valid l" "l \<noteq> []"
  shows "window_ok (appendHeadTail l c) (t @ l)"
proof -
  define B where "B = tx_bodyBudget c"
  let ?h = "B div 2" and ?r = "B - B div 2"
  have hr: "0 \<le> ?h" "?h \<le> B" "0 \<le> ?r" "?r \<le> B" using assms(2) by (simp_all add: B_def)
  have vtl: "utf8_valid (t @ l)" using assms(3,4) by (simp add: utf8_valid_append)
  note W = assms(1) [unfolded window_ok_def kept_window_def, folded B_def]
  consider (zero) "B = 0" | (room) "0 < B" "int (length (t @ l)) \<le> B" | (first) "0 < B" "int (length t) \<le> B" "B < int (length (t @ l))"
    | (later) "0 < B" "B < int (length t)"
    using assms(2) unfolding B_def by linarith
  then show ?thesis
  proof cases
    case zero
    have "tx_window c = [] \<and> tx_headBytes c = 0" using W zero by (auto simp: views_empty)
    moreover have "B < int (length (t @ l))" using zero assms(5) by (cases l) simp_all
    ultimately have ?thesis using zero by (simp add: appendHeadTail_def Let_def window_ok_def kept_window_def views_empty flip: B_def)
    then show ?thesis .
  next
    case room
    then have "tx_window c = t" "\<not> tx_omitted c" using W by auto
    then show ?thesis using room by (simp add: appendHeadTail_def Let_def window_ok_def kept_window_def flip: B_def)
  next
    case first
    then have w: "tx_window c = t" "\<not> tx_omitted c" using W by auto
    have head: "(if int (length t) \<ge> ?h then utf8PrefixView t ?h else t @ utf8PrefixView l (?h - int (length t))) = head_view (t @ l) ?h"
      using assms(3,4) by (auto simp: prefix_view head_view_append head_view_join)
    have tail: "(if int (length l) \<ge> ?r then utf8SuffixView l ?r else utf8SuffixView t (?r - int (length l)) @ l) = tail_view (t @ l) ?r"
      using assms(3,4) by (auto simp: suffix_view tail_view_back tail_view_join)
    have "appendCombinedSuffix d t l ?r = d @ tail_view (t @ l) ?r" for d
      unfolding appendCombinedSuffix_def tail [symmetric] by simp
    with head show ?thesis
      using first w by (simp add: appendHeadTail_def Let_def window_ok_def kept_window_def flip: B_def)
  next
    case later
    then have w: "tx_window c = head_view t ?h @ tail_view t ?r" "tx_omitted c" "tx_headBytes c = length (head_view t ?h)" using W by auto
    have head: "head_view (t @ l) ?h = head_view t ?h" by (rule head_view_append) (use later hr in linarith)
    have tail: "(if int (length l) \<ge> ?r then utf8SuffixView l ?r else utf8SuffixView (tail_view t ?r) (?r - int (length l)) @ l)
        = tail_view (t @ l) ?r"
      using assms(3,4) by (auto simp: suffix_view tail_view_valid tail_view_back tail_view_join tail_view_twice)
    show ?thesis
      using later w tail by (simp add: appendHeadTail_def Let_def window_ok_def kept_window_def head flip: B_def)
  qed
qed

end
