(* ===== verification/Collector_Run.thy ===== *)
theory Collector_Run
  imports Collector_Window
begin

text \<open>
  The state of a collector after any sequence of writes, as a function of all the bytes written so far.
\<close>

section \<open>Accepting text\<close>

text \<open>What writing never changes.\<close>

definition same_setup :: "collector \<Rightarrow> collector \<Rightarrow> bool" where
  "same_setup c c' \<longleftrightarrow> tx_limits c' = tx_limits c \<and> tx_mode c' = tx_mode c \<and> tx_state c' = tx_state c
     \<and> tx_bodyBudget c' = tx_bodyBudget c \<and> tx_recordMode c' = tx_recordMode c"

lemma same_setup_refl [simp]: "same_setup c c" by (simp add: same_setup_def)

lemma same_setup_trans: "same_setup a b \<Longrightarrow> same_setup b c \<Longrightarrow> same_setup a c" by (simp add: same_setup_def)

definition text_inv :: "collector \<Rightarrow> string \<Rightarrow> bool" where
  "text_inv c t \<longleftrightarrow> hashed (tx_hasher c) t \<and> tx_total c = int (length t) \<and> utf8_valid t \<and> 0 \<le> tx_bodyBudget c
     \<and> (tx_mode c = HeadTail \<longrightarrow> window_ok c t)"

lemma append_frame:
  "same_setup c (appendHeadTail l c)" "tx_hasher (appendHeadTail l c) = tx_hasher c" "tx_total (appendHeadTail l c) = tx_total c"
  "tx_pending (appendHeadTail l c) = tx_pending c"
  "same_setup c (append_prefix l c)" "tx_hasher (append_prefix l c) = tx_hasher c" "tx_total (append_prefix l c) = tx_total c"
  "tx_pending (append_prefix l c) = tx_pending c"
  by (simp_all add: appendHeadTail_def append_prefix_def same_setup_def Let_def)

lemma HeadTail_Prefix [simp]: "HeadTail \<noteq> Prefix" "Prefix \<noteq> HeadTail" by (simp_all add: HeadTail_def Prefix_def)

lemma accept_text:
  assumes "text_inv c t" "utf8_valid l"
  shows "if int (length (t @ l)) \<le> max_int64
    then \<exists>c'. acceptLogical l c = (None, c') \<and> text_inv c' (t @ l) \<and> same_setup c c' \<and> tx_pending c' = tx_pending c
    else acceptLogical l c = (Some ErrOutputLimit, c)"
proof (cases "l = []")
  case True
  have "int (length t) \<le> max_int64" using assms(1) by (simp add: text_inv_def hashed_def)
  with True assms(1) show ?thesis by (simp add: acceptLogical_def)
next
  case False
  have h: "hashed (tx_hasher c) t" "tx_total c = int (length t)" "utf8_valid t" "0 \<le> tx_bodyBudget c" "int (length t) \<le> max_int64"
    using assms(1) by (simp_all add: text_inv_def hashed_def)
  have a: "add64 (tx_total c) (int (length l)) = (if int (length (t @ l)) \<le> max_int64 then Some (int (length (t @ l))) else None)"
    using h by (simp add: add64_nonneg)
  note w = writeLogical_hashed [OF h(1), of l]
  show ?thesis
  proof (cases "int (length (t @ l)) \<le> max_int64")
    case True
    let ?h = "write_chunks l ((tx_hasher c)\<lparr>sh_total := int (length (t @ l))\<rparr>)"
    let ?c = "c\<lparr>tx_hasher := ?h, tx_total := int (length (t @ l))\<rparr>"
    let ?d = "if tx_mode c = Prefix then append_prefix l ?c else if tx_mode c = HeadTail then appendHeadTail l ?c else ?c"
    have "acceptLogical l c = (None, ?d)" using False a w(1) True by (simp add: acceptLogical_def Let_def)
    moreover have "same_setup c ?c" "same_setup ?c ?d" "tx_pending ?d = tx_pending c" "tx_hasher ?d = ?h" "tx_total ?d = int (length (t @ l))"
      by (simp_all add: append_frame) (simp_all add: same_setup_def)
    moreover have "window_ok ?d (t @ l)" if m: "tx_mode c = HeadTail"
    proof -
      have "window_ok ?c t" using assms(1) m by (simp add: text_inv_def window_ok_def)
      from appendHeadTail_window [OF this _ h(3) assms(2) False] h(4) m show ?thesis by simp
    qed
    ultimately show ?thesis
      using True w(2) [OF True] h(3,4) assms(2) same_setup_trans [of c ?c ?d]
      by (auto simp: text_inv_def utf8_valid_append same_setup_def)
  next
    case no: False
    then show ?thesis using False a by (simp add: acceptLogical_def)
  qed
qed

section \<open>Writing\<close>

text \<open>The collector has been given the bytes \<open>raw\<close>.\<close>

definition raw_inv :: "collector \<Rightarrow> string \<Rightarrow> bool" where
  "raw_inv c raw \<longleftrightarrow> text_inv c (fst (escapeValidPrefix raw False)) \<and> tx_pending c = snd (escapeValidPrefix raw False)"

lemma evp_length: "length (fst (escapeValidPrefix s f)) \<le> 4 * length s"
proof (induction s rule: evp_induct)
  case (Step s)
  note w = decode_width [OF Step.hyps]
  have "length (take (snd (decode_rune s)) s) + 4 * length (drop (snd (decode_rune s)) s) \<le> 4 * length s" unfolding length_take length_drop using w by linarith
  moreover have "4 + 4 * length (tl s) \<le> 4 * length s" using Step.hyps by (cases s) simp_all
  ultimately show ?case using Step by (auto simp: evp_step appendEscapedByte_def)
qed simp

lemma raw_append:
  assumes "raw_inv c raw" "snd (escapeValidPrefix raw False) @ p = q"
  shows "fst (escapeValidPrefix (raw @ p) f) = fst (escapeValidPrefix raw False) @ fst (escapeValidPrefix q f)"
    "snd (escapeValidPrefix (raw @ p) f) = snd (escapeValidPrefix q f)"
  using evp_append [of raw p f] assms(2) by simp_all

lemma consume_writes:
  assumes "raw_inv c raw" "4 * int (length (raw @ p)) \<le> max_int64"
  shows "\<exists>c'. consumeRaw p False c = (None, c') \<and> raw_inv c' (raw @ p) \<and> same_setup c c'"
  using assms
proof (induction p "False" c arbitrary: raw rule: consumeRaw.induct)
  case (1 p c)
  show ?case
  proof (cases "p = []")
    case True
    then show ?thesis using "1.prems" by (simp add: consumeRaw.simps)
  next
    case False
    define n where "n = min (length p) collectorChunk"
    let ?k = "take n p" and ?t = "fst (escapeValidPrefix raw False)" and ?pend = "snd (escapeValidPrefix raw False)"
    have pk: "?k @ drop n p = p" by simp
    have inv: "text_inv c ?t" "tx_pending c = ?pend" using "1.prems"(1) by (simp_all add: raw_inv_def)
    have "length (fst (escapeValidPrefix (raw @ ?k) False)) \<le> 4 * length (raw @ ?k)" by (rule evp_length)
    moreover have "length (raw @ ?k) \<le> length (raw @ p)" by simp
    ultimately have room: "int (length (fst (escapeValidPrefix (raw @ ?k) False))) \<le> max_int64" using "1.prems"(2) by linarith
    show ?thesis
    proof (cases "tx_pending c = [] \<and> utf8_valid ?k")
      case True
      have e: "fst (escapeValidPrefix (raw @ ?k) False) = ?t @ ?k" "snd (escapeValidPrefix (raw @ ?k) False) = []"
        using evp_append [of raw ?k False] True inv(2) evp_valid [of ?k False] by simp_all
      obtain c1 where c1: "acceptLogical ?k c = (None, c1)" "text_inv c1 (?t @ ?k)" "same_setup c c1" "tx_pending c1 = tx_pending c"
        using accept_text [OF inv(1), of ?k] True room e by auto
      have "raw_inv c1 (raw @ ?k)" using c1 e True by (simp add: raw_inv_def)
      then obtain c' where "consumeRaw (drop n p) False c1 = (None, c')" "raw_inv c' (raw @ p)" "same_setup c1 c'"
        using "1.hyps"(1) [OF False n_def refl True c1(1) [symmetric] refl, of "raw @ ?k"] "1.prems"(2) by auto
      then show ?thesis using False True c1 same_setup_trans
        by (subst consumeRaw.simps) (auto simp: Let_def simp flip: n_def)
    next
      case no: False
      obtain l r where lr: "escapeValidPrefix (?pend @ ?k) False = (l, r)" by (cases "escapeValidPrefix (?pend @ ?k) False")
      have e: "fst (escapeValidPrefix (raw @ ?k) False) = ?t @ l" "snd (escapeValidPrefix (raw @ ?k) False) = r"
        using evp_append [of raw ?k False] lr by simp_all
      have "utf8_valid l" using evp_logical_valid [of "?pend @ ?k" False] lr by simp
      moreover have "text_inv (c\<lparr>tx_pending := r\<rparr>) ?t" using inv(1) by (simp add: text_inv_def window_ok_def)
      ultimately obtain c1 where c1: "acceptLogical l (c\<lparr>tx_pending := r\<rparr>) = (None, c1)" "text_inv c1 (?t @ l)"
          "same_setup (c\<lparr>tx_pending := r\<rparr>) c1" "tx_pending c1 = r"
        using accept_text [of "c\<lparr>tx_pending := r\<rparr>" ?t l] room e by auto
      have s1: "same_setup c c1" using c1(3) by (simp add: same_setup_def)
      have r1: "raw_inv c1 (raw @ ?k)" using c1 e by (simp add: raw_inv_def)
      obtain c' where "consumeRaw (drop n p) False c1 = (None, c')" "raw_inv c' (raw @ p)" "same_setup c1 c'"
        using "1.hyps"(2) [OF False n_def refl no _ c1(1) [symmetric] refl r1] "1.prems"(2) lr inv(2) by auto
      then show ?thesis using False no c1 lr inv(2) same_setup_trans [OF s1]
        by (subst consumeRaw.simps) (auto simp: Let_def simp flip: n_def)
    qed
  qed
qed

lemma consume_end:
  assumes "raw_inv c raw" "4 * int (length raw) \<le> max_int64"
  shows "\<exists>c'. consumeRaw [] True c = (None, c') \<and> text_inv c' (escape_text raw) \<and> same_setup c c' \<and> tx_pending c' = []"
proof -
  let ?t = "fst (escapeValidPrefix raw False)" and ?pend = "snd (escapeValidPrefix raw False)"
  have inv: "text_inv c ?t" "tx_pending c = ?pend" using assms(1) by (simp_all add: raw_inv_def)
  have esc: "escape_text raw = ?t @ escapeBytes ?pend"
    using evp_append [of raw "[]" True] evp_unfinished [of ?pend] evp_rest [of raw] by (simp add: escape_text_def)
  show ?thesis
  proof (cases "?pend = []")
    case True
    then show ?thesis using inv esc by (simp add: consumeRaw.simps escapeBytes_def)
  next
    case False
    have v: "utf8_valid (escapeBytes ?pend)" using evp_logical_valid [of ?pend True] evp_unfinished [of ?pend] evp_rest [of raw] by simp
    have i: "text_inv (c\<lparr>tx_pending := []\<rparr>) ?t" using inv(1) by (simp add: text_inv_def window_ok_def)
    have "length (escape_text raw) \<le> 4 * length raw" unfolding escape_text_def by (rule evp_length)
    then have "int (length (?t @ escapeBytes ?pend)) \<le> max_int64" using assms(2) esc by simp
    with accept_text [OF i v] False inv(2) esc show ?thesis
      by (auto simp: consumeRaw.simps same_setup_def)
  qed
qed

section \<open>A fresh collector\<close>

lemma body_search_ge: "lo \<le> body_search ok lo hi"
proof (induction ok lo hi rule: body_search.induct)
  case (1 ok lo hi)
  show ?case
  proof (cases "lo < hi")
    case True
    then have "lo \<le> lo + (hi - lo + 1) div 2" by simp
    then show ?thesis using 1 True by (subst body_search.simps) (auto simp: Let_def)
  qed (simp add: body_search.simps)
qed

lemma body_budget_nonneg: "0 \<le> maxCollectorBody L a b"
  using body_search_ge by (simp add: maxCollectorBody_def Let_def)

lemma new_collector:
  assumes "NewTextCollector sha L mode = Inr c"
  shows "raw_inv c []" "tx_mode c = mode" "tx_limits c = L" "\<not> tx_recordMode c" "tx_state c = CollectorWriting"
    "mode = HeadTail \<or> mode = Prefix"
    "tx_bodyBudget c = maxCollectorBody L (int trailer_reserve) (int (length (formatMarker 0 0 (hex_encode (sha [])))))"
  using assms body_budget_nonneg
  by (auto simp: NewTextCollector_def raw_inv_def text_inv_def hashed_new window_ok_def kept_window_def split: if_splits)

fun write_all :: "string list \<Rightarrow> collector \<Rightarrow> collector option" where
  "write_all [] c = Some c"
| "write_all (p # ps) c = (case collector_Write p c of (Inl e, c') \<Rightarrow> None | (Inr n, c') \<Rightarrow> write_all ps c')"

lemma write_all_raw:
  assumes "raw_inv c raw" "tx_state c = CollectorWriting" "\<not> tx_recordMode c" "4 * int (length (raw @ concat ps)) \<le> max_int64"
  shows "\<exists>c'. write_all ps c = Some c' \<and> raw_inv c' (raw @ concat ps) \<and> same_setup c c'"
  using assms
proof (induction ps arbitrary: c raw)
  case Nil
  then show ?case by simp
next
  case (Cons p ps)
  have "4 * int (length (raw @ p)) \<le> max_int64" using Cons.prems(4) by simp
  from consume_writes [OF Cons.prems(1) this] obtain c1 where c1: "consumeRaw p False c = (None, c1)" "raw_inv c1 (raw @ p)" "same_setup c c1"
    by blast
  have "\<exists>c'. write_all ps c1 = Some c' \<and> raw_inv c' ((raw @ p) @ concat ps) \<and> same_setup c1 c'"
    by (rule Cons.IH) (use c1 Cons.prems in \<open>simp_all add: same_setup_def\<close>)
  then show ?case using c1 Cons.prems(2,3) same_setup_trans [OF c1(3)] by (auto simp: collector_Write_def)
qed

end
