(* ===== verification/Collector_Props.thy ===== *)
theory Collector_Props
  imports Collector_Run
begin

text \<open>
  What collectors promise: the output is a function of all the bytes written, it fits its limits, and finalisation accepts
  it; and a \<^verbatim>\<open>Prefix\<close> collector can keep text from beyond the first omission.
\<close>

section \<open>The output\<close>

lemma collector_block_eq: "collector_block s = text_block s"
  by (simp add: collector_block_def)

text \<open>What a \<^verbatim>\<open>HeadTail\<close> collector with body budget \<open>B\<close> makes of the bytes \<open>raw\<close>, in one go.\<close>

definition whole_text :: "string \<Rightarrow> string \<Rightarrow> string" where
  "whole_text raw canonical = escape_text raw @ renderMetadataTrailer canonical"

definition reference_text :: "(string \<Rightarrow> string) \<Rightarrow> int \<Rightarrow> string \<Rightarrow> string \<Rightarrow> int \<Rightarrow> string" where
  "reference_text sha B raw canonical kept =
     (let t = escape_text raw; trailer = renderMetadataTrailer canonical; whole = whole_text raw canonical;
          marker = formatMarker kept (frame_size [text_block whole]) (digest_of sha [text_block whole])
      in if int (length t) \<le> B then whole
         else head_view t (B div 2) @ marker @ tail_view t (B - B div 2) @ trailer)"

definition collect_reference :: "(string \<Rightarrow> string) \<Rightarrow> output_limits \<Rightarrow> int \<Rightarrow> string \<Rightarrow> string \<Rightarrow> bool \<Rightarrow> tool_output" where
  "collect_reference sha L B raw canonical isError =
     (let whole = whole_text raw canonical; kept = frame_size [text_block (reference_text sha B raw canonical 0)];
          text = reference_text sha B raw canonical kept
      in if overLimit (reference_text sha B raw canonical 0) L then budgetCollectorOutput
         else \<lparr>out_Content = [Text text], out_IsError = isError, out_Stats = zero_stats,
           out_receipt = Some \<lparr>rc_limits = L, rc_originalBytes = frame_size [text_block whole],
             rc_originalSHA = digest_of sha [text_block whole], rc_keptBytes = kept,
             rc_truncated = (B < int (length (escape_text raw))), rc_isError = isError,
             rc_retained = digest_of sha [text_block text], rc_sources = [], rc_metadata = canonical\<rparr>,
           out_seal = None\<rparr>)"

lemma length_hex8 [simp]: "length (hex8 n) = 8"
  by (simp add: hex8_def)

lemma metadata_end_length: "length (metadataEnd n) = length (metadataEnd m)"
  by (simp add: metadataEnd_def)

lemma parsed_metadata:
  assumes "parseCollectorMetadata md = Inr canonical"
  shows "length (renderMetadataTrailer canonical) \<le> trailer_reserve" "length canonical \<le> 4096"
proof -
  have c: "int (length canonical) \<le> maxCollectorMetaBytes"
    using assms by (auto simp: parseCollectorMetadata_def Let_def split: sum.splits if_splits)
  then show "length canonical \<le> 4096" by (simp add: maxCollectorMetaBytes_def)
  show "length (renderMetadataTrailer canonical) \<le> trailer_reserve"
    using c metadata_end_length [of "length canonical" "nat maxCollectorMetaBytes"]
    by (simp add: renderMetadataTrailer_def trailer_reserve_def)
qed

lemma trailer_reserve_value: "trailer_reserve = 4170"
  by (simp add: trailer_reserve_def metadataBegin_def maxCollectorMetaBytes_def metadataEnd_def)

lemma text_frame_bound: "int (length s) \<le> n \<Longrightarrow> frame_size [text_block s] \<le> 118 + 9 * n"
  using chunk_count_le [of "int (length s)"] by (simp add: text_block_size)

lemma text_frame_cong: "length s = length s' \<Longrightarrow> frame_size [text_block s] = frame_size [text_block s']"
  unfolding text_block_size by simp

lemma reference_text_length: "length (reference_text sha B raw canonical kept) = length (reference_text sha B raw canonical 0)"
  using length_marker by (simp add: reference_text_def Let_def)

lemma escape_length: "length (escape_text raw) \<le> 4 * length raw"
  unfolding escape_text_def by (rule evp_length)

lemma collected_text:
  assumes "NewTextCollector sha L HeadTail = Inr c" "write_all ps c = Some c'" "64 * int (length (concat ps)) + 2 ^ 20 \<le> max_int64"
  shows "\<exists>c2. consumeRaw [] True c' = (None, c2) \<and> text_inv c2 (escape_text (concat ps)) \<and> same_setup c c2"
proof -
  note n = new_collector [OF assms(1)]
  have "4 * int (length ([] @ concat ps)) \<le> max_int64" using assms(3) by simp
  from write_all_raw [OF n(1,5,4) this] assms(2) have w: "raw_inv c' (concat ps)" "same_setup c c'" by auto
  have "4 * int (length (concat ps)) \<le> max_int64" using assms(3) by simp
  from consume_end [OF w(1) this] show ?thesis using same_setup_trans [OF w(2)] by blast
qed

lemma collect_output_reference:
  assumes inv: "text_inv c (escape_text raw)" and c: "tx_mode c = HeadTail" "\<not> tx_recordMode c" "tx_limits c = L" "tx_bodyBudget c = B"
    and size: "64 * int (length raw) + 2 ^ 20 \<le> max_int64" and md: "parseCollectorMetadata md = Inr canonical"
  shows "fst (collect_output sha c canonical isError) = Inr (collect_reference sha L B raw canonical isError)"
proof -
  let ?t = "escape_text raw" and ?tr = "renderMetadataTrailer canonical" and ?whole = "whole_text raw canonical"
  note tr = parsed_metadata [OF md]
  have h: "hashed (tx_hasher c) ?t" "tx_total c = int (length ?t)" "window_ok c ?t" "0 \<le> B"
    using inv c by (simp_all add: text_inv_def)
  have ln: "int (length ?t) \<le> 4 * int (length raw)" using escape_length [of raw] by simp
  have lw: "int (length ?whole) \<le> 4 * int (length raw) + 4170" using ln tr(1) by (simp add: whole_text_def trailer_reserve_value)
  have fw: "frame_size [text_block ?whole] \<le> max_int64" using text_frame_bound [OF lw] size by simp
  have room: "int (length (?t @ ?tr)) \<le> max_int64" using lw size by (simp add: whole_text_def)
  define hs where "hs = write_chunks ?tr ((tx_hasher c)\<lparr>sh_total := int (length (?t @ ?tr))\<rparr>)"
  have wl: "writeLogical ?tr (tx_hasher c) = Some hs" and hashed: "hashed hs ?whole"
    using writeLogical_hashed [OF h(1), of ?tr] room by (simp_all add: hs_def whole_text_def)
  let ?orig = "(frame_size [text_block ?whole], digest_of sha [text_block ?whole])"
  have fin0: "fst (finish_hash sha hs) = Some ?orig"
    unfolding finish_hashed [OF hashed] collector_block_eq using fw by (simp add: digestBlocks_small)
  obtain h' where fin': "finish_hash sha hs = (Some ?orig, h')" using fin0 by (cases "finish_hash sha hs") simp
  let ?text = "reference_text sha B raw canonical"
  define cut where "cut = (B < int (length ?t))"
  have om: "tx_omitted c = cut" using h(3) c by (simp add: window_ok_def cut_def)
  have ct: "(tx_total c \<noteq> int (length (tx_window c)) \<or> tx_omitted c) = cut"
    using h(2,3) c by (auto simp: window_ok_def kept_window_def cut_def)
  have tx: "(if cut then render_with_kept (tx_window c) (tx_headBytes c) ?tr HeadTail ?orig k else tx_window c @ ?tr) = ?text k" for k
    using h(3) c by (auto simp: window_ok_def kept_window_def cut_def render_with_kept_def Let_def reference_text_def whole_text_def)
  have tl: "length (?text k) = length (?text 0)" for k by (rule reference_text_length)
  show ?thesis
  proof (cases "overLimit (?text 0) L")
    case True
    then show ?thesis
    proof (cases cut)
      case c1: True
      note t = tx [unfolded if_P [OF c1]]
      show ?thesis using tr(1) wl fin' c ct c1 True
        by (simp add: collect_output_def collect_reference_def retainedBody_def Let_def t)
    next
      case c0: False
      note t = tx [of 0, unfolded if_not_P [OF c0]]
      show ?thesis using tr(1) wl fin' c ct c0 True
        by (simp add: collect_output_def collect_reference_def retainedBody_def Let_def t)
    qed
  next
    case False
    then have "singleTextFrameSize (int (length (?text 0))) \<noteq> None" by (auto simp: overLimit_def split: if_splits option.splits)
    then have fs: "frame_size [text_block (?text 0)] \<le> max_int64"
      by (simp add: single_text_size length_frame_of collector_block_eq split: if_splits)
    have fs': "frame_size [text_block (?text k)] = frame_size [text_block (?text 0)]" for k by (rule text_frame_cong [OF tl])
    have dg: "digestBlocks sha [collector_block (?text k)] = Inr (frame_size [text_block (?text 0)], digest_of sha [text_block (?text k)])" for k
      unfolding collector_block_eq using fs fs' [of k] by (simp add: digestBlocks_small)
    have same: "\<not> cut \<Longrightarrow> ?text k = ?text 0" for k by (simp add: cut_def reference_text_def Let_def)
    show ?thesis
    proof (cases cut)
      case True
      note t = tx [unfolded if_P [OF True]]
      show ?thesis using tr(1) wl fin' c ct True False dg om
        by (simp add: collect_output_def collect_reference_def retainedBody_def Let_def t flip: cut_def)
    next
      case no: False
      note t = tx [of 0, unfolded if_not_P [OF no]]
      show ?thesis using tr(1) wl fin' c ct no False dg om same [OF no, of "frame_size [text_block (?text 0)]"]
        by (simp add: collect_output_def collect_reference_def retainedBody_def Let_def t flip: cut_def)
    qed
  qed
qed

lemma collector_output_reference:
  assumes "NewTextCollector sha L HeadTail = Inr c" "write_all ps c = Some c'" "parseCollectorMetadata md = Inr canonical"
    and "64 * int (length (concat ps)) + 2 ^ 20 \<le> max_int64"
  shows "fst (collector_Output sha md isError c') = Inr (collect_reference sha L (tx_bodyBudget c) (concat ps) canonical isError)"
proof -
  note n = new_collector [OF assms(1)]
  obtain c2 where c2: "consumeRaw [] True c' = (None, c2)" "text_inv c2 (escape_text (concat ps))" "same_setup c c2"
    using collected_text [OF assms(1,2,4)] by blast
  have w: "same_setup c c'"
    using write_all_raw [OF n(1,5,4), of ps] assms(2,4) by auto
  let ?c = "c2\<lparr>tx_state := CollectorFinished\<rparr>"
  have inv: "text_inv ?c (escape_text (concat ps))" using c2(2) by (simp add: text_inv_def window_ok_def)
  have s: "tx_mode ?c = HeadTail" "\<not> tx_recordMode ?c" "tx_limits ?c = L" "tx_bodyBudget ?c = tx_bodyBudget c"
    using c2(3) n by (simp_all add: same_setup_def)
  have "collector_Output sha md isError c' = collect_output sha ?c canonical isError"
    using w n c2(1) assms(3) by (simp add: collector_Output_def same_setup_def)
  then show ?thesis using collect_output_reference [OF inv s assms(4,3)] by simp
qed


end
