(* ===== verification/Json_Text.thy ===== *)
theory Json_Text
  imports Json_Props
begin

text \<open>
  The canonical text of a JSON value is UTF-8.
\<close>

lemma escape_byte_ascii: "byte c < 0x80 \<Longrightarrow> list_all (\<lambda>x. byte x < 0x80) (escape_byte c)"
  by (auto simp: escape_byte_def hex_char_def)

lemma ascii_append: "list_all (\<lambda>c. byte c < 0x80) s \<Longrightarrow> utf8_valid (s @ t) = utf8_valid t"
  by (induction s) simp_all

lemma escaped_valid: "utf8_valid s \<Longrightarrow> utf8_valid (concat (map escape_byte s))"
proof (induction s rule: utf8_valid.induct)
  case (1 s)
  show ?case
  proof (cases s)
    case (Cons c q)
    let ?n = "snd (decode_rune s)"
    have ne: "s \<noteq> []" using Cons by simp
    with "1.prems" have ok: "rune_ok s" and v: "utf8_valid (drop ?n s)" by (simp_all add: utf8_valid_step)
    from "1.IH" [OF ne v] have IH: "utf8_valid (concat (map escape_byte (drop ?n s)))" .
    have split: "concat (map escape_byte s) = concat (map escape_byte (take ?n s)) @ concat (map escape_byte (drop ?n s))"
      by (simp flip: concat_append map_append)
    show ?thesis
    proof (cases "byte c < 0x80")
      case True
      then have "?n = 1" using Cons by simp
      with IH Cons ascii_append [OF escape_byte_ascii [OF True]] show ?thesis by simp
    next
      case False
      have hi: "\<And>x. x \<in> set (take ?n s) \<Longrightarrow> 0x80 \<le> byte x"
        using rune_bytes_high [OF ok ne] False Cons by (simp del: decode_rune.simps)
      have "utf8_valid (take ?n s)" using utf8_valid_prefix [OF ok ne, of "[]"] by simp
      moreover have "concat (map escape_byte (take ?n s)) = take ?n s" by (rule escape_high) (rule hi)
      ultimately show ?thesis using IH unfolding split by (simp add: utf8_valid_append)
    qed
  qed simp
qed

lemma printed_string_valid: "utf8_valid s \<Longrightarrow> utf8_valid (writeJSONString s)"
  using escaped_valid [of s] by (simp add: writeJSONString_def utf8_valid_append)

lemma digits_ascii: "list_all (\<lambda>c. byte c < 0x80) (takeWhile isDigit s)"
  by (induction s) (auto simp: isDigit_def)

abbreviation "ascii \<equiv> list_all (\<lambda>c. byte c < 0x80)"

lemma scans_ascii:
  "scan_sign s = (t, r) \<Longrightarrow> ascii t" "scan_int s = Inr (t, r) \<Longrightarrow> ascii t"
  "scan_frac s = Inr (t, r) \<Longrightarrow> ascii t" "scan_exp_sign s = (t, r) \<Longrightarrow> ascii t"
  by (auto simp: scan_sign_def scan_int_def scan_frac_def scan_exp_sign_def digits_ascii isDigit_def split: list.splits if_splits)

lemma scan_exp_ascii: "scan_exp s = Inr (t, r) \<Longrightarrow> ascii t"
  by (auto simp: scan_exp_def result_simps digits_ascii split: list.splits if_splits prod.splits dest!: scans_ascii)

lemma number_ascii: "parseNumber L s = Inr (n, r) \<Longrightarrow> ascii n"
proof -
  assume p: "parseNumber L s = Inr (n, r)"
  obtain sg s1 where sg: "scan_sign s = (sg, s1)" by (cases "scan_sign s")
  obtain ip s2 fr s3 ex e where c: "scan_int s1 = Inr (ip, s2)" "scan_frac s2 = Inr (fr, s3)" "scan_exp s3 = Inr (ex, e, r)"
    "n = sg @ ip @ fr @ ex"
    using p unfolding parseNumber_def sg by (auto simp: rbind_eq_Inr_iff Let_def simp del: list_all_append split: if_splits)
  from scans_ascii(1) [OF sg] scans_ascii(2) [OF c(1)] scans_ascii(3) [OF c(2)] scan_exp_ascii [OF c(3)] c(4)
  show ?thesis by simp
qed

lemma commas_valid: "list_all utf8_valid xs \<Longrightarrow> utf8_valid (commas xs)"
  by (induction xs rule: commas.induct) (auto simp: utf8_valid_append)

lemma print_valid: "wf_value L v \<Longrightarrow> utf8_valid (print v)"
proof (induction v)
  case (VNumber n)
  then show ?case using ascii_append [OF number_ascii, of L n n "[]" "[]"] by simp
next
  case (VArray vs)
  then have "utf8_valid (commas (map print vs))" by (intro commas_valid) (auto simp: list_all_iff)
  then show ?case by (simp add: utf8_valid_append)
next
  case (VObject ms)
  then have "utf8_valid (commas (map (\<lambda>(k, v). writeJSONString k @ CHR '':'' # print v) ms))"
    by (intro commas_valid) (fastforce simp: list_all_iff utf8_valid_append printed_string_valid)
  then show ?case by (simp add: utf8_valid_append)
qed (simp_all add: printed_string_valid)

lemma canonical_valid:
  assumes "ParseObject raw L = Inr v" "CanonicalValue v = Inr s"
  shows "utf8_valid s"
proof -
  obtain x where "Parse raw L = Inr x" "(case x of VObject ms \<Rightarrow> Inr x | _ \<Rightarrow> Inl ObjectRequired) = Inr v"
    using assms(1) unfolding ParseObject_def rbind_eq_Inr_iff by blast
  then have "Parse raw L = Inr v" by (cases x) simp_all
  then have wf: "wf_value (normalizeParseLimits L) v" using Parse_admitted by (simp add: admitted_def)
  have "s = print (canon v)" using writeCanonical_print [OF wf] assms(2) by (simp add: CanonicalValue_def)
  then show ?thesis using print_valid [OF wf_canon [OF wf]] by simp
qed

end
