(* ===== verification/Collector_Fits.thy ===== *)
theory Collector_Fits
  imports Collector_Props Json_Text
begin

text \<open>
  The budget of a collector's body is chosen so that its output fits the limits of the call, and finalisation accepts it.
\<close>

section \<open>The body budget\<close>

lemma body_search_spec: "lo \<le> hi \<Longrightarrow> body_search ok lo hi \<le> hi \<and> (body_search ok lo hi = lo \<or> ok (body_search ok lo hi))"
proof (induction ok lo hi rule: body_search.induct)
  case (1 ok lo hi)
  show ?case
  proof (cases "lo < hi")
    case True
    define mid where "mid = lo + (hi - lo + 1) div 2"
    have m: "lo < mid" "mid \<le> hi" using True by (simp_all add: mid_def)
    have "body_search ok lo hi = (if ok mid then body_search ok mid hi else body_search ok lo (mid - 1))"
      by (subst body_search.simps) (simp add: True mid_def Let_def)
    moreover have "ok mid \<Longrightarrow> body_search ok mid hi \<le> hi \<and> (body_search ok mid hi = mid \<or> ok (body_search ok mid hi))"
      using "1.IH"(1) [OF True mid_def] m by simp
    moreover have "\<not> ok mid \<Longrightarrow> body_search ok lo (mid - 1) \<le> mid - 1 \<and> (body_search ok lo (mid - 1) = lo \<or> ok (body_search ok lo (mid - 1)))"
      using "1.IH"(2) [OF True mid_def] m by simp
    ultimately show ?thesis using m by auto
  qed (use 1 in \<open>simp add: body_search.simps\<close>)
qed

definition text_size :: "int \<Rightarrow> int" where
  "text_size n = 110 + chunk_count n * 8 + n"

lemma chunk_count_up: "chunk_count n = (n + 4095) div 4096"
proof -
  define q r where "q = n div 4096" and "r = n mod 4096"
  have n: "n = 4096 * q + r" and r: "0 \<le> r" "r < 4096" by (simp_all add: q_def r_def)
  have "(n + 4095) div 4096 = (if r = 0 then q else q + 1)"
  proof (cases "r = 0")
    case True
    then have "(n + 4095) div 4096 = q" by (intro int_div_pos_eq [where r = 4095]) (simp_all add: n)
    with True show ?thesis by simp
  next
    case False
    then have "(n + 4095) div 4096 = q + 1" by (intro int_div_pos_eq [where r = "r - 1"]) (use n r in simp_all)
    with False show ?thesis by simp
  qed
  then show ?thesis by (simp add: chunk_count_def frameChunk_def q_def r_def)
qed

lemma text_size_mono: "n \<le> m \<Longrightarrow> text_size n \<le> text_size m"
  using zdiv_mono1 [of "n + 4095" "m + 4095" 4096] by (simp add: text_size_def chunk_count_up)

lemma single_size: "0 \<le> n \<Longrightarrow> singleTextFrameSize n = (if text_size n \<le> max_int64 then Some (text_size n) else None)"
  using single_text_size [of "replicate (nat n) CHR ''a''"]
  by (simp add: length_frame_of collector_block_eq text_block_size text_size_def)

lemma body_budget:
  assumes "0 < maxCollectorBody L a b" "0 \<le> a" "0 \<le> b"
  defines "n \<equiv> maxCollectorBody L a b + a + b"
  shows "n \<le> ol_MaxTextBytes L" "text_size n \<le> ol_MaxFramedBytes L" "text_size n \<le> max_int64"
proof -
  define hi where "hi = ol_MaxTextBytes L - a - b"
  define ok where "ok = (\<lambda>mid. case singleTextFrameSize (mid + a + b) of None \<Rightarrow> False | Some framed \<Rightarrow> framed \<le> ol_MaxFramedBytes L)"
  have "0 \<le> hi" "maxCollectorBody L a b = body_search ok 0 hi"
    using assms(1) by (auto simp: maxCollectorBody_def Let_def hi_def ok_def split: if_splits)
  then have s: "maxCollectorBody L a b \<le> hi" "ok (maxCollectorBody L a b)" using body_search_spec [of 0 hi ok] assms(1) by auto
  then show "n \<le> ol_MaxTextBytes L" by (simp add: n_def hi_def)
  show "text_size n \<le> ol_MaxFramedBytes L" "text_size n \<le> max_int64"
    using s(2) assms(1-3) by (auto simp: ok_def n_def single_size split: if_splits)
qed

lemma under_limit:
  assumes "int (length s) \<le> n" "n \<le> ol_MaxTextBytes L" "text_size n \<le> ol_MaxFramedBytes L" "text_size n \<le> max_int64"
  shows "\<not> overLimit s L"
proof -
  have "text_size (int (length s)) \<le> text_size n" by (rule text_size_mono) (rule assms(1))
  then show ?thesis using assms by (simp add: overLimit_def single_size)
qed

section \<open>The output fits\<close>

lemma reference_length:
  assumes "\<And>x. length (sha x) = 32" "0 \<le> B"
  shows "int (length (reference_text sha B raw canonical kept)) \<le> B + 208 + int (length (renderMetadataTrailer canonical))"
proof -
  let ?t = "escape_text raw"
  have "int (length (head_view ?t (B div 2))) \<le> B div 2" "int (length (tail_view ?t (B - B div 2))) \<le> B - B div 2"
    using assms(2) by (simp_all add: head_view_le tail_view_le)
  then show ?thesis using assms by (simp add: reference_text_def Let_def whole_text_def digest_of_def marker_length)
qed

lemma metadata_end_valid: "utf8_valid (metadataEnd n)"
proof -
  have "list_all (\<lambda>c. byte c < 0x80) (hex8 n)" by (simp add: hex8_def list_all_iff hex_digit_ascii)
  then show ?thesis unfolding metadataEnd_def by (intro ascii_valid) simp
qed

lemma trailer_valid: "utf8_valid canonical \<Longrightarrow> utf8_valid (renderMetadataTrailer canonical)"
  using metadata_end_valid by (simp add: renderMetadataTrailer_def metadataBegin_def utf8_valid_append)

lemma escape_text_valid: "utf8_valid (escape_text raw)"
  unfolding escape_text_def by (rule evp_logical_valid)

lemma reference_valid: "utf8_valid canonical \<Longrightarrow> utf8_valid (reference_text sha B raw canonical kept)"
  using trailer_valid formatMarker_valid escape_text_valid
  by (simp add: reference_text_def Let_def whole_text_def digest_of_def utf8_valid_append head_view_valid tail_view_valid)

lemma metadata_valid:
  assumes "parseCollectorMetadata md = Inr canonical"
  shows "utf8_valid canonical"
  using assms canonical_valid by (auto simp: parseCollectorMetadata_def Let_def split: sum.splits if_splits)

lemma collector_fits:
  assumes "NewTextCollector sha L mode = Inr c" "0 < tx_bodyBudget c" "\<And>x. length (sha x) = 32"
    "parseCollectorMetadata md = Inr canonical"
  shows "\<not> overLimit (reference_text sha (tx_bodyBudget c) raw canonical kept) L"
proof -
  define B where "B = tx_bodyBudget c"
  have m: "int (length (formatMarker 0 0 (hex_encode (sha [])))) = 208" using assms(3) by (simp add: marker_length)
  have B: "B = maxCollectorBody L (int trailer_reserve) 208" unfolding B_def new_collector(7) [OF assms(1)] m by simp
  have "int (length (reference_text sha B raw canonical kept)) \<le> B + int trailer_reserve + 208"
    using reference_length [of sha B raw canonical kept] assms(2,3) parsed_metadata(1) [OF assms(4)] by (simp add: B_def)
  then show ?thesis
    unfolding B_def [symmetric]
    by (rule under_limit) (use body_budget [of L "int trailer_reserve" 208] assms(2) B in \<open>simp_all add: B_def\<close>)
qed

section \<open>Finalisation\<close>

lemma receipt_finalizes:
  assumes out: "out_Content out = [Text t]" "out_receipt out = Some r" "out_seal out = None"
    and L: "output_within L" and t: "utf8_valid t" "frame_size [text_block t] \<le> ol_MaxFramedBytes L"
    and r: "verifyReceipt sha out r [text_block t] L = Inr ()"
  shows "finalize G sha exec out L False = Inr (seal_output exec out L [Text t] (rc_originalBytes r) (rc_originalSHA r) (rc_truncated r)
    (frame_size [text_block t]) (digest_of sha [text_block t]))"
proof -
  let ?b = "text_block t"
  note s = output_within_sane [OF L, unfolded sane_limits_def]
  have g: "good_block L ?b" using t(1) by (simp add: good_block_def plain_block_def)
  have fs: "frame_size [?b] \<le> inspectionCeiling" using t(2) s by simp
  have i: "inspectContent [Text t] L = Inr [?b]"
    unfolding inspectContent_iff [OF conjunct1 [OF s]]
    using L g fs s by (simp add: content_of_def image_total_def image_bytes_def output_within_def)
  have d: "digestBlocks sha [?b] = Inr (frame_size [?b], digest_of sha [?b])"
    by (rule digestBlocks_small) (rule ceiling_int64 [OF fs])
  have m: "materialize [?b] = Inr [Text t]" using materialize_all [of "[?b]" L] g by (simp add: content_of_def)
  have v: "check_each (Content_Validate G) (\<lambda>i e. execution ''final content'') 0 [Text t] = Inr ()"
    using good_content_valid [OF g, of G] by (simp add: check_each_iff content_of_def)
  show ?thesis using out i r d m v t(2) by (simp add: finalize_def choose_kept_def)
qed

text \<open>C15 (safety). Whatever is written to a head-and-tail collector whose body budget is not empty, its output is not the budget
  error: it fits the limits, and finalising it keeps its content and reports size and digest of all of the text.\<close>

theorem collected_output_finalizes:
  assumes "NewTextCollector sha L HeadTail = Inr c" "output_within L" "0 < tx_bodyBudget c" "\<And>x. length (sha x) = 32"
    and "write_all ps c = Some c'" "parseCollectorMetadata md = Inr canonical" "64 * int (length (concat ps)) + 2 ^ 20 \<le> max_int64"
  shows "\<exists>text out res. fst (collector_Output sha md isError c') = Inr out \<and> out_Content out = [Text text]
    \<and> finalize G sha exec out L False = Inr res \<and> out_Content res = [Text text] \<and> out_IsError res = isError
    \<and> int (length text) \<le> ol_MaxTextBytes L
    \<and> os_OriginalBytes (out_Stats res) = frame_size [text_block (whole_text (concat ps) canonical)]
    \<and> os_SHA256 (out_Stats res) = digest_of sha [text_block (whole_text (concat ps) canonical)]
    \<and> (\<not> os_Truncated (out_Stats res) \<longrightarrow> text = whole_text (concat ps) canonical)"
proof -
  define B where "B = tx_bodyBudget c"
  let ?w = "whole_text (concat ps) canonical"
  define kept where "kept = frame_size [text_block (reference_text sha B (concat ps) canonical 0)]"
  define t where "t = reference_text sha B (concat ps) canonical kept"
  note fits = collector_fits [OF assms(1,3,4,6), where raw = "concat ps", folded B_def]
  define out where "out = collect_reference sha L B (concat ps) canonical isError"
  have o: "out_Content out = [Text t]" "out_seal out = None" "out_IsError out = isError" and
    r: "out_receipt out = Some \<lparr>rc_limits = L, rc_originalBytes = frame_size [text_block ?w],
             rc_originalSHA = digest_of sha [text_block ?w], rc_keptBytes = kept,
             rc_truncated = (B < int (length (escape_text (concat ps)))), rc_isError = isError,
             rc_retained = digest_of sha [text_block t], rc_sources = [], rc_metadata = canonical\<rparr>" (is "_ = Some ?r")
    using fits [of 0] by (simp_all add: out_def collect_reference_def t_def kept_def Let_def)
  have k: "frame_size [text_block t] = kept" unfolding t_def kept_def by (rule text_frame_cong [OF reference_text_length])
  have fit: "int (length t) \<le> ol_MaxTextBytes L" "kept \<le> ol_MaxFramedBytes L"
    using fits [of kept] k unfolding overLimit_def t_def [symmetric]
    by (auto simp: single_size text_size_def text_block_size split: if_splits option.splits)
  have v: "utf8_valid t" unfolding t_def by (rule reference_valid) (rule metadata_valid [OF assms(6)])
  have km: "kept \<le> max_int64" using fit(2) output_within_sane [OF assms(2)] by (simp add: sane_limits_def ceiling_int64)
  have pos: "\<not> frame_size [text_block s] < 0" for s by (simp add: text_block_size chunk_count_nonneg not_less)
  have same: "\<not> B < int (length (escape_text (concat ps))) \<Longrightarrow> t = ?w"
    by (simp add: t_def reference_text_def Let_def)
  have "verifyReceipt sha out ?r [text_block t] L = Inr ()"
    using o(3) k km pos [of ?w] pos [of t] same assms(4)
    by (cases "B < int (length (escape_text (concat ps)))") (simp_all add: verifyReceipt_def digestBlocks_small digest_of_def length_hex_encode)
  from receipt_finalizes [OF o(1) r o(2) assms(2) v _ this, of G exec] k fit(2)
  have f: "finalize G sha exec out L False = Inr (seal_output exec out L [Text t] (frame_size [text_block ?w])
    (digest_of sha [text_block ?w]) (B < int (length (escape_text (concat ps)))) kept (digest_of sha [text_block t]))" by simp
  have "fst (collector_Output sha md isError c') = Inr out"
    unfolding out_def B_def by (rule collector_output_reference [OF assms(1,5,6,7)])
  then show ?thesis using f o fit(1) same k by (auto simp: seal_output_def Let_def)
qed

end
