(* ===== verification/Collector_Prefix.thy ===== *)
theory Collector_Prefix
  imports Collector_Fits
begin

text \<open>
  A \<^verbatim>\<open>Prefix\<close> collector: it keeps all of the text until its budget is spent, but after a cut inside a character it still takes
  the text that follows, so what it keeps need not be a prefix.
\<close>

section \<open>Before the first cut\<close>

text \<open>Nothing is left out yet, and no byte is pending.\<close>

definition filling :: "collector \<Rightarrow> string \<Rightarrow> bool" where
  "filling c t \<longleftrightarrow> text_inv c t \<and> tx_mode c = Prefix \<and> tx_window c = t \<and> \<not> tx_omitted c \<and> tx_pending c = []"

lemma append_room:
  "l \<noteq> [] \<Longrightarrow> int (length (tx_window c @ l)) \<le> tx_bodyBudget c \<Longrightarrow> append_prefix l c = c\<lparr>tx_window := tx_window c @ l\<rparr>"
  by (cases l) (auto simp: append_prefix_def Let_def)

lemma accept_prefix:
  "acceptLogical l c = (None, c') \<Longrightarrow> l \<noteq> [] \<Longrightarrow> tx_mode c = Prefix \<Longrightarrow>
    \<exists>h n. c' = append_prefix l (c\<lparr>tx_hasher := h, tx_total := n\<rparr>)"
  by (auto simp: acceptLogical_def Let_def split: option.splits)

lemma accept_filling:
  assumes "filling c t" "utf8_valid l" "int (length (t @ l)) \<le> tx_bodyBudget c" "int (length (t @ l)) \<le> max_int64"
  shows "\<exists>c'. acceptLogical l c = (None, c') \<and> filling c' (t @ l) \<and> same_setup c c'"
proof (cases "l = []")
  case True
  then show ?thesis using assms(1) by (simp add: acceptLogical_def)
next
  case False
  have "text_inv c t" using assms(1) by (simp add: filling_def)
  from accept_text [OF this assms(2)] assms(4) obtain c' where c': "acceptLogical l c = (None, c')" "text_inv c' (t @ l)"
    "same_setup c c'" "tx_pending c' = tx_pending c" by auto
  have "tx_window c' = t @ l \<and> \<not> tx_omitted c'"
    using accept_prefix [OF c'(1) False] append_room [OF False] assms(1,3) by (auto simp: filling_def)
  with c' assms(1) show ?thesis by (simp add: filling_def same_setup_def)
qed

lemma ascii_part: "list_all (\<lambda>c. byte c < 0x80) p \<Longrightarrow> utf8_valid (take n p)"
  by (rule ascii_valid) (auto simp: list_all_iff dest: in_set_takeD)

lemma write_filling:
  assumes "filling c t" "list_all (\<lambda>c. byte c < 0x80) p" "int (length (t @ p)) \<le> tx_bodyBudget c" "int (length (t @ p)) \<le> max_int64"
  shows "\<exists>c'. consumeRaw p False c = (None, c') \<and> filling c' (t @ p) \<and> same_setup c c'"
  using assms
proof (induction p "False" c arbitrary: t rule: consumeRaw.induct)
  case (1 p c)
  show ?case
  proof (cases "p = []")
    case True
    then show ?thesis using "1.prems" by (simp add: consumeRaw.simps)
  next
    case False
    define n where "n = min (length p) collectorChunk"
    let ?k = "take n p"
    have pk: "?k @ drop n p = p" by simp
    have v: "utf8_valid ?k" by (rule ascii_part [OF "1.prems"(2)])
    have p: "tx_pending c = [] \<and> utf8_valid ?k" using "1.prems"(1) v by (simp add: filling_def)
    obtain c1 where c1: "acceptLogical ?k c = (None, c1)" "filling c1 (t @ ?k)" "same_setup c c1"
      using accept_filling [OF "1.prems"(1) v] "1.prems"(3,4) by (fastforce simp: min_def split: if_splits)
    have "list_all (\<lambda>c. byte c < 0x80) (drop n p)" using "1.prems"(2) by (auto simp: list_all_iff dest: in_set_dropD)
    then obtain c' where "consumeRaw (drop n p) False c1 = (None, c')" "filling c' (t @ p)" "same_setup c1 c'"
      using "1.hyps"(1) [OF False n_def refl p c1(1) [symmetric] refl c1(2)] "1.prems"(3,4) c1(3) by (auto simp: same_setup_def)
    then show ?thesis using False p c1 same_setup_trans
      by (subst consumeRaw.simps) (auto simp: Let_def simp flip: n_def)
  qed
qed

section \<open>After it\<close>

lemma consume_small:
  assumes "p \<noteq> []" "length p \<le> collectorChunk" "tx_pending c = []" "utf8_valid p" "acceptLogical p c = (None, c')"
  shows "consumeRaw p False c = (None, c')"
  using assms by (simp add: consumeRaw.simps [of p] consumeRaw.simps [of "[]"] Let_def)

definition e_acute :: string where "e_acute = [CHR 0xC3, CHR 0xA9]"

lemma e_acute_facts: "utf8_valid e_acute" "length e_acute = 2" "cut_before e_acute 1 = 0"
  by code_simp+

text \<open>C40 (functional). A \<^verbatim>\<open>Prefix\<close> collector that is given a byte less than its budget, a character of two bytes and one more letter
  leaves the character out and keeps the letter: the text it keeps is not a prefix of the stream, and
  \<^verbatim>\<open>PreparePrefix\<close> counts as kept a byte that is not.\<close>

theorem prefix_collector_skips:
  assumes "NewTextCollector sha L Prefix = Inr c" "tx_bodyBudget c = int n + 1" "int n + 3 \<le> max_int64"
  defines "w \<equiv> replicate n CHR ''a''"
  shows "\<exists>c'. write_all [w, e_acute, ''b''] c = Some c' \<and> tx_window c' = w @ ''b''
    \<and> take (length (tx_window c')) (concat [w, e_acute, ''b'']) \<noteq> tx_window c'
    \<and> fst (PreparePrefix c') = Inr \<lparr>ps_KeptLogicalBytes = int n + 1, ps_Truncated = True\<rparr>"
proof -
  note new = new_collector [OF assms(1)]
  have k: "0 < collectorChunk" "2 \<le> collectorChunk" by (simp_all add: collectorChunk_def)
  have f: "filling c []"
    using new(1,2) assms(1) by (auto simp: filling_def raw_inv_def NewTextCollector_def split: if_splits)
  have wa: "list_all (\<lambda>c. byte c < 0x80) w" "length w = n" by (simp_all add: w_def list_all_iff)
  obtain c1 where c1: "consumeRaw w False c = (None, c1)" "filling c1 w" "same_setup c c1"
    using write_filling [OF f wa(1)] assms(2,3) wa(2) by auto
  have t1: "text_inv c1 w" and p1: "tx_pending c1 = []" "tx_window c1 = w" "\<not> tx_omitted c1" "tx_mode c1 = Prefix"
    using c1(2) by (simp_all add: filling_def)
  have b1: "tx_bodyBudget c1 = int n + 1" using c1(3) assms(2) by (simp add: same_setup_def)
  obtain c2 where c2: "acceptLogical e_acute c1 = (None, c2)" "text_inv c2 (w @ e_acute)" "same_setup c1 c2" "tx_pending c2 = []"
    using accept_text [OF t1 e_acute_facts(1)] assms(3) wa(2) e_acute_facts(2) p1(1) by auto
  have w2: "tx_window c2 = w" "tx_omitted c2"
    using accept_prefix [OF c2(1)] p1 b1 wa(2) e_acute_facts(2,3) by (auto simp: append_prefix_def Let_def e_acute_def)
  have m2: "tx_mode c2 = Prefix" "tx_bodyBudget c2 = int n + 1" using c2(3) p1(4) b1 by (simp_all add: same_setup_def)
  obtain c3 where c3: "acceptLogical ''b'' c2 = (None, c3)" "text_inv c3 ((w @ e_acute) @ ''b'')" "same_setup c2 c3" "tx_pending c3 = []"
    using accept_text [OF c2(2), of "''b''"] assms(3) wa(2) e_acute_facts(2) c2(4) by (auto simp: ascii_valid)
  have w3: "tx_window c3 = w @ ''b''" "tx_omitted c3"
    using accept_prefix [OF c3(1)] w2 m2 wa(2) by (auto simp: append_room)
  have r2: "consumeRaw e_acute False c1 = (None, c2)"
    by (rule consume_small) (use c2(1) p1(1) e_acute_facts(1,2) k in auto)
  have r3: "consumeRaw ''b'' False c2 = (None, c3)"
    by (rule consume_small) (use c3(1) c2(4) k in \<open>simp_all add: ascii_valid\<close>)
  have s: "tx_state x = CollectorWriting \<and> \<not> tx_recordMode x" if "x \<in> {c, c1, c2, c3}" for x
    using that new c1(3) c2(3) c3(3) by (auto simp: same_setup_def)
  have "write_all [w, e_acute, ''b''] c = Some c3"
    using s c1(1) r2 r3 by (simp add: collector_Write_def)
  moreover have "fst (PreparePrefix c3) = Inr \<lparr>ps_KeptLogicalBytes = int n + 1, ps_Truncated = True\<rparr>"
    using s [of c3] c3(3,4) m2 w3 wa(2) by (simp add: PreparePrefix_def consumeRaw.simps same_setup_def)
  ultimately show ?thesis using w3 wa(2) by (auto simp: e_acute_def)
qed

end
