(* ===== verification/Collector_Demo.thy ===== *)
theory Collector_Demo
  imports Collector_Prefix
begin

text \<open>
  Concrete collectors for the theorems of the collector theories.
\<close>

definition demo_limits :: output_limits where
  "demo_limits = (cfg_Output default_config)\<lparr>ol_MaxTextBytes := 4386\<rparr>"

definition demo_collector :: "nat \<Rightarrow> collector" where
  "demo_collector mode = projr (NewTextCollector example_sha demo_limits mode)"

lemma demo_within: "output_within demo_limits"
  using normalizeConfig_within [OF default_config_ok] by (simp add: demo_limits_def output_within_def tool_defaults)

lemma collector_demo_new: "mode = HeadTail \<or> mode = Prefix \<Longrightarrow> NewTextCollector example_sha demo_limits mode = Inr (demo_collector mode)"
  using demo_within by (auto simp: demo_collector_def NewTextCollector_def output_within_def)

lemma body_search_all: "lo \<le> hi \<Longrightarrow> (\<And>x. lo < x \<Longrightarrow> x \<le> hi \<Longrightarrow> ok x) \<Longrightarrow> body_search ok lo hi = hi"
proof (induction ok lo hi rule: body_search.induct)
  case (1 ok lo hi)
  show ?case
  proof (cases "lo < hi")
    case True
    define mid where "mid = lo + (hi - lo + 1) div 2"
    have m: "lo < mid" "mid \<le> hi" using True by (simp_all add: mid_def)
    have "body_search ok lo hi = body_search ok mid hi"
      using m "1.prems"(2) by (subst body_search.simps) (simp add: True mid_def [symmetric] Let_def)
    then show ?thesis using "1.IH"(1) [OF True mid_def] m "1.prems"(2) by simp
  qed (use 1 in \<open>simp add: body_search.simps\<close>)
qed

lemma collector_demo_body: "maxCollectorBody demo_limits 4170 208 = 8"
proof -
  have L: "ol_MaxTextBytes demo_limits = 4386" "ol_MaxFramedBytes demo_limits = ol_MaxFramedBytes (cfg_Output default_config)"
    by (simp_all add: demo_limits_def)
  have "text_size 4386 = 4512" by (simp add: text_size_def chunk_count_def frameChunk_def)
  moreover have "4512 \<le> ol_MaxFramedBytes (cfg_Output default_config)" by code_simp
  ultimately have s: "text_size (x + 4378) \<le> ol_MaxFramedBytes (cfg_Output default_config) \<and> text_size (x + 4378) \<le> 4512" if "x \<le> 8" for x
    using text_size_mono [of "x + 4378" 4386] that by simp
  have "singleTextFrameSize (x + 4378) = Some (text_size (x + 4378))" if "0 < x" "x \<le> 8" for x
    using s [OF that(2)] that by (simp add: single_size max_int64_def)
  then have "body_search (\<lambda>mid. case singleTextFrameSize (mid + 4170 + 208) of None \<Rightarrow> False
      | Some framed \<Rightarrow> framed \<le> ol_MaxFramedBytes (cfg_Output default_config)) 0 8 = 8"
    using s by (intro body_search_all) (simp_all add: add.assoc)
  then show ?thesis unfolding maxCollectorBody_def L Let_def by simp
qed

lemma collector_demo_budget: "mode = HeadTail \<or> mode = Prefix \<Longrightarrow> tx_bodyBudget (demo_collector mode) = 8"
  using collector_demo_body by (simp add: new_collector(7) [OF collector_demo_new] trailer_reserve_value marker_length example_sha_length)

lemma demo_metadata: "parseCollectorMetadata [] = Inr ''{}''"
  by code_simp

lemma collector_demo_written: "\<exists>c'. write_all [''ab'', ''c''] (demo_collector HeadTail) = Some c'"
proof -
  note n = new_collector [OF collector_demo_new [of HeadTail, simplified]]
  show ?thesis using write_all_raw [OF n(1,5,4), of "[''ab'', ''c'']"] by (auto simp: max_int64_def)
qed


theorem collected_output_finalizes_witness:
  "\<exists>c' text out res. write_all [''ab'', ''c''] (demo_collector HeadTail) = Some c' \<and> fst (collector_Output example_sha [] False c') = Inr out
    \<and> finalize example_std example_sha 1 out demo_limits False = Inr res \<and> out_Content res = [Text text]"
proof -
  obtain c' where c': "write_all [''ab'', ''c''] (demo_collector HeadTail) = Some c'" using collector_demo_written by blast
  show ?thesis
    using collected_output_finalizes [OF collector_demo_new demo_within _ example_sha_length c' demo_metadata, where G = example_std and exec = 1 and isError = False] c'
    by (auto simp: collector_demo_budget max_int64_def)
qed

theorem prefix_collector_skips_witness:
  "\<exists>c'. write_all [replicate 7 CHR ''a'', e_acute, ''b''] (demo_collector Prefix) = Some c'
    \<and> tx_window c' = replicate 7 CHR ''a'' @ ''b''"
  using prefix_collector_skips [OF collector_demo_new [of Prefix], where n = 7] by (auto simp: collector_demo_budget max_int64_def)

end
