(* ===== verification/Spec2Isabelle.thy ===== *)
theory Spec2Isabelle
  imports Stream_Props Schema_Keys Output_Props Batch_Demo Collector_Demo
begin

text \<open>
  Verification of serpe, an agent runtime in Go: a model is called, the tools it asks for run, their results go back to the
  model, and so on. The development models the parts that decide what is accepted, in which order things happen and what is
  kept: all of them under \<^verbatim>\<open>src/core/models\<close>, \<^verbatim>\<open>src/core/tools\<close>, \<^verbatim>\<open>src/internal/jsonvalue\<close> and
  \<^verbatim>\<open>src/internal/imagecheck\<close>.

  \<^bold>\<open>How the parts interact.\<close> A provider's source yields events; the stream (\<open>Stream\<close>) passes each through the
  limiter (\<open>Stream_Limits\<close>) and the reducer (\<open>Reducer\<close>), which rebuilds the response that the source meant. The calls in a
  response go to the executor: \<open>Tool_Limits\<close> checks the envelope and divides the output budget, \<open>Registry\<close> finds the tool,
  \<open>Schema\<close> (with \<open>Pattern\<close> for its regular expressions) validates the arguments that \<open>Json_Value\<close> parsed, a planner
  names resource claims (\<open>Claims\<close>), and \<open>Batch_Plan\<close> is the preflight that puts these together. \<open>Batch\<close> runs the
  prepared calls as threads over the coordinator (\<open>Coordinator\<close>), which admits them in submission order. Tools write text
  through a \<open>Collector\<close>; every output is finalised by \<open>Output\<close>, which checks images (\<open>Image_Check\<close>), truncates text and
  seals the result. Content blocks, messages and requests are in \<open>Content\<close> and \<open>Request\<close>.

  \<^bold>\<open>Which theory models what.\<close>
  \<^item> \<open>Prelude\<close>, \<open>Utf8\<close>, \<open>Base64\<close>: results and error propagation, Go maps as association lists with distinct keys,
    64-bit bounds, and what the sources use of \<^verbatim>\<open>unicode/utf8\<close> and \<^verbatim>\<open>encoding/base64\<close>.
  \<^item> \<open>Json_Value\<close>: \<^verbatim>\<open>jsonvalue/parse.go\<close>, \<^verbatim>\<open>canon.go\<close>, \<^verbatim>\<open>as.go\<close>, \<^verbatim>\<open>jsonvalue.go\<close>. The parser state is the rest
    of the input with depth and node counts. \<open>Json_Lex\<close>, \<open>Json_Props\<close>, \<open>Json_Limits\<close>, \<open>Json_Text\<close>: scanning of printed
    text, round trip, limits, UTF-8 of canonical text.
  \<^item> \<open>Content\<close>, \<open>Request\<close>: \<^verbatim>\<open>models/content.go\<close>, \<^verbatim>\<open>content_codec.go\<close>, \<^verbatim>\<open>message.go\<close>, \<^verbatim>\<open>tool.go\<close>,
    \<^verbatim>\<open>request.go\<close>, \<^verbatim>\<open>validate.go\<close>, \<^verbatim>\<open>capability.go\<close>; their \<open>_Props\<close>: validity, canonical bytes against equality,
    records that decode back.
  \<^item> \<open>Events\<close>, \<open>Reducer\<close>: \<^verbatim>\<open>response.go\<close>, \<^verbatim>\<open>event.go\<close>, \<^verbatim>\<open>event_shape.go\<close>, \<^verbatim>\<open>reducer.go\<close>. Open parts are objects in
    a heap, because the reducer shares them between its map and its order list. \<open>Reducer_Inv\<close>, \<open>Reducer_Props\<close>: the state
    machine of a response and that reduction gives the response of the event list's specification.
  \<^item> \<open>Stream_Limits\<close>, \<open>Stream\<close>: \<^verbatim>\<open>stream_limits.go\<close>, \<^verbatim>\<open>stream.go\<close>, \<^verbatim>\<open>response_limits.go\<close>; \<^verbatim>\<open>Next\<close> is two critical sections
    that \<^verbatim>\<open>Close\<close> and \<^verbatim>\<open>Response\<close> interleave with. The \<open>_Props\<close>: exact frame sizes, limits of accepted turns, what a
    stream delivers and that it stops for good.
  \<^item> \<open>Tool_Limits\<close>: \<^verbatim>\<open>tools/limits.go\<close>, \<^verbatim>\<open>envelope.go\<close> and the checked arithmetic. \<open>Registry\<close>: \<^verbatim>\<open>registry.go\<close>.
    \<open>Pattern\<close>: \<^verbatim>\<open>pattern.go\<close>. \<open>Schema\<close>, \<open>Schema_Compile\<close>, \<open>Schema_Eval\<close>: \<^verbatim>\<open>schema.go\<close>; \<open>Schema_Semantics\<close> is the
    keyword by keyword meaning that the compiled evaluator is proved to decide (\<open>Schema_Sound\<close>, \<open>Schema_Verdict\<close>,
    \<open>Schema_Props\<close>, \<open>Schema_Keys\<close>).
  \<^item> \<open>Claims\<close>, \<open>Coordinator\<close>: \<^verbatim>\<open>resource.go\<close>, \<^verbatim>\<open>coordinator.go\<close>. Each critical section is one step of
    \<open>coord_step\<close>; \<open>Coordinator_Props\<close> has the invariants, \<open>Coordinator_Safety\<close> what callers get.
  \<^item> \<open>Batch_Plan\<close>, \<open>Batch\<close>: \<^verbatim>\<open>batch.go\<close>. Dispatcher, workers, reader and closer are threads with lists of actions;
    \<open>exec\<close> is one action, \<open>batch_step\<close> any interleaving. \<open>Batch_Inv\<close>, \<open>Batch_Run\<close>: the invariant; \<open>Batch_Props\<close>,
    \<open>Batch_Start\<close>: the promises; \<open>Batch_Demo\<close>: a concrete run.
  \<^item> \<open>Image_Check\<close>: \<^verbatim>\<open>imagecheck/image.go\<close>. Slices and indexes out of range are the error \<open>Panic\<close>, a loop that does
    not advance is \<open>Stuck\<close>; \<open>Image_Check_Props\<close> shows that neither occurs.
  \<^item> \<open>Output\<close>: \<^verbatim>\<open>output.go\<close>, \<^verbatim>\<open>truncate.go\<close>, \<^verbatim>\<open>framing.go\<close>. \<open>Output_Frame\<close>, \<open>Output_Truncate\<close>, \<open>Output_Inspect\<close>,
    \<open>Output_Final\<close>, \<open>Output_Props\<close>: frame sizes and injectivity, the search for the longest text that fits, inspection as
    an equivalence, finalisation.
  \<^item> \<open>Collector\<close>, \<open>Collector_Group\<close>: \<^verbatim>\<open>collector.go\<close>. \<open>Collector_Text\<close>, \<open>Collector_Window\<close>, \<open>Collector_Run\<close>: the state
    as a function of all bytes written; \<open>Collector_Props\<close>, \<open>Collector_Fits\<close>, \<open>Collector_Prefix\<close>: equality with a one-shot
    reference, limits and finalisation, the gap of \<^verbatim>\<open>Prefix\<close> collectors.
  \<^item> \<open>Interfaces\<close>: the locales shared by several components (bounded settings, reachability and invariants of step
    relations, sizes), interpreted by the components on their own definitions.

  \<^bold>\<open>Conventions.\<close> A Go string is a list of bytes. Errors are values of a sum type; the constructors name the checks.
  \<^verbatim>\<open>int\<close> and \<^verbatim>\<open>int64\<close> are \<open>int\<close> with the bounds where the code tests them and wrap-around where it can overflow;
  capability sets and checksums are words. Operations under a mutex are atomic steps, and everything between two critical
  sections can interleave.

  \<^bold>\<open>Fuel and bounds.\<close> The JSON parser has fuel for twice the input and one more, and \<open>parse_total\<close> shows that it is never
  used up; \<open>pattern_fuel\<close> and \<open>unary_fuel\<close> are bounds of the same kind, with the same theorems. Budgets of the code itself
  (evaluation steps of schemas, records of images, the inspection ceiling of outputs) are modelled as they are. Every
  schedule of a batch of \<open>n\<close> calls has at most \<open>17 n + 4\<close> actions. All other recursion is structural or has a measure.

  \<^bold>\<open>Parameters.\<close> SHA-256 is a function (\<open>sha\<close>) of which some theorems need that its values have 32 bytes; \<^verbatim>\<open>regexp\<close> is
  \<open>regexps\<close>; \<^verbatim>\<open>net/url\<close> and \<^verbatim>\<open>json.Valid\<close> are \<open>go_std\<close>. Sources, tools and contexts are callbacks: what they answer is an
  argument of the step that asks.

  \<^bold>\<open>Findings.\<close> A call that extends its claims keeps its permit and can block an earlier call that waits for one
  (\<open>extension_can_deadlock\<close>); the checked multiplication accepts some products of mixed sign that overflow; a \<^verbatim>\<open>Prefix\<close>
  collector can keep text from behind a gap (\<open>prefix_collector_skips\<close>); the tail of a collector group can have a gap.

  \<^bold>\<open>Not modelled.\<close> Operating system, network and vendor SDK calls: built-in tools, provider transport and drivers, the HTTP
  interface, commands and the platform layer. Translation to and from provider wire formats and the session store are not
  modelled yet. Deep copies (\<^verbatim>\<open>Clone\<close>) are values; the memory layout of slices, the garbage collector and data races on unguarded
  fields are outside of the model except where a theory says so.
\<close>

end
